(* ===== verification/Prelude.thy ===== *)
theory Prelude
  imports Main "HOL-Library.Word" "HOL-Library.Monad_Syntax"
begin

unbundle bit_operations_syntax

text \<open>
  The shared vocabulary of the development: the fixed-width integers of the C++ sources,
  checked accesses to byte spans and the list lemmas the components share.

  A C++ function that could read outside a span or overflow a signed integer is modelled in
  the \<open>option\<close> monad: \<open>None\<close> is undefined behaviour, \<open>Some r\<close> a defined result.
  The results the code itself reports (\<open>bool\<close>, \<open>std::optional\<close>, error texts) are part
  of \<open>r\<close>, so that "the function fails" and "the function is undefined" stay apart.
\<close>

type_synonym u8 = "8 word"
type_synonym u16 = "16 word"
type_synonym u32 = "32 word"
type_synonym u64 = "64 word"
type_synonym bytes = "u8 list"

named_theorems access_simps \<open>checked span accesses whose guard is known\<close>
named_theorems codec_defs \<open>the definitions of the wire codecs\<close>

section \<open>Checked spans\<close>

definition rd :: "'a list \<Rightarrow> nat \<Rightarrow> 'a option" where
  "rd xs i = (if i < length xs then Some (xs ! i) else None)"

definition wr :: "'a list \<Rightarrow> nat \<Rightarrow> 'a \<Rightarrow> 'a list option" where
  "wr xs i x = (if i < length xs then Some (xs[i := x]) else None)"

text \<open>\<open>std::copy\<close> of \<open>ys\<close> to the position \<open>off\<close> of the span \<open>xs\<close>, and the range
  constructor \<open>assign(begin + from, begin + to)\<close>.\<close>

definition copy_to :: "'a list \<Rightarrow> nat \<Rightarrow> 'a list \<Rightarrow> 'a list option" where
  "copy_to xs off ys = (if off + length ys \<le> length xs
     then Some (take off xs @ ys @ drop (off + length ys) xs) else None)"

definition range_of :: "'a list \<Rightarrow> nat \<Rightarrow> nat \<Rightarrow> 'a list option" where
  "range_of xs from to = (if from \<le> to \<and> to \<le> length xs
     then Some (take (to - from) (drop from xs)) else None)"

lemma rd_in [access_simps]: "i < length xs \<Longrightarrow> rd xs i = Some (xs ! i)"
  by (simp add: rd_def)

lemma rd_out: "length xs \<le> i \<Longrightarrow> rd xs i = None"
  by (simp add: rd_def)

lemma rd_Cons_0 [simp]: "rd (x # xs) 0 = Some x"
  by (simp add: rd_def)

lemma rd_Cons_Suc [simp]: "rd (x # xs) (Suc i) = rd xs i"
  by (simp add: rd_def)

lemma rd_Cons_numeral [simp]: "rd (x # xs) (numeral k) = rd xs (pred_numeral k)"
  by (simp add: numeral_eq_Suc)

lemma rd_append: "rd (xs @ ys) i = (if i < length xs then rd xs i else rd ys (i - length xs))"
  by (auto simp: rd_def nth_append)

lemma wr_in [access_simps]: "i < length xs \<Longrightarrow> wr xs i x = Some (xs[i := x])"
  by (simp add: wr_def)

lemma copy_to_in [access_simps]:
  "off + length ys \<le> length xs \<Longrightarrow>
   copy_to xs off ys = Some (take off xs @ ys @ drop (off + length ys) xs)"
  by (simp add: copy_to_def)

lemma range_of_in [access_simps]:
  "from \<le> to \<Longrightarrow> to \<le> length xs \<Longrightarrow> range_of xs from to = Some (take (to - from) (drop from xs))"
  by (simp add: range_of_def)

lemma range_of_length: "range_of xs from to = Some ys \<Longrightarrow> length ys = to - from"
  by (auto simp: range_of_def split: if_splits)

section \<open>Lists\<close>

lemma nth_take_drop: "i < n \<Longrightarrow> off + i < length xs \<Longrightarrow> take n (drop off xs) ! i = xs ! (off + i)"
  by simp

lemma take_length_append: "take (length xs) (xs @ ys) = xs"
  by simp

lemma map_nth_upt: "map (\<lambda>i. xs ! i) [0..<length xs] = xs"
  by (rule map_nth)

text \<open>A loop that writes consecutive values through an injective index map leaves every other
  cell alone.\<close>

lemma nth_fold_update_other:
  assumes "\<And>i. i \<in> set is \<Longrightarrow> ix i \<noteq> j"
  shows "fold (\<lambda>i xs. xs[ix i := f i]) is xs ! j = xs ! j"
  using assms by (induction "is" arbitrary: xs) (auto simp: nth_list_update_neq)

lemma length_fold_update [simp]:
  "length (fold (\<lambda>i xs. xs[ix i := f i]) is xs) = length xs"
  by (induction "is" arbitrary: xs) auto

lemma nth_fold_update:
  assumes "inj_on ix (set is)" "k \<in> set is" "distinct is" "ix k < length xs"
  shows "fold (\<lambda>i xs. xs[ix i := f i]) is xs ! ix k = f k"
  using assms
proof (induction "is" arbitrary: xs)
  case Nil
  then show ?case by simp
next
  case (Cons i "is")
  show ?case
  proof (cases "k = i")
    case True
    have "ix j \<noteq> ix k" if "j \<in> set is" for j
      using that Cons.prems True by (auto simp: inj_on_def)
    then show ?thesis
      using Cons.prems True by (simp add: nth_fold_update_other)
  next
    case False
    then show ?thesis
      using Cons.prems Cons.IH [of "xs[ix i := f i]"] by auto
  qed
qed

section \<open>Booleans and options\<close>

lemma bind_Some_iff: "Option.bind m f = Some y \<longleftrightarrow> (\<exists>x. m = Some x \<and> f x = Some y)"
  by (cases m) auto

lemma bind_None_iff: "Option.bind m f = None \<longleftrightarrow> m = None \<or> (\<exists>x. m = Some x \<and> f x = None)"
  by (cases m) auto

lemma unat_bound: "unat (w :: 'a::len word) < 2 ^ LENGTH('a)"
  by (rule unsigned_less)

section \<open>Signed 64-bit arithmetic\<close>

text \<open>\<open>std::int64_t\<close> values are integers in their range; an addition, subtraction or
  multiplication that leaves the range is undefined behaviour. Division truncates towards
  zero.\<close>

definition int64_min :: int where "int64_min = - (2 ^ 63)"
definition int64_max :: int where "int64_max = 2 ^ 63 - 1"

definition in_int64 :: "int \<Rightarrow> bool" where
  "in_int64 x \<longleftrightarrow> int64_min \<le> x \<and> x \<le> int64_max"

definition chk64 :: "int \<Rightarrow> int option" where
  "chk64 x = (if in_int64 x then Some x else None)"

definition cdiv :: "int \<Rightarrow> int \<Rightarrow> int" where
  "cdiv a b = sgn a * sgn b * (\<bar>a\<bar> div \<bar>b\<bar>)"

definition cmod :: "int \<Rightarrow> int \<Rightarrow> int" where
  "cmod a b = a - b * cdiv a b"

lemma chk64_in [access_simps]: "in_int64 x \<Longrightarrow> chk64 x = Some x"
  by (simp add: chk64_def)

lemma chk64_Some_iff: "chk64 x = Some y \<longleftrightarrow> in_int64 x \<and> y = x"
  by (auto simp: chk64_def)

lemma cdiv_nonneg: "0 \<le> a \<Longrightarrow> 0 < b \<Longrightarrow> cdiv a b = a div b"
  by (cases "a = 0") (simp_all add: cdiv_def)

lemma cmod_nonneg: "0 \<le> a \<Longrightarrow> 0 < b \<Longrightarrow> cmod a b = a mod b"
  by (simp add: cmod_def cdiv_nonneg minus_mult_div_eq_mod)

lemma cdiv_minus: "cdiv (- a) b = - cdiv a b"
  by (simp add: cdiv_def sgn_minus)

lemma cdiv_abs: "0 < b \<Longrightarrow> \<bar>cdiv a b\<bar> = \<bar>a\<bar> div b"
  by (cases "a = 0") (simp_all add: cdiv_def abs_mult pos_imp_zdiv_nonneg_iff)

lemma cdiv_abs_le: "0 < b \<Longrightarrow> \<bar>cdiv a b\<bar> \<le> \<bar>a\<bar>"
  by (simp add: cdiv_abs) (metis abs_ge_zero div_by_1 int_one_le_iff_zero_less zdiv_mono2 zero_less_one)

lemma in_int64_abs: "\<bar>x\<bar> \<le> int64_max \<Longrightarrow> in_int64 x"
  by (auto simp: in_int64_def int64_min_def int64_max_def)

end
