(* ===== verification/Constants.thy ===== *)
theory Constants
  imports Prelude
begin

text \<open>The profile constants of Sources/Core/Constants.hpp and its two \<open>constexpr\<close>
  functions. \<open>std::size_t\<close> quantities are natural numbers; none of them comes near
  \<open>2 ^ 64\<close>.\<close>

named_theorems profile_defs \<open>the constants of the AES67 profile\<close>

definition kAES67ChannelsPerStream :: nat where [profile_defs]: "kAES67ChannelsPerStream = 8"
definition kStreamBankCount :: nat where [profile_defs]: "kStreamBankCount = 8"
definition kVirtualChannels :: nat where
  [profile_defs]: "kVirtualChannels = kAES67ChannelsPerStream * kStreamBankCount"
definition kChannels :: nat where [profile_defs]: "kChannels = kAES67ChannelsPerStream"
definition kSampleRate :: u32 where [profile_defs]: "kSampleRate = 48000"
definition kFramesPerPacket :: nat where [profile_defs]: "kFramesPerPacket = 48"
definition kBytesPerL24Sample :: nat where [profile_defs]: "kBytesPerL24Sample = 3"
definition kPayloadBytes :: nat where
  [profile_defs]: "kPayloadBytes = kChannels * kFramesPerPacket * kBytesPerL24Sample"

definition payloadBytesForChannels :: "nat \<Rightarrow> nat" where
  "payloadBytesForChannels channels = channels * kFramesPerPacket * kBytesPerL24Sample"

definition supportedAES67ChannelCount :: "nat \<Rightarrow> bool" where
  "supportedAES67ChannelCount channels \<longleftrightarrow>
     channels = 1 \<or> channels = 2 \<or> channels = 4 \<or> channels = 8"

definition kPayloadType :: u8 where [profile_defs]: "kPayloadType = 96"
definition kPTPDomain :: u8 where [profile_defs]: "kPTPDomain = 0"
definition kDefaultMulticast :: string where [profile_defs]: "kDefaultMulticast = ''239.69.83.80''"
definition kDefaultRTPPort :: u16 where [profile_defs]: "kDefaultRTPPort = 5004"
definition kSAPMulticast :: string where [profile_defs]: "kSAPMulticast = ''239.255.255.255''"
definition kSAPPort :: u16 where [profile_defs]: "kSAPPort = 9875"
definition kMacSessionName :: string where [profile_defs]: "kMacSessionName = ''AES-Bridge-Outputs-1-8''"
definition kDefaultJitterPackets :: nat where [profile_defs]: "kDefaultJitterPackets = 6"

text \<open>The two \<open>static_assert\<close>s of the file.\<close>

lemma kPayloadBytes_value: "kPayloadBytes = 1152"
  by (simp add: profile_defs)

lemma kVirtualChannels_value: "kVirtualChannels = 64"
  by (simp add: profile_defs)

lemma kPayloadBytes_full_bank: "payloadBytesForChannels kChannels = kPayloadBytes"
  by (simp add: payloadBytesForChannels_def kPayloadBytes_def)

lemma supported_pos: "supportedAES67ChannelCount n \<Longrightarrow> 0 < n \<and> n \<le> kChannels"
  by (auto simp: supportedAES67ChannelCount_def profile_defs)

lemma supported_payload_le: "supportedAES67ChannelCount n \<Longrightarrow> payloadBytesForChannels n \<le> kPayloadBytes"
  by (auto simp: supportedAES67ChannelCount_def payloadBytesForChannels_def profile_defs)

end
