(* ===== verification/Channel_Layout.thy ===== *)
theory Channel_Layout
  imports Prelude
begin

text \<open>
  Sources/Core/ChannelLayout.hpp: one channel of an interleaved buffer. The template's sample
  type is a type variable. Both functions return the \<open>bool\<close> of the code and the destination
  span afterwards.
\<close>

definition interleaveChannel :: "'a list \<Rightarrow> nat \<Rightarrow> nat \<Rightarrow> 'a list \<Rightarrow> bool \<times> 'a list" where
  "interleaveChannel source channelIndex channelCount destination =
     (if channelCount = 0 \<or> channelIndex \<ge> channelCount
         \<or> length source > length destination div channelCount then (False, destination)
      else (True, fold (\<lambda>frame d. d[frame * channelCount + channelIndex := source ! frame])
                    [0..<length source] destination))"

definition deinterleaveChannel :: "'a list \<Rightarrow> nat \<Rightarrow> nat \<Rightarrow> 'a list \<Rightarrow> bool \<times> 'a list" where
  "deinterleaveChannel source channelIndex channelCount destination =
     (if channelCount = 0 \<or> channelIndex \<ge> channelCount
         \<or> length destination > length source div channelCount then (False, destination)
      else (True, fold (\<lambda>frame d. d[frame := source ! (frame * channelCount + channelIndex)])
                    [0..<length destination] destination))"

section \<open>Index arithmetic\<close>

lemma frame_index_in_range:
  assumes "ci < (cc::nat)" "n \<le> m div cc" "f < n"
  shows "f * cc + ci < m"
proof -
  have "f * cc + ci < Suc f * cc" using assms(1) by simp
  also have "\<dots> \<le> n * cc" using assms(3) by (simp only: mult_le_mono1 Suc_le_eq)
  also have "\<dots> \<le> m div cc * cc" using assms(2) by (rule mult_le_mono1)
  also have "\<dots> \<le> m" by simp
  finally show ?thesis .
qed

lemma frame_index_inj: "ci < (cc::nat) \<Longrightarrow> inj_on (\<lambda>f. f * cc + ci) A"
  by (auto simp: inj_on_def)

lemma frame_index_eq_iff:
  "ci < (cc::nat) \<Longrightarrow> cj < cc \<Longrightarrow> f * cc + ci = g * cc + cj \<longleftrightarrow> f = g \<and> ci = cj"
  (is "_ \<Longrightarrow> _ \<Longrightarrow> ?l \<longleftrightarrow> ?r")
proof
  assume c: "ci < cc" "cj < cc" and eq: ?l
  have "f = (f * cc + ci) div cc" using c by simp
  also have "\<dots> = g" using c by (simp add: eq)
  finally show ?r using eq by simp
qed simp

section \<open>What the two functions do\<close>

lemma interleave_length [simp]: "length (snd (interleaveChannel s ci cc d)) = length d"
  by (simp add: interleaveChannel_def)

lemma deinterleave_length [simp]: "length (snd (deinterleaveChannel s ci cc d)) = length d"
  by (simp add: deinterleaveChannel_def)

lemma interleave_ok_iff:
  "fst (interleaveChannel s ci cc d) \<longleftrightarrow> ci < cc \<and> length s \<le> length d div cc"
  by (auto simp: interleaveChannel_def)

lemma deinterleave_ok_iff:
  "fst (deinterleaveChannel s ci cc d) \<longleftrightarrow> ci < cc \<and> length d \<le> length s div cc"
  by (auto simp: deinterleaveChannel_def)

lemma interleave_nth_own:
  assumes "ci < cc" "length s \<le> length d div cc" "f < length s"
  shows "snd (interleaveChannel s ci cc d) ! (f * cc + ci) = s ! f"
proof -
  have "fold (\<lambda>frame d. d[frame * cc + ci := s ! frame]) [0..<length s] d ! (f * cc + ci) = s ! f"
    using assms frame_index_in_range [OF assms]
    by (intro nth_fold_update [where ix = "\<lambda>f. f * cc + ci"]) (auto simp: frame_index_inj)
  with assms show ?thesis by (simp add: interleaveChannel_def)
qed

lemma interleave_nth_other:
  assumes "ci < cc" "length s \<le> length d div cc"
    and "\<And>f. f < length s \<Longrightarrow> j \<noteq> f * cc + ci"
  shows "snd (interleaveChannel s ci cc d) ! j = d ! j"
proof -
  have "fold (\<lambda>frame d. d[frame * cc + ci := s ! frame]) [0..<length s] d ! j = d ! j"
    using assms(3) by (intro nth_fold_update_other) fastforce
  then show ?thesis by (simp add: interleaveChannel_def)
qed

lemma deinterleave_eq:
  assumes "ci < cc" "length d \<le> length s div cc"
  shows "snd (deinterleaveChannel s ci cc d) = map (\<lambda>f. s ! (f * cc + ci)) [0..<length d]"
proof -
  have "fold (\<lambda>frame d. d[frame := s ! (frame * cc + ci)]) [0..<length d] d ! f = s ! (f * cc + ci)"
    if "f < length d" for f
    using that by (intro nth_fold_update [where ix = "\<lambda>f. f"]) auto
  with assms show ?thesis
    by (intro nth_equalityI) (simp_all add: deinterleaveChannel_def)
qed

text \<open>Interleaving a channel and reading the same channel back returns its samples, and
  every other channel of the interleaved buffer is left as it was.\<close>

theorem interleave_deinterleave:
  assumes "ci < cc" "length s \<le> length d div cc" "length out = length s"
  shows "deinterleaveChannel (snd (interleaveChannel s ci cc d)) ci cc out = (True, s) \<and>
    (\<forall>cj f. cj < cc \<longrightarrow> cj \<noteq> ci \<longrightarrow>
       snd (interleaveChannel s ci cc d) ! (f * cc + cj) = d ! (f * cc + cj))"
proof (intro conjI allI impI)
  have "snd (deinterleaveChannel (snd (interleaveChannel s ci cc d)) ci cc out) = s"
    using assms by (intro nth_equalityI) (simp_all add: deinterleave_eq interleave_nth_own)
  moreover have "fst (deinterleaveChannel (snd (interleaveChannel s ci cc d)) ci cc out)"
    using assms by (simp add: deinterleave_ok_iff)
  ultimately show "deinterleaveChannel (snd (interleaveChannel s ci cc d)) ci cc out = (True, s)"
    by (metis (full_types) prod.collapse)
next
  fix cj f
  assume "cj < cc" "cj \<noteq> ci"
  with assms show "snd (interleaveChannel s ci cc d) ! (f * cc + cj) = d ! (f * cc + cj)"
    by (intro interleave_nth_other) (auto simp: frame_index_eq_iff)
qed

theorem interleave_deinterleave_witness:
  "deinterleaveChannel (snd (interleaveChannel [7, 8, 9] 1 2 [0, 0, 0, 0, 0, (0::int)])) 1 2 [1, 1, 1]
     = (True, [7, 8, 9])"
  using interleave_deinterleave [of 1 2 "[7, 8, 9]" "[0, 0, 0, 0, 0, (0::int)]" "[1, 1, 1]"] by simp

end
