(* ===== verification/Cpp_Text.thy ===== *)
theory Cpp_Text
  imports Prelude
begin

text \<open>
  The C++ text facilities the sources use, on byte strings: \<open>string_view::find\<close>,
  \<open>substr\<close>, \<open>starts_with\<close>, \<open>std::from_chars\<close> and \<open>std::to_string\<close> for unsigned
  integers, and the \<open>split\<close> helper of Sources/Core/SDP.cpp.
\<close>

section \<open>Searching and splitting\<close>

fun find_char :: "char \<Rightarrow> string \<Rightarrow> nat option" where
  "find_char d [] = None"
| "find_char d (c # s) = (if c = d then Some 0 else map_option Suc (find_char d s))"

lemma find_char_None_iff: "find_char d s = None \<longleftrightarrow> d \<notin> set s"
  by (induction s) auto

lemma find_char_Some: "find_char d s = Some p \<Longrightarrow> p < length s \<and> s ! p = d \<and> d \<notin> set (take p s)"
  by (induction s arbitrary: p) (auto split: if_splits)

lemma find_char_append: "d \<notin> set xs \<Longrightarrow> find_char d (xs @ d # ys) = Some (length xs)"
  by (induction xs) auto

lemma find_char_absent: "d \<notin> set xs \<Longrightarrow> find_char d xs = None"
  by (simp add: find_char_None_iff)

text \<open>\<open>find(text)\<close> for a non-empty pattern.\<close>

fun find_text :: "string \<Rightarrow> string \<Rightarrow> nat option" where
  "find_text pat [] = (if pat = [] then Some 0 else None)"
| "find_text pat (c # s) =
     (if take (length pat) (c # s) = pat then Some 0 else map_option Suc (find_text pat s))"

definition starts_with :: "string \<Rightarrow> string \<Rightarrow> bool" where
  "starts_with s pat \<longleftrightarrow> take (length pat) s = pat"

text \<open>\<open>substr(0, pos)\<close>, where \<open>None\<close> is \<open>npos\<close>.\<close>

definition upto_pos :: "string \<Rightarrow> nat option \<Rightarrow> string" where
  "upto_pos s pos = (case pos of None \<Rightarrow> s | Some p \<Rightarrow> take p s)"

function split_at :: "char \<Rightarrow> string \<Rightarrow> string list" where
  "split_at d value =
     (case find_char d value of
        None \<Rightarrow> [upto_pos value None]
      | Some pos \<Rightarrow> upto_pos value (Some pos) # split_at d (drop (pos + 1) value))"
  by pat_completeness auto
termination
  by (relation "measure (\<lambda>(d, s). length s)") (auto dest: find_char_Some)

declare split_at.simps [simp del]

lemma split_at_absent: "d \<notin> set s \<Longrightarrow> split_at d s = [s]"
  by (subst split_at.simps) (simp add: find_char_absent upto_pos_def)

lemma split_at_append: "d \<notin> set xs \<Longrightarrow> split_at d (xs @ d # ys) = xs # split_at d ys"
  by (subst split_at.simps) (simp add: find_char_append upto_pos_def)

lemma split_at_nonempty [simp]: "split_at d s \<noteq> []"
  by (subst split_at.simps) (simp split: option.splits)

lemma split_at_no_delimiter: "part \<in> set (split_at d s) \<Longrightarrow> d \<notin> set part"
proof (induction d s arbitrary: part rule: split_at.induct)
  case (1 d s)
  show ?case
  proof (cases "find_char d s")
    case None
    with 1(2) show ?thesis
      by (subst (asm) split_at.simps) (simp add: upto_pos_def find_char_None_iff)
  next
    case (Some p)
    with 1(2) have "part = take p s \<or> part \<in> set (split_at d (drop (p + 1) s))"
      by (subst (asm) split_at.simps) (simp add: upto_pos_def)
    with 1(1) Some show ?thesis by (auto dest: find_char_Some)
  qed
qed

lemma split_at_Nil [simp]: "split_at d [] = [[]]"
  by (simp add: split_at_absent)

lemma split_at_Cons:
  "split_at d (c # s) =
     (if c = d then [] # split_at d s
      else case split_at d s of [] \<Rightarrow> [[c]] | part # parts \<Rightarrow> (c # part) # parts)"
  by (simp add: split_at.simps [of d "c # s"] upto_pos_def)
    (auto simp: split_at.simps [of d s] upto_pos_def split: option.splits)

lemma split_at_chars: "c \<in> set s \<Longrightarrow> c = d \<or> (\<exists>part \<in> set (split_at d s). c \<in> set part)"
proof (induction s)
  case Nil
  then show ?case by simp
next
  case (Cons x s)
  obtain p ps where "split_at d s = p # ps" by (cases "split_at d s") auto
  with Cons show ?case by (auto simp: split_at_Cons)
qed

lemma split_at_parts: "part \<in> set (split_at d s) \<Longrightarrow> set part \<subseteq> set s"
proof (induction s arbitrary: part)
  case Nil
  then show ?case by simp
next
  case (Cons x s)
  obtain p ps where "split_at d s = p # ps" by (cases "split_at d s") auto
  with Cons show ?case by (fastforce simp: split_at_Cons split: if_splits)
qed

lemma split_at_nth_no_delimiter: "i < length (split_at d s) \<Longrightarrow> d \<notin> set (split_at d s ! i)"
  using split_at_no_delimiter [OF nth_mem] .

lemma split_at_nth_chars: "i < length (split_at d s) \<Longrightarrow> c \<in> set (split_at d s ! i) \<Longrightarrow> c \<in> set s"
  using split_at_parts [OF nth_mem] by blast

section \<open>Decimal numbers\<close>

definition is_digit :: "char \<Rightarrow> bool" where
  "is_digit c \<longleftrightarrow> 48 \<le> (of_char c :: nat) \<and> (of_char c :: nat) \<le> 57"

definition digit_val :: "char \<Rightarrow> nat" where
  "digit_val c = of_char c - 48"

definition decval :: "string \<Rightarrow> nat" where
  "decval s = foldl (\<lambda>v c. 10 * v + digit_val c) 0 s"

text \<open>\<open>std::to_string\<close> of an unsigned value, also what \<open>operator<<\<close> prints.\<close>

fun to_string :: "nat \<Rightarrow> string" where
  "to_string n = (if n < 10 then [char_of (48 + n)] else to_string (n div 10) @ [char_of (48 + n mod 10)])"

declare to_string.simps [simp del]

text \<open>\<open>std::from_chars\<close> for a 32-bit \<open>unsigned\<close>: no sign, no spaces; the maximal run of digits
  is consumed, and a value out of range is an error that leaves the variable unchanged.\<close>

datatype errc = Errc_ok | Errc_invalid_argument | Errc_result_out_of_range

definition from_chars :: "string \<Rightarrow> nat \<Rightarrow> errc \<times> nat \<times> nat" where
  "from_chars s initial =
     (let ds = takeWhile is_digit s
      in if ds = [] then (Errc_invalid_argument, 0, initial)
         else if decval ds \<ge> 2 ^ 32 then (Errc_result_out_of_range, length ds, initial)
         else (Errc_ok, length ds, decval ds))"

definition all_digits :: "string \<Rightarrow> bool" where
  "all_digits s \<longleftrightarrow> s \<noteq> [] \<and> list_all is_digit s"

lemma is_digit_char_of [simp]: "(n :: nat) < 10 \<Longrightarrow> is_digit (char_of (48 + n))"
  by (simp add: is_digit_def of_char_of)

lemma digit_val_char_of [simp]: "(n :: nat) < 10 \<Longrightarrow> digit_val (char_of (48 + n)) = n"
  by (simp add: digit_val_def of_char_of)

lemma decval_snoc: "decval (s @ [c]) = 10 * decval s + digit_val c"
  by (simp add: decval_def)

lemma to_string_all_digits: "all_digits (to_string n)"
proof (induction n rule: to_string.induct)
  case (1 n)
  then show ?case
    by (subst to_string.simps) (auto simp: all_digits_def)
qed

lemma decval_to_string [simp]: "decval (to_string n) = n"
proof (induction n rule: to_string.induct)
  case (1 n)
  show ?case
  proof (cases "n < 10")
    case True
    then show ?thesis by (simp add: to_string.simps [of n] decval_def)
  next
    case False
    with 1 show ?thesis by (simp add: to_string.simps [of n] decval_snoc)
  qed
qed

lemma to_string_nonempty [simp]: "to_string n \<noteq> []"
  using to_string_all_digits [of n] by (simp add: all_digits_def)

lemma to_string_inj: "to_string m = to_string n \<Longrightarrow> m = n"
  by (metis decval_to_string)

lemma to_string_chars: "c \<in> set (to_string n) \<Longrightarrow> is_digit c"
  using to_string_all_digits [of n] by (auto simp: all_digits_def list_all_iff)

lemma all_digits_takeWhile: "all_digits s \<Longrightarrow> takeWhile is_digit s = s"
  by (auto simp: all_digits_def list_all_iff intro: takeWhile_eq_all_conv [THEN iffD2])

text \<open>When the whole text is one number: the test \<open>ec == errc{} && ptr == end\<close>.\<close>

lemma from_chars_whole_iff:
  "(case from_chars s i of (ec, ptr, v) \<Rightarrow> ec = Errc_ok \<and> ptr = length s)
   \<longleftrightarrow> all_digits s \<and> decval s < 2 ^ 32"
proof (cases "all_digits s")
  case True
  then show ?thesis
    by (simp add: from_chars_def all_digits_takeWhile) (simp add: all_digits_def)
next
  case False
  have "length (takeWhile is_digit s) \<noteq> length s" if "s \<noteq> []"
  proof
    assume "length (takeWhile is_digit s) = length s"
    then have "takeWhile is_digit s = s"
      by (metis append.right_neutral append_eq_append_conv takeWhile_dropWhile_id)
    then have "list_all is_digit s"
      by (metis list_all_iff set_takeWhileD)
    with that False show False by (simp add: all_digits_def)
  qed
  with False show ?thesis
    by (cases "s = []") (auto simp: from_chars_def Let_def split: if_splits)
qed

lemma from_chars_all_digits:
  "all_digits s \<Longrightarrow> decval s < 2 ^ 32 \<Longrightarrow> from_chars s i = (Errc_ok, length s, decval s)"
  by (simp add: from_chars_def all_digits_takeWhile) (simp add: all_digits_def)

lemma not_digit_literals [simp]:
  "\<not> is_digit CHR ''.''" "\<not> is_digit CHR '' ''" "\<not> is_digit CHR ''/''" "\<not> is_digit CHR ''=''"
  "\<not> is_digit CHR 0x0A" "\<not> is_digit CHR 0x0D" "\<not> is_digit CHR 0x00"
  by (simp_all add: is_digit_def)

lemma to_string_no_char: "\<not> is_digit c \<Longrightarrow> c \<notin> set (to_string n)"
  using to_string_chars by blast

lemma to_string_length3: "n < 1000 \<Longrightarrow> length (to_string n) \<le> 3"
  by (simp add: to_string.simps [of n] to_string.simps [of "n div 10"]
      to_string.simps [of "n div 10 div 10"])

end
