(* ===== verification/Cpp_Bytes.thy ===== *)
theory Cpp_Bytes
  imports Prelude
begin

text \<open>
  Big-endian integers in byte spans: the helpers \<open>put16\<close>, \<open>put32\<close>, \<open>put64\<close> and
  \<open>get16\<close>, \<open>get32\<close>, \<open>get64\<close> that Sources/Core/RTPPacket.cpp and Sources/Core/PTP.cpp
  both define. A \<open>put\<close> is modelled by the bytes it stores, a \<open>get\<close> by a checked read at an
  offset of the span.
\<close>

section \<open>Writing\<close>

definition put16 :: "u16 \<Rightarrow> bytes" where
  "put16 v = [ucast (drop_bit 8 v), ucast v]"

definition put32 :: "u32 \<Rightarrow> bytes" where
  "put32 v = [ucast (drop_bit 24 v), ucast (drop_bit 16 v), ucast (drop_bit 8 v), ucast v]"

text \<open>The loop of \<open>put64\<close> runs from the last byte to the first, shifting the value.\<close>

fun put_loop :: "nat \<Rightarrow> u64 \<Rightarrow> bytes" where
  "put_loop 0 v = []"
| "put_loop (Suc k) v = put_loop k (drop_bit 8 v) @ [ucast v]"

definition put64 :: "u64 \<Rightarrow> bytes" where
  "put64 v = put_loop 8 v"

section \<open>Reading\<close>

definition be16 :: "u8 \<Rightarrow> u8 \<Rightarrow> u16" where
  "be16 a b = push_bit 8 (ucast a) OR ucast b"

definition be32 :: "u8 \<Rightarrow> u8 \<Rightarrow> u8 \<Rightarrow> u8 \<Rightarrow> u32" where
  "be32 a b c d = push_bit 24 (ucast a) OR push_bit 16 (ucast b) OR push_bit 8 (ucast c) OR ucast d"

definition be64 :: "bytes \<Rightarrow> u64" where
  "be64 bs = foldl (\<lambda>v b. push_bit 8 v OR ucast b) 0 bs"

definition get16 :: "bytes \<Rightarrow> nat \<Rightarrow> u16 option" where
  "get16 bs off = do { a \<leftarrow> rd bs off; b \<leftarrow> rd bs (off + 1); Some (be16 a b) }"

definition get32 :: "bytes \<Rightarrow> nat \<Rightarrow> u32 option" where
  "get32 bs off = do { a \<leftarrow> rd bs off; b \<leftarrow> rd bs (off + 1); c \<leftarrow> rd bs (off + 2);
     d \<leftarrow> rd bs (off + 3); Some (be32 a b c d) }"

definition get64 :: "bytes \<Rightarrow> nat \<Rightarrow> u64 option" where
  "get64 bs off = map_option be64 (range_of bs off (off + 8))"

section \<open>Round trips\<close>

lemma length_put16 [simp]: "length (put16 v) = 2"
  by (simp add: put16_def)

lemma length_put32 [simp]: "length (put32 v) = 4"
  by (simp add: put32_def)

lemma length_put_loop [simp]: "length (put_loop k v) = k"
  by (induction k arbitrary: v) auto

lemma length_put64 [simp]: "length (put64 v) = 8"
  by (simp add: put64_def)

lemma be16_put16 [simp]: "be16 (ucast (drop_bit 8 v)) (ucast v) = v"
  by (rule bit_word_eqI) (auto simp: be16_def bit_simps)

lemma be32_put32 [simp]:
  "be32 (ucast (drop_bit 24 v)) (ucast (drop_bit 16 v)) (ucast (drop_bit 8 v)) (ucast v) = v"
proof (rule bit_word_eqI)
  fix n
  assume "n < LENGTH(32)"
  then consider "n < 8" | "8 \<le> n \<and> n < 16" | "16 \<le> n \<and> n < 24" | "24 \<le> n \<and> n < 32"
    by fastforce
  then show "bit (be32 (ucast (drop_bit 24 v)) (ucast (drop_bit 16 v)) (ucast (drop_bit 8 v))
      (ucast v)) n = bit v n"
    by cases (auto simp: be32_def bit_simps)
qed

lemma be64_snoc: "be64 (bs @ [b]) = push_bit 8 (be64 bs) OR ucast b"
  by (simp add: be64_def)

lemma be64_put_loop: "be64 (put_loop k v) = take_bit (8 * k) v"
proof (induction k arbitrary: v)
  case 0
  then show ?case by (simp add: be64_def)
next
  case (Suc k)
  have "push_bit 8 (take_bit (8 * k) (drop_bit 8 v)) OR ucast (ucast v :: u8) = take_bit (8 * Suc k) v"
    by (rule bit_word_eqI) (auto simp: bit_simps)
  with Suc show ?case by (simp add: be64_snoc)
qed

lemma be64_put64 [simp]: "be64 (put64 v) = v"
  by (simp add: put64_def be64_put_loop take_bit_word_eq_self)

lemma be16_inverse: "put16 (be16 a b) = [a, b]"
  unfolding put16_def be16_def list.inject
  by (intro conjI bit_word_eqI refl) (auto simp: bit_simps dest: bit_imp_le_length)

lemma be32_inverse: "put32 (be32 a b c d) = [a, b, c, d]"
  unfolding put32_def be32_def list.inject
  by (intro conjI bit_word_eqI refl) (auto simp: bit_simps dest: bit_imp_le_length)

lemma get16_in [access_simps]:
  "off + 2 \<le> length bs \<Longrightarrow> get16 bs off = Some (be16 (bs ! off) (bs ! Suc off))"
  by (simp add: get16_def rd_def)

lemma get32_in [access_simps]:
  "off + 4 \<le> length bs \<Longrightarrow>
   get32 bs off = Some (be32 (bs ! off) (bs ! Suc off) (bs ! (off + 2)) (bs ! (off + 3)))"
  by (simp add: get32_def rd_def)

lemma get64_in [access_simps]:
  "off + 8 \<le> length bs \<Longrightarrow> get64 bs off = Some (be64 (take 8 (drop off bs)))"
  by (simp add: get64_def range_of_def)

text \<open>Reading back what was stored, wherever it stands in the span.\<close>

lemma get16_put16 [simp]: "length xs = off \<Longrightarrow> get16 (xs @ put16 v @ ys) off = Some v"
  by (simp add: get16_def rd_def put16_def nth_append)

lemma get32_put32 [simp]: "length xs = off \<Longrightarrow> get32 (xs @ put32 v @ ys) off = Some v"
  by (simp add: get32_def rd_def put32_def nth_append)

lemma get64_put64 [simp]: "length xs = off \<Longrightarrow> get64 (xs @ put64 v @ ys) off = Some v"
  by (simp add: get64_in)

section \<open>Flag bits of a byte\<close>

lemma flag_bits:
  "(x :: u8) AND 0x80 \<noteq> 0 \<longleftrightarrow> bit x 7" "x AND 0x20 \<noteq> 0 \<longleftrightarrow> bit x 5" "x AND 0x10 \<noteq> 0 \<longleftrightarrow> bit x 4"
  "x AND 0x04 \<noteq> 0 \<longleftrightarrow> bit x 2" "x AND 0x02 \<noteq> 0 \<longleftrightarrow> bit x 1" "x AND 0x01 \<noteq> 0 \<longleftrightarrow> bit x 0"
  by (simp_all add: bit_iff_and_push_bit_not_eq_0)

lemma low7_take_bit: "x \<le> (127 :: u8) \<Longrightarrow> take_bit 7 x = x"
  by (rule word_unat_eq_iff [THEN iffD2])
    (simp add: unsigned_take_bit_eq take_bit_nat_eq_self word_le_nat_alt)

lemma low7_and: "x \<le> (127 :: u8) \<Longrightarrow> x AND 0x7f = x"
  using low7_take_bit by (simp add: take_bit_eq_mask mask_eq_exp_minus_1)

lemma low7_bit: "x \<le> (127 :: u8) \<Longrightarrow> \<not> bit x 7"
  by (metis low7_take_bit bit_take_bit_iff less_irrefl)

lemma marked_low7 [simp]: "(0x80 OR (x :: u8)) AND 0x7f = x AND 0x7f"
  by (simp add: bit.conj_disj_distrib2)

section \<open>The contract of a codec\<close>

text \<open>An encoder and a decoder that undoes it on the well-formed messages. The wire type is left
  open: bytes for the packets, text for SDP and for addresses.\<close>

locale wire_codec =
  fixes encode :: "'m \<Rightarrow> 'w"
    and decode :: "'w \<Rightarrow> 'm option"
    and wf :: "'m \<Rightarrow> bool"
  assumes decode_encode: "wf m \<Longrightarrow> decode (encode m) = Some m"
begin

lemma encode_inj: "wf m \<Longrightarrow> wf m' \<Longrightarrow> encode m = encode m' \<Longrightarrow> m = m'"
  by (metis decode_encode option.inject)

lemma encode_inj_on: "inj_on encode {m. wf m}"
  by (auto simp: inj_on_def intro: encode_inj)

lemma decode_image: "wf m \<Longrightarrow> \<exists>w. decode w = Some m"
  using decode_encode by blast

end

text \<open>A codec whose messages are carried inside another codec's messages is a codec. The envelope
  may depend on the message as well as on its text.\<close>

locale carried_codec =
  outer: wire_codec encode_outer decode_outer wf_outer
  + inner: wire_codec encode_inner decode_inner wf_inner
  for encode_outer :: "'o \<Rightarrow> 'w" and decode_outer wf_outer
    and encode_inner :: "'m \<Rightarrow> 't" and decode_inner wf_inner
  + fixes pack :: "'m \<Rightarrow> 't \<Rightarrow> 'o" and body :: "'o \<Rightarrow> 't" and carried :: "'m \<Rightarrow> bool"
  assumes body_pack: "carried m \<Longrightarrow> body (pack m (encode_inner m)) = encode_inner m"
    and pack_wf: "carried m \<Longrightarrow> wf_outer (pack m (encode_inner m))"
    and carried_wf: "carried m \<Longrightarrow> wf_inner m"

sublocale carried_codec \<subseteq> carried: wire_codec
    "\<lambda>m. encode_outer (pack m (encode_inner m))"
    "\<lambda>w. Option.bind (decode_outer w) (\<lambda>o'. decode_inner (body o'))"
    carried
  by unfold_locales (simp add: outer.decode_encode inner.decode_encode pack_wf body_pack carried_wf)

end
