(* ===== verification/IPv4_Address.thy ===== *)
theory IPv4_Address
  imports Cpp_Text Cpp_Bytes
begin

text \<open>
  Sources/Core/IPv4Address.hpp: dotted-decimal addresses. The array of four octets is a list;
  every address the code makes has length four.
\<close>

type_synonym ipv4_address = "u8 list"

text \<open>The loop of \<open>IPv4Address::parse\<close>, by the number of octets still to read; \<open>octets\<close>
  holds the ones already read.\<close>

fun ipv4_loop :: "nat \<Rightarrow> string \<Rightarrow> u8 list \<Rightarrow> ipv4_address option" where
  "ipv4_loop 0 text octets = Some octets"
| "ipv4_loop (Suc remaining) text octets =
     (let separator = find_char CHR ''.'' text;
          component = upto_pos text separator
      in case from_chars component 0 of (ec, ptr, value) \<Rightarrow>
        if component = [] \<or> ec \<noteq> Errc_ok \<or> ptr \<noteq> length component \<or> value > 255 then None
        else if remaining > 0 then
          (case separator of
             None \<Rightarrow> None
           | Some pos \<Rightarrow> ipv4_loop remaining (drop (pos + 1) text) (octets @ [of_nat value]))
        else if separator \<noteq> None then None
        else ipv4_loop remaining text (octets @ [of_nat value]))"

definition ipv4_parse :: "string \<Rightarrow> ipv4_address option" where
  "ipv4_parse text = ipv4_loop 4 text []"

definition isMulticast :: "ipv4_address \<Rightarrow> bool" where
  "isMulticast a \<longleftrightarrow> a ! 0 \<ge> 224 \<and> a ! 0 \<le> 239"

definition ipv4_toString :: "ipv4_address \<Rightarrow> string" where
  "ipv4_toString a = to_string (unat (a ! 0)) @ ''.'' @ to_string (unat (a ! 1)) @ ''.''
     @ to_string (unat (a ! 2)) @ ''.'' @ to_string (unat (a ! 3))"

section \<open>What the parser accepts\<close>

text \<open>The reference: exactly four components between the dots, each a non-empty run of decimal
  digits with a value of at most 255 (leading zeros are allowed).\<close>

definition octet_text :: "string \<Rightarrow> bool" where
  "octet_text c \<longleftrightarrow> all_digits c \<and> decval c \<le> 255"

definition ipv4_spec :: "string \<Rightarrow> ipv4_address option" where
  "ipv4_spec text =
     (let cs = split_at CHR ''.'' text
      in if length cs = 4 \<and> list_all octet_text cs then Some (map (\<lambda>c. of_nat (decval c)) cs)
         else None)"

lemma octet_test:
  "(case from_chars c i of (ec, ptr, value) \<Rightarrow>
      if c = [] \<or> ec \<noteq> Errc_ok \<or> ptr \<noteq> length c \<or> value > 255 then None else f value)
   = (if octet_text c then f (decval c) else None)"
proof (cases "all_digits c \<and> decval c < 2 ^ 32")
  case True
  then have "c \<noteq> []" by (simp add: all_digits_def)
  with True show ?thesis by (auto simp: from_chars_all_digits octet_text_def)
next
  case False
  then have "\<not> octet_text c" by (auto simp: octet_text_def)
  moreover obtain ec ptr v where "from_chars c i = (ec, ptr, v)" by (cases "from_chars c i") auto
  ultimately show ?thesis using False from_chars_whole_iff [of c i] by auto
qed

lemma ipv4_loop_step:
  "ipv4_loop (Suc n) s acc =
     (let separator = find_char CHR ''.'' s; c = upto_pos s separator
      in if \<not> octet_text c then None
         else if n > 0 then
           (case separator of None \<Rightarrow> None
            | Some pos \<Rightarrow> ipv4_loop n (drop (pos + 1) s) (acc @ [of_nat (decval c)]))
         else if separator \<noteq> None then None else Some (acc @ [of_nat (decval c)]))"
  unfolding ipv4_loop.simps Let_def octet_test by (cases n) auto

lemma ipv4_loop_spec:
  "n > 0 \<Longrightarrow> ipv4_loop n s acc =
     (let cs = split_at CHR ''.'' s
      in if length cs = n \<and> list_all octet_text cs then Some (acc @ map (\<lambda>c. of_nat (decval c)) cs)
         else None)"
proof (induction n arbitrary: s acc)
  case 0
  then show ?case by simp
next
  case (Suc n)
  show ?case
  proof (cases "find_char CHR ''.'' s")
    case None
    then show ?thesis
      by (auto simp: ipv4_loop_step split_at.simps [of _ s] upto_pos_def simp del: ipv4_loop.simps)
  next
    case (Some p)
    let ?rest = "drop (p + 1) s"
    have split: "split_at CHR ''.'' s = take p s # split_at CHR ''.'' ?rest"
      using Some by (simp add: split_at.simps [of _ s] upto_pos_def)
    have len: "length (split_at CHR ''.'' ?rest) \<noteq> 0" by simp
    show ?thesis
      using Some Suc.IH [of ?rest "acc @ [of_nat (decval (take p s))]"] len
      by (auto simp: ipv4_loop_step split upto_pos_def Let_def simp del: ipv4_loop.simps)
  qed
qed

lemma ipv4_parse_by_components: "ipv4_parse text = ipv4_spec text"
  by (simp add: ipv4_parse_def ipv4_spec_def ipv4_loop_spec Let_def)

text \<open>The hand-written loop of \<open>IPv4Address::parse\<close> accepts exactly the texts of four
  dot-separated decimal components of at most 255, and returns their values.\<close>

theorem ipv4_parse_equals_spec: "ipv4_parse text = ipv4_spec text"
  by (rule ipv4_parse_by_components)

lemma ipv4_parse_length: "ipv4_parse text = Some a \<Longrightarrow> length a = 4"
  by (auto simp: ipv4_parse_by_components ipv4_spec_def Let_def split: if_splits)

lemma ipv4_parse_chars:
  assumes "ipv4_parse s = Some a" "c \<in> set s"
  shows "is_digit c \<or> c = CHR ''.''"
  using assms split_at_chars [of c s "CHR ''.''"]
  by (auto simp: ipv4_parse_by_components ipv4_spec_def Let_def octet_text_def all_digits_def
      list_all_iff split: if_splits)

section \<open>Round trip\<close>

lemma octet_text_to_string: "octet_text (to_string (unat (b :: u8)))"
  using unat_bound [of b] by (simp add: octet_text_def to_string_all_digits)

lemma split_toString:
  "split_at CHR ''.'' (ipv4_toString a) = map (\<lambda>i. to_string (unat (a ! i))) [0, 1, 2, 3]"
  by (simp add: ipv4_toString_def split_at_append split_at_absent to_string_no_char)

lemma parse_toString:
  assumes "length a = 4"
  shows "ipv4_parse (ipv4_toString a) = Some a"
proof -
  have "a = map (\<lambda>i. a ! i) [0, 1, 2, 3]"
    using assms by (auto simp: numeral_eq_Suc length_Suc_conv)
  then show ?thesis
    by (simp add: ipv4_parse_by_components ipv4_spec_def split_toString octet_text_to_string Let_def)
qed

interpretation ipv4_text: wire_codec ipv4_toString ipv4_parse "\<lambda>a. length a = 4"
  by unfold_locales (rule parse_toString)

lemma ipv4_toString_chars: "c \<in> set (ipv4_toString a) \<Longrightarrow> is_digit c \<or> c = CHR ''.''"
  by (auto simp: ipv4_toString_def dest: to_string_chars)

lemma ipv4_toString_length: "length (ipv4_toString a) \<le> 15"
proof -
  have "length (to_string (unat (b :: u8))) \<le> 3" for b
    using unat_bound [of b] by (intro to_string_length3) simp
  then have "length (to_string (unat (a ! 0))) + length (to_string (unat (a ! 1)))
      + length (to_string (unat (a ! 2))) + length (to_string (unat (a ! 3))) \<le> 3 + 3 + 3 + 3"
    by (intro add_mono)
  then show ?thesis by (simp add: ipv4_toString_def)
qed

text \<open>Every address survives printing and parsing, and its text has at most 15 characters, so
  it fits the 16-byte fields of the shared session directory with the terminator.\<close>

theorem ipv4_print_parse:
  assumes "length a = 4"
  shows "ipv4_parse (ipv4_toString a) = Some a \<and> length (ipv4_toString a) \<le> 15"
  using assms parse_toString ipv4_toString_length by blast

theorem ipv4_print_parse_witness:
  "ipv4_parse (ipv4_toString [239, 69, 83, 80]) = Some [239, 69, 83, 80]
   \<and> length (ipv4_toString [239, 69, 83, 80]) \<le> 15"
  by (rule ipv4_print_parse) simp

end
