(* ===== verification/Stream_Banks.thy ===== *)
theory Stream_Banks
  imports Constants Channel_Layout IPv4_Address
begin

text \<open>
  The configuration of Sources/Engine/LiveEngine.hpp and the arithmetic of
  Sources/Engine/LiveEngine.cpp that turns it into endpoints, Core Audio channels and RTP
  timestamps, with the checks of \<open>LiveEngine::start\<close>. \<open>std::size_t\<close> has 64 bits; where it can wrap
  it is a word.
\<close>

section \<open>The code\<close>

record live_engine_config =
  lc_interfaceName :: string
  lc_interfaceAddress :: string
  lc_rxAddress :: string
  lc_rxSourceAddress :: string
  lc_txAddress :: string
  lc_rxPort :: u16
  lc_txPort :: u16
  lc_rxPayloadType :: u8
  lc_txPayloadType :: u8
  lc_channelsPerStream :: u64
  lc_coreAudioStartChannel :: u64
  lc_streamCount :: u64
  lc_portStride :: u16
  lc_jitterPackets :: nat
  lc_sapAddress :: string
  lc_sapPort :: u16
  lc_sapSessionTimeoutSeconds :: u32
  lc_enableSAPPublication :: bool
  lc_enableSAPDiscovery :: bool
  lc_enablePTP :: bool
  lc_ptpAddress :: string
  lc_ptpEventPort :: u16
  lc_ptpGeneralPort :: u16

definition default_config :: live_engine_config where
  "default_config = \<lparr> lc_interfaceName = [], lc_interfaceAddress = [], lc_rxAddress = ''239.69.83.80'',
     lc_rxSourceAddress = [], lc_txAddress = ''239.69.83.81'', lc_rxPort = 5004, lc_txPort = 5004,
     lc_rxPayloadType = kPayloadType, lc_txPayloadType = kPayloadType,
     lc_channelsPerStream = of_nat kAES67ChannelsPerStream, lc_coreAudioStartChannel = 1,
     lc_streamCount = 1, lc_portStride = 0, lc_jitterPackets = kDefaultJitterPackets,
     lc_sapAddress = kSAPMulticast, lc_sapPort = kSAPPort, lc_sapSessionTimeoutSeconds = 15,
     lc_enableSAPPublication = True, lc_enableSAPDiscovery = True, lc_enablePTP = True,
     lc_ptpAddress = ''224.0.1.129'', lc_ptpEventPort = 319, lc_ptpGeneralPort = 320 \<rparr>"

definition address_value :: "ipv4_address \<Rightarrow> u32" where
  "address_value a = push_bit 24 (ucast (a ! 0)) OR push_bit 16 (ucast (a ! 1))
     OR push_bit 8 (ucast (a ! 2)) OR ucast (a ! 3)"

definition address_octets :: "u32 \<Rightarrow> ipv4_address" where
  "address_octets v = [ucast (drop_bit 24 v), ucast (drop_bit 16 v), ucast (drop_bit 8 v), ucast v]"

definition bankAddress :: "string \<Rightarrow> nat \<Rightarrow> string" where
  "bankAddress base bank = (case ipv4_parse base of
     None \<Rightarrow> []
   | Some parsed \<Rightarrow>
       if \<not> isMulticast parsed then base
       else let value = address_value parsed
         in if bank > unat (- 1 - value) then []
            else ipv4_toString (address_octets (value + of_nat bank)))"

definition bankPort :: "u16 \<Rightarrow> u16 \<Rightarrow> nat \<Rightarrow> u16" where
  "bankPort base stride bank = of_nat (unat base + unat stride * bank)"

definition rtpTimestampForNanoseconds :: "int \<Rightarrow> u32" where
  "rtpTimestampForNanoseconds nanoseconds =
     (let ns = (if nanoseconds < 0 then 0 else nanoseconds);
          seconds = (of_int (ns div 1000000000) :: u64);
          remainder = (of_int (ns mod 1000000000) :: u64);
          samples = seconds * ucast kSampleRate + remainder * ucast kSampleRate div 1000000000
      in ucast samples)"

text \<open>The two groups of checks in \<open>start\<close>.\<close>

definition routing_ok :: "live_engine_config \<Rightarrow> bool" where
  "routing_ok c \<longleftrightarrow> \<not> (lc_streamCount c = 0 \<or> lc_streamCount c > of_nat kStreamBankCount
     \<or> \<not> supportedAES67ChannelCount (unat (lc_channelsPerStream c))
     \<or> lc_coreAudioStartChannel c = 0
     \<or> lc_coreAudioStartChannel c - 1 + lc_streamCount c * lc_channelsPerStream c > of_nat kVirtualChannels)"

definition transport_ok :: "live_engine_config \<Rightarrow> bool" where
  "transport_ok c \<longleftrightarrow>
     (let lastPortOffset = (ucast (lc_portStride c) :: u64) * (lc_streamCount c - 1)
      in \<not> (lc_interfaceAddress c = []
         \<or> lastPortOffset > 65535 - ucast (lc_rxPort c) \<or> lastPortOffset > 65535 - ucast (lc_txPort c)
         \<or> bankAddress (lc_rxAddress c) (unat (lc_streamCount c - 1)) = []
         \<or> bankAddress (lc_txAddress c) (unat (lc_streamCount c - 1)) = []))"

definition virtualChannel :: "live_engine_config \<Rightarrow> nat \<Rightarrow> nat \<Rightarrow> nat" where
  "virtualChannel c bank ch =
     unat (lc_coreAudioStartChannel c - 1 + of_nat bank * lc_channelsPerStream c + of_nat ch)"

section \<open>Addresses as numbers\<close>

lemma octets_value [simp]: "length a = 4 \<Longrightarrow> address_octets (address_value a) = a"
  using be32_inverse [of "a ! 0" "a ! 1" "a ! 2" "a ! 3"]
  by (auto simp: address_octets_def address_value_def put32_def be32_def numeral_eq_Suc length_Suc_conv)

lemma value_octets [simp]: "address_value (address_octets v) = v"
  using be32_put32 [of v] by (simp add: address_octets_def address_value_def be32_def)

lemma length_octets [simp]: "length (address_octets v) = 4"
  by (simp add: address_octets_def)

lemma toString_nonempty: "ipv4_toString a \<noteq> []"
  by (simp add: ipv4_toString_def)

lemma toString_inj: "length a = 4 \<Longrightarrow> length b = 4 \<Longrightarrow> ipv4_toString a = ipv4_toString b \<longleftrightarrow> a = b"
  using parse_toString by (metis option.inject)

lemma bankAddress_eq:
  assumes "ipv4_parse base = Some a"
  shows "bankAddress base bank = (if \<not> isMulticast a then base
    else if unat (address_value a) + bank < 2 ^ 32
      then ipv4_toString (address_octets (address_value a + of_nat bank)) else [])"
proof -
  have "unat (- 1 - address_value a) = 2 ^ 32 - 1 - unat (address_value a)"
    using unat_sub [of "address_value a" "- 1"] by (simp add: unsigned_minus_1_eq_mask mask_eq_exp_minus_1)
  moreover have "unat (address_value a) < 2 ^ 32" using unat_bound [of "address_value a"] by simp
  ultimately show ?thesis by (auto simp: bankAddress_def assms Let_def)
qed

lemma parse_nonempty: "ipv4_parse base = Some a \<Longrightarrow> base \<noteq> []"
  by (auto simp: ipv4_parse_by_components ipv4_spec_def)

lemma bankAddress_small:
  assumes "ipv4_parse base = Some a" "unat (address_value a) + bank < 2 ^ 32"
  shows "bankAddress base bank \<noteq> []"
  using assms by (simp add: bankAddress_eq toString_nonempty parse_nonempty)

lemma bankAddress_base: "ipv4_parse base = Some a \<Longrightarrow> bankAddress base 0 \<noteq> []"
  using unat_bound [of "address_value a"] by (simp add: bankAddress_small)

lemma default_groups:
  "ipv4_parse ''239.69.83.80'' = Some [239, 69, 83, 80]" "ipv4_parse ''239.69.83.81'' = Some [239, 69, 83, 81]"
  "unat (address_value [239, 69, 83, 80]) = 4014297936" "unat (address_value [239, 69, 83, 81]) = 4014297937"
proof -
  have "''239.69.83.80'' = ipv4_toString [239, 69, 83, 80]" "''239.69.83.81'' = ipv4_toString [239, 69, 83, 81]"
    by code_simp+
  then show "ipv4_parse ''239.69.83.80'' = Some [239, 69, 83, 80]"
    "ipv4_parse ''239.69.83.81'' = Some [239, 69, 83, 81]" by (simp_all only: parse_toString length_Cons list.size)
qed (simp_all add: address_value_def)

section \<open>Routing\<close>

lemma unat_eqI: "(w :: u64) = of_nat n \<Longrightarrow> n < 2 ^ 64 \<Longrightarrow> unat w = n"
  by (simp add: unat_of_nat)

lemma routing_bounds:
  assumes "routing_ok c"
  shows "0 < unat (lc_streamCount c)" "unat (lc_streamCount c) \<le> 8"
    "0 < unat (lc_channelsPerStream c)" "unat (lc_channelsPerStream c) \<le> 8"
    "supportedAES67ChannelCount (unat (lc_channelsPerStream c))"
  using assms
  by (auto simp: routing_ok_def word_le_nat_alt word_less_nat_alt profile_defs supportedAES67ChannelCount_def
      unat_gt_0)

lemma virtualChannel_value:
  assumes "routing_ok c" "lc_coreAudioStartChannel c \<le> 64"
    and "bank < unat (lc_streamCount c)" "ch < unat (lc_channelsPerStream c)"
  shows "virtualChannel c bank ch = unat (lc_coreAudioStartChannel c) - 1 + bank * unat (lc_channelsPerStream c) + ch"
    "unat (lc_coreAudioStartChannel c) - 1 + unat (lc_streamCount c) * unat (lc_channelsPerStream c) \<le> 64"
proof -
  let ?s = "unat (lc_coreAudioStartChannel c)" and ?n = "unat (lc_streamCount c)"
    and ?k = "unat (lc_channelsPerStream c)"
  note b = routing_bounds [OF assms(1)]
  have s: "0 < ?s" "?s \<le> 64"
    using assms(1,2) by (auto simp: routing_ok_def word_le_nat_alt unat_gt_0)
  have prod: "?n * ?k \<le> 8 * 8" "bank * ?k \<le> 8 * 8"
    by (intro mult_le_mono; use b assms(3) in linarith)+
  have start: "lc_coreAudioStartChannel c - 1 = of_nat (?s - 1)"
    using s by (simp add: of_nat_diff)
  have "unat (lc_coreAudioStartChannel c - 1 + lc_streamCount c * lc_channelsPerStream c) = ?s - 1 + ?n * ?k"
    using s prod by (intro unat_eqI) (simp only: start of_nat_add of_nat_mult of_nat_unat ucast_id, simp)
  then show "?s - 1 + ?n * ?k \<le> 64"
    using assms(1) by (simp add: routing_ok_def word_le_nat_alt word_less_nat_alt profile_defs not_less)
  show "virtualChannel c bank ch = ?s - 1 + bank * ?k + ch"
    unfolding virtualChannel_def using s prod assms(4) b
    by (intro unat_eqI) (simp only: start of_nat_add of_nat_mult of_nat_unat ucast_id, simp)
qed

lemma virtualChannel_in:
  assumes "routing_ok c" "lc_coreAudioStartChannel c \<le> 64"
    and "bank < unat (lc_streamCount c)" "ch < unat (lc_channelsPerStream c)"
  shows "virtualChannel c bank ch < 64"
proof -
  have "bank * unat (lc_channelsPerStream c) + ch < Suc bank * unat (lc_channelsPerStream c)"
    using assms(4) by simp
  also have "\<dots> \<le> unat (lc_streamCount c) * unat (lc_channelsPerStream c)"
    using assms(3) by (intro mult_le_mono1) simp
  finally show ?thesis using virtualChannel_value [OF assms] by simp
qed

text \<open>A configuration that \<open>start\<close> accepts with a start channel of at most 64 routes every channel
  of every bank to a Core Audio ring inside the block, no two of them to the same one, in order.\<close>

theorem routing_disjoint:
  assumes "routing_ok c" "lc_coreAudioStartChannel c \<le> 64"
    and "bank < unat (lc_streamCount c)" "ch < unat (lc_channelsPerStream c)"
    and "bank' < unat (lc_streamCount c)" "ch' < unat (lc_channelsPerStream c)"
  shows "virtualChannel c bank ch < kVirtualChannels
    \<and> (virtualChannel c bank ch = virtualChannel c bank' ch' \<longleftrightarrow> bank = bank' \<and> ch = ch')"
proof
  show "virtualChannel c bank ch < kVirtualChannels"
    using virtualChannel_in [OF assms(1-4)] by (simp add: profile_defs)
  show "virtualChannel c bank ch = virtualChannel c bank' ch' \<longleftrightarrow> bank = bank' \<and> ch = ch'"
    using virtualChannel_value(1) [OF assms(1-4)] virtualChannel_value(1) [OF assms(1,2,5,6)]
      frame_index_eq_iff [OF assms(4,6), of bank bank'] by simp
qed

theorem routing_disjoint_witness:
  "virtualChannel (default_config\<lparr>lc_streamCount := 8\<rparr>) 7 7 < kVirtualChannels"
  using routing_disjoint [of "default_config\<lparr>lc_streamCount := 8\<rparr>" 7 7 0 0]
  by (simp add: default_config_def routing_ok_def profile_defs supportedAES67ChannelCount_def)

text \<open>The check of \<open>start\<close> wraps around: with a start channel near \<open>2 ^ 64\<close> it accepts a
  configuration whose streams address rings outside the block's array.\<close>

theorem routing_wraps:
  "routing_ok (default_config\<lparr>lc_coreAudioStartChannel := - 7\<rparr>)
   \<and> transport_ok (default_config\<lparr>lc_coreAudioStartChannel := - 7, lc_interfaceAddress := ''10.0.0.1''\<rparr>)
   \<and> virtualChannel (default_config\<lparr>lc_coreAudioStartChannel := - 7\<rparr>) 0 0 = 2 ^ 64 - 8"
proof (intro conjI)
  show "routing_ok (default_config\<lparr>lc_coreAudioStartChannel := - 7\<rparr>)"
    by (simp add: routing_ok_def default_config_def profile_defs supportedAES67ChannelCount_def)
  show "transport_ok (default_config\<lparr>lc_coreAudioStartChannel := - 7, lc_interfaceAddress := ''10.0.0.1''\<rparr>)"
    using default_groups by (simp add: transport_ok_def default_config_def bankAddress_base)
  have "(- 8 :: u64) = 18446744073709551608" by simp
  then show "virtualChannel (default_config\<lparr>lc_coreAudioStartChannel := - 7\<rparr>) 0 0 = 2 ^ 64 - 8"
    by (simp add: virtualChannel_def default_config_def)
qed

section \<open>Endpoints\<close>

lemma transport_bounds:
  assumes "routing_ok c" "transport_ok c" "i < unat (lc_streamCount c)"
  shows "unat (lc_txPort c) + unat (lc_portStride c) * i < 2 ^ 16"
    "unat (lc_rxPort c) + unat (lc_portStride c) * i < 2 ^ 16"
    "bankAddress (lc_txAddress c) (unat (lc_streamCount c) - 1) \<noteq> []"
    "bankAddress (lc_rxAddress c) (unat (lc_streamCount c) - 1) \<noteq> []"
proof -
  let ?n = "unat (lc_streamCount c)" and ?s = "unat (lc_portStride c)"
  note b = routing_bounds [OF assms(1)]
  have up: "unat (ucast p :: u64) = unat p" for p :: u16
    by (simp add: unsigned_ucast_eq unsigned_take_bit_eq [symmetric] take_bit_word_eq_self)
  have n: "unat (lc_streamCount c - 1) = ?n - 1"
    using b(1) by (simp add: unat_sub word_le_nat_alt)
  have s: "?s < 2 ^ 16" using unat_bound [of "lc_portStride c"] by simp
  then have "?s * (?n - 1) \<le> 2 ^ 16 * 7" using b(2) by (intro mult_le_mono) auto
  then have off: "unat ((ucast (lc_portStride c) :: u64) * (lc_streamCount c - 1)) = ?s * (?n - 1)"
    by (subst unat_mult_lem [THEN iffD1]) (simp_all add: n up)
  have room: "unat (65535 - (ucast p :: u64)) = 65535 - unat p" for p :: u16
    using unat_bound [of p] by (subst unat_sub) (simp_all add: word_le_nat_alt up)
  have "?s * (?n - 1) \<le> 65535 - unat (lc_txPort c)" "?s * (?n - 1) \<le> 65535 - unat (lc_rxPort c)"
    "bankAddress (lc_txAddress c) (?n - 1) \<noteq> []" "bankAddress (lc_rxAddress c) (?n - 1) \<noteq> []"
    using assms(2) by (auto simp: transport_ok_def Let_def word_less_nat_alt off room n not_less)
  moreover have "?s * i \<le> ?s * (?n - 1)" by (rule mult_le_mono2) (use assms(3) in linarith)
  moreover have "unat (lc_txPort c) < 2 ^ 16" "unat (lc_rxPort c) < 2 ^ 16"
    using unat_bound [of "lc_txPort c"] unat_bound [of "lc_rxPort c"] by simp_all
  moreover have "p + x < 2 ^ 16" if "x \<le> y" "y \<le> 65535 - p" "p < 2 ^ 16" for p x y :: nat
    using that by simp
  ultimately show "unat (lc_txPort c) + ?s * i < 2 ^ 16" "unat (lc_rxPort c) + ?s * i < 2 ^ 16"
    "bankAddress (lc_txAddress c) (?n - 1) \<noteq> []" "bankAddress (lc_rxAddress c) (?n - 1) \<noteq> []"
    by blast+
qed

lemma bank_port_value:
  assumes "routing_ok c" "transport_ok c" "i < unat (lc_streamCount c)"
  shows "unat (bankPort (lc_txPort c) (lc_portStride c) i) = unat (lc_txPort c) + unat (lc_portStride c) * i"
    "unat (bankPort (lc_rxPort c) (lc_portStride c) i) = unat (lc_rxPort c) + unat (lc_portStride c) * i"
  using transport_bounds(1,2) [OF assms] unfolding bankPort_def by (subst unat_of_nat, simp)+

lemma bank_group:
  assumes "ipv4_parse base = Some a" "isMulticast a" "bankAddress base (n - 1) \<noteq> []" "i < n"
  shows "bankAddress base i = ipv4_toString (address_octets (address_value a + of_nat i))"
    "unat (address_value a + of_nat i) = unat (address_value a) + i"
proof -
  have "unat (address_value a) + (n - 1) < 2 ^ 32"
    using assms by (simp add: bankAddress_eq split: if_splits)
  then have b: "unat (address_value a) + i < 2 ^ 32" using assms(4) by simp
  then show "bankAddress base i = ipv4_toString (address_octets (address_value a + of_nat i))"
    using assms(1,2) by (simp add: bankAddress_eq)
  have "unat (of_nat (unat (address_value a) + i) :: u32) = unat (address_value a) + i"
    using b by (subst unat_of_nat) simp
  then show "unat (address_value a + of_nat i) = unat (address_value a) + i" by simp
qed

text \<open>For a multicast base address and a configuration that \<open>start\<close> accepts, bank i sends to the
  group i addresses further and to the port i strides further, nothing wraps, and different banks
  have different groups.\<close>

theorem bank_endpoints:
  assumes "routing_ok c" "transport_ok c" "ipv4_parse (lc_txAddress c) = Some a" "isMulticast a"
    and "i < unat (lc_streamCount c)" "j < unat (lc_streamCount c)"
  shows "(\<exists>b. length b = 4 \<and> bankAddress (lc_txAddress c) i = ipv4_toString b
        \<and> unat (address_value b) = unat (address_value a) + i)
    \<and> unat (bankPort (lc_txPort c) (lc_portStride c) i) = unat (lc_txPort c) + unat (lc_portStride c) * i
    \<and> (bankAddress (lc_txAddress c) i = bankAddress (lc_txAddress c) j \<longleftrightarrow> i = j)"
proof (intro conjI)
  note g = bank_group [OF assms(3,4) transport_bounds(3) [OF assms(1,2,5)]]
  show "\<exists>b. length b = 4 \<and> bankAddress (lc_txAddress c) i = ipv4_toString b
      \<and> unat (address_value b) = unat (address_value a) + i"
    using g [OF assms(5)] by (intro exI [of _ "address_octets (address_value a + of_nat i)"]) simp
  show "bankAddress (lc_txAddress c) i = bankAddress (lc_txAddress c) j \<longleftrightarrow> i = j"
  proof
    assume "bankAddress (lc_txAddress c) i = bankAddress (lc_txAddress c) j"
    then have "address_value (address_octets (address_value a + of_nat i))
        = address_value (address_octets (address_value a + of_nat j))"
      using g(1) [OF assms(5)] g(1) [OF assms(6)] by (simp only: toString_inj length_octets)
    then show "i = j" using g(2) [OF assms(5)] g(2) [OF assms(6)] by (simp only: value_octets) 
  qed simp
qed (rule bank_port_value(1) [OF assms(1,2,5)])

theorem bank_endpoints_witness:
  "unat (bankPort 5004 2 7) = 5018"
proof -
  let ?c = "default_config\<lparr>lc_streamCount := 8, lc_portStride := 2, lc_interfaceAddress := ''10.0.0.1''\<rparr>"
  have "routing_ok ?c"
    by (simp add: default_config_def routing_ok_def profile_defs supportedAES67ChannelCount_def)
  moreover have "transport_ok ?c"
    using default_groups by (simp add: transport_ok_def default_config_def bankAddress_small)
  ultimately show ?thesis
    using bank_endpoints [of ?c "[239, 69, 83, 81]" 7 7] default_groups
    by (simp add: default_config_def isMulticast_def)
qed

text \<open>Only the emptiness of the last bank's address is checked, so the banks of a group near the end
  of the multicast range get addresses outside it.\<close>

theorem bank_addresses_leave_multicast:
  "transport_ok (default_config\<lparr>lc_txAddress := ''239.255.255.250'', lc_streamCount := 8,
      lc_interfaceAddress := ''10.0.0.1''\<rparr>)
   \<and> bankAddress ''239.255.255.250'' 6 = ipv4_toString [240, 0, 0, 0] \<and> \<not> isMulticast [240, 0, 0, 0]"
proof -
  have "''239.255.255.250'' = ipv4_toString [239, 255, 255, 250]" by code_simp
  then have g: "ipv4_parse ''239.255.255.250'' = Some [239, 255, 255, 250]" by (simp add: parse_toString)
  have v: "address_value [239, 255, 255, 250] = 0xeffffffa" by (simp add: address_value_def)
  have "bankAddress ''239.255.255.250'' 6 = ipv4_toString [240, 0, 0, 0]"
    by (simp add: bankAddress_eq [OF g] isMulticast_def v address_octets_def)
      (rule arg_cong [of _ _ ipv4_toString], simp)
  moreover have "bankAddress ''239.255.255.250'' 7 \<noteq> []"
    by (simp add: bankAddress_eq [OF g] isMulticast_def v toString_nonempty)
  ultimately show ?thesis
    using default_groups by (simp add: transport_ok_def default_config_def bankAddress_small isMulticast_def)
qed

section \<open>The media clock\<close>

lemma timestamp_value:
  assumes "0 \<le> ns" "ns < 2 ^ 63"
  shows "rtpTimestampForNanoseconds ns = of_int (ns * 48 div 1000000)"
proof -
  let ?q = "ns div 1000000000" and ?r = "ns mod 1000000000"
  have q: "0 \<le> ?q" "?q < 9223372037" using assms by auto
  have r: "0 \<le> ?r" "?r < 1000000000" by auto
  have u: "uint (of_int x :: u64) = x" if "0 \<le> x" "x < 2 ^ 64" for x
    using that by (simp add: uint_word_of_int take_bit_int_eq_self)
  have "(of_int ?r :: u64) * 48000 = of_int (?r * 48000)" by simp
  moreover have "(of_int (?r * 48000) :: u64) div 1000000000 = of_int (?r * 48000 div 1000000000)"
    using r u [of "?r * 48000"] u [of "?r * 48000 div 1000000000"] by (simp only: word_uint_eq_iff uint_div) simp
  ultimately have "(of_int ?q :: u64) * 48000 + of_int ?r * 48000 div 1000000000
      = of_int (?q * 48000 + ?r * 48000 div 1000000000)" by simp
  moreover have "?q * 48000 + ?r * 48000 div 1000000000 = ns * 48 div 1000000"
  proof -
    have "ns * 48000 = (?q * 48000) * 1000000000 + ?r * 48000"
      using div_mult_mod_eq [of ns 1000000000] by linarith
    then have "?q * 48000 + ?r * 48000 div 1000000000 = ns * 48000 div 1000000000" by (simp only: div_mult_self3)
    also have "ns * 48000 div 1000000000 = ns * 48 div 1000000"
      using div_mult_mult2 [of 1000 "ns * 48" 1000000] by (simp only: mult.assoc)
    finally show ?thesis .
  qed
  ultimately have samples: "(of_int ?q :: u64) * 48000 + of_int ?r * 48000 div 1000000000
      = of_int (ns * 48 div 1000000)" by (simp only:)
  have "ucast (of_int x :: u64) = (of_int x :: u32)" for x
    by (rule bit_word_eqI) (simp add: bit_ucast_iff bit_word_of_int_iff)
  moreover have "(ucast kSampleRate :: u64) = 48000" by (simp add: kSampleRate_def)
  moreover have "\<not> ns < 0" using assms by simp
  ultimately show ?thesis by (simp only: rtpTimestampForNanoseconds_def Let_def if_False samples)
qed

text \<open>The RTP timestamp of an instant is the number of whole 48 kHz samples since the epoch modulo
  \<open>2 ^ 32\<close>, and packets scheduled k milliseconds apart are stamped exactly 48 k samples apart.\<close>

theorem rtp_timestamp_media_clock:
  assumes "0 \<le> ns" "ns + 1000000 * int k < 2 ^ 63"
  shows "rtpTimestampForNanoseconds ns = of_int (ns * 48000 div 1000000000)
    \<and> rtpTimestampForNanoseconds (ns + 1000000 * int k) = rtpTimestampForNanoseconds ns + of_nat (48 * k)"
proof -
  have "(ns + 1000000 * int k) * 48 div 1000000 = ns * 48 div 1000000 + int (48 * k)"
    by (simp add: algebra_simps)
  moreover have "ns * 48000 div 1000000000 = ns * 48 div 1000000"
    using div_mult_mult2 [of 1000 "ns * 48" 1000000] by simp
  ultimately show ?thesis using assms by (simp add: timestamp_value)
qed

theorem rtp_timestamp_media_clock_witness:
  "rtpTimestampForNanoseconds 1700000000123456789 = of_int (1700000000123456789 * 48000 div 1000000000)"
  using rtp_timestamp_media_clock [of 1700000000123456789 0] by simp

end
