(* ===== verification/Fifo_Interface.thy ===== *)
theory Fifo_Interface
  imports Prelude
begin

text \<open>
  What the two sample rings (SharedAudioRing and SPSCRingBuffer) promise their clients, as a
  locale over the operations, and the modular segments both rings store their queue in.
\<close>

section \<open>Histories\<close>

text \<open>A history of calls on a queue, and what its calls accepted and delivered. The operations
  are arguments, so that the same history functions speak of every ring.\<close>

datatype 'a fifo_call = Write "'a list" | Read "'a list"

type_synonym ('q, 'a) enq_fun = "'q \<Rightarrow> 'a list \<Rightarrow> 'q \<times> nat"
type_synonym ('q, 'a) deq_fun = "'q \<Rightarrow> 'a list \<Rightarrow> 'q \<times> 'a list \<times> nat"

fun fifo_run :: "('q, 'a) enq_fun \<Rightarrow> ('q, 'a) deq_fun \<Rightarrow> 'q \<Rightarrow> 'a fifo_call list \<Rightarrow> 'q" where
  "fifo_run enq deq q [] = q"
| "fifo_run enq deq q (Write xs # ops) = fifo_run enq deq (fst (enq q xs)) ops"
| "fifo_run enq deq q (Read d # ops) = fifo_run enq deq (fst (deq q d)) ops"

fun fifo_accepted :: "('q, 'a) enq_fun \<Rightarrow> ('q, 'a) deq_fun \<Rightarrow> 'q \<Rightarrow> 'a fifo_call list \<Rightarrow> 'a list" where
  "fifo_accepted enq deq q [] = []"
| "fifo_accepted enq deq q (Write xs # ops) =
     take (snd (enq q xs)) xs @ fifo_accepted enq deq (fst (enq q xs)) ops"
| "fifo_accepted enq deq q (Read d # ops) = fifo_accepted enq deq (fst (deq q d)) ops"

fun fifo_delivered :: "('q, 'a) enq_fun \<Rightarrow> ('q, 'a) deq_fun \<Rightarrow> 'q \<Rightarrow> 'a fifo_call list \<Rightarrow> 'a list" where
  "fifo_delivered enq deq q [] = []"
| "fifo_delivered enq deq q (Write xs # ops) = fifo_delivered enq deq (fst (enq q xs)) ops"
| "fifo_delivered enq deq q (Read d # ops) =
     take (snd (snd (deq q d))) (fst (snd (deq q d))) @ fifo_delivered enq deq (fst (deq q d)) ops"

section \<open>The contract\<close>

text \<open>\<open>enq q source\<close> returns the queue and the number of samples accepted;
  \<open>deq q destination\<close> returns the queue, the destination afterwards and the number of
  samples delivered into its prefix.\<close>

locale sample_fifo =
  fixes enq :: "'q \<Rightarrow> 'a list \<Rightarrow> 'q \<times> nat"
    and deq :: "'q \<Rightarrow> 'a list \<Rightarrow> 'q \<times> 'a list \<times> nat"
    and queue :: "'q \<Rightarrow> 'a list"
    and invar :: "'q \<Rightarrow> bool"
    and room :: nat
  assumes queue_bound: "invar q \<Longrightarrow> length (queue q) \<le> room"
    and enq_invar: "invar q \<Longrightarrow> invar (fst (enq q xs))"
    and enq_count: "invar q \<Longrightarrow> snd (enq q xs) = min (length xs) (room - length (queue q))"
    and enq_queue: "invar q \<Longrightarrow> queue (fst (enq q xs)) = queue q @ take (snd (enq q xs)) xs"
    and deq_invar: "invar q \<Longrightarrow> invar (fst (deq q d))"
    and deq_count: "invar q \<Longrightarrow> snd (snd (deq q d)) = min (length d) (length (queue q))"
    and deq_queue: "invar q \<Longrightarrow> queue (fst (deq q d)) = drop (snd (snd (deq q d))) (queue q)"
    and deq_data: "invar q \<Longrightarrow> fst (snd (deq q d))
          = take (snd (snd (deq q d))) (queue q) @ drop (snd (snd (deq q d))) d"
begin

lemma run_invar: "invar q \<Longrightarrow> invar (fifo_run enq deq q ops)"
proof (induction ops arbitrary: q)
  case (Cons c ops)
  then show ?case by (cases c) (simp_all add: enq_invar deq_invar)
qed simp

lemma deq_prefix:
  "invar q \<Longrightarrow> take (snd (snd (deq q d))) (fst (snd (deq q d))) = take (snd (snd (deq q d))) (queue q)"
  by (simp add: deq_data deq_count)

lemma conservation:
  "invar q \<Longrightarrow>
   fifo_delivered enq deq q ops @ queue (fifo_run enq deq q ops) = queue q @ fifo_accepted enq deq q ops"
proof (induction ops arbitrary: q)
  case (Cons c ops)
  then show ?case
    by (cases c) (simp_all add: enq_invar deq_invar enq_queue deq_queue deq_prefix)
qed simp

lemma length_deq: "invar q \<Longrightarrow> length (fst (snd (deq q d))) = length d"
  by (simp add: deq_data deq_count)

lemma enq_then_deq:
  assumes "invar q" "queue q = []" "length xs \<le> room" "length d = length xs"
  shows "snd (deq (fst (enq q xs)) d) = (xs, length xs)"
proof -
  have "queue (fst (enq q xs)) = xs"
    using assms by (simp add: enq_queue enq_count)
  with assms have "snd (snd (deq (fst (enq q xs)) d)) = length xs"
      and "fst (snd (deq (fst (enq q xs)) d)) = xs"
    by (simp_all add: enq_invar deq_count deq_data)
  then show ?thesis by (metis prod.collapse)
qed

end

section \<open>Segments of a circular buffer\<close>

definition seg :: "nat \<Rightarrow> 'a list \<Rightarrow> nat \<Rightarrow> nat \<Rightarrow> 'a list" where
  "seg cap buf r n = map (\<lambda>i. buf ! ((r + i) mod cap)) [0..<n]"

definition ring_store :: "nat \<Rightarrow> 'a list \<Rightarrow> nat \<Rightarrow> 'a list \<Rightarrow> nat \<Rightarrow> 'a list" where
  "ring_store cap buf w src c = fold (\<lambda>i b. b[(w + i) mod cap := src ! i]) [0..<c] buf"

lemma length_seg [simp]: "length (seg cap buf r n) = n"
  by (simp add: seg_def)

lemma nth_seg [simp]: "i < n \<Longrightarrow> seg cap buf r n ! i = buf ! ((r + i) mod cap)"
  by (simp add: seg_def)

lemma length_ring_store [simp]: "length (ring_store cap buf w src c) = length buf"
  by (simp add: ring_store_def)

lemma seg_mod [simp]: "seg cap buf (r mod cap) n = seg cap buf r n"
  by (simp add: seg_def mod_add_left_eq)

lemma ring_store_mod [simp]: "ring_store cap buf (w mod cap) src c = ring_store cap buf w src c"
  by (simp add: ring_store_def mod_add_left_eq)

lemma drop_seg: "drop k (seg cap buf r n) = seg cap buf (r + k) (n - k)"
  by (rule nth_equalityI) (simp_all add: add.assoc)

lemma take_seg: "take k (seg cap buf r n) = seg cap buf r (min k n)"
  by (rule nth_equalityI) simp_all

lemma mod_offset_inj:
  "(a + i) mod cap = (a + j) mod cap \<Longrightarrow> i < cap \<Longrightarrow> j < cap \<Longrightarrow> i = (j::nat)"
proof (induction i j rule: linorder_wlog)
  case (le i j)
  then have "cap dvd (a + j) - (a + i)"
    by (metis add_left_mono mod_eq_dvd_iff_nat)
  with le show ?case by (auto dest: dvd_imp_le)
next
  case (sym i j)
  then show ?case by simp
qed

lemma ring_store_nth_new:
  assumes "c \<le> cap" "length buf = cap" "j < c"
  shows "ring_store cap buf w src c ! ((w + j) mod cap) = src ! j"
  unfolding ring_store_def
proof (rule nth_fold_update [where ix = "\<lambda>i. (w + i) mod cap" and f = "\<lambda>i. src ! i"])
  show "inj_on (\<lambda>i. (w + i) mod cap) (set [0..<c])"
    using assms by (auto simp: inj_on_def dest: mod_offset_inj)
qed (use assms in auto)

lemma ring_store_nth_old:
  assumes "n + c \<le> cap" "i < n"
  shows "ring_store cap buf (r + n) src c ! ((r + i) mod cap) = buf ! ((r + i) mod cap)"
  unfolding ring_store_def
proof (rule nth_fold_update_other)
  fix j
  assume "j \<in> set [0..<c]"
  with assms show "(r + n + j) mod cap \<noteq> (r + i) mod cap"
    using mod_offset_inj [of r "n + j" cap i] by (auto simp: add.assoc)
qed

text \<open>Storing behind the segment appends to it.\<close>

lemma seg_ring_store:
  assumes "n + c \<le> cap" "length buf = cap" "c \<le> length src"
  shows "seg cap (ring_store cap buf (r + n) src c) r (n + c) = seg cap buf r n @ take c src"
proof (rule nth_equalityI)
  fix i
  assume "i < length (seg cap (ring_store cap buf (r + n) src c) r (n + c))"
  then have i: "i < n + c" by simp
  show "seg cap (ring_store cap buf (r + n) src c) r (n + c) ! i = (seg cap buf r n @ take c src) ! i"
  proof (cases "i < n")
    case True
    with assms i show ?thesis by (simp add: ring_store_nth_old nth_append)
  next
    case False
    then have eq: "r + n + (i - n) = r + i" by simp
    have "ring_store cap buf (r + n) src c ! ((r + n + (i - n)) mod cap) = src ! (i - n)"
      using assms False i by (intro ring_store_nth_new) auto
    with False assms i show ?thesis
      by (simp add: nth_append eq)
  qed
qed (use assms in simp)

text \<open>A loop that fills the prefix of a destination.\<close>

lemma fold_prefix_fill:
  "c \<le> length d \<Longrightarrow> fold (\<lambda>i d. d[i := f i]) [0..<c] d = map f [0..<c] @ drop c d"
proof (induction c)
  case 0
  then show ?case by simp
next
  case (Suc c)
  then show ?case
    by (simp add: list_update_append Cons_nth_drop_Suc [symmetric])
qed

end
