(* ===== verification/Shared_Ring.thy ===== *)
theory Shared_Ring
  imports Fifo_Interface Constants
begin

text \<open>
  \<open>SharedAudioRing\<close> of Sources/Core/SharedAudioMemory.hpp and SharedAudioRing.cpp: free-running
  64-bit indices over 8192 samples. Each call is modelled as one step; the interleaving of the
  two sides is the subject of the theory \<open>Ring_Interleaving\<close>.
\<close>

definition kSharedRingCapacity :: nat where "kSharedRingCapacity = 8192"

record 'a shared_ring =
  writeIndex :: u64
  readIndex :: u64
  samples :: "'a list"

definition new_ring :: "'a \<Rightarrow> 'a shared_ring" where
  "new_ring z = \<lparr> writeIndex = 0, readIndex = 0, samples = replicate kSharedRingCapacity z \<rparr>"

definition ring_write :: "'a shared_ring \<Rightarrow> 'a list \<Rightarrow> 'a shared_ring \<times> nat" where
  "ring_write q source =
     (let used = unat (writeIndex q - readIndex q);
          count = min (length source) (kSharedRingCapacity - min used kSharedRingCapacity)
      in (q\<lparr>samples := fold (\<lambda>i b. b[unat (writeIndex q + of_nat i) mod kSharedRingCapacity := source ! i])
                        [0..<count] (samples q),
            writeIndex := writeIndex q + of_nat count\<rparr>, count))"

definition ring_read :: "'a shared_ring \<Rightarrow> 'a list \<Rightarrow> 'a shared_ring \<times> 'a list \<times> nat" where
  "ring_read q destination =
     (let count = min (length destination) (unat (writeIndex q - readIndex q))
      in (q\<lparr>readIndex := readIndex q + of_nat count\<rparr>,
          fold (\<lambda>i d. d[i := samples q ! (unat (readIndex q + of_nat i) mod kSharedRingCapacity)])
            [0..<count] destination,
          count))"

definition ring_available :: "'a shared_ring \<Rightarrow> nat" where
  "ring_available q = unat (writeIndex q - readIndex q)"

definition ring_resetWhenIdle :: "'a shared_ring \<Rightarrow> 'a shared_ring" where
  "ring_resetWhenIdle q = q\<lparr>readIndex := 0, writeIndex := 0\<rparr>"

definition ring_inv :: "'a shared_ring \<Rightarrow> bool" where
  "ring_inv q \<longleftrightarrow> length (samples q) = kSharedRingCapacity
     \<and> unat (writeIndex q - readIndex q) \<le> kSharedRingCapacity"

definition ring_queue :: "'a shared_ring \<Rightarrow> 'a list" where
  "ring_queue q = seg kSharedRingCapacity (samples q) (unat (readIndex q)) (ring_available q)"

section \<open>Free-running indices\<close>

text \<open>The capacity divides \<open>2 ^ 64\<close>, so a wrapped index addresses the same slot.\<close>

lemma unat_add_mod_capacity:
  "unat (w + of_nat i :: u64) mod kSharedRingCapacity = (unat w + i) mod kSharedRingCapacity"
proof -
  have "unat (w + of_nat i) = (unat w + i) mod 2 ^ 64"
    by (simp add: unat_word_ariths unat_of_nat mod_simps)
  moreover have "kSharedRingCapacity dvd (2::nat) ^ 64"
    by (simp add: kSharedRingCapacity_def)
  ultimately show ?thesis by (simp add: mod_mod_cancel)
qed

lemma unat_index_gap:
  "(unat (w :: u64) mod kSharedRingCapacity) = (unat r + unat (w - r)) mod kSharedRingCapacity"
  using unat_add_mod_capacity [of r "unat (w - r)"] by simp

lemma gap_after_write:
  assumes "unat (w - r :: u64) + c \<le> kSharedRingCapacity"
  shows "unat (w + of_nat c - r) = unat (w - r) + c"
proof -
  have "unat ((w - r) + of_nat c) = (unat (w - r) + c) mod 2 ^ 64"
    by (simp add: unat_word_ariths unat_of_nat mod_simps)
  moreover have "unat (w - r) + c < 2 ^ 64"
    using assms by (simp add: kSharedRingCapacity_def)
  moreover have "w - r + of_nat c = w + of_nat c - r" by simp
  ultimately show ?thesis by (metis mod_less)
qed

lemma gap_after_read:
  assumes "c \<le> unat (w - r :: u64)"
  shows "unat (w - (r + of_nat c)) = unat (w - r) - c"
proof -
  have c: "c < 2 ^ 64"
    using assms unat_bound [of "w - r"] by simp
  then have "of_nat c \<le> w - r"
    using assms by (simp add: word_le_nat_alt unat_of_nat)
  then have "unat (w - r - of_nat c) = unat (w - r) - c"
    using c by (simp add: unat_sub unat_of_nat)
  then show ?thesis by (simp add: algebra_simps)
qed

lemma ring_store_write_index:
  "fold (\<lambda>i b. b[unat (w + of_nat i) mod kSharedRingCapacity := src ! i]) [0..<c] buf
   = ring_store kSharedRingCapacity buf (unat (r :: u64) + unat (w - r)) src c"
proof -
  have "unat (w + of_nat i) mod kSharedRingCapacity
      = (unat r + unat (w - r) + i) mod kSharedRingCapacity" for i
    by (metis mod_add_left_eq unat_add_mod_capacity unat_index_gap)
  then show ?thesis by (simp add: ring_store_def)
qed

section \<open>The ring implements the contract\<close>

lemma ring_write_count:
  "ring_inv q \<Longrightarrow> snd (ring_write q xs) = min (length xs) (kSharedRingCapacity - length (ring_queue q))"
  by (simp add: ring_write_def ring_inv_def ring_queue_def ring_available_def Let_def)

lemma ring_write_inv: "ring_inv q \<Longrightarrow> ring_inv (fst (ring_write q xs))"
  by (auto simp: ring_write_def ring_inv_def Let_def gap_after_write)

lemma ring_write_queue:
  assumes "ring_inv q"
  shows "ring_queue (fst (ring_write q xs)) = ring_queue q @ take (snd (ring_write q xs)) xs"
proof -
  let ?g = "unat (writeIndex q - readIndex q)"
  let ?c = "snd (ring_write q xs)"
  have c: "?c = min (length xs) (kSharedRingCapacity - ?g)" "?g \<le> kSharedRingCapacity"
    using assms by (simp_all add: ring_write_count ring_queue_def ring_available_def ring_inv_def)
  have "ring_queue (fst (ring_write q xs))
      = seg kSharedRingCapacity
          (ring_store kSharedRingCapacity (samples q) (unat (readIndex q) + ?g) xs ?c)
          (unat (readIndex q)) (?g + ?c)"
    using c by (simp add: ring_write_def Let_def ring_queue_def ring_available_def gap_after_write
        ring_store_write_index [where r = "readIndex q"])
  also have "\<dots> = seg kSharedRingCapacity (samples q) (unat (readIndex q)) ?g @ take ?c xs"
    using c assms by (intro seg_ring_store) (auto simp: ring_inv_def)
  finally show ?thesis by (simp add: ring_queue_def ring_available_def)
qed

lemma ring_read_count: "snd (snd (ring_read q d)) = min (length d) (length (ring_queue q))"
  by (simp add: ring_read_def ring_queue_def ring_available_def Let_def)

lemma ring_read_inv: "ring_inv q \<Longrightarrow> ring_inv (fst (ring_read q d))"
  by (auto simp: ring_read_def ring_inv_def Let_def gap_after_read)

lemma ring_read_queue:
  "ring_queue (fst (ring_read q d)) = drop (snd (snd (ring_read q d))) (ring_queue q)"
proof -
  let ?c = "min (length d) (unat (writeIndex q - readIndex q))"
  have "seg kSharedRingCapacity b (unat (readIndex q + of_nat ?c)) n
      = seg kSharedRingCapacity b (unat (readIndex q) + ?c) n" for b :: "'a list" and n
    by (metis seg_mod unat_add_mod_capacity)
  then show ?thesis
    by (simp add: ring_read_def Let_def ring_queue_def ring_available_def drop_seg gap_after_read)
qed

lemma ring_read_data:
  "fst (snd (ring_read q d)) =
     take (snd (snd (ring_read q d))) (ring_queue q) @ drop (snd (snd (ring_read q d))) d"
  by (simp add: ring_read_def Let_def ring_queue_def ring_available_def fold_prefix_fill take_seg
      unat_add_mod_capacity) (simp add: seg_def)

interpretation shared: sample_fifo ring_write ring_read ring_queue ring_inv kSharedRingCapacity
  by unfold_locales
    (simp_all add: ring_write_inv ring_write_count ring_write_queue ring_read_inv ring_read_count
      ring_read_queue ring_read_data, simp add: ring_inv_def ring_queue_def ring_available_def)

lemma new_ring_inv: "ring_inv (new_ring z)"
  by (simp add: new_ring_def ring_inv_def)

lemma new_ring_queue: "ring_queue (new_ring z) = []"
  by (simp add: new_ring_def ring_queue_def ring_available_def seg_def)

lemma reset_ring:
  "ring_inv q \<Longrightarrow> ring_inv (ring_resetWhenIdle q) \<and> ring_queue (ring_resetWhenIdle q) = []"
  by (simp add: ring_resetWhenIdle_def ring_inv_def ring_queue_def ring_available_def seg_def)

text \<open>Whatever sequence of calls a fresh shared ring serves, with blocks of any sizes, the samples
  its readers received followed by the samples still queued are exactly the samples its writers
  had accepted, in order: nothing is lost, repeated, reordered or invented.\<close>

theorem shared_ring_conservation:
  "fifo_delivered ring_write ring_read (new_ring z) ops
     @ ring_queue (fifo_run ring_write ring_read (new_ring z) ops)
   = fifo_accepted ring_write ring_read (new_ring z) ops"
  using shared.conservation [OF new_ring_inv] by (simp add: new_ring_queue)

text \<open>A shared ring with room takes a whole block, and a reader that asks for as many samples
  gets exactly that block; the ring accepts no more than 8192 samples at once.\<close>

theorem shared_ring_block_transfer:
  assumes "ring_inv q" "ring_queue q = []" "length xs \<le> kSharedRingCapacity" "length d = length xs"
  shows "snd (ring_write q xs) = length xs
    \<and> snd (ring_read (fst (ring_write q xs)) d) = (xs, length xs)"
  using shared.enq_then_deq [OF assms] shared.enq_count [OF assms(1)] assms by simp

theorem shared_ring_block_transfer_witness:
  "snd (ring_write (new_ring 0) [1, 2, 3, (4::int)]) = 4
   \<and> snd (ring_read (fst (ring_write (new_ring 0) [1, 2, 3, (4::int)])) [0, 0, 0, 0]) = ([1, 2, 3, 4], 4)"
  using shared_ring_block_transfer [OF new_ring_inv new_ring_queue, of "[1, 2, 3, (4::int)]" "[0, 0, 0, 0]" 0]
  by (simp add: kSharedRingCapacity_def)

end
