(* ===== verification/L24_Codec.thy ===== *)
theory L24_Codec
  imports Prelude Complex_Main "HOL-Library.Log_Nat"
begin

text \<open>
  Sources/Core/L24Codec.cpp: conversion between \<open>float\<close> samples and 24-bit big-endian PCM. A
  \<open>float\<close> is a rational, an infinity or a NaN (the sign of zero plays no role here); arithmetic
  rounds to nearest, ties to even, with 53 significant bits for \<open>double\<close> and 24 for \<open>float\<close>. All
  magnitudes are far from the ends of the exponent ranges. What \<open>lrint\<close> returns for a NaN is not
  specified by C++ and is a parameter.
\<close>

section \<open>Floating point\<close>

datatype f32 = Fin rat | PosInf | NegInf | NaN

definition pow2 :: "int \<Rightarrow> rat" where
  "pow2 e = (if 0 \<le> e then 2 ^ nat e else 1 / 2 ^ nat (- e))"

text \<open>Round half to even, and the binary exponent of a positive rational.\<close>

definition round_even :: "rat \<Rightarrow> int" where
  "round_even y = (let f = \<lfloor>y\<rfloor>; r = y - of_int f
     in if r < 1 / 2 then f else if r > 1 / 2 then f + 1 else if even f then f else f + 1)"

definition exponent :: "rat \<Rightarrow> int" where
  "exponent y = (case quotient_of y of (n, d) \<Rightarrow>
     let k = bitlen n - bitlen d in if pow2 k \<le> y then k else k - 1)"

definition round_to :: "nat \<Rightarrow> rat \<Rightarrow> rat" where
  "round_to p x = (if x = 0 then 0
     else let ulp = pow2 (exponent \<bar>x\<bar> - int p + 1) in of_int (round_even (x / ulp)) * ulp)"

abbreviation to_double :: "rat \<Rightarrow> rat" where "to_double \<equiv> round_to 53"
abbreviation to_float :: "rat \<Rightarrow> rat" where "to_float \<equiv> round_to 24"

section \<open>The code\<close>

text \<open>\<open>std::clamp(sample, -1, 1)\<close>: a NaN compares false with both bounds and is returned.\<close>

definition clamp_sample :: "f32 \<Rightarrow> f32" where
  "clamp_sample s = (case s of
     Fin x \<Rightarrow> if x < - 1 then Fin (- 1) else if 1 < x then Fin 1 else Fin x
   | PosInf \<Rightarrow> Fin 1 | NegInf \<Rightarrow> Fin (- 1) | NaN \<Rightarrow> NaN)"

definition to_pcm :: "int \<Rightarrow> f32 \<Rightarrow> int" where
  "to_pcm lrint_nan s = (case clamp_sample s of
     Fin value \<Rightarrow> if value \<le> - 1 then - 8388608 else round_even (to_double (value * 8388607))
   | _ \<Rightarrow> lrint_nan)"

definition pcm_bytes :: "int \<Rightarrow> bytes" where
  "pcm_bytes pcm = (let bits = (word_of_int pcm :: u32)
     in [ucast (drop_bit 16 bits AND 0xff), ucast (drop_bit 8 bits AND 0xff), ucast (bits AND 0xff)])"

definition l24_encode :: "int \<Rightarrow> f32 list \<Rightarrow> bytes \<Rightarrow> bool \<times> bytes" where
  "l24_encode lrint_nan samples bs =
     (if length bs \<noteq> length samples * 3 then (False, bs)
      else (True, concat (map (\<lambda>s. pcm_bytes (to_pcm lrint_nan s)) samples)))"

definition bytes_pcm :: "u8 \<Rightarrow> u8 \<Rightarrow> u8 \<Rightarrow> int" where
  "bytes_pcm b0 b1 b2 =
     (let raw = (push_bit 16 (ucast b0) OR push_bit 8 (ucast b1) OR ucast b2 :: u32);
          raw' = (if raw AND 0x00800000 \<noteq> 0 then raw OR 0xff000000 else raw)
      in sint raw')"

definition from_pcm :: "int \<Rightarrow> f32" where
  "from_pcm pcm = (if pcm < 0 then Fin (to_float (to_double (of_int pcm / 8388608)))
     else Fin (to_float (to_double (of_int pcm / 8388607))))"

fun l24_samples :: "bytes \<Rightarrow> f32 list" where
  "l24_samples (b0 # b1 # b2 # rest) = from_pcm (bytes_pcm b0 b1 b2) # l24_samples rest"
| "l24_samples _ = []"

definition l24_decode :: "bytes \<Rightarrow> f32 list \<Rightarrow> bool \<times> f32 list" where
  "l24_decode bs samples =
     (if length bs \<noteq> length samples * 3 then (False, samples) else (True, l24_samples bs))"

section \<open>Rounding\<close>

lemma pow2_pos [simp]: "0 < pow2 e"
  by (simp add: pow2_def)

lemma pow2_nonneg [simp]: "0 \<le> pow2 e"
  by (simp add: less_imp_le)

lemma abs_pow2 [simp]: "\<bar>pow2 e\<bar> = pow2 e"
  by (simp add: less_imp_le)

lemma pow2_add: "pow2 (a + b) = pow2 a * pow2 b"
proof -
  have "pow2 e = 2 powi e" for e
    by (simp add: pow2_def power_int_def field_simps)
  then show ?thesis by (simp add: power_int_add)
qed

lemma near_trans: "\<bar>a - b\<bar> \<le> e \<Longrightarrow> \<bar>b - c\<bar> \<le> f \<Longrightarrow> \<bar>a - c\<bar> \<le> e + f" for a :: rat
  unfolding abs_le_iff by linarith

lemma round_even_near: "\<bar>of_int (round_even y) - y\<bar> \<le> 1 / 2"
proof -
  define f r where "f = \<lfloor>y\<rfloor>" and "r = y - of_int f"
  have r: "0 \<le> r" "r < 1" unfolding f_def r_def by linarith+
  have y: "y = of_int f + r" by (simp add: r_def)
  have "round_even y = (if r < 1 / 2 then f else if r > 1 / 2 then f + 1 else if even f then f else f + 1)"
    by (simp only: round_even_def Let_def f_def r_def)
  then have "round_even y = f \<and> r \<le> 1 / 2 \<or> round_even y = f + 1 \<and> 1 / 2 \<le> r"
    by (simp split: if_splits)
  with r show ?thesis by (auto simp: y)
qed

lemma round_even_unique:
  assumes "\<bar>of_int n - y\<bar> < 1 / 2"
  shows "round_even y = n"
proof -
  have "\<bar>of_int (round_even y) - of_int n :: rat\<bar> < 1"
    using assms round_even_near [of y] by linarith
  then have "\<bar>round_even y - n\<bar> < 1" by (metis of_int_1 of_int_abs of_int_diff of_int_less_iff)
  then show ?thesis by simp
qed

lemma round_even_int [simp]: "round_even (of_int n) = n"
  by (rule round_even_unique) simp

lemma bitlen_pow2:
  assumes "0 < n"
  shows "pow2 (bitlen n - 1) \<le> of_int n" "of_int n < pow2 (bitlen n)"
proof -
  have b: "0 < bitlen n" "2 ^ nat (bitlen n - 1) \<le> n" "n < 2 ^ nat (bitlen n)"
    using assms bitlen_bounds [OF assms] bitlen_nonneg [of n] bitlen_eq_zero_iff [of n] by auto
  have "of_int (2 ^ nat (bitlen n - 1)) \<le> (of_int n :: rat)" "(of_int n :: rat) < of_int (2 ^ nat (bitlen n))"
    using b(2,3) by (simp_all only: of_int_le_iff of_int_less_iff)
  with b(1) show "pow2 (bitlen n - 1) \<le> of_int n" "of_int n < pow2 (bitlen n)"
    by (simp_all add: pow2_def)
qed

lemma exponent_le:
  assumes "0 < y"
  shows "pow2 (exponent y) \<le> y"
proof -
  obtain n d where q: "quotient_of y = (n, d)" by (cases "quotient_of y")
  have d: "0 < d" using quotient_of_denom_pos [OF q] .
  have y: "y = of_int n / of_int d" using quotient_of_div [OF q] .
  with assms d have n: "0 < n" by (simp add: zero_less_divide_iff)
  have "pow2 (bitlen n - bitlen d - 1) * of_int d \<le> pow2 (bitlen n - bitlen d - 1) * pow2 (bitlen d)"
    using bitlen_pow2(2) [OF d] by (intro mult_left_mono) (simp_all add: less_imp_le)
  also have "\<dots> = pow2 (bitlen n - 1)" by (simp add: pow2_add [symmetric])
  also have "\<dots> \<le> of_int n" by (rule bitlen_pow2(1) [OF n])
  finally have "pow2 (bitlen n - bitlen d - 1) \<le> y" using d by (simp add: y field_simps)
  then show ?thesis by (simp add: exponent_def q Let_def)
qed

text \<open>Rounding to \<open>p\<close> significant bits is exact up to half a unit, so to a relative error of \<open>2 ^ - p\<close>.\<close>

lemma round_to_error: "\<bar>round_to p x - x\<bar> \<le> \<bar>x\<bar> * pow2 (- int p)"
proof (cases "x = 0")
  case False
  define ulp where "ulp = pow2 (exponent \<bar>x\<bar> - int p + 1)"
  have pos: "0 < ulp" by (simp add: ulp_def)
  have "round_to p x - x = (of_int (round_even (x / ulp)) - x / ulp) * ulp"
    using False pos by (simp only: round_to_def if_False Let_def ulp_def [symmetric]) (simp add: left_diff_distrib)
  then have "\<bar>round_to p x - x\<bar> = \<bar>of_int (round_even (x / ulp)) - x / ulp\<bar> * ulp"
    using pos by (simp add: abs_mult)
  also have "\<dots> \<le> 1 / 2 * ulp"
    using round_even_near [of "x / ulp"] pos by (intro mult_right_mono) auto
  also have "\<dots> = pow2 (exponent \<bar>x\<bar>) * pow2 (- int p)"
  proof -
    have "ulp = pow2 (exponent \<bar>x\<bar>) * pow2 (- int p) * pow2 1"
      by (simp add: ulp_def pow2_add [symmetric])
    then show ?thesis by (simp add: pow2_def)
  qed
  also have "\<dots> \<le> \<bar>x\<bar> * pow2 (- int p)"
    using False by (intro mult_right_mono exponent_le) (simp_all add: less_imp_le)
  finally show ?thesis .
qed (simp add: round_to_def)

text \<open>A number with at most \<open>p\<close> significant bits is kept.\<close>

lemma round_to_exact:
  assumes "x = of_int m * pow2 e" "\<bar>m\<bar> < 2 ^ p"
  shows "round_to p x = x"
proof (cases "x = 0")
  case False
  define ulp where "ulp = pow2 (exponent \<bar>x\<bar> - int p + 1)"
  have pos: "0 < ulp" by (simp add: ulp_def)
  have "pow2 (exponent \<bar>x\<bar>) \<le> \<bar>x\<bar>" using False by (intro exponent_le) simp
  also have "\<dots> = of_int \<bar>m\<bar> * pow2 e" using assms(1) by (simp add: abs_mult)
  also have "\<dots> < pow2 (int p) * pow2 e"
  proof (rule mult_strict_right_mono)
    have "of_int \<bar>m\<bar> < (of_int (2 ^ p) :: rat)" using assms(2) by (simp only: of_int_less_iff)
    then show "of_int \<bar>m\<bar> < pow2 (int p)" by (simp add: pow2_def)
  qed simp
  finally have "pow2 (exponent \<bar>x\<bar>) < pow2 (int p + e)" by (simp add: pow2_add)
  then have "exponent \<bar>x\<bar> < int p + e"
  proof (rule contrapos_pp)
    assume "\<not> exponent \<bar>x\<bar> < int p + e"
    then obtain k where "exponent \<bar>x\<bar> = int p + e + int k" using zle_iff_zadd by fastforce
    then have "pow2 (exponent \<bar>x\<bar>) = pow2 (int p + e) * 2 ^ k" by (simp add: pow2_add) (simp add: pow2_def)
    then show "\<not> pow2 (exponent \<bar>x\<bar>) < pow2 (int p + e)" by (simp add: not_less)
  qed
  then obtain k where k: "e = exponent \<bar>x\<bar> - int p + 1 + int k"
    using zle_iff_zadd [of "exponent \<bar>x\<bar> - int p + 1" e] by auto
  then have "pow2 e = ulp * 2 ^ k" by (simp add: ulp_def pow2_add) (simp add: pow2_def)
  then have "x / ulp = of_int (m * 2 ^ k)" using assms(1) pos by simp
  then show ?thesis
    using False pos by (simp only: round_to_def if_False Let_def ulp_def [symmetric] round_even_int)
      (metis nonzero_mult_div_cancel_right less_irrefl times_divide_eq_left)
qed (simp add: round_to_def)

section \<open>Bytes\<close>

lemma pcm_bits:
  assumes "- (2 ^ 23) \<le> pcm" "pcm < 2 ^ 23"
  shows "bit (word_of_int pcm :: u32) n \<longleftrightarrow> n < 32 \<and> bit pcm (min 23 n)"
proof -
  have "signed_take_bit 23 pcm = pcm" using assms by (simp add: signed_take_bit_int_eq_self)
  then have "bit pcm n = bit (signed_take_bit 23 pcm) n" by simp
  also have "\<dots> = bit pcm (min 23 n)" by (simp add: bit_signed_take_bit_iff)
  finally have "bit pcm n = bit pcm (min 23 n)" .
  then show ?thesis by (simp add: bit_word_of_int_iff)
qed

lemma sign_bit: "(raw :: u32) AND 0x00800000 \<noteq> 0 \<longleftrightarrow> bit raw 23"
proof -
  have "0x00800000 = (2 ^ 23 :: u32)" by simp
  then show ?thesis by (simp only: and_exp_eq_0_iff_not_bit) simp
qed

lemma pcm_bytes_roundtrip:
  assumes "- (2 ^ 23) \<le> pcm" "pcm < 2 ^ 23"
  shows "\<exists>b0 b1 b2. pcm_bytes pcm = [b0, b1, b2] \<and> bytes_pcm b0 b1 b2 = pcm"
proof -
  define bits where "bits = (word_of_int pcm :: u32)"
  define b0 b1 b2 where "b0 = (ucast (drop_bit 16 bits AND 0xff) :: u8)"
    and "b1 = (ucast (drop_bit 8 bits AND 0xff) :: u8)" and "b2 = (ucast (bits AND 0xff) :: u8)"
  have ff: "bit (0xff :: u32) n \<longleftrightarrow> n < 8" for n
  proof -
    have "(0xff :: u32) = mask 8" by (simp add: mask_eq_exp_minus_1)
    then show ?thesis by (simp only: bit_mask_iff) auto
  qed
  have hi: "bit (0xff000000 :: u32) n \<longleftrightarrow> 24 \<le> n \<and> n < 32" for n
  proof -
    have "(0xff000000 :: u32) = push_bit 24 (mask 8)" by (simp add: mask_eq_exp_minus_1 push_bit_eq_mult)
    then show ?thesis by (simp only: bit_push_bit_iff bit_mask_iff) auto
  qed
  define raw where "raw = (push_bit 16 (ucast b0) OR push_bit 8 (ucast b1) OR ucast b2 :: u32)"
  have raw: "bit raw n \<longleftrightarrow> n < 24 \<and> bit bits n" for n
    unfolding raw_def b0_def b1_def b2_def bit_or_iff bit_push_bit_iff bit_ucast_iff bit_and_iff ff bit_drop_bit_eq
    by (cases "n < 8"; cases "n < 16"; cases "n < 24") auto
  have "(if raw AND 0x00800000 \<noteq> 0 then raw OR 0xff000000 else raw) = bits"
  proof (rule bit_word_eqI)
    fix n assume "n < LENGTH(32)"
    then show "bit (if raw AND 0x00800000 \<noteq> 0 then raw OR 0xff000000 else raw) n = bit bits n"
      using pcm_bits [OF assms, of n] pcm_bits [OF assms, of 23]
      unfolding sign_bit if_distrib [of "\<lambda>w. bit w n"] bit_or_iff hi raw bits_def [symmetric]
      by (auto simp: min_def)
  qed
  moreover have "sint bits = pcm"
    using assms by (simp add: bits_def sint_sbintrunc' signed_take_bit_int_eq_self)
  ultimately have "bytes_pcm b0 b1 b2 = pcm"
    by (simp only: bytes_pcm_def Let_def raw_def)
  moreover have "pcm_bytes pcm = [b0, b1, b2]"
    by (simp add: pcm_bytes_def Let_def bits_def b0_def b1_def b2_def)
  ultimately show ?thesis by blast
qed

section \<open>Samples\<close>

text \<open>Both roundings of a decoded positive value and the rounding of the product stay, together, below
  half a step.\<close>

lemma round_double_near:
  assumes "0 \<le> x" "x \<le> 2 ^ 23"
  shows "\<bar>to_double x - x\<bar> \<le> 1 / 2 ^ 30"
proof -
  have "\<bar>to_double x - x\<bar> \<le> x * pow2 (- 53)" using round_to_error [of 53 x] assms by simp
  also have "\<dots> \<le> 2 ^ 23 * pow2 (- 53)" using assms by (intro mult_right_mono) simp_all
  finally show ?thesis by (simp add: pow2_def)
qed

lemma decoded_positive:
  assumes "0 \<le> n" "n < 2 ^ 23"
  shows "\<bar>to_float (to_double (of_int n / 8388607)) * 8388607 - of_int n\<bar> \<le> 1 / 2 - 1 / 2 ^ 25"
proof -
  define v :: rat where "v = of_int n / 8388607"
  define d where "d = to_double v"
  have v: "0 \<le> v" "v * 8388607 = of_int n" using assms by (simp_all add: v_def)
  have n: "(of_int n :: rat) \<le> 8388607" using assms by simp
  have e: "\<bar>d - v\<bar> \<le> v / 2 ^ 53" using round_to_error [of 53 v] v by (simp add: d_def pow2_def)
  then have "\<bar>d\<bar> \<le> v + v / 2 ^ 53" using v by linarith
  moreover have "\<bar>to_float d - d\<bar> \<le> \<bar>d\<bar> / 2 ^ 24" using round_to_error [of 24 d] by (simp add: pow2_def)
  ultimately have "\<bar>to_float d - v\<bar> \<le> v / 2 ^ 53 + (v + v / 2 ^ 53) / 2 ^ 24"
    using e abs_triangle_ineq [of "to_float d - d" "d - v"] by simp
  then have "\<bar>to_float d - v\<bar> * 8388607 \<le> (v / 2 ^ 53 + (v + v / 2 ^ 53) / 2 ^ 24) * 8388607"
    by (rule mult_right_mono) simp
  also have "\<dots> = of_int n / 2 ^ 53 + (of_int n + of_int n / 2 ^ 53) / 2 ^ 24"
    by (simp only: v(2) [symmetric] add_divide_distrib distrib_right times_divide_eq_left)
  also have "\<dots> \<le> 1 / 2 - 1 / 2 ^ 25" using n by simp
  also have "\<bar>to_float d - v\<bar> * 8388607 = \<bar>to_float d * 8388607 - of_int n\<bar>"
    by (simp only: v(2) [symmetric] left_diff_distrib [symmetric] abs_mult abs_numeral)
  finally show ?thesis by (simp add: d_def v_def)
qed

lemma to_pcm_positive:
  assumes "0 \<le> n" "n < 2 ^ 23"
  shows "to_pcm z (from_pcm n) = n"
proof (cases "n = 8388607")
  have one: "to_double 1 = 1" "to_float 1 = 1"
    by (rule round_to_exact [where m = 1 and e = 0]; simp add: pow2_def)+
  have full: "to_double 8388607 = 8388607"
    by (rule round_to_exact [where m = 8388607 and e = 0]; simp add: pow2_def)
  case True
  then show ?thesis
    using one full round_even_int [of 8388607] by (simp add: from_pcm_def to_pcm_def clamp_sample_def)
next
  case False
  define x where "x = to_float (to_double (of_int n / 8388607))"
  have err: "\<bar>x * 8388607 - of_int n\<bar> \<le> 1 / 2 - 1 / 2 ^ 25"
    using decoded_positive [OF assms] by (simp add: x_def)
  have n: "(of_int n :: rat) \<le> 8388606" "(0::rat) \<le> of_int n"
    using assms False by simp_all
  have "\<bar>x * 8388607 - of_int n\<bar> \<le> 1 / 2" using err by (rule order_trans) simp
  then have le: "x * 8388607 - of_int n \<le> 1 / 2" "- (x * 8388607 - of_int n) \<le> 1 / 2"
    by (simp_all only: abs_le_iff)
  have x1: "x < 1" using le n by linarith
  have x0: "- 1 < x" using le n by linarith
  note x = x1 x0
  have "\<bar>to_double (x * 8388607) - x * 8388607\<bar> \<le> \<bar>x * 8388607\<bar> * pow2 (- 53)"
    using round_to_error [of 53 "x * 8388607"] by simp
  also have "\<dots> \<le> 2 ^ 23 * pow2 (- 53)"
    using x by (intro mult_right_mono) (simp_all add: abs_le_iff less_imp_le)
  also have "\<dots> \<le> 1 / 2 ^ 30" by (simp add: pow2_def)
  finally have "\<bar>to_double (x * 8388607) - x * 8388607\<bar> \<le> 1 / 2 ^ 30" .
  from near_trans [OF this err] have "\<bar>of_int n - to_double (x * 8388607)\<bar> \<le> 1 / 2 ^ 30 + (1 / 2 - 1 / 2 ^ 25)"
    by (simp only: abs_minus_commute)
  then have "\<bar>of_int n - to_double (x * 8388607)\<bar> < 1 / 2" by (rule order_le_less_trans) simp
  then have "round_even (to_double (x * 8388607)) = n" by (rule round_even_unique)
  then show ?thesis
    using x assms by (simp add: from_pcm_def to_pcm_def clamp_sample_def x_def)
qed

lemma from_pcm_negative:
  assumes "- (2 ^ 23) \<le> n" "n < 0"
  shows "from_pcm n = Fin (of_int n / 8388608)"
proof -
  define x :: rat where "x = of_int n / 8388608"
  have xe: "x = of_int n * pow2 (- 23)" by (simp add: x_def pow2_def)
  have exact: "to_double x = x" "to_float x = x"
    by (rule round_to_exact [OF xe], use assms in simp)+
  show ?thesis using assms by (simp only: x_def [symmetric] from_pcm_def exact if_True)
qed

lemma to_pcm_negative:
  assumes "- (2 ^ 23) \<le> n" "n < 0"
  shows "to_pcm z (from_pcm n) = (if - (2 ^ 23) < n \<and> n < - (2 ^ 22) then n + 1 else n)"
proof -
  define x :: rat where "x = of_int n / 8388608"
  have xe: "x = of_int n * pow2 (- 23)" by (simp add: x_def pow2_def)
  have f: "from_pcm n = Fin x"
    using from_pcm_negative [OF assms] by (simp only: x_def)
  show ?thesis
  proof (cases "n = - (2 ^ 23)")
    case True
    then have "x = - 1" by (simp add: x_def)
    then have "from_pcm n = Fin (- 1)" by (simp only: f)
    with True show ?thesis by (simp only: to_pcm_def clamp_sample_def) simp
  next
    case False
    then have n: "- (2 ^ 23) < n" using assms by simp
    then have "(- 8388608 :: rat) < of_int n" by simp
    moreover have "(of_int n :: rat) < 0" using assms by simp
    ultimately have x: "- 1 < x" "x < 0" by (simp_all add: x_def field_simps)
    have "to_double (x * 8388607) = x * 8388607"
      by (rule round_to_exact [where m = "n * 8388607" and e = "- 23"])
        (use assms in \<open>simp_all add: xe abs_mult\<close>)
    moreover have eq: "x * 8388607 = of_int n - x" by (simp add: x_def field_simps)
    ultimately have d: "to_double (x * 8388607) = of_int n - x" by (simp only: eq)
    then have v: "to_pcm z (Fin x) = round_even (of_int n - x)"
      using x by (simp add: to_pcm_def clamp_sample_def d)
    show ?thesis
    proof (cases "n = - (2 ^ 22)")
      case True
      then have "x = - 1 / 2" by (simp add: x_def)
      moreover have "\<lfloor>- (8388607 / 2) :: rat\<rfloor> = - 4194304" by (simp add: floor_eq_iff)
      ultimately have "round_even (of_int n - x) = n" using True by (simp add: round_even_def)
      then have "to_pcm z (from_pcm n) = n" by (simp only: f v)
      with True show ?thesis by simp
    next
      case neq: False
      show ?thesis
      proof (cases "n < - (2 ^ 22)")
        case True
        then have "(of_int n :: rat) < - 4194304" by simp
        then have "x < - (1 / 2)" by (simp add: x_def field_simps)
        then have "round_even (of_int n - x) = n + 1"
          using x by (intro round_even_unique) (simp add: abs_if)
        with True n show ?thesis by (simp add: f v)
      next
        case le: False
        then have "(- 4194304 :: rat) < of_int n" using neq by simp
        then have "- (1 / 2) < x" by (simp add: x_def field_simps)
        then have "round_even (of_int n - x) = n"
          using x by (intro round_even_unique) (simp add: abs_if)
        with le show ?thesis by (simp add: f v)
      qed
    qed
  qed
qed

lemma to_pcm_from_pcm:
  assumes "- (2 ^ 23) \<le> n" "n < 2 ^ 23"
  shows "to_pcm z (from_pcm n) = (if - (2 ^ 23) < n \<and> n < - (2 ^ 22) then n + 1 else n)"
  using assms to_pcm_positive [of n z] to_pcm_negative [of n z] by (cases "n < 0") auto

lemma to_pcm_near:
  assumes "- 1 < x" "x \<le> 1"
  shows "\<bar>of_int (to_pcm z (Fin x)) - x * 8388607\<bar> \<le> 1 / 2 + 1 / 2 ^ 30"
proof -
  have "\<bar>to_double (x * 8388607) - x * 8388607\<bar> \<le> \<bar>x * 8388607\<bar> * pow2 (- 53)"
    using round_to_error [of 53 "x * 8388607"] by simp
  also have "\<dots> \<le> 2 ^ 23 * pow2 (- 53)"
    using assms by (intro mult_right_mono) (simp_all add: abs_le_iff less_imp_le)
  also have "\<dots> \<le> 1 / 2 ^ 30" by (simp add: pow2_def)
  finally have "\<bar>to_double (x * 8388607) - x * 8388607\<bar> \<le> 1 / 2 ^ 30" .
  moreover have "to_pcm z (Fin x) = round_even (to_double (x * 8388607))"
    using assms by (simp add: to_pcm_def clamp_sample_def)
  ultimately show ?thesis
    using near_trans [OF round_even_near [of "to_double (x * 8388607)"]] by metis
qed

lemma to_pcm_range:
  assumes "s \<noteq> NaN"
  shows "- 8388608 \<le> to_pcm z s \<and> to_pcm z s \<le> 8388607"
proof (cases "clamp_sample s")
  case (Fin x)
  then have x: "- 1 \<le> x" "x \<le> 1" by (auto simp: clamp_sample_def split: f32.splits if_splits)
  have c: "clamp_sample (Fin x) = Fin x" using x by (simp add: clamp_sample_def)
  then have t: "to_pcm z s = to_pcm z (Fin x)" by (simp add: to_pcm_def Fin)
  show ?thesis
  proof (cases "x = - 1")
    case True
    with t c show ?thesis by (simp add: to_pcm_def)
  next
    case False
    then have near: "\<bar>of_int (to_pcm z (Fin x)) - x * 8388607\<bar> \<le> 1 / 2 + 1 / 2 ^ 30"
      using x by (intro to_pcm_near) auto
    have "\<bar>of_int (to_pcm z (Fin x)) - x * 8388607\<bar> < 1" using near by (rule order_le_less_trans) simp
    then have "of_int (to_pcm z (Fin x)) - x * 8388607 < 1" "- (of_int (to_pcm z (Fin x)) - x * 8388607) < 1"
      by (simp_all only: abs_less_iff)
    then have "(of_int (to_pcm z (Fin x)) :: rat) < of_int 8388608"
      "of_int (- 8388608) - 1 < (of_int (to_pcm z (Fin x)) + (0 :: rat))"
      using x unfolding of_int_minus of_int_numeral by linarith+
    then have "of_int (to_pcm z (Fin x)) < (of_int 8388608 :: rat)"
      "of_int (- 8388609) < (of_int (to_pcm z (Fin x)) :: rat)" by simp_all
    then show ?thesis unfolding of_int_less_iff t by linarith
  qed
qed (use assms in \<open>auto simp: clamp_sample_def split: f32.splits if_splits\<close>)

lemma from_pcm_near:
  assumes "- (2 ^ 23) \<le> n" "n < 2 ^ 23"
  shows "\<exists>v. from_pcm n = Fin v \<and> \<bar>v * 8388607 - of_int n\<bar> \<le> 1"
proof (cases "n < 0")
  case True
  define x :: rat where "x = of_int n / 8388608"
  have "(- 8388608 :: rat) \<le> of_int n" "(of_int n :: rat) < 0" using assms True by simp_all
  then have "- 1 \<le> x" "x \<le> 0" by (simp_all add: x_def field_simps)
  moreover have "x * 8388607 - of_int n = - x" by (simp add: x_def field_simps)
  ultimately show ?thesis
    using from_pcm_negative [OF assms(1) True] by (simp add: x_def [symmetric])
next
  case False
  then have "\<bar>to_float (to_double (of_int n / 8388607)) * 8388607 - of_int n\<bar> \<le> 1 / 2 - 1 / 2 ^ 25"
    using assms by (intro decoded_positive) auto
  then have "\<bar>to_float (to_double (of_int n / 8388607)) * 8388607 - of_int n\<bar> \<le> 1"
    by (rule order_trans) simp
  with False show ?thesis by (simp add: from_pcm_def)
qed

lemma clamp_finite:
  assumes "s \<noteq> NaN"
  shows "\<exists>x. clamp_sample s = Fin x \<and> - 1 \<le> x \<and> x \<le> 1"
  using assms by (cases s) (simp_all add: clamp_sample_def)

lemma from_to_near:
  assumes "s \<noteq> NaN"
  shows "\<exists>x v. clamp_sample s = Fin x \<and> from_pcm (to_pcm z s) = Fin v \<and> \<bar>v - x\<bar> \<le> 1 / 2 ^ 22"
proof -
  obtain x where x: "clamp_sample s = Fin x" "- 1 \<le> x" "x \<le> 1"
    using clamp_finite [OF assms] by blast
  then have c: "clamp_sample (Fin x) = Fin x" by (simp add: clamp_sample_def)
  then have t: "to_pcm z s = to_pcm z (Fin x)" by (simp add: to_pcm_def x(1))
  show ?thesis
  proof (cases "x = - 1")
    case True
    then show ?thesis
      using from_pcm_negative [of "- 8388608"] c by (simp add: x(1) t to_pcm_def)
  next
    case False
    obtain v where v: "from_pcm (to_pcm z s) = Fin v" "\<bar>v * 8388607 - of_int (to_pcm z s)\<bar> \<le> 1"
      using from_pcm_near [of "to_pcm z s"] to_pcm_range [OF assms, of z] by auto
    have "\<bar>of_int (to_pcm z s) - x * 8388607\<bar> \<le> 1 / 2 + 1 / 2 ^ 30"
      using x False by (simp only: t) (rule to_pcm_near; simp)
    from near_trans [OF v(2) this] have "\<bar>(v - x) * 8388607\<bar> \<le> 1 + (1 / 2 + 1 / 2 ^ 30)"
      by (simp only: left_diff_distrib)
    then have "\<bar>v - x\<bar> * 8388607 \<le> 1 + (1 / 2 + 1 / 2 ^ 30)"
      by (simp only: abs_mult abs_numeral)
    then have "\<bar>v - x\<bar> \<le> 1 / 2 ^ 22" by simp
    with x v show ?thesis by blast
  qed
qed

lemma length_pcm_bytes [simp]: "length (pcm_bytes n) = 3"
  by (simp add: pcm_bytes_def Let_def)

lemma length_l24_concat [simp]: "length (concat (map pcm_bytes ns)) = length ns * 3"
  by (induction ns) simp_all

lemma l24_samples_bytes:
  assumes "\<forall>n \<in> set ns. - (2 ^ 23) \<le> n \<and> n < 2 ^ 23"
  shows "l24_samples (concat (map pcm_bytes ns)) = map from_pcm ns"
  using assms
proof (induction ns)
  case (Cons n ns)
  obtain b0 b1 b2 where "pcm_bytes n = [b0, b1, b2]" "bytes_pcm b0 b1 b2 = n"
    using pcm_bytes_roundtrip [of n] Cons.prems by auto
  with Cons show ?case by simp
qed simp

text \<open>Every stream of 24-bit values decodes, and what decoding yields encodes to the same bytes,
  except that each value strictly between the most negative one and \<open>-2^22\<close> comes back one step closer
  to zero: decoding divides negative values by \<open>2^23\<close>, encoding multiplies by \<open>2^23 - 1\<close>.\<close>

theorem l24_decode_encode:
  assumes "\<forall>n \<in> set ns. - (2 ^ 23) \<le> n \<and> n < 2 ^ 23"
    and "length samples = length ns" and "length bs = length ns * 3"
  shows "l24_decode (concat (map pcm_bytes ns)) samples = (True, map from_pcm ns)
    \<and> l24_encode z (map from_pcm ns) bs = (True, concat (map (\<lambda>n. pcm_bytes
        (if - (2 ^ 23) < n \<and> n < - (2 ^ 22) then n + 1 else n)) ns))"
proof
  show "l24_decode (concat (map pcm_bytes ns)) samples = (True, map from_pcm ns)"
    using assms l24_samples_bytes [of ns] by (simp add: l24_decode_def)
  have "map (\<lambda>n. pcm_bytes (to_pcm z (from_pcm n))) ns
    = map (\<lambda>n. pcm_bytes (if - (2 ^ 23) < n \<and> n < - (2 ^ 22) then n + 1 else n)) ns"
    using assms(1) to_pcm_from_pcm [of _ z] by (intro map_cong) auto
  then show "l24_encode z (map from_pcm ns) bs = (True, concat (map (\<lambda>n. pcm_bytes
        (if - (2 ^ 23) < n \<and> n < - (2 ^ 22) then n + 1 else n)) ns))"
    using assms by (simp only: l24_encode_def map_map comp_def length_map) simp
qed

theorem l24_decode_encode_witness:
  "l24_encode 0 (map from_pcm [5, - 7000000, - 8388608]) (replicate 9 0)
    = (True, concat (map pcm_bytes [5, - 6999999, - 8388608]))"
  using l24_decode_encode [of "[5, - 7000000, - 8388608]" "[NaN, NaN, NaN]" "replicate 9 0" 0] by simp

definition sample_near :: "f32 \<Rightarrow> f32 \<Rightarrow> bool" where
  "sample_near s y \<longleftrightarrow> (\<exists>x v. clamp_sample s = Fin x \<and> y = Fin v \<and> \<bar>v - x\<bar> \<le> 1 / 2 ^ 22)"

lemma l24_encode_ok:
  "length bs = length samples * 3 \<Longrightarrow>
   l24_encode z samples bs = (True, concat (map pcm_bytes (map (to_pcm z) samples)))"
  by (simp add: l24_encode_def comp_def)

lemma l24_near:
  assumes "NaN \<notin> set samples"
  shows "list_all2 sample_near samples (l24_samples (concat (map pcm_bytes (map (to_pcm z) samples))))"
proof -
  have range: "\<forall>n \<in> set (map (to_pcm z) samples). - (2 ^ 23) \<le> n \<and> n < 2 ^ 23"
  proof
    fix n assume "n \<in> set (map (to_pcm z) samples)"
    then obtain s where "s \<in> set samples" "n = to_pcm z s" by auto
    then show "- (2 ^ 23) \<le> n \<and> n < 2 ^ 23" using to_pcm_range [of s z] assms by (cases "s = NaN") auto
  qed
  have "list_all2 sample_near samples (map (\<lambda>s. from_pcm (to_pcm z s)) samples)"
    using assms from_to_near [of _ z] by (auto simp: sample_near_def list_all2_conv_all_nth in_set_conv_nth)
  then show ?thesis unfolding l24_samples_bytes [OF range] by (simp add: comp_def)
qed



end
