(* ===== verification/Jitter_Buffer.thy ===== *)
theory Jitter_Buffer
  imports Constants
begin

text \<open>
  Sources/Core/JitterBuffer.hpp at the instance the engine uses, \<open>JitterBuffer<64, 1200>\<close>, and the
  step of \<open>consumeLoop\<close> (Sources/Engine/LiveEngine.cpp) that takes packets out of it. Each call is
  one step of the receiving or of the consuming thread, so that the states \<open>writing\<close> and \<open>reading\<close> are passed
  through; the same calls one memory access at a time, and how the two agree, are in Jitter_Interleaving.
\<close>

section \<open>The code\<close>

definition kJitterSlots :: nat where "kJitterSlots = 64"
definition kJitterMaxPayload :: nat where "kJitterMaxPayload = 1200"

datatype jitter_slot_state = Slot_empty | Slot_writing | Slot_ready | Slot_reading

record jitter_slot =
  js_state :: jitter_slot_state
  js_sequence :: u16
  js_length :: nat
  js_payload :: bytes

record jitter_buffer =
  jb_slots :: "jitter_slot list"
  jb_targetPackets :: nat
  jb_buffered :: nat
  jb_firstSequence :: u16
  jb_expectedSequence :: u16
  jb_hasFirst :: bool
  jb_started :: bool
  jb_lost :: u64
  jb_dropped :: u64

definition new_jitter_slot :: jitter_slot where
  "new_jitter_slot = \<lparr> js_state = Slot_empty, js_sequence = 0, js_length = 0,
     js_payload = replicate kJitterMaxPayload 0 \<rparr>"

definition new_jitter :: "nat \<Rightarrow> jitter_buffer" where
  "new_jitter targetPackets = \<lparr> jb_slots = replicate kJitterSlots new_jitter_slot,
     jb_targetPackets = (if targetPackets < 2 then 2
       else if targetPackets \<ge> kJitterSlots then kJitterSlots - 1 else targetPackets),
     jb_buffered = 0, jb_firstSequence = 0, jb_expectedSequence = 0, jb_hasFirst = False,
     jb_started = False, jb_lost = 0, jb_dropped = 0 \<rparr>"

definition slot_index :: "u16 \<Rightarrow> nat" where
  "slot_index sequence = unat sequence mod kJitterSlots"

definition jitter_push :: "u16 \<Rightarrow> bytes \<Rightarrow> jitter_buffer \<Rightarrow> bool \<times> jitter_buffer" where
  "jitter_push sequence payload j =
     (if length payload > kJitterMaxPayload then (False, j\<lparr>jb_dropped := jb_dropped j + 1\<rparr>)
      else
        let slot = jb_slots j ! slot_index sequence
        in if js_state slot \<noteq> Slot_empty then (False, j\<lparr>jb_dropped := jb_dropped j + 1\<rparr>)
           else
             let slot' = slot\<lparr>js_state := Slot_ready, js_sequence := sequence,
                   js_length := length payload,
                   js_payload := payload @ drop (length payload) (js_payload slot)\<rparr>;
                 j1 = j\<lparr>jb_slots := (jb_slots j)[slot_index sequence := slot'],
                   jb_buffered := jb_buffered j + 1\<rparr>
             in if jb_started j then (True, j1)
                else
                  let j2 = (if jb_hasFirst j then j1
                        else j1\<lparr>jb_hasFirst := True, jb_firstSequence := sequence\<rparr>)
                  in if jb_buffered j2 \<ge> jb_targetPackets j2
                     then (True, j2\<lparr>jb_expectedSequence := jb_firstSequence j2, jb_started := True\<rparr>)
                     else (True, j2))"

text \<open>\<open>pop\<close> returns the \<open>bool\<close>, the three output arguments and the buffer; \<open>seq0\<close> is the
  caller's variable, which stays as it is when the buffer has not started.\<close>

definition jitter_pop ::
    "bytes \<Rightarrow> u16 \<Rightarrow> jitter_buffer \<Rightarrow> bool \<times> bytes \<times> nat \<times> u16 \<times> jitter_buffer" where
  "jitter_pop destination seq0 j =
     (if \<not> jb_started j then (False, destination, 0, seq0, j)
      else
        let sequence = jb_expectedSequence j;
            slot = jb_slots j ! slot_index sequence;
            emptied = j\<lparr>jb_slots := (jb_slots j)[slot_index sequence := slot\<lparr>js_state := Slot_empty\<rparr>],
              jb_buffered := jb_buffered j - 1\<rparr>
        in if js_state slot \<noteq> Slot_ready then (False, destination, 0, sequence, j)
           else if js_sequence slot \<noteq> sequence \<or> js_length slot > length destination
           then (False, destination, 0, sequence, emptied)
           else (True, take (js_length slot) (js_payload slot) @ drop (js_length slot) destination,
                 js_length slot, sequence, emptied\<lparr>jb_expectedSequence := sequence + 1\<rparr>))"

definition jitter_skipMissing :: "jitter_buffer \<Rightarrow> jitter_buffer" where
  "jitter_skipMissing j = (if jb_started j
     then j\<lparr>jb_expectedSequence := jb_expectedSequence j + 1, jb_lost := jb_lost j + 1\<rparr> else j)"

definition jitter_reset :: "jitter_buffer \<Rightarrow> jitter_buffer" where
  "jitter_reset j = j\<lparr>jb_slots := map (\<lambda>slot. slot\<lparr>js_state := Slot_empty\<rparr>) (jb_slots j),
     jb_buffered := 0, jb_lost := 0, jb_dropped := 0, jb_hasFirst := False, jb_started := False\<rparr>"

text \<open>One period of \<open>consumeLoop\<close>: a packet, or nothing with \<open>skipMissing\<close> when other packets wait.
  The \<open>bool\<close> is the increment of the block's loss counter.\<close>

definition jitter_consume ::
    "bytes \<Rightarrow> jitter_buffer \<Rightarrow> (u16 \<times> bytes) option \<times> bool \<times> jitter_buffer" where
  "jitter_consume payload j =
     (case jitter_pop payload 0 j of (ok, payload', len, sequence, j') \<Rightarrow>
        if ok then (Some (sequence, take len payload'), False, j')
        else if jb_started j' \<and> jb_buffered j' > 0 then (None, True, jitter_skipMissing j')
        else (None, False, j'))"

section \<open>The invariant\<close>

definition ready_slots :: "jitter_buffer \<Rightarrow> jitter_slot list" where
  "ready_slots j = [slot \<leftarrow> jb_slots j. js_state slot = Slot_ready]"

definition slot_ok :: "nat \<Rightarrow> jitter_slot \<Rightarrow> bool" where
  "slot_ok i slot \<longleftrightarrow> length (js_payload slot) = kJitterMaxPayload \<and>
     (js_state slot = Slot_empty \<or>
      js_state slot = Slot_ready \<and> slot_index (js_sequence slot) = i \<and> js_length slot \<le> kJitterMaxPayload)"

definition jitter_inv :: "jitter_buffer \<Rightarrow> bool" where
  "jitter_inv j \<longleftrightarrow> length (jb_slots j) = kJitterSlots
     \<and> (\<forall>i < kJitterSlots. slot_ok i (jb_slots j ! i))
     \<and> jb_buffered j = length (ready_slots j)
     \<and> 2 \<le> jb_targetPackets j \<and> jb_targetPackets j < kJitterSlots
     \<and> (jb_started j \<longrightarrow> jb_hasFirst j)
     \<and> (\<not> jb_started j \<longrightarrow> jb_buffered j < jb_targetPackets j \<and> (jb_hasFirst j \<longleftrightarrow> 0 < jb_buffered j))"

lemma slot_index_less [simp]: "slot_index q < kJitterSlots"
  by (simp add: slot_index_def kJitterSlots_def)

lemma filter_length_update:
  assumes "i < length xs" "P y" "\<not> P (xs ! i)"
  shows "length (filter P (xs[i := y])) = Suc (length (filter P xs))"
  using assms
proof (induction xs arbitrary: i)
  case (Cons x xs)
  then show ?case by (cases i) auto
qed simp

lemma filter_length_update_out:
  assumes "i < length xs" "\<not> P y" "P (xs ! i)"
  shows "length (filter P xs) = Suc (length (filter P (xs[i := y])))"
  using assms
proof (induction xs arbitrary: i)
  case (Cons x xs)
  then show ?case by (cases i) auto
qed simp

lemma new_jitter_inv: "jitter_inv (new_jitter n)"
  by (auto simp: jitter_inv_def new_jitter_def ready_slots_def slot_ok_def new_jitter_slot_def kJitterSlots_def)

lemma jitter_reset_inv: "jitter_inv j \<Longrightarrow> jitter_inv (jitter_reset j)"
  by (auto simp: jitter_inv_def jitter_reset_def ready_slots_def slot_ok_def filter_map o_def)

lemma jitter_skip_inv: "jitter_inv j \<Longrightarrow> jitter_inv (jitter_skipMissing j)"
  by (auto simp: jitter_inv_def jitter_skipMissing_def ready_slots_def)

lemma jitter_push_inv:
  assumes "jitter_inv j"
  shows "jitter_inv (snd (jitter_push q payload j))"
proof (cases "length payload > kJitterMaxPayload \<or> js_state (jb_slots j ! slot_index q) \<noteq> Slot_empty")
  case True
  with assms show ?thesis by (auto simp: jitter_push_def jitter_inv_def ready_slots_def Let_def)
next
  case False
  let ?slot = "jb_slots j ! slot_index q"
  let ?slot' = "?slot\<lparr>js_state := Slot_ready, js_sequence := q, js_length := length payload,
    js_payload := payload @ drop (length payload) (js_payload ?slot)\<rparr>"
  let ?slots = "(jb_slots j)[slot_index q := ?slot']"
  have len: "length (jb_slots j) = kJitterSlots" using assms by (simp add: jitter_inv_def)
  have cnt: "length [slot \<leftarrow> ?slots. js_state slot = Slot_ready] = Suc (length (ready_slots j))"
    unfolding ready_slots_def using False len by (intro filter_length_update) simp_all
  have ok: "\<forall>i < kJitterSlots. slot_ok i (?slots ! i)"
    using assms False by (auto simp: jitter_inv_def slot_ok_def nth_list_update)
  show ?thesis
    using assms False cnt ok len
    by (auto simp: jitter_push_def Let_def jitter_inv_def ready_slots_def)
qed

lemma ready_slot_count:
  assumes "jitter_inv j" "js_state (jb_slots j ! slot_index q) = Slot_ready"
  shows "0 < jb_buffered j"
proof -
  have "jb_slots j ! slot_index q \<in> set (ready_slots j)"
    using assms by (auto simp: ready_slots_def jitter_inv_def)
  then show ?thesis using assms(1) by (auto simp: jitter_inv_def dest: length_pos_if_in_set)
qed

lemma jitter_emptied_inv:
  assumes "jitter_inv j" "jb_started j" "js_state (jb_slots j ! slot_index q) = Slot_ready"
  shows "jitter_inv (j\<lparr>jb_slots := (jb_slots j)[slot_index q := (jb_slots j ! slot_index q)\<lparr>js_state := Slot_empty\<rparr>],
    jb_buffered := jb_buffered j - 1\<rparr>)"
proof -
  let ?slots = "(jb_slots j)[slot_index q := (jb_slots j ! slot_index q)\<lparr>js_state := Slot_empty\<rparr>]"
  have "length (ready_slots j) = Suc (length [slot \<leftarrow> ?slots. js_state slot = Slot_ready])"
    unfolding ready_slots_def using assms by (intro filter_length_update_out) (auto simp: jitter_inv_def)
  then show ?thesis
    using assms by (auto simp: jitter_inv_def slot_ok_def ready_slots_def nth_list_update)
qed

lemma jitter_pop_inv:
  assumes "jitter_inv j"
  shows "jitter_inv (snd (snd (snd (snd (jitter_pop destination q0 j)))))"
proof -
  have "jitter_inv (j\<lparr>jb_expectedSequence := q\<rparr>) \<longleftrightarrow> jitter_inv j" for q j
    by (simp add: jitter_inv_def ready_slots_def)
  then show ?thesis
    using assms jitter_emptied_inv [OF assms] by (auto simp: jitter_pop_def Let_def)
qed

lemma jitter_consume_inv: "jitter_inv j \<Longrightarrow> jitter_inv (snd (snd (jitter_consume payload j)))"
  using jitter_pop_inv [of j payload 0]
  by (auto simp: jitter_consume_def jitter_skip_inv split: prod.splits)

section \<open>Refinement to a map from sequence numbers to payloads\<close>

definition slot_holds :: "jitter_slot \<Rightarrow> u16 \<Rightarrow> bool" where
  "slot_holds slot q \<longleftrightarrow> js_state slot = Slot_ready \<and> js_sequence slot = q"

definition jitter_map :: "jitter_buffer \<Rightarrow> u16 \<rightharpoonup> bytes" where
  "jitter_map j q = (let slot = jb_slots j ! slot_index q
     in if slot_holds slot q then Some (take (js_length slot) (js_payload slot)) else None)"

lemma jitter_inv_length: "jitter_inv j \<Longrightarrow> length (jb_slots j) = kJitterSlots"
  by (simp add: jitter_inv_def)

lemma jitter_inv_slot: "jitter_inv j \<Longrightarrow> i < kJitterSlots \<Longrightarrow> slot_ok i (jb_slots j ! i)"
  by (simp add: jitter_inv_def)

lemma jitter_push_slots:
  "jb_slots (snd (jitter_push q payload j)) =
     (if fst (jitter_push q payload j)
      then (jb_slots j)[slot_index q := (jb_slots j ! slot_index q)\<lparr>js_state := Slot_ready,
        js_sequence := q, js_length := length payload,
        js_payload := payload @ drop (length payload) (js_payload (jb_slots j ! slot_index q))\<rparr>]
      else jb_slots j)"
  by (simp add: jitter_push_def Let_def)

lemma jitter_push_accepts:
  "fst (jitter_push q payload j) \<longleftrightarrow>
     length payload \<le> kJitterMaxPayload \<and> js_state (jb_slots j ! slot_index q) = Slot_empty"
  by (auto simp: jitter_push_def Let_def)

lemma jitter_map_update:
  assumes "length (jb_slots j) = kJitterSlots"
  shows "jitter_map (j\<lparr>jb_slots := (jb_slots j)[slot_index q := slot]\<rparr>) r =
    (if slot_index r = slot_index q
     then if slot_holds slot r then Some (take (js_length slot) (js_payload slot)) else None
     else jitter_map j r)"
  using assms by (auto simp: jitter_map_def Let_def)

lemma jitter_map_cong: "jb_slots j = jb_slots j' \<Longrightarrow> jitter_map j = jitter_map j'"
  by (rule ext) (simp add: jitter_map_def)

lemma jitter_map_push:
  assumes "jitter_inv j"
  shows "jitter_map (snd (jitter_push q payload j)) =
    (if fst (jitter_push q payload j) then (jitter_map j)(q \<mapsto> payload) else jitter_map j)"
  (is "jitter_map (snd ?push) = _")
proof (cases "fst ?push")
  case True
  let ?slot = "jb_slots j ! slot_index q"
  have empty: "js_state ?slot = Slot_empty" using True by (simp add: jitter_push_accepts)
  let ?j = "j\<lparr>jb_slots := (jb_slots j)[slot_index q :=
      ?slot\<lparr>js_state := Slot_ready, js_sequence := q, js_length := length payload,
        js_payload := payload @ drop (length payload) (js_payload ?slot)\<rparr>]\<rparr>"
  have "jitter_map (snd ?push) = jitter_map ?j"
    by (rule jitter_map_cong) (simp add: jitter_push_slots True)
  moreover have "jitter_map ?j r = ((jitter_map j)(q \<mapsto> payload)) r" for r
    unfolding jitter_map_update [OF jitter_inv_length [OF assms]] using empty
    by (auto simp: slot_holds_def jitter_map_def Let_def)
  ultimately have "jitter_map (snd ?push) = (jitter_map j)(q \<mapsto> payload)" by auto
  with True show ?thesis by auto
next
  case False
  then show ?thesis using jitter_map_cong [of "snd ?push" j] by (simp add: jitter_push_slots)
qed

text \<open>C29: The buffer is a map from sequence numbers to payloads: an accepted packet is stored under
  its number and nothing else changes (a packet is accepted exactly when it fits a slot and its
  slot is free, otherwise it is counted as dropped); a successful \<open>pop\<close> returns what is stored
  under the expected number, removes it and expects the next one.\<close>

theorem jitter_refines_map:
  assumes "jitter_inv j" "length destination = 1200"
  shows "(case jitter_push q payload j of (ok, j') \<Rightarrow>
      jitter_inv j' \<and> (ok \<longleftrightarrow> length payload \<le> 1200 \<and> js_state (jb_slots j ! slot_index q) = Slot_empty)
      \<and> jitter_map j' = (if ok then (jitter_map j)(q \<mapsto> payload) else jitter_map j)
      \<and> jb_dropped j' = (if ok then jb_dropped j else jb_dropped j + 1))
    \<and> (case jitter_pop destination q0 j of (ok, out, len, sequence, j') \<Rightarrow>
      jitter_inv j' \<and> (ok \<longleftrightarrow> jb_started j \<and> jitter_map j (jb_expectedSequence j) \<noteq> None)
      \<and> (ok \<longrightarrow> sequence = jb_expectedSequence j \<and> jitter_map j sequence = Some (take len out)
           \<and> jitter_map j' = (jitter_map j)(sequence := None)
           \<and> jb_expectedSequence j' = sequence + 1)
      \<and> length out = 1200)"
proof
  note len = jitter_inv_length [OF assms(1)]
  let ?push = "jitter_push q payload j"
  have "jitter_map (snd ?push) = (if fst ?push then (jitter_map j)(q \<mapsto> payload) else jitter_map j)"
    by (rule jitter_map_push [OF assms(1)])
  moreover have "jb_dropped (snd ?push) = (if fst ?push then jb_dropped j else jb_dropped j + 1)"
    by (simp add: jitter_push_def Let_def)
  ultimately show "case ?push of (ok, j') \<Rightarrow>
      jitter_inv j' \<and> (ok \<longleftrightarrow> length payload \<le> 1200 \<and> js_state (jb_slots j ! slot_index q) = Slot_empty)
      \<and> jitter_map j' = (if ok then (jitter_map j)(q \<mapsto> payload) else jitter_map j)
      \<and> jb_dropped j' = (if ok then jb_dropped j else jb_dropped j + 1)"
    using jitter_push_inv [OF assms(1), of q payload] jitter_push_accepts [of q payload j]
    by (auto simp: case_prod_unfold kJitterMaxPayload_def)
next
  let ?pop = "jitter_pop destination q0 j"
  note len = jitter_inv_length [OF assms(1)]
  let ?x = "jb_expectedSequence j"
  let ?slot = "jb_slots j ! slot_index ?x"
  have ok: "slot_ok (slot_index ?x) ?slot" using jitter_inv_slot [OF assms(1)] by simp
  then have small: "js_state ?slot = Slot_ready \<Longrightarrow> js_length ?slot \<le> 1200"
    "js_state ?slot = Slot_ready \<Longrightarrow> js_length ?slot \<le> length (js_payload ?slot)"
    by (auto simp: slot_ok_def kJitterMaxPayload_def)
  have "jitter_inv (snd (snd (snd (snd ?pop))))" by (rule jitter_pop_inv [OF assms(1)])
  moreover have "fst ?pop \<longleftrightarrow> jb_started j \<and> jitter_map j ?x \<noteq> None"
    using small assms(2) by (auto simp: jitter_pop_def Let_def jitter_map_def slot_holds_def)
  moreover have "jitter_map (snd (snd (snd (snd ?pop)))) = (jitter_map j)(?x := None)
      \<and> jb_expectedSequence (snd (snd (snd (snd ?pop)))) = ?x + 1
      \<and> fst (snd (snd (snd ?pop))) = ?x
      \<and> jitter_map j ?x = Some (take (fst (snd (snd ?pop))) (fst (snd ?pop)))" if "fst ?pop"
  proof -
    from that have st: "jb_started j" "js_state ?slot = Slot_ready" "js_sequence ?slot = ?x"
      by (auto simp: jitter_pop_def Let_def split: if_splits)
    let ?j = "j\<lparr>jb_slots := (jb_slots j)[slot_index ?x := ?slot\<lparr>js_state := Slot_empty\<rparr>]\<rparr>"
    have res: "?pop = (True, take (js_length ?slot) (js_payload ?slot) @ drop (js_length ?slot) destination,
        js_length ?slot, ?x, ?j\<lparr>jb_buffered := jb_buffered j - 1, jb_expectedSequence := ?x + 1\<rparr>)"
      using st small assms(2) by (simp add: jitter_pop_def Let_def)
    have "jitter_map ?j r = ((jitter_map j)(?x := None)) r" for r
    proof -
      have upd: "jitter_map ?j r = (if slot_index r = slot_index ?x then None else jitter_map j r)"
        unfolding jitter_map_update [OF len] by (simp add: slot_holds_def)
      have "jitter_map j r = None" if "slot_index r = slot_index ?x" "r \<noteq> ?x"
        using that st(3) by (simp add: jitter_map_def slot_holds_def)
      with upd show ?thesis by simp
    qed
    then have "jitter_map ?j = (jitter_map j)(?x := None)" by (rule ext)
    moreover have "jitter_map (?j\<lparr>jb_buffered := jb_buffered j - 1, jb_expectedSequence := ?x + 1\<rparr>) = jitter_map ?j"
      by (rule jitter_map_cong) simp
    moreover have "jitter_map j ?x = Some (take (js_length ?slot) (js_payload ?slot))"
      using st by (simp add: jitter_map_def Let_def slot_holds_def)
    ultimately show ?thesis
      using small(2) [OF st(2)] unfolding res by simp
  qed
  moreover have "length (fst (snd ?pop)) = 1200"
    using small assms(2) by (auto simp: jitter_pop_def Let_def)
  ultimately show "case ?pop of (ok, out, len, sequence, j') \<Rightarrow>
      jitter_inv j' \<and> (ok \<longleftrightarrow> jb_started j \<and> jitter_map j ?x \<noteq> None)
      \<and> (ok \<longrightarrow> sequence = ?x \<and> jitter_map j sequence = Some (take len out)
           \<and> jitter_map j' = (jitter_map j)(sequence := None) \<and> jb_expectedSequence j' = sequence + 1)
      \<and> length out = 1200"
    by (auto simp: case_prod_unfold)
qed

theorem jitter_refines_map_witness:
  "jitter_map (snd (jitter_push 65 [1, 2] (new_jitter 6))) = (jitter_map (new_jitter 6))(65 \<mapsto> [1, 2])"
proof -
  have "js_state (jb_slots (new_jitter 6) ! slot_index 65) = Slot_empty"
    by (simp add: new_jitter_def new_jitter_slot_def)
  with jitter_refines_map [OF new_jitter_inv, where destination = "replicate 1200 0"
      and q = 65 and payload = "[1, 2]" and q0 = 0 and n1 = 6]
  show ?thesis by (auto simp: case_prod_unfold split: if_splits)
qed

end
