(* ===== verification/SDP_Session.thy ===== *)
theory SDP_Session
  imports Constants IPv4_Address
begin

text \<open>
  Sources/Core/SDP.hpp and Sources/Core/SDP.cpp: the session description, its parser, its
  generator and the profile check. The parser's \<open>nullopt\<close> is \<open>Inl\<close> of the error it stored,
  \<open>None\<close> when it returned without storing one.
\<close>

section \<open>The code\<close>

record session_description =
  sd_name :: string
  sd_originAddress :: string
  sd_multicastAddress :: string
  sd_port :: u16
  sd_payloadType :: u8
  sd_encoding :: string
  sd_sampleRate :: u32
  sd_channels :: u16
  sd_packetTimeMilliseconds :: u32
  sd_framesPerPacket :: u32
  sd_ptpDomain :: u8
  sd_sourceAddress :: string

definition default_session :: session_description where
  "default_session = \<lparr> sd_name = [], sd_originAddress = [], sd_multicastAddress = [],
     sd_port = kDefaultRTPPort, sd_payloadType = kPayloadType, sd_encoding = ''L24'',
     sd_sampleRate = kSampleRate, sd_channels = of_nat kChannels, sd_packetTimeMilliseconds = 1,
     sd_framesPerPacket = of_nat kFramesPerPacket, sd_ptpDomain = kPTPDomain,
     sd_sourceAddress = [] \<rparr>"

datatype sdp_error = Invalid_media_line | Incomplete_or_bad_multicast

record sdp_state =
  ps_session :: session_description
  ps_sawMedia :: bool
  ps_sawRtpMap :: bool

type_synonym sdp_result = "sdp_error option + sdp_state"

definition parseNumber :: "string \<Rightarrow> nat option" where
  "parseNumber s = (case from_chars s 0 of (ec, ptr, v) \<Rightarrow>
     if ec = Errc_ok \<and> ptr = length s then Some v else None)"

definition validIPv4 :: "string \<Rightarrow> bool \<Rightarrow> bool" where
  "validIPv4 value requireMulticast = (case ipv4_parse value of
     None \<Rightarrow> False | Some address \<Rightarrow> \<not> requireMulticast \<or> isMulticast address)"

definition sdp_media_line :: "string \<Rightarrow> sdp_state \<Rightarrow> sdp_result" where
  "sdp_media_line value st =
     (let parts = split_at CHR '' '' value
      in if length parts < 4 \<or> parts ! 0 \<noteq> ''audio'' \<or> parts ! 2 \<noteq> ''RTP/AVP''
         then Inl (Some Invalid_media_line)
         else case parseNumber (parts ! 1) of
             None \<Rightarrow> Inl (Some Invalid_media_line)
           | Some port \<Rightarrow>
               if port > 65535 then Inl (Some Invalid_media_line)
               else case parseNumber (parts ! 3) of
                   None \<Rightarrow> Inl (Some Invalid_media_line)
                 | Some payload \<Rightarrow>
                     if payload > 127 then Inl (Some Invalid_media_line)
                     else Inr (st\<lparr>ps_session := (ps_session st)\<lparr>sd_port := of_nat port,
                            sd_payloadType := of_nat payload\<rparr>, ps_sawMedia := True\<rparr>))"

definition sdp_rtpmap_line :: "string \<Rightarrow> sdp_state \<Rightarrow> sdp_result" where
  "sdp_rtpmap_line body st =
     (let fields = split_at CHR '' '' body
      in if length fields \<noteq> 2 then Inl None
         else let format = split_at CHR ''/'' (fields ! 1)
           in if length format < 2 then Inl None
              else case parseNumber (fields ! 0) of
                  None \<Rightarrow> Inl None
                | Some payload \<Rightarrow> (case parseNumber (format ! 1) of
                    None \<Rightarrow> Inl None
                  | Some rate \<Rightarrow>
                    (case (if length format \<ge> 3 then parseNumber (format ! 2) else Some 1) of
                       None \<Rightarrow> Inl None
                     | Some channels \<Rightarrow>
                       if payload \<noteq> unat (sd_payloadType (ps_session st)) \<or> payload > 127
                          \<or> channels > 65535 then Inl None
                       else Inr (st\<lparr>ps_session := (ps_session st)\<lparr>sd_encoding := format ! 0,
                              sd_sampleRate := of_nat rate, sd_channels := of_nat channels\<rparr>,
                              ps_sawRtpMap := True\<rparr>))))"

definition sdp_line :: "string \<Rightarrow> sdp_state \<Rightarrow> sdp_result" where
  "sdp_line rawLine st =
     (let line = (if rawLine \<noteq> [] \<and> last rawLine = CHR 0x0D then butlast rawLine else rawLine);
          s = ps_session st
      in if length line < 2 \<or> line ! 1 \<noteq> CHR ''='' then Inr st
         else let value = drop 2 line in
           if line ! 0 = CHR ''s'' then Inr (st\<lparr>ps_session := s\<lparr>sd_name := value\<rparr>\<rparr>)
           else if line ! 0 = CHR ''o'' then
             (let parts = split_at CHR '' '' value
              in if length parts \<ge> 6
                 then Inr (st\<lparr>ps_session := s\<lparr>sd_originAddress := parts ! 5\<rparr>\<rparr>) else Inr st)
           else if line ! 0 = CHR ''c'' then
             (let parts = split_at CHR '' '' value
              in if length parts \<ge> 3
                 then Inr (st\<lparr>ps_session := s\<lparr>sd_multicastAddress :=
                        upto_pos (parts ! 2) (find_char CHR ''/'' (parts ! 2))\<rparr>\<rparr>) else Inr st)
           else if line ! 0 = CHR ''m'' then sdp_media_line value st
           else if starts_with line ''a=rtpmap:'' then sdp_rtpmap_line (drop 9 line) st
           else if starts_with line ''a=ptime:'' then
             (case parseNumber (drop 8 line) of
                None \<Rightarrow> Inl None
              | Some ptime \<Rightarrow> Inr (st\<lparr>ps_session := s\<lparr>sd_packetTimeMilliseconds := of_nat ptime\<rparr>\<rparr>))
           else if starts_with line ''a=framecount:'' then
             (case parseNumber (drop 13 line) of
                None \<Rightarrow> Inl None
              | Some count \<Rightarrow> Inr (st\<lparr>ps_session := s\<lparr>sd_framesPerPacket := of_nat count\<rparr>\<rparr>))
           else if starts_with line ''a=source-filter:'' then
             (let body = dropWhile (\<lambda>c. c = CHR '' '') (drop 16 line);
                  parts = split_at CHR '' '' body
              in if length parts \<ge> 5
                 then Inr (st\<lparr>ps_session := s\<lparr>sd_sourceAddress := parts ! 4\<rparr>\<rparr>) else Inr st)
           else if starts_with line ''a=ts-refclk:'' then
             (case find_text ''domain-nmbr='' line of
                None \<Rightarrow> Inr st
              | Some marker \<Rightarrow> (case parseNumber (drop (marker + 12) line) of
                  None \<Rightarrow> Inl None
                | Some domain \<Rightarrow> if domain > 127 then Inl None
                    else Inr (st\<lparr>ps_session := s\<lparr>sd_ptpDomain := of_nat domain\<rparr>\<rparr>)))
           else Inr st)"

fun sdp_lines :: "string list \<Rightarrow> sdp_state \<Rightarrow> sdp_result" where
  "sdp_lines [] st = Inr st"
| "sdp_lines (rawLine # rest) st =
     (case sdp_line rawLine st of Inl e \<Rightarrow> Inl e | Inr st' \<Rightarrow> sdp_lines rest st')"

definition sdp_parse :: "string \<Rightarrow> sdp_error option + session_description" where
  "sdp_parse s =
     (case sdp_lines (split_at CHR 0x0A s)
         \<lparr> ps_session = default_session, ps_sawMedia = False, ps_sawRtpMap = False \<rparr> of
        Inl e \<Rightarrow> Inl e
      | Inr st \<Rightarrow>
          if \<not> ps_sawMedia st \<or> \<not> ps_sawRtpMap st \<or> sd_name (ps_session st) = []
             \<or> \<not> validIPv4 (sd_multicastAddress (ps_session st)) True
          then Inl (Some Incomplete_or_bad_multicast)
          else Inr (ps_session st))"

abbreviation crlf :: string where "crlf \<equiv> [CHR 0x0D, CHR 0x0A]"

definition sdp_generate :: "session_description \<Rightarrow> string" where
  "sdp_generate s =
     ''v=0'' @ crlf
   @ ''o=- 1 1 IN IP4 '' @ sd_originAddress s @ crlf
   @ ''s='' @ sd_name s @ crlf
   @ ''c=IN IP4 '' @ sd_multicastAddress s @ ''/32'' @ crlf
   @ ''t=0 0'' @ crlf
   @ ''m=audio '' @ to_string (unat (sd_port s)) @ '' RTP/AVP ''
       @ to_string (unat (sd_payloadType s)) @ crlf
   @ ''a=rtpmap:'' @ to_string (unat (sd_payloadType s)) @ '' '' @ sd_encoding s @ ''/''
       @ to_string (unat (sd_sampleRate s)) @ ''/'' @ to_string (unat (sd_channels s)) @ crlf
   @ ''a=ptime:'' @ to_string (unat (sd_packetTimeMilliseconds s)) @ crlf
   @ ''a=framecount:'' @ to_string (unat (sd_framesPerPacket s)) @ crlf
   @ ''a=ts-refclk:ptp=IEEE1588-2008:traceable:domain-nmbr='' @ to_string (unat (sd_ptpDomain s)) @ crlf
   @ ''a=mediaclk:direct=0'' @ crlf
   @ (if sd_sourceAddress s \<noteq> []
      then ''a=source-filter: incl IN IP4 '' @ sd_multicastAddress s @ '' '' @ sd_sourceAddress s @ crlf
      else [])
   @ ''a=sendonly'' @ crlf"

datatype profile_error = Bad_encoding | Bad_sample_rate | Bad_channel_count | Bad_packet_time
  | Bad_domain | Bad_multicast

definition validateLXToolProfile :: "session_description \<Rightarrow> profile_error list" where
  "validateLXToolProfile s =
     (if sd_encoding s \<noteq> ''L24'' then [Bad_encoding] else [])
   @ (if sd_sampleRate s \<noteq> kSampleRate then [Bad_sample_rate] else [])
   @ (if \<not> supportedAES67ChannelCount (unat (sd_channels s)) then [Bad_channel_count] else [])
   @ (if sd_packetTimeMilliseconds s \<noteq> 1 \<or> unat (sd_framesPerPacket s) \<noteq> kFramesPerPacket
      then [Bad_packet_time] else [])
   @ (if sd_ptpDomain s \<noteq> kPTPDomain then [Bad_domain] else [])
   @ (if \<not> validIPv4 (sd_multicastAddress s) True then [Bad_multicast] else [])"

section \<open>The generated lines\<close>

lemma parseNumber_to_string: "n < 2 ^ 32 \<Longrightarrow> parseNumber (to_string n) = Some n"
  by (simp add: parseNumber_def from_chars_all_digits to_string_all_digits)

lemma parseNumber_Some: "parseNumber s = Some n \<Longrightarrow> n < 2 ^ 32"
  by (auto simp: parseNumber_def from_chars_def Let_def split: if_splits)

lemma validIPv4_chars: "validIPv4 s m \<Longrightarrow> c \<in> set s \<Longrightarrow> is_digit c \<or> c = CHR ''.''"
  by (auto simp: validIPv4_def dest: ipv4_parse_chars split: option.splits)

lemma validIPv4_no_char: "validIPv4 s m \<Longrightarrow> \<not> is_digit c \<Longrightarrow> c \<noteq> CHR ''.'' \<Longrightarrow> c \<notin> set s"
  using validIPv4_chars by blast

text \<open>The sessions the generator can print without ambiguity: the fields that stand between
  delimiters do not contain them.\<close>

definition sd_wf :: "session_description \<Rightarrow> bool" where
  "sd_wf s \<longleftrightarrow> sd_name s \<noteq> [] \<and> CHR 0x0A \<notin> set (sd_name s)
     \<and> CHR '' '' \<notin> set (sd_originAddress s) \<and> CHR 0x0A \<notin> set (sd_originAddress s)
     \<and> validIPv4 (sd_multicastAddress s) True
     \<and> sd_payloadType s \<le> 127 \<and> sd_ptpDomain s \<le> 127
     \<and> CHR '' '' \<notin> set (sd_encoding s) \<and> CHR ''/'' \<notin> set (sd_encoding s)
     \<and> CHR 0x0A \<notin> set (sd_encoding s)
     \<and> CHR '' '' \<notin> set (sd_sourceAddress s) \<and> CHR 0x0A \<notin> set (sd_sourceAddress s)"

definition sdp_text_lines :: "session_description \<Rightarrow> string list" where
  "sdp_text_lines s =
     [''v=0'', ''o=- 1 1 IN IP4 '' @ sd_originAddress s, ''s='' @ sd_name s,
      ''c=IN IP4 '' @ sd_multicastAddress s @ ''/32'', ''t=0 0'',
      ''m=audio '' @ to_string (unat (sd_port s)) @ '' RTP/AVP '' @ to_string (unat (sd_payloadType s)),
      ''a=rtpmap:'' @ to_string (unat (sd_payloadType s)) @ '' '' @ sd_encoding s @ ''/''
        @ to_string (unat (sd_sampleRate s)) @ ''/'' @ to_string (unat (sd_channels s)),
      ''a=ptime:'' @ to_string (unat (sd_packetTimeMilliseconds s)),
      ''a=framecount:'' @ to_string (unat (sd_framesPerPacket s)),
      ''a=ts-refclk:ptp=IEEE1588-2008:traceable:domain-nmbr='' @ to_string (unat (sd_ptpDomain s)),
      ''a=mediaclk:direct=0'']
     @ (if sd_sourceAddress s \<noteq> []
        then [''a=source-filter: incl IN IP4 '' @ sd_multicastAddress s @ '' '' @ sd_sourceAddress s]
        else [])
     @ [''a=sendonly'']"

lemma sdp_generate_lines: "sdp_generate s = concat (map (\<lambda>l. l @ crlf) (sdp_text_lines s))"
  by (simp add: sdp_generate_def sdp_text_lines_def)

lemma sdp_text_lines_no_newline:
  assumes "sd_wf s" "l \<in> set (sdp_text_lines s)"
  shows "CHR 0x0A \<notin> set l"
  using assms validIPv4_no_char [of "sd_multicastAddress s" True "CHR 0x0A"]
  by (auto simp: sdp_text_lines_def sd_wf_def to_string_no_char split: if_splits)

lemma split_crlf:
  "(\<And>l. l \<in> set ls \<Longrightarrow> CHR 0x0A \<notin> set l) \<Longrightarrow>
   split_at CHR 0x0A (concat (map (\<lambda>l. l @ crlf) ls)) = map (\<lambda>l. l @ [CHR 0x0D]) ls @ [[]]"
proof (induction ls)
  case Nil
  then show ?case by simp
next
  case (Cons l ls)
  have "split_at CHR 0x0A ((l @ [CHR 0x0D]) @ CHR 0x0A # concat (map (\<lambda>l. l @ crlf) ls))
    = (l @ [CHR 0x0D]) # split_at CHR 0x0A (concat (map (\<lambda>l. l @ crlf) ls))"
    using Cons.prems by (intro split_at_append) auto
  with Cons show ?case by simp
qed

text \<open>The effect of each generated line on the parser's state.\<close>

named_theorems sdp_line_simps \<open>the effect of each line the generator prints\<close>

lemma sdp_line_ignored [sdp_line_simps]:
  "sdp_line [] st = Inr st"
  "sdp_line (''v=0'' @ [CHR 0x0D]) st = Inr st"
  "sdp_line (''t=0 0'' @ [CHR 0x0D]) st = Inr st"
  "sdp_line (''a=mediaclk:direct=0'' @ [CHR 0x0D]) st = Inr st"
  "sdp_line (''a=sendonly'' @ [CHR 0x0D]) st = Inr st"
  by (simp_all add: sdp_line_def starts_with_def)

lemma sdp_line_origin [sdp_line_simps]:
  "CHR '' '' \<notin> set a \<Longrightarrow> sdp_line ((''o=- 1 1 IN IP4 '' @ a) @ [CHR 0x0D]) st =
     Inr (st\<lparr>ps_session := (ps_session st)\<lparr>sd_originAddress := a\<rparr>\<rparr>)"
  by (simp add: sdp_line_def split_at_Cons split_at_absent butlast_append)

lemma sdp_line_name [sdp_line_simps]:
  "sdp_line ((''s='' @ n) @ [CHR 0x0D]) st = Inr (st\<lparr>ps_session := (ps_session st)\<lparr>sd_name := n\<rparr>\<rparr>)"
  by (simp add: sdp_line_def butlast_append)

lemma sdp_line_connection [sdp_line_simps]:
  assumes "CHR '' '' \<notin> set m" "CHR ''/'' \<notin> set m"
  shows "sdp_line ((''c=IN IP4 '' @ m @ ''/32'') @ [CHR 0x0D]) st =
     Inr (st\<lparr>ps_session := (ps_session st)\<lparr>sd_multicastAddress := m\<rparr>\<rparr>)"
proof -
  have "split_at CHR '' '' (''IN IP4 '' @ m @ ''/32'') = [''IN'', ''IP4'', m @ ''/32'']"
    using assms by (simp add: split_at_Cons split_at_absent)
  moreover have "find_char CHR ''/'' (m @ ''/32'') = Some (length m)"
    using assms by (simp add: find_char_append)
  ultimately show ?thesis by (simp add: sdp_line_def upto_pos_def butlast_append)
qed

lemma sdp_line_media [sdp_line_simps]:
  fixes p :: u16 and t :: u8
  assumes "t \<le> 127"
  shows "sdp_line ((''m=audio '' @ to_string (unat p) @ '' RTP/AVP '' @ to_string (unat t)) @ [CHR 0x0D]) st =
     Inr (st\<lparr>ps_session := (ps_session st)\<lparr>sd_port := p, sd_payloadType := t\<rparr>, ps_sawMedia := True\<rparr>)"
proof -
  have "split_at CHR '' '' (''audio '' @ to_string (unat p) @ '' RTP/AVP '' @ to_string (unat t))
    = [''audio'', to_string (unat p), ''RTP/AVP'', to_string (unat t)]"
    by (simp add: split_at_Cons split_at_append split_at_absent to_string_no_char)
  moreover have "unat p < 2 ^ 16" "unat t \<le> 127"
    using unat_bound [of p] assms by (simp_all add: word_le_nat_alt)
  ultimately show ?thesis
    by (simp add: sdp_line_def sdp_media_line_def parseNumber_to_string butlast_append)
qed

lemma sdp_line_rtpmap [sdp_line_simps]:
  fixes t :: u8 and r :: u32 and c :: u16
  assumes "t \<le> 127" "CHR '' '' \<notin> set e" "CHR ''/'' \<notin> set e" "sd_payloadType (ps_session st) = t"
  shows "sdp_line ((''a=rtpmap:'' @ to_string (unat t) @ '' '' @ e @ ''/'' @ to_string (unat r) @ ''/''
      @ to_string (unat c)) @ [CHR 0x0D]) st =
     Inr (st\<lparr>ps_session := (ps_session st)\<lparr>sd_encoding := e, sd_sampleRate := r, sd_channels := c\<rparr>,
       ps_sawRtpMap := True\<rparr>)"
proof -
  have "split_at CHR '' '' (to_string (unat t) @ '' '' @ e @ ''/'' @ to_string (unat r) @ ''/''
      @ to_string (unat c)) = [to_string (unat t), e @ ''/'' @ to_string (unat r) @ ''/'' @ to_string (unat c)]"
    using assms by (simp add: split_at_append split_at_absent to_string_no_char)
  moreover have "split_at CHR ''/'' (e @ ''/'' @ to_string (unat r) @ ''/'' @ to_string (unat c))
    = [e, to_string (unat r), to_string (unat c)]"
    using assms by (simp add: split_at_append split_at_absent to_string_no_char)
  moreover have "unat t \<le> 127" "unat r < 2 ^ 32" "unat c < 2 ^ 16"
    using unat_bound [of r] unat_bound [of c] assms by (simp_all add: word_le_nat_alt)
  ultimately show ?thesis
    using assms(4)
    by (simp add: sdp_line_def sdp_rtpmap_line_def starts_with_def parseNumber_to_string butlast_append)
qed

lemma sdp_line_ptime [sdp_line_simps]:
  fixes n :: u32
  shows "sdp_line ((''a=ptime:'' @ to_string (unat n)) @ [CHR 0x0D]) st =
     Inr (st\<lparr>ps_session := (ps_session st)\<lparr>sd_packetTimeMilliseconds := n\<rparr>\<rparr>)"
  using unat_bound [of n]
  by (simp add: sdp_line_def starts_with_def parseNumber_to_string butlast_append)

lemma sdp_line_framecount [sdp_line_simps]:
  fixes n :: u32
  shows "sdp_line ((''a=framecount:'' @ to_string (unat n)) @ [CHR 0x0D]) st =
     Inr (st\<lparr>ps_session := (ps_session st)\<lparr>sd_framesPerPacket := n\<rparr>\<rparr>)"
  using unat_bound [of n]
  by (simp add: sdp_line_def starts_with_def parseNumber_to_string butlast_append)

lemma sdp_line_refclk [sdp_line_simps]:
  fixes n :: u8
  assumes "n \<le> 127"
  shows "sdp_line ((''a=ts-refclk:ptp=IEEE1588-2008:traceable:domain-nmbr='' @ to_string (unat n)) @ [CHR 0x0D]) st =
     Inr (st\<lparr>ps_session := (ps_session st)\<lparr>sd_ptpDomain := n\<rparr>\<rparr>)"
proof -
  have "unat n \<le> 127" using assms by (simp add: word_le_nat_alt)
  then show ?thesis
    by (simp add: sdp_line_def starts_with_def parseNumber_to_string butlast_append)
qed

lemma sdp_line_source [sdp_line_simps]:
  assumes "CHR '' '' \<notin> set m" "CHR '' '' \<notin> set a"
  shows "sdp_line ((''a=source-filter: incl IN IP4 '' @ m @ '' '' @ a) @ [CHR 0x0D]) st =
     Inr (st\<lparr>ps_session := (ps_session st)\<lparr>sd_sourceAddress := a\<rparr>\<rparr>)"
proof -
  have "split_at CHR '' '' (''incl IN IP4 '' @ m @ '' '' @ a) = [''incl'', ''IN'', ''IP4'', m, a]"
    using assms by (simp add: split_at_Cons split_at_append split_at_absent)
  then show ?thesis by (simp add: sdp_line_def starts_with_def butlast_append)
qed

section \<open>Round trip\<close>

lemma sdp_lines_append:
  "sdp_lines (xs @ ys) st = (case sdp_lines xs st of Inl e \<Rightarrow> Inl e | Inr st' \<Rightarrow> sdp_lines ys st')"
  by (induction xs arbitrary: st) (auto split: sum.splits)

lemma sd_wf_fields:
  assumes "sd_wf s"
  shows "CHR '' '' \<notin> set (sd_multicastAddress s)" "CHR ''/'' \<notin> set (sd_multicastAddress s)"
  using assms validIPv4_no_char [of "sd_multicastAddress s" True] by (auto simp: sd_wf_def)

lemma sdp_lines_generated:
  assumes "sd_wf s"
  shows "sdp_lines (map (\<lambda>l. l @ [CHR 0x0D]) (sdp_text_lines s) @ [[]])
      \<lparr> ps_session = default_session, ps_sawMedia = False, ps_sawRtpMap = False \<rparr>
    = Inr \<lparr> ps_session = s, ps_sawMedia = True, ps_sawRtpMap = True \<rparr>"
proof -
  have "CHR '' '' \<notin> set (sd_originAddress s)" "sd_payloadType s \<le> 127" "sd_ptpDomain s \<le> 127"
    "CHR '' '' \<notin> set (sd_encoding s)" "CHR ''/'' \<notin> set (sd_encoding s)"
    "CHR '' '' \<notin> set (sd_sourceAddress s)"
    using assms by (simp_all add: sd_wf_def)
  note facts = this sd_wf_fields [OF assms]
  show ?thesis
    unfolding sdp_text_lines_def map_append list.map sdp_lines_append
    by (cases "sd_sourceAddress s = []")
      (simp_all only: if_True if_False sdp_lines.simps sdp_lines_append list.map sdp_line_simps facts
        sum.case refl not_True_eq_False not_False_eq_True sdp_state.simps session_description.simps
        default_session_def, simp_all)
qed

lemma sdp_parse_generate:
  assumes "sd_wf s"
  shows "sdp_parse (sdp_generate s) = Inr s"
proof -
  have "split_at CHR 0x0A (sdp_generate s) = map (\<lambda>l. l @ [CHR 0x0D]) (sdp_text_lines s) @ [[]]"
    unfolding sdp_generate_lines using sdp_text_lines_no_newline [OF assms] by (rule split_crlf)
  with assms show ?thesis
    by (simp add: sdp_parse_def sdp_lines_generated) (simp add: sd_wf_def)
qed

definition sdp_decode :: "string \<Rightarrow> session_description option" where
  "sdp_decode t = (case sdp_parse t of Inl _ \<Rightarrow> None | Inr s \<Rightarrow> Some s)"

interpretation sdp: wire_codec sdp_generate sdp_decode sd_wf
  by unfold_locales (simp add: sdp_decode_def sdp_parse_generate)

section \<open>What the parser accepts\<close>

text \<open>What holds of the fields after any prefix of the lines; the name and the address are only
  checked at the end.\<close>

definition sd_fields_ok :: "session_description \<Rightarrow> bool" where
  "sd_fields_ok s \<longleftrightarrow> CHR 0x0A \<notin> set (sd_name s)
     \<and> CHR '' '' \<notin> set (sd_originAddress s) \<and> CHR 0x0A \<notin> set (sd_originAddress s)
     \<and> sd_payloadType s \<le> 127 \<and> sd_ptpDomain s \<le> 127
     \<and> CHR '' '' \<notin> set (sd_encoding s) \<and> CHR ''/'' \<notin> set (sd_encoding s)
     \<and> CHR 0x0A \<notin> set (sd_encoding s)
     \<and> CHR '' '' \<notin> set (sd_sourceAddress s) \<and> CHR 0x0A \<notin> set (sd_sourceAddress s)"

lemma of_nat_le_127: "n \<le> 127 \<Longrightarrow> (of_nat n :: u8) \<le> 127"
  by (simp add: word_le_nat_alt unat_of_nat)

lemma split_at_nth_newline:
  "CHR 0x0A \<notin> set v \<Longrightarrow> i < length (split_at d v) \<Longrightarrow> CHR 0x0A \<notin> set (split_at d v ! i)"
  using split_at_nth_chars by blast

lemma sdp_media_line_ok:
  assumes "sdp_media_line value st = Inr st'" "sd_fields_ok (ps_session st)"
  shows "sd_fields_ok (ps_session st')"
  using assms by (auto simp: sdp_media_line_def Let_def sd_fields_ok_def of_nat_le_127
      split: if_splits option.splits)

lemma sdp_rtpmap_line_ok:
  assumes "sdp_rtpmap_line body st = Inr st'" "sd_fields_ok (ps_session st)" "CHR 0x0A \<notin> set body"
  shows "sd_fields_ok (ps_session st')"
proof -
  let ?fields = "split_at CHR '' '' body"
  let ?format = "split_at CHR ''/'' (?fields ! 1)"
  have "length ?fields = 2" "2 \<le> length ?format"
    using assms(1) by (auto simp: sdp_rtpmap_line_def Let_def split: if_splits)
  then have "CHR ''/'' \<notin> set (?format ! 0)" "CHR '' '' \<notin> set (?format ! 0)" "CHR 0x0A \<notin> set (?format ! 0)"
    using split_at_nth_no_delimiter [of 0 "CHR ''/''" "?fields ! 1"]
      split_at_nth_no_delimiter [of 1 "CHR '' ''" body] split_at_nth_chars [of 0 "CHR ''/''" "?fields ! 1"]
      split_at_nth_newline [OF assms(3), of 1 "CHR '' ''"]
    by (auto simp: Suc_le_eq)
  with assms(1,2) show ?thesis
    by (auto simp: sdp_rtpmap_line_def Let_def sd_fields_ok_def split: if_splits option.splits)
qed

lemma sdp_line_ok:
  assumes "sdp_line raw st = Inr st'" "sd_fields_ok (ps_session st)" "CHR 0x0A \<notin> set raw"
  shows "sd_fields_ok (ps_session st')"
proof -
  define line where "line = (if raw \<noteq> [] \<and> last raw = CHR 0x0D then butlast raw else raw)"
  have nl: "CHR 0x0A \<notin> set (drop k line)" for k
    using assms(3) by (auto simp: line_def dest: in_set_dropD in_set_butlastD)
  have drop_nl: "CHR 0x0A \<notin> set (dropWhile P (drop k line))" for P k
    using nl [of k] set_dropWhileD by fast
  note parts = split_at_nth_no_delimiter split_at_nth_newline [OF nl] split_at_nth_newline [OF drop_nl]
  note step = assms(1) [unfolded sdp_line_def, folded line_def]
  consider (media) "sdp_media_line (drop 2 line) st = Inr st'"
    | (rtpmap) "sdp_rtpmap_line (drop 9 line) st = Inr st'"
    | (other) "sd_fields_ok (ps_session st')"
    using step assms(2) nl [of 2] parts
    by (auto simp: Let_def sd_fields_ok_def of_nat_le_127 split: if_splits option.splits)
  then show ?thesis
    using sdp_media_line_ok sdp_rtpmap_line_ok assms(2) nl by cases blast+
qed

lemma sdp_lines_ok:
  "sdp_lines ls st = Inr st' \<Longrightarrow> sd_fields_ok (ps_session st) \<Longrightarrow>
   (\<And>l. l \<in> set ls \<Longrightarrow> CHR 0x0A \<notin> set l) \<Longrightarrow> sd_fields_ok (ps_session st')"
proof (induction ls arbitrary: st)
  case Nil
  then show ?case by simp
next
  case (Cons l ls)
  then obtain st1 where "sdp_line l st = Inr st1" "sdp_lines ls st1 = Inr st'"
    by (auto split: sum.splits)
  with Cons sdp_line_ok [of l st st1] show ?case by auto
qed

lemma sdp_parse_wf:
  assumes "sdp_parse t = Inr s"
  shows "sd_wf s"
proof -
  let ?st = "\<lparr> ps_session = default_session, ps_sawMedia = False, ps_sawRtpMap = False \<rparr>"
  obtain st where run: "sdp_lines (split_at CHR 0x0A t) ?st = Inr st" and s: "s = ps_session st"
    and ok: "sd_name s \<noteq> []" "validIPv4 (sd_multicastAddress s) True"
    using assms by (auto simp: sdp_parse_def split: sum.splits if_splits)
  have "sd_fields_ok default_session"
    by (simp add: sd_fields_ok_def default_session_def profile_defs)
  with run have "sd_fields_ok s"
    unfolding s by (intro sdp_lines_ok [OF run]) (auto dest: split_at_no_delimiter)
  with ok show ?thesis by (simp add: sd_wf_def sd_fields_ok_def)
qed

text \<open>C20: Every session whose fields are free of the delimiters around them is printed to a text that
  the parser reads back to exactly that session, all twelve fields included.\<close>

theorem sdp_generate_parse:
  assumes "sd_wf s"
  shows "sdp_parse (sdp_generate s) = Inr s"
  using assms by (rule sdp_parse_generate)

text \<open>The description the engine announces for a bank of eight channels.\<close>

definition sample_session :: session_description where
  "sample_session = default_session\<lparr>sd_name := ''Desk 1'', sd_originAddress := ''192.168.1.10'',
     sd_multicastAddress := ''239.69.83.80'', sd_sourceAddress := ''192.168.1.10''\<rparr>"

lemma validIPv4_toString: "length a = 4 \<Longrightarrow> validIPv4 (ipv4_toString a) m \<longleftrightarrow> m \<longrightarrow> isMulticast a"
  by (auto simp: validIPv4_def parse_toString)

lemma sample_session_wf: "sd_wf sample_session"
proof -
  have "''239.69.83.80'' = ipv4_toString [239, 69, 83, 80]"
    by code_simp
  then have "validIPv4 ''239.69.83.80'' True"
    by (simp add: validIPv4_toString isMulticast_def)
  then show ?thesis
    by (simp add: sd_wf_def sample_session_def default_session_def profile_defs)
qed

theorem sdp_generate_parse_witness: "sdp_parse (sdp_generate sample_session) = Inr sample_session"
  using sdp_generate_parse sample_session_wf by blast

text \<open>C21: Whatever text arrives from the network, a session the parser accepts is one the generator
  can print faithfully: it has a name, a multicast address, a payload type and a domain of at most
  127, and parsing its own announcement gives it back.\<close>

theorem sdp_parse_normalises:
  assumes "sdp_parse t = Inr s"
  shows "sd_name s \<noteq> [] \<and> (\<exists>a. ipv4_parse (sd_multicastAddress s) = Some a \<and> isMulticast a)
    \<and> sd_payloadType s \<le> 127 \<and> sd_ptpDomain s \<le> 127 \<and> sdp_parse (sdp_generate s) = Inr s"
  using sdp_parse_wf [OF assms] sdp_parse_generate
  by (auto simp: sd_wf_def validIPv4_def split: option.splits)

definition foreign_sdp :: string where
  "foreign_sdp = ''s=A B'' @ [CHR 0x0A] @ ''c=IN IP4 239.1.2.3/15'' @ [CHR 0x0A]
     @ ''m=audio 6000 RTP/AVP 97'' @ [CHR 0x0D, CHR 0x0A] @ ''a=rtpmap:97 L16/44100'' @ [CHR 0x0A]"

lemma foreign_sdp_parses:
  "sdp_parse foreign_sdp = Inr (default_session\<lparr>sd_name := ''A B'',
     sd_multicastAddress := ''239.1.2.3'', sd_port := 6000, sd_payloadType := 97,
     sd_encoding := ''L16'', sd_sampleRate := 44100, sd_channels := 1\<rparr>)"
proof -
  note digits = from_chars_def decval_def digit_val_def is_digit_def
  have lines: "split_at CHR 0x0A foreign_sdp = [''s=A B'', ''c=IN IP4 239.1.2.3/15'',
      ''m=audio 6000 RTP/AVP 97'' @ [CHR 0x0D], ''a=rtpmap:97 L16/44100'', []]"
    by (simp add: foreign_sdp_def split_at_Cons)
  have numbers: "parseNumber ''6000'' = Some 6000" "parseNumber ''97'' = Some 97"
    "parseNumber ''44100'' = Some 44100"
    by (simp_all add: parseNumber_def digits)
  have address: "ipv4_parse ''239.1.2.3'' = Some [239, 1, 2, 3]"
    by (simp add: ipv4_parse_by_components ipv4_spec_def split_at_Cons octet_text_def all_digits_def
        digits)
  show ?thesis
    by (simp add: sdp_parse_def lines sdp_line_def sdp_media_line_def sdp_rtpmap_line_def numbers
        starts_with_def split_at_Cons upto_pos_def validIPv4_def address isMulticast_def
        default_session_def profile_defs)
qed

theorem sdp_parse_normalises_witness:
  "\<exists>s. sdp_parse foreign_sdp = Inr s \<and> sdp_parse (sdp_generate s) = Inr s \<and> sd_payloadType s \<le> 127"
  using sdp_parse_normalises [OF foreign_sdp_parses] foreign_sdp_parses by blast

section \<open>The profile check\<close>

text \<open>The check of the bridge's profile reports no error exactly for L24 at 48 kHz with 1, 2, 4
  or 8 channels, 1 ms packets of 48 frames, PTP domain 0 and a multicast address, so an accepted
  stream's packets carry at most 1152 payload bytes.\<close>

theorem validate_profile_exact:
  "validateLXToolProfile s = [] \<longleftrightarrow>
     sd_encoding s = ''L24'' \<and> sd_sampleRate s = 48000 \<and> unat (sd_channels s) \<in> {1, 2, 4, 8}
     \<and> sd_packetTimeMilliseconds s = 1 \<and> sd_framesPerPacket s = 48 \<and> sd_ptpDomain s = 0
     \<and> validIPv4 (sd_multicastAddress s) True
     \<and> payloadBytesForChannels (unat (sd_channels s)) \<le> 1152"
proof -
  have frames: "unat (sd_framesPerPacket s) = kFramesPerPacket \<longleftrightarrow> sd_framesPerPacket s = 48"
    by (simp add: kFramesPerPacket_def word_unat_eq_iff)
  show ?thesis
    unfolding validateLXToolProfile_def frames
    by (auto simp: supportedAES67ChannelCount_def payloadBytesForChannels_def profile_defs)
qed

end
