(* ===== verification/Store_Interface.thy ===== *)
theory Store_Interface
  imports Prelude
begin

text \<open>
  The contract of a bounded table of entries that are found by a key, refreshed by storing them
  again, withdrawn by key and purged by age; the discovered sessions of the shared memory block
  are such a table.
\<close>

datatype ('a, 'k, 't) store_call = Put 'a | Del 'k | Purge 't

fun store_spec :: "('a \<Rightarrow> 'e) \<Rightarrow> ('e \<Rightarrow> 'k) \<Rightarrow> ('e \<Rightarrow> 't::linorder) \<Rightarrow>
    ('a, 'k, 't) store_call \<Rightarrow> 'e set \<Rightarrow> 'e set" where
  "store_spec entry key stamp (Put a) E = insert (entry a) {e \<in> E. key e \<noteq> key (entry a)}"
| "store_spec entry key stamp (Del k) E = {e \<in> E. key e \<noteq> k}"
| "store_spec entry key stamp (Purge t) E = {e \<in> E. t \<le> stamp e}"

fun store_step :: "('d \<Rightarrow> 'a \<Rightarrow> 'd) \<Rightarrow> ('d \<Rightarrow> 'k \<Rightarrow> 'd) \<Rightarrow> ('d \<Rightarrow> 't \<Rightarrow> 'd) \<Rightarrow>
    ('a, 'k, 't) store_call \<Rightarrow> 'd \<Rightarrow> 'd" where
  "store_step put del purge (Put a) d = put d a"
| "store_step put del purge (Del k) d = del d k"
| "store_step put del purge (Purge t) d = purge d t"

fun put_args :: "('a, 'k, 't) store_call list \<Rightarrow> 'a list" where
  "put_args [] = []"
| "put_args (Put a # calls) = a # put_args calls"
| "put_args (_ # calls) = put_args calls"

locale session_store =
  fixes put :: "'d \<Rightarrow> 'a \<Rightarrow> 'd" and del :: "'d \<Rightarrow> 'k \<Rightarrow> 'd" and purge :: "'d \<Rightarrow> 't::linorder \<Rightarrow> 'd"
    and entries :: "'d \<Rightarrow> 'e set" and entry :: "'a \<Rightarrow> 'e" and key :: "'e \<Rightarrow> 'k" and stamp :: "'e \<Rightarrow> 't"
    and invar :: "'d \<Rightarrow> bool" and fits :: "'a \<Rightarrow> bool" and capacity :: nat
  assumes put_invar: "invar d \<Longrightarrow> fits a \<Longrightarrow> invar (put d a)"
    and del_invar: "invar d \<Longrightarrow> invar (del d k)"
    and purge_invar: "invar d \<Longrightarrow> invar (purge d t)"
    and keys_distinct: "invar d \<Longrightarrow> finite (entries d) \<and> inj_on key (entries d)"
    and put_room: "invar d \<Longrightarrow> fits a \<Longrightarrow> key (entry a) \<in> key ` entries d \<or> card (entries d) < capacity \<Longrightarrow>
      entries (put d a) = insert (entry a) {e \<in> entries d. key e \<noteq> key (entry a)}"
    and del_entries: "invar d \<Longrightarrow> entries (del d k) = {e \<in> entries d. key e \<noteq> k}"
    and purge_entries: "invar d \<Longrightarrow> entries (purge d t) = {e \<in> entries d. t \<le> stamp e}"
begin

lemma room_below:
  assumes "invar d" "key ` entries d \<subseteq> K" "finite K" "card K \<le> capacity" "k \<in> K"
  shows "k \<in> key ` entries d \<or> card (entries d) < capacity"
proof (cases "k \<in> key ` entries d")
  case False
  have "card (entries d) = card (key ` entries d)"
    using keys_distinct [OF assms(1)] by (simp add: card_image)
  also have "\<dots> \<le> card (K - {k})"
    using assms False by (intro card_mono) auto
  also have "\<dots> < card K"
    using assms by (intro card_Diff1_less) auto
  finally show ?thesis using assms(4) by simp
qed simp

text \<open>While the calls use no more different keys than there are slots, the table is the set of
  the entries that were put and neither replaced, deleted nor purged.\<close>

lemma run_refines:
  assumes "invar d" "\<And>a. a \<in> set (put_args calls) \<Longrightarrow> fits a \<and> key (entry a) \<in> K"
    and "key ` entries d \<subseteq> K" "finite K" "card K \<le> capacity"
  shows "invar (fold (store_step put del purge) calls d)
    \<and> entries (fold (store_step put del purge) calls d)
      = fold (store_spec entry key stamp) calls (entries d)"
  using assms(1-3)
proof (induction calls arbitrary: d)
  case Nil
  then show ?case by simp
next
  case (Cons c calls)
  let ?d = "store_step put del purge c d"
  have step: "invar (store_step put del purge c d)
    \<and> entries (store_step put del purge c d) = store_spec entry key stamp c (entries d)
    \<and> key ` entries (store_step put del purge c d) \<subseteq> K"
  proof (cases c)
    case (Put a)
    with Cons.prems have a: "fits a" "key (entry a) \<in> K" by auto
    have "entries (put d a) = insert (entry a) {e \<in> entries d. key e \<noteq> key (entry a)}"
      using Cons.prems a assms(4,5) by (intro put_room room_below [of d K])
    with Put a Cons.prems show ?thesis by (auto simp: put_invar)
  next
    case (Del k)
    with Cons.prems show ?thesis by (auto simp: del_invar del_entries)
  next
    case (Purge t)
    with Cons.prems show ?thesis by (auto simp: purge_invar purge_entries)
  qed
  have more: "fits a \<and> key (entry a) \<in> K" if "a \<in> set (put_args calls)" for a
    using that Cons.prems(2) by (cases c) auto
  have "invar (fold (store_step put del purge) calls ?d)
    \<and> entries (fold (store_step put del purge) calls ?d)
      = fold (store_spec entry key stamp) calls (entries ?d)"
    by (rule Cons.IH) (use step more in blast)+
  with step show ?case by simp
qed

end

end
