(* ===== verification/Session_Directory.thy ===== *)
theory Session_Directory
  imports SDP_Session Store_Interface "HOL-Library.Char_ord" "HOL-Library.List_Lexorder" "HOL-Library.Product_Lexorder"
    "HOL-Library.Multiset"
begin

text \<open>
  Sources/Core/SessionDirectory.cpp over the slots of Sources/Core/SharedAudioMemory.hpp: the
  table of discovered sessions that the engine writes and other processes read.

  A reader's loads may see different states of the slot while a writer is at work, so
  \<open>snapshotSlot\<close> takes the slot its k-th load sees. The operations of the writing thread see
  their own slots unchanged: they read a constant history. Writers of the same slot are the one
  discovery thread of the engine.
\<close>

section \<open>Slots\<close>

definition kMaximumDiscoveredSessions :: nat where "kMaximumDiscoveredSessions = 16"
definition kSessionNameCapacity :: nat where "kSessionNameCapacity = 96"
definition kIPv4TextCapacity :: nat where "kIPv4TextCapacity = 16"

record session_slot =
  sl_revision :: u32
  sl_active :: bool
  sl_messageHash :: u16
  sl_port :: u16
  sl_channels :: u16
  sl_sampleRate :: u32
  sl_framesPerPacket :: u32
  sl_payloadType :: u8
  sl_ptpDomain :: u8
  sl_lastSeen :: u64
  sl_name :: string
  sl_originAddress :: string
  sl_sourceAddress :: string
  sl_multicastAddress :: string

record session_snapshot =
  sn_messageHash :: u16
  sn_name :: string
  sn_originAddress :: string
  sn_sourceAddress :: string
  sn_multicastAddress :: string
  sn_port :: u16
  sn_channels :: u16
  sn_sampleRate :: u32
  sn_framesPerPacket :: u32
  sn_payloadType :: u8
  sn_ptpDomain :: u8
  sn_lastSeen :: u64

definition new_slot :: session_slot where
  "new_slot = \<lparr> sl_revision = 0, sl_active = False, sl_messageHash = 0, sl_port = 0, sl_channels = 0,
     sl_sampleRate = 0, sl_framesPerPacket = 0, sl_payloadType = 0, sl_ptpDomain = 0, sl_lastSeen = 0,
     sl_name = replicate kSessionNameCapacity CHR 0x00,
     sl_originAddress = replicate kIPv4TextCapacity CHR 0x00,
     sl_sourceAddress = replicate kIPv4TextCapacity CHR 0x00,
     sl_multicastAddress = replicate kIPv4TextCapacity CHR 0x00 \<rparr>"

section \<open>The code\<close>

definition storeText :: "nat \<Rightarrow> string \<Rightarrow> string" where
  "storeText capacity source =
     (let count = min (length source) (capacity - 1)
      in take count source @ replicate (capacity - count) CHR 0x00)"

text \<open>\<open>loadText\<close>: one load per character; \<open>obs k\<close> is the array the k-th load sees. The result
  carries the number of the next load.\<close>

fun loadText :: "(nat \<Rightarrow> string) \<Rightarrow> nat \<Rightarrow> nat \<Rightarrow> nat \<Rightarrow> string \<times> nat" where
  "loadText obs k i 0 = ([], k)"
| "loadText obs k i (Suc remaining) =
     (let value = obs k ! i
      in if value = CHR 0x00 then ([], k + 1)
         else case loadText obs (k + 1) (i + 1) remaining of (rest, k') \<Rightarrow> (value # rest, k'))"

text \<open>One attempt of \<open>snapshotSlot\<close> whose first load has number \<open>k\<close>.\<close>

definition snapshot_attempt :: "(nat \<Rightarrow> session_slot) \<Rightarrow> nat \<Rightarrow> session_snapshot option \<times> nat" where
  "snapshot_attempt obs k =
     (let before = sl_revision (obs k)
      in if before AND 1 \<noteq> 0 then (None, k + 1)
         else if \<not> sl_active (obs (k + 1)) then (None, k + 2)
         else
           let hash = sl_messageHash (obs (k + 2));
               (name, k1) = loadText (\<lambda>t. sl_name (obs t)) (k + 3) 0 kSessionNameCapacity;
               (origin, k2) = loadText (\<lambda>t. sl_originAddress (obs t)) k1 0 kIPv4TextCapacity;
               (source, k3) = loadText (\<lambda>t. sl_sourceAddress (obs t)) k2 0 kIPv4TextCapacity;
               (multicast, k4) = loadText (\<lambda>t. sl_multicastAddress (obs t)) k3 0 kIPv4TextCapacity;
               candidate = \<lparr> sn_messageHash = hash, sn_name = name, sn_originAddress = origin,
                 sn_sourceAddress = source, sn_multicastAddress = multicast,
                 sn_port = sl_port (obs k4), sn_channels = sl_channels (obs (k4 + 1)),
                 sn_sampleRate = sl_sampleRate (obs (k4 + 2)),
                 sn_framesPerPacket = sl_framesPerPacket (obs (k4 + 3)),
                 sn_payloadType = sl_payloadType (obs (k4 + 4)),
                 sn_ptpDomain = sl_ptpDomain (obs (k4 + 5)),
                 sn_lastSeen = sl_lastSeen (obs (k4 + 6)) \<rparr>;
               after = sl_revision (obs (k4 + 7))
           in if before = after \<and> after AND 1 = 0 \<and> sl_active (obs (k4 + 8))
              then (Some candidate, k4 + 9) else (None, k4 + 9))"

fun snapshot_attempts :: "nat \<Rightarrow> (nat \<Rightarrow> session_slot) \<Rightarrow> nat \<Rightarrow> session_snapshot option" where
  "snapshot_attempts 0 obs k = None"
| "snapshot_attempts (Suc attempts) obs k =
     (case snapshot_attempt obs k of
        (Some s, _) \<Rightarrow> Some s
      | (None, k') \<Rightarrow> snapshot_attempts attempts obs k')"

definition snapshotSlot :: "(nat \<Rightarrow> session_slot) \<Rightarrow> session_snapshot option" where
  "snapshotSlot obs = snapshot_attempts 4 obs 0"

definition beginWrite :: "session_slot \<Rightarrow> session_slot" where
  "beginWrite slot = slot\<lparr>sl_revision := sl_revision slot + 1, sl_active := False\<rparr>"

definition endWrite :: "session_slot \<Rightarrow> bool \<Rightarrow> session_slot" where
  "endWrite slot active = slot\<lparr>sl_active := active, sl_revision := sl_revision slot + 1\<rparr>"

text \<open>The writing thread's own view: no other thread writes the slot.\<close>

abbreviation own_view :: "session_slot \<Rightarrow> session_snapshot option" where
  "own_view slot \<equiv> snapshotSlot (\<lambda>_. slot)"

fun upsert_scan ::
    "session_slot list \<Rightarrow> nat \<Rightarrow> u16 \<Rightarrow> string \<Rightarrow> nat option \<Rightarrow> nat \<Rightarrow> u64 \<Rightarrow> nat" where
  "upsert_scan [] i messageHash origin target oldest oldestTime =
     (case target of Some t \<Rightarrow> t | None \<Rightarrow> oldest)"
| "upsert_scan (slot # slots) i messageHash origin target oldest oldestTime =
     (case own_view slot of
        None \<Rightarrow> upsert_scan slots (i + 1) messageHash origin
                  (if target = None then Some i else target) oldest oldestTime
      | Some current \<Rightarrow>
          if sn_messageHash current = messageHash \<and> sn_originAddress current = origin then i
          else if sn_lastSeen current < oldestTime
          then upsert_scan slots (i + 1) messageHash origin target i (sn_lastSeen current)
          else upsert_scan slots (i + 1) messageHash origin target oldest oldestTime)"

definition store_session :: "session_slot \<Rightarrow> u16 \<Rightarrow> session_description \<Rightarrow> u64 \<Rightarrow> session_slot" where
  "store_session target messageHash session now =
     target\<lparr>sl_messageHash := messageHash, sl_port := sd_port session, sl_channels := sd_channels session,
       sl_sampleRate := sd_sampleRate session, sl_framesPerPacket := sd_framesPerPacket session,
       sl_payloadType := sd_payloadType session, sl_ptpDomain := sd_ptpDomain session,
       sl_lastSeen := now,
       sl_name := storeText kSessionNameCapacity (sd_name session),
       sl_originAddress := storeText kIPv4TextCapacity (sd_originAddress session),
       sl_sourceAddress := storeText kIPv4TextCapacity (sd_sourceAddress session),
       sl_multicastAddress := storeText kIPv4TextCapacity (sd_multicastAddress session)\<rparr>"

definition dir_upsert ::
    "session_slot list \<Rightarrow> u16 \<Rightarrow> session_description \<Rightarrow> u64 \<Rightarrow> session_slot list" where
  "dir_upsert slots messageHash session now =
     (let i = upsert_scan slots 0 messageHash (sd_originAddress session) None 0 (- 1)
      in slots[i := endWrite (store_session (beginWrite (slots ! i)) messageHash session now) True])"

definition erase_slot :: "u16 \<Rightarrow> string \<Rightarrow> session_slot \<Rightarrow> session_slot" where
  "erase_slot messageHash origin slot =
     (case own_view slot of
        None \<Rightarrow> slot
      | Some current \<Rightarrow>
          if sn_messageHash current \<noteq> messageHash \<or> sn_originAddress current \<noteq> origin then slot
          else endWrite (beginWrite slot) False)"

definition dir_erase :: "session_slot list \<Rightarrow> u16 \<Rightarrow> string \<Rightarrow> session_slot list" where
  "dir_erase slots messageHash origin = map (erase_slot messageHash origin) slots"

definition expire_slot :: "u64 \<Rightarrow> session_slot \<Rightarrow> session_slot" where
  "expire_slot oldestAllowed slot =
     (case own_view slot of
        None \<Rightarrow> slot
      | Some current \<Rightarrow>
          if sn_lastSeen current \<ge> oldestAllowed then slot else endWrite (beginWrite slot) False)"

definition dir_expire :: "session_slot list \<Rightarrow> u64 \<Rightarrow> session_slot list" where
  "dir_expire slots oldestAllowed = map (expire_slot oldestAllowed) slots"

text \<open>\<open>snapshots\<close>. \<open>std::sort\<close> may order entries with equal name and origin either way; the
  model keeps them in slot order.\<close>

definition dir_snapshots :: "session_slot list \<Rightarrow> session_snapshot list" where
  "dir_snapshots slots =
     sort_key (\<lambda>s. (sn_name s, sn_originAddress s)) (List.map_filter (\<lambda>slot. own_view slot) slots)"

section \<open>Texts and snapshots of an unchanging slot\<close>

definition text_of :: "string \<Rightarrow> string" where
  "text_of cells = takeWhile (\<lambda>c. c \<noteq> CHR 0x00) cells"

lemma loadText_const:
  "i + n \<le> length cells \<Longrightarrow> fst (loadText (\<lambda>_. cells) k i n) = text_of (take n (drop i cells))"
proof (induction n arbitrary: k i)
  case 0
  then show ?case by (simp add: text_of_def)
next
  case (Suc n)
  then have "take (Suc n) (drop i cells) = cells ! i # take n (drop (Suc i) cells)"
    by (simp add: Cons_nth_drop_Suc [symmetric])
  with Suc show ?case by (simp add: text_of_def Let_def case_prod_unfold)
qed

lemma length_storeText [simp]: "0 < capacity \<Longrightarrow> length (storeText capacity s) = capacity"
  by (simp add: storeText_def Let_def)

lemma text_of_storeText:
  assumes "0 < capacity"
  shows "text_of (storeText capacity s) = text_of (take (capacity - 1) s)"
proof -
  let ?t = "take (capacity - 1) s"
  from assms obtain n where "capacity = Suc n" by (cases capacity) auto
  then have "storeText capacity s = ?t @ CHR 0x00 # replicate (capacity - 1 - length ?t) CHR 0x00"
    by (auto simp: storeText_def min_def Suc_diff_le)
  moreover have "text_of (xs @ CHR 0x00 # ys) = text_of xs" for xs ys
    by (induction xs) (auto simp: text_of_def)
  ultimately show ?thesis by simp
qed

text \<open>Texts that a field of \<open>capacity\<close> bytes holds with its terminator.\<close>

definition fits_text :: "nat \<Rightarrow> string \<Rightarrow> bool" where
  "fits_text capacity s \<longleftrightarrow> length s < capacity \<and> CHR 0x00 \<notin> set s"

lemma text_of_plain: "CHR 0x00 \<notin> set s \<Longrightarrow> text_of s = s"
  unfolding text_of_def by (rule takeWhile_eq_all_conv [THEN iffD2]) auto

lemma text_of_fits: "fits_text capacity s \<Longrightarrow> text_of (storeText capacity s) = s"
  by (subst text_of_storeText) (auto simp: fits_text_def text_of_plain)

definition slot_wf :: "session_slot \<Rightarrow> bool" where
  "slot_wf sl \<longleftrightarrow> sl_revision sl AND 1 = 0 \<and> length (sl_name sl) = kSessionNameCapacity
     \<and> length (sl_originAddress sl) = kIPv4TextCapacity \<and> length (sl_sourceAddress sl) = kIPv4TextCapacity
     \<and> length (sl_multicastAddress sl) = kIPv4TextCapacity"

definition slot_snapshot :: "session_slot \<Rightarrow> session_snapshot" where
  "slot_snapshot sl = \<lparr> sn_messageHash = sl_messageHash sl, sn_name = text_of (sl_name sl),
     sn_originAddress = text_of (sl_originAddress sl), sn_sourceAddress = text_of (sl_sourceAddress sl),
     sn_multicastAddress = text_of (sl_multicastAddress sl), sn_port = sl_port sl,
     sn_channels = sl_channels sl, sn_sampleRate = sl_sampleRate sl,
     sn_framesPerPacket = sl_framesPerPacket sl, sn_payloadType = sl_payloadType sl,
     sn_ptpDomain = sl_ptpDomain sl, sn_lastSeen = sl_lastSeen sl \<rparr>"

lemma snapshot_attempt_const:
  assumes "slot_wf sl"
  shows "fst (snapshot_attempt (\<lambda>_. sl) k) = (if sl_active sl then Some (slot_snapshot sl) else None)"
proof -
  have texts: "fst (loadText (\<lambda>_. sl_name sl) k 0 kSessionNameCapacity) = text_of (sl_name sl)"
    "fst (loadText (\<lambda>_. sl_originAddress sl) k 0 kIPv4TextCapacity) = text_of (sl_originAddress sl)"
    "fst (loadText (\<lambda>_. sl_sourceAddress sl) k 0 kIPv4TextCapacity) = text_of (sl_sourceAddress sl)"
    "fst (loadText (\<lambda>_. sl_multicastAddress sl) k 0 kIPv4TextCapacity) = text_of (sl_multicastAddress sl)"
    for k
    using assms by (simp_all add: loadText_const slot_wf_def)
  show ?thesis
    using assms texts
    by (simp add: snapshot_attempt_def Let_def slot_wf_def slot_snapshot_def case_prod_unfold)
qed

lemma own_view_eq:
  assumes "slot_wf sl"
  shows "own_view sl = (if sl_active sl then Some (slot_snapshot sl) else None)"
proof -
  have "snapshot_attempts (Suc n) (\<lambda>_. sl) k = (if sl_active sl then Some (slot_snapshot sl) else None)" for n k
  proof (induction n arbitrary: k)
    case 0
    then show ?case
      using snapshot_attempt_const [OF assms, of k]
      by (cases "snapshot_attempt (\<lambda>_. sl) k") (auto split: option.splits)
  next
    case (Suc n)
    then show ?case
      using snapshot_attempt_const [OF assms, of k]
      by (cases "snapshot_attempt (\<lambda>_. sl) k")
        (subst snapshot_attempts.simps, auto split: option.splits if_splits)
  qed
  then show ?thesis by (simp add: snapshotSlot_def numeral_eq_Suc)
qed

section \<open>The directory as a set of entries\<close>

definition sn_key :: "session_snapshot \<Rightarrow> u16 \<times> string" where
  "sn_key s = (sn_messageHash s, sn_originAddress s)"

definition dir_entries :: "session_slot list \<Rightarrow> session_snapshot set" where
  "dir_entries slots = set (List.map_filter (\<lambda>slot. own_view slot) slots)"

definition dir_inv :: "session_slot list \<Rightarrow> bool" where
  "dir_inv slots \<longleftrightarrow> length slots = kMaximumDiscoveredSessions \<and> list_all slot_wf slots
     \<and> distinct (map sn_key (List.map_filter (\<lambda>slot. own_view slot) slots))"

definition visible :: "session_slot list \<Rightarrow> nat \<Rightarrow> session_snapshot \<Rightarrow> bool" where
  "visible slots i s \<longleftrightarrow> i < length slots \<and> own_view (slots ! i) = Some s"

lemma dir_entries_iff: "s \<in> dir_entries slots \<longleftrightarrow> (\<exists>i. visible slots i s)"
  unfolding dir_entries_def visible_def
  by (force simp: List.map_filter_def in_set_conv_nth)

lemma distinct_keys_iff:
  "distinct (map sn_key (List.map_filter (\<lambda>slot. own_view slot) slots)) \<longleftrightarrow>
   (\<forall>i j s t. visible slots i s \<longrightarrow> visible slots j t \<longrightarrow> sn_key s = sn_key t \<longrightarrow> i = j)"
proof (induction slots)
  case Nil
  then show ?case by (simp add: List.map_filter_def visible_def)
next
  case (Cons sl slots)
  have shift: "visible (sl # slots) i s \<longleftrightarrow>
      (i = 0 \<and> own_view sl = Some s) \<or> (\<exists>j. i = Suc j \<and> visible slots j s)" for i s
    by (cases i) (auto simp: visible_def)
  have members: "k \<in> sn_key ` set (List.map_filter (\<lambda>slot. own_view slot) slots) \<longleftrightarrow>
      (\<exists>i s. visible slots i s \<and> sn_key s = k)" for k
    using dir_entries_iff [of _ slots] unfolding dir_entries_def image_iff by blast
  show ?case
  proof (cases "own_view sl")
    case None
    then have "visible (sl # slots) i s \<longleftrightarrow> (\<exists>j. i = Suc j \<and> visible slots j s)" for i s
      by (simp add: shift)
    with None show ?thesis using Cons by (simp add: List.map_filter_simps) blast
  next
    case (Some s)
    let ?V = "visible (sl # slots)"
    let ?inj = "\<lambda>V. \<forall>i j x y. V i x \<longrightarrow> V j y \<longrightarrow> sn_key x = sn_key y \<longrightarrow> i = (j :: nat)"
    have V: "?V 0 x \<longleftrightarrow> x = s" "?V (Suc j) x \<longleftrightarrow> visible slots j x" for j x
      using Some by (auto simp: shift)
    have "?inj ?V \<longleftrightarrow> ?inj (visible slots) \<and> (\<forall>j t. visible slots j t \<longrightarrow> sn_key t \<noteq> sn_key s)"
    proof
      assume "?inj ?V"
      then have inj: "?V i x \<Longrightarrow> ?V j y \<Longrightarrow> sn_key x = sn_key y \<Longrightarrow> i = j" for i j x y by blast
      show "?inj (visible slots) \<and> (\<forall>j t. visible slots j t \<longrightarrow> sn_key t \<noteq> sn_key s)"
        using inj [of "Suc _" _ "Suc _"] inj [of "Suc _" _ 0 s] by (auto simp: V)
    next
      assume "?inj (visible slots) \<and> (\<forall>j t. visible slots j t \<longrightarrow> sn_key t \<noteq> sn_key s)"
      then have R: "visible slots i x \<Longrightarrow> visible slots j y \<Longrightarrow> sn_key x = sn_key y \<Longrightarrow> i = j"
        "visible slots i x \<Longrightarrow> sn_key x \<noteq> sn_key s" for i j x y by blast+
      have "i = j" if "?V i x" "?V j y" "sn_key x = sn_key y" for i j x y
      proof (cases i)
        case 0
        with that V R(2) [of _ y] show ?thesis by (cases j) auto
      next
        case (Suc i')
        with that V R(2) [of i' x] R(1) [of i' x _ y] show ?thesis by (cases j) auto
      qed
      then show "?inj ?V" by blast
    qed
    moreover have "sn_key s \<notin> sn_key ` set (List.map_filter (\<lambda>slot. own_view slot) slots)
        \<longleftrightarrow> (\<forall>j t. visible slots j t \<longrightarrow> sn_key t \<noteq> sn_key s)"
      using members [of "sn_key s"] by blast
    ultimately show ?thesis
      using Some Cons by (simp only: List.map_filter_simps option.case list.map distinct.simps set_map) blast
  qed
qed

lemma dir_inv_iff:
  "dir_inv slots \<longleftrightarrow> length slots = kMaximumDiscoveredSessions \<and> (\<forall>sl \<in> set slots. slot_wf sl)
     \<and> (\<forall>i j s t. visible slots i s \<longrightarrow> visible slots j t \<longrightarrow> sn_key s = sn_key t \<longrightarrow> i = j)"
  by (simp add: dir_inv_def distinct_keys_iff list_all_iff)

lemma dir_card:
  assumes "dir_inv slots" "card (dir_entries slots) < kMaximumDiscoveredSessions"
  shows "\<exists>i < length slots. own_view (slots ! i) = None"
proof (rule ccontr)
  assume "\<not> ?thesis"
  then have all: "own_view sl \<noteq> None" if "sl \<in> set slots" for sl
    using that by (auto simp: in_set_conv_nth)
  have "length (List.map_filter (\<lambda>slot. own_view slot) slots) = length slots"
    using all by (induction slots) (force simp: List.map_filter_simps split: option.splits)+
  moreover have "distinct (List.map_filter (\<lambda>slot. own_view slot) slots)"
    using assms(1) by (simp add: dir_inv_def distinct_map)
  ultimately show False
    using assms by (simp add: dir_entries_def distinct_card dir_inv_def)
qed

text \<open>Which slot \<open>upsert\<close> chooses: a slot that holds the key, otherwise the first that cannot be
  read, otherwise a slot with the smallest time.\<close>

fun first_index :: "('a \<Rightarrow> bool) \<Rightarrow> 'a list \<Rightarrow> nat option" where
  "first_index P [] = None"
| "first_index P (x # xs) = (if P x then Some 0 else map_option Suc (first_index P xs))"

lemma first_index_Some: "first_index P xs = Some i \<Longrightarrow> i < length xs \<and> P (xs ! i)"
  by (induction xs arbitrary: i) (auto split: if_splits)

lemma first_index_None: "first_index P xs = None \<longleftrightarrow> (\<forall>x \<in> set xs. \<not> P x)"
  by (induction xs) auto

definition holds_key :: "u16 \<Rightarrow> string \<Rightarrow> session_slot \<Rightarrow> bool" where
  "holds_key h origin sl \<longleftrightarrow> (case own_view sl of None \<Rightarrow> False | Some s \<Rightarrow> sn_key s = (h, origin))"

lemma upsert_scan_key:
  "first_index (holds_key h origin) slots = Some j \<Longrightarrow>
   upsert_scan slots i h origin target oldest oldestTime = i + j"
  by (induction slots arbitrary: i j target oldest oldestTime)
    (auto simp: holds_key_def sn_key_def split: option.splits if_splits)

lemma upsert_scan_free:
  "first_index (holds_key h origin) slots = None \<Longrightarrow>
   first_index (\<lambda>sl. own_view sl = None) slots = Some j \<Longrightarrow>
   upsert_scan slots i h origin None oldest oldestTime = i + j"
proof -
  have held: "first_index (holds_key h origin) slots = None \<Longrightarrow>
    upsert_scan slots i h origin (Some t) oldest oldestTime = t" for i t oldest oldestTime and slots
    by (induction slots arbitrary: i oldest oldestTime)
      (auto simp: holds_key_def sn_key_def split: option.splits if_splits)
  show "first_index (holds_key h origin) slots = None \<Longrightarrow>
    first_index (\<lambda>sl. own_view sl = None) slots = Some j \<Longrightarrow>
    upsert_scan slots i h origin None oldest oldestTime = i + j"
    by (induction slots arbitrary: i j oldest oldestTime)
      (auto simp: held holds_key_def sn_key_def split: option.splits if_splits)
qed

lemma upsert_scan_oldest:
  assumes "first_index (holds_key h origin) slots = None" "\<forall>sl \<in> set slots. own_view sl \<noteq> None"
    and "upsert_scan slots i h origin None oldest oldestTime = r"
  shows "(r = oldest \<and> (\<forall>j s. visible slots j s \<longrightarrow> oldestTime \<le> sn_lastSeen s)) \<or>
    (\<exists>j s. r = i + j \<and> visible slots j s \<and> sn_lastSeen s < oldestTime
       \<and> (\<forall>j' s'. visible slots j' s' \<longrightarrow> sn_lastSeen s \<le> sn_lastSeen s'))"
  using assms
proof (induction slots arbitrary: i oldest oldestTime)
  case Nil
  then show ?case by (simp add: visible_def)
next
  case (Cons sl slots)
  from Cons.prems obtain c where c: "own_view sl = Some c" by auto
  have shift: "visible (sl # slots) j s \<longleftrightarrow> (j = 0 \<and> s = c) \<or> (\<exists>j'. j = Suc j' \<and> visible slots j' s)" for j s
    using c by (cases j) (auto simp: visible_def)
  have nokey: "\<not> (sn_messageHash c = h \<and> sn_originAddress c = origin)"
    and rest: "first_index (holds_key h origin) slots = None" "\<forall>sl \<in> set slots. own_view sl \<noteq> None"
  proof -
    show rest: "first_index (holds_key h origin) slots = None" "\<forall>sl \<in> set slots. own_view sl \<noteq> None"
      using Cons.prems(1,2) by (auto split: if_splits)
    have "\<not> holds_key h origin sl" using Cons.prems(1) by (auto split: if_splits)
    with c show "\<not> (sn_messageHash c = h \<and> sn_originAddress c = origin)"
      by (simp add: holds_key_def sn_key_def)
  qed
  show ?case
  proof (cases "sn_lastSeen c < oldestTime")
    case True
    then have "upsert_scan slots (i + 1) h origin None i (sn_lastSeen c) = r"
      using Cons.prems(3) c nokey by simp
    from Cons.IH [OF rest this] show ?thesis
    proof (elim disjE exE conjE)
      assume "r = i" "\<forall>j s. visible slots j s \<longrightarrow> sn_lastSeen c \<le> sn_lastSeen s"
      with True show ?thesis
        by (intro disjI2 exI [of _ 0] exI [of _ c]) (auto simp: shift)
    next
      fix j s
      assume "r = i + 1 + j" "visible slots j s" "sn_lastSeen s < sn_lastSeen c"
        "\<forall>j' s'. visible slots j' s' \<longrightarrow> sn_lastSeen s \<le> sn_lastSeen s'"
      with True show ?thesis
        by (intro disjI2 exI [of _ "Suc j"] exI [of _ s]) (auto simp: shift)
    qed
  next
    case False
    then have "upsert_scan slots (i + 1) h origin None oldest oldestTime = r"
      using Cons.prems(3) c nokey by simp
    from Cons.IH [OF rest this] show ?thesis
    proof (elim disjE exE conjE)
      assume "r = oldest" "\<forall>j s. visible slots j s \<longrightarrow> oldestTime \<le> sn_lastSeen s"
      with False show ?thesis by (intro disjI1) (auto simp: shift)
    next
      fix j s
      assume "r = i + 1 + j" "visible slots j s" "sn_lastSeen s < oldestTime"
        "\<forall>j' s'. visible slots j' s' \<longrightarrow> sn_lastSeen s \<le> sn_lastSeen s'"
      with False show ?thesis
        by (intro disjI2 exI [of _ "Suc j"] exI [of _ s]) (auto simp: shift)
    qed
  qed
qed

text \<open>The effect of storing into the chosen slot.\<close>

definition snapshot_of :: "u16 \<Rightarrow> session_description \<Rightarrow> u64 \<Rightarrow> session_snapshot" where
  "snapshot_of h session now = \<lparr> sn_messageHash = h,
     sn_name = text_of (take (kSessionNameCapacity - 1) (sd_name session)),
     sn_originAddress = text_of (take (kIPv4TextCapacity - 1) (sd_originAddress session)),
     sn_sourceAddress = text_of (take (kIPv4TextCapacity - 1) (sd_sourceAddress session)),
     sn_multicastAddress = text_of (take (kIPv4TextCapacity - 1) (sd_multicastAddress session)),
     sn_port = sd_port session, sn_channels = sd_channels session,
     sn_sampleRate = sd_sampleRate session, sn_framesPerPacket = sd_framesPerPacket session,
     sn_payloadType = sd_payloadType session, sn_ptpDomain = sd_ptpDomain session,
     sn_lastSeen = now \<rparr>"

lemma even_plus_two: "(r :: u32) AND 1 = 0 \<Longrightarrow> (r + 1 + 1) AND 1 = 0"
  by (simp add: and_one_eq even_iff_mod_2_eq_zero [symmetric] add.assoc)

lemma stored_slot:
  assumes "slot_wf sl"
  shows "slot_wf (endWrite (store_session (beginWrite sl) h session now) True)" (is "slot_wf ?sl'")
    and "own_view (endWrite (store_session (beginWrite sl) h session now) True) = Some (snapshot_of h session now)"
proof -
  show wf: "slot_wf ?sl'"
    using assms even_plus_two
    by (simp add: slot_wf_def endWrite_def store_session_def beginWrite_def kSessionNameCapacity_def
        kIPv4TextCapacity_def)
  show "own_view ?sl' = Some (snapshot_of h session now)"
    using own_view_eq [OF wf]
    by (simp add: endWrite_def store_session_def beginWrite_def slot_snapshot_def
        snapshot_of_def text_of_storeText kSessionNameCapacity_def kIPv4TextCapacity_def)
qed

lemma closed_slot:
  assumes "slot_wf sl"
  shows "slot_wf (endWrite (beginWrite sl) False)" "own_view (endWrite (beginWrite sl) False) = None"
proof -
  show wf: "slot_wf (endWrite (beginWrite sl) False)"
    using assms even_plus_two by (simp add: slot_wf_def endWrite_def beginWrite_def)
  show "own_view (endWrite (beginWrite sl) False) = None"
    using own_view_eq [OF wf] by (simp add: endWrite_def)
qed

lemma text_of_take_fits: "fits_text n s \<Longrightarrow> text_of (take (n - 1) s) = s"
  by (auto simp: fits_text_def text_of_plain)

lemma snapshot_of_key:
  "fits_text kIPv4TextCapacity (sd_originAddress session) \<Longrightarrow>
   sn_key (snapshot_of h session now) = (h, sd_originAddress session)"
  using text_of_take_fits [of kIPv4TextCapacity] by (simp add: sn_key_def snapshot_of_def)

section \<open>Upsert\<close>

lemma dir_inv_nonempty: "dir_inv slots \<Longrightarrow> 0 < length slots"
  by (simp add: dir_inv_def kMaximumDiscoveredSessions_def)

lemma holds_key_visible:
  "i < length slots \<Longrightarrow> holds_key h origin (slots ! i) \<longleftrightarrow> (\<exists>s. visible slots i s \<and> sn_key s = (h, origin))"
  by (auto simp: holds_key_def visible_def split: option.splits)

text \<open>The three ways to choose a slot, with what the choice says about the entries.\<close>

lemma upsert_choice:
  fixes h :: u16 and origin :: string
  assumes inv: "dir_inv slots"
  defines "i \<equiv> upsert_scan slots 0 h origin None 0 (- 1)"
  obtains (key) s where "visible slots i s" "sn_key s = (h, origin)"
  | (free) "i < length slots" "own_view (slots ! i) = None"
      "\<forall>s \<in> dir_entries slots. sn_key s \<noteq> (h, origin)"
  | (full) s where "visible slots i s" "\<forall>t \<in> dir_entries slots. sn_key t \<noteq> (h, origin)"
      "\<forall>t \<in> dir_entries slots. sn_lastSeen s \<le> sn_lastSeen t"
      "\<forall>sl \<in> set slots. own_view sl \<noteq> None"
proof (cases "first_index (holds_key h origin) slots")
  case (Some j)
  then have "i = j" "j < length slots" "holds_key h origin (slots ! j)"
    using upsert_scan_key [OF Some] first_index_Some [OF Some] by (auto simp: i_def)
  with key show thesis by (auto simp: holds_key_visible)
next
  case None
  then have nokey: "\<forall>s \<in> dir_entries slots. sn_key s \<noteq> (h, origin)"
  proof (intro ballI notI)
    fix s
    assume "s \<in> dir_entries slots" "sn_key s = (h, origin)"
    then obtain i where "visible slots i s" by (auto simp: dir_entries_iff)
    with \<open>sn_key s = (h, origin)\<close> have "holds_key h origin (slots ! i)" "slots ! i \<in> set slots"
      by (auto simp: holds_key_def visible_def)
    with None show False by (simp add: first_index_None)
  qed
  show thesis
  proof (cases "first_index (\<lambda>sl. own_view sl = None) slots")
    case (Some j)
    then have "i = j" "j < length slots" "own_view (slots ! j) = None"
      using upsert_scan_free [OF None Some] first_index_Some [OF Some] by (auto simp: i_def)
    with free nokey show thesis by simp
  next
    case None': None
    then have all: "\<forall>sl \<in> set slots. own_view sl \<noteq> None" by (simp add: first_index_None)
    consider "i = 0" "\<forall>j s. visible slots j s \<longrightarrow> - 1 \<le> sn_lastSeen s"
      | j s where "i = j" "visible slots j s" "\<forall>j' s'. visible slots j' s' \<longrightarrow> sn_lastSeen s \<le> sn_lastSeen s'"
      using upsert_scan_oldest [OF None all, of 0 0 "- 1" i] by (auto simp: i_def)
    then show thesis
    proof cases
      case 1
      have "slots ! 0 \<in> set slots" using dir_inv_nonempty [OF inv] by simp
      with all obtain s where "own_view (slots ! 0) = Some s" by blast
      then have v: "visible slots i s"
        using dir_inv_nonempty [OF inv] 1(1) by (simp add: visible_def)
      have "sn_lastSeen s \<le> sn_lastSeen t" if "t \<in> dir_entries slots" for t
      proof -
        from that 1(2) have "- 1 \<le> sn_lastSeen t" by (auto simp: dir_entries_iff)
        then show ?thesis by (rule order.trans [OF word_order.extremum])
      qed
      with full v nokey all show thesis by blast
    next
      case 2
      moreover have "sn_lastSeen s \<le> sn_lastSeen t" if "t \<in> dir_entries slots" for t
        using that 2(3) by (auto simp: dir_entries_iff)
      ultimately show thesis using full nokey all by blast
    qed
  qed
qed

lemma visible_less: "visible slots i s \<Longrightarrow> i < length slots"
  by (simp add: visible_def)

lemma visible_update:
  "i < length slots \<Longrightarrow> own_view sl = Some e \<Longrightarrow>
   visible (slots[i := sl]) j t \<longleftrightarrow> (if j = i then t = e else visible slots j t)"
  by (auto simp: visible_def nth_list_update)

lemma dir_upsert_step:
  fixes h :: u16 and now :: u64
  assumes inv: "dir_inv slots" and fits: "fits_text kIPv4TextCapacity (sd_originAddress session)"
  defines "i \<equiv> upsert_scan slots 0 h (sd_originAddress session) None 0 (- 1)"
    and "e \<equiv> snapshot_of h session now"
  shows "dir_inv (dir_upsert slots h session now) \<and>
    dir_entries (dir_upsert slots h session now)
      = insert e {s \<in> dir_entries slots. \<not> visible slots i s \<and> sn_key s \<noteq> sn_key e}"
proof -
  let ?slots' = "dir_upsert slots h session now"
  have key: "sn_key e = (h, sd_originAddress session)"
    using snapshot_of_key [OF fits] by (simp add: e_def)
  have unique: "visible slots j s \<Longrightarrow> visible slots k t \<Longrightarrow> sn_key s = sn_key t \<Longrightarrow> j = k" for j k s t
    using inv unfolding dir_inv_iff by blast
  have "i < length slots \<and> (\<forall>j s. visible slots j s \<longrightarrow> sn_key s = sn_key e \<longrightarrow> j = i)"
  proof (rule upsert_choice [OF inv, of h "sd_originAddress session", folded i_def])
    fix s
    assume "visible slots i s" "sn_key s = (h, sd_originAddress session)"
    with unique [of _ _ i s] key visible_less show ?thesis by metis
  next
    assume "i < length slots" "\<forall>s \<in> dir_entries slots. sn_key s \<noteq> (h, sd_originAddress session)"
    with key show ?thesis by (auto simp: dir_entries_iff)
  next
    fix s
    assume "visible slots i s" "\<forall>s \<in> dir_entries slots. sn_key s \<noteq> (h, sd_originAddress session)"
    with key visible_less show ?thesis by (auto simp: dir_entries_iff)
  qed
  then have i: "i < length slots"
    and others: "\<And>j s. visible slots j s \<Longrightarrow> sn_key s = sn_key e \<Longrightarrow> j = i" by blast+
  have wf: "slot_wf (slots ! i)" using inv i by (simp add: dir_inv_iff)
  have upd: "?slots' = slots[i := endWrite (store_session (beginWrite (slots ! i)) h session now) True]"
    by (simp add: dir_upsert_def i_def Let_def)
  have vis: "visible ?slots' j t \<longleftrightarrow> (if j = i then t = e else visible slots j t)" for j t
    unfolding upd e_def using i stored_slot(2) [OF wf] by (rule visible_update)
  have "dir_inv ?slots'"
    unfolding dir_inv_iff
  proof (intro conjI allI impI)
    show "length ?slots' = kMaximumDiscoveredSessions" using inv by (simp add: upd dir_inv_iff)
    show "\<forall>sl \<in> set ?slots'. slot_wf sl"
      using inv stored_slot(1) [OF wf] set_update_subset_insert by (fastforce simp: upd dir_inv_iff)
    show "j = k" if "visible ?slots' j s" "visible ?slots' k t" "sn_key s = sn_key t" for j k s t
      using that others unique by (auto simp: vis split: if_splits)
  qed
  moreover have "dir_entries ?slots' = insert e {s \<in> dir_entries slots. \<not> visible slots i s \<and> sn_key s \<noteq> sn_key e}"
  proof (rule set_eqI)
    fix s
    show "s \<in> dir_entries ?slots' \<longleftrightarrow>
        s \<in> insert e {s \<in> dir_entries slots. \<not> visible slots i s \<and> sn_key s \<noteq> sn_key e}"
    proof -
      have "s \<in> dir_entries ?slots' \<longleftrightarrow> s = e \<or> (\<exists>j. j \<noteq> i \<and> visible slots j s)"
        by (auto simp: dir_entries_iff vis)
      moreover have "(\<exists>j. j \<noteq> i \<and> visible slots j s) \<longleftrightarrow>
          s \<in> dir_entries slots \<and> \<not> visible slots i s \<and> (sn_key s \<noteq> sn_key e)"
      proof
        assume "\<exists>j. j \<noteq> i \<and> visible slots j s"
        then obtain j where "j \<noteq> i" "visible slots j s" by blast
        with others [of j s] unique [of j s i s]
        show "s \<in> dir_entries slots \<and> \<not> visible slots i s \<and> sn_key s \<noteq> sn_key e"
          by (auto simp: dir_entries_iff)
      next
        assume "s \<in> dir_entries slots \<and> \<not> visible slots i s \<and> sn_key s \<noteq> sn_key e"
        then show "\<exists>j. j \<noteq> i \<and> visible slots j s" by (auto simp: dir_entries_iff)
      qed
      ultimately show ?thesis by blast
    qed
  qed
  ultimately show ?thesis ..
qed

lemma map_filter_shorter:
  "i < length xs \<Longrightarrow> f (xs ! i) = None \<Longrightarrow> length (List.map_filter f xs) < length xs"
proof (induction xs arbitrary: i)
  case Nil
  then show ?case by simp
next
  case (Cons x xs)
  have "length (List.map_filter f xs) \<le> length xs"
    by (induction xs) (auto simp: List.map_filter_simps split: option.splits)
  with Cons show ?case
    by (cases i) (force simp: List.map_filter_simps split: option.splits)+
qed

lemma dir_upsert_room:
  assumes inv: "dir_inv slots" and fits: "fits_text kIPv4TextCapacity (sd_originAddress session)"
    and room: "(h, sd_originAddress session) \<in> sn_key ` dir_entries slots
      \<or> card (dir_entries slots) < kMaximumDiscoveredSessions"
  shows "dir_entries (dir_upsert slots h session now) =
    insert (snapshot_of h session now) {s \<in> dir_entries slots. sn_key s \<noteq> (h, sd_originAddress session)}"
proof (rule upsert_choice [OF inv, of h "sd_originAddress session"])
  let ?i = "upsert_scan slots 0 h (sd_originAddress session) None 0 (- 1)"
  let ?e = "snapshot_of h session now"
  note step = conjunct2 [OF dir_upsert_step [OF inv fits, of h now]]
  note key = snapshot_of_key [OF fits, of h now]
  { fix s
    assume "visible slots ?i s" "sn_key s = (h, sd_originAddress session)"
    then have "{t \<in> dir_entries slots. \<not> visible slots ?i t \<and> sn_key t \<noteq> sn_key ?e}
        = {t \<in> dir_entries slots. sn_key t \<noteq> sn_key ?e}"
      using key by (auto simp: visible_def)
    with step key show ?thesis by simp
  next
    assume "own_view (slots ! ?i) = None"
    then have "\<not> visible slots ?i t" for t by (simp add: visible_def)
    with step key show ?thesis by simp
  next
    assume "\<forall>sl \<in> set slots. own_view sl \<noteq> None"
      "\<forall>t \<in> dir_entries slots. sn_key t \<noteq> (h, sd_originAddress session)"
    moreover from this room have "card (dir_entries slots) < kMaximumDiscoveredSessions"
      by (auto simp: image_iff)
    with dir_card [OF inv] obtain j where "j < length slots" "own_view (slots ! j) = None" by blast
    ultimately have False using nth_mem [of j slots] by blast
    then show ?thesis ..
  }
qed

text \<open>Storing an announced session: with a slot of its key or a free slot, the table then holds
  the new entry in place of the one with the same hash and origin, and every other entry
  unchanged; in a full table the new entry replaces one entry that was seen least recently. At
  no time do two entries share a key.\<close>

theorem directory_upsert:
  assumes "dir_inv slots" "fits_text kIPv4TextCapacity (sd_originAddress session)"
  shows "dir_inv (dir_upsert slots h session now) \<and>
    (let e = snapshot_of h session now; old = dir_entries slots;
         new = dir_entries (dir_upsert slots h session now)
     in sn_key e = (h, sd_originAddress session) \<and>
        (if sn_key e \<in> sn_key ` old \<or> card old < 16 then new = insert e {s \<in> old. sn_key s \<noteq> sn_key e}
         else \<exists>victim \<in> old. (\<forall>s \<in> old. sn_lastSeen victim \<le> sn_lastSeen s)
                \<and> new = insert e (old - {victim})))"
proof -
  let ?i = "upsert_scan slots 0 h (sd_originAddress session) None 0 (- 1)"
  let ?e = "snapshot_of h session now"
  note step = dir_upsert_step [OF assms, of h now]
  note key = snapshot_of_key [OF assms(2), of h now]
  have "\<exists>victim \<in> dir_entries slots. (\<forall>s \<in> dir_entries slots. sn_lastSeen victim \<le> sn_lastSeen s)
      \<and> dir_entries (dir_upsert slots h session now) = insert ?e (dir_entries slots - {victim})"
    if "sn_key ?e \<notin> sn_key ` dir_entries slots" "\<not> card (dir_entries slots) < 16"
  proof (rule upsert_choice [OF assms(1), of h "sd_originAddress session"])
    fix s
    assume "visible slots ?i s" "sn_key s = (h, sd_originAddress session)"
    with that key show ?thesis by (force simp: dir_entries_iff image_iff)
  next
    assume free: "?i < length slots" "own_view (slots ! ?i) = None"
    have "card (dir_entries slots) \<le> length (List.map_filter (\<lambda>slot. own_view slot) slots)"
      unfolding dir_entries_def by (rule card_length)
    also have "\<dots> < length slots"
      using free by (rule map_filter_shorter)
    finally show ?thesis using that assms(1) by (simp add: dir_inv_def kMaximumDiscoveredSessions_def)
  next
    fix s
    assume s: "visible slots ?i s" "\<forall>t \<in> dir_entries slots. sn_key t \<noteq> (h, sd_originAddress session)"
      "\<forall>t \<in> dir_entries slots. sn_lastSeen s \<le> sn_lastSeen t"
    then have "{t \<in> dir_entries slots. \<not> visible slots ?i t \<and> sn_key t \<noteq> sn_key ?e} = dir_entries slots - {s}"
      using key by (auto simp: visible_def)
    moreover from s have "s \<in> dir_entries slots" by (auto simp: dir_entries_iff)
    ultimately show ?thesis using s(3) step by (intro bexI [of _ s]) simp_all
  qed
  with step key dir_upsert_room [OF assms, of h now] show ?thesis
    by (auto simp: Let_def kMaximumDiscoveredSessions_def)
qed

lemma capacity_pos: "0 < kMaximumDiscoveredSessions"
  by (simp add: kMaximumDiscoveredSessions_def)

lemma sample_directory:
  "dir_inv (replicate kMaximumDiscoveredSessions new_slot)"
  "dir_entries (replicate kMaximumDiscoveredSessions new_slot) = {}"
proof -
  have wf: "slot_wf new_slot" by (simp add: slot_wf_def new_slot_def)
  then have "own_view new_slot = None" by (subst own_view_eq) (simp_all add: new_slot_def)
  then have none: "List.map_filter (\<lambda>slot. own_view slot) (replicate n new_slot) = []" for n
    by (induction n) (simp_all add: List.map_filter_simps)
  show "dir_inv (replicate kMaximumDiscoveredSessions new_slot)"
    using wf by (simp add: dir_inv_def none list_all_iff)
  show "dir_entries (replicate kMaximumDiscoveredSessions new_slot) = {}"
    by (simp add: dir_entries_def none)
qed

lemma sample_fits: "fits_text kIPv4TextCapacity (sd_originAddress sample_session)"
  by (simp add: fits_text_def sample_session_def kIPv4TextCapacity_def)

theorem directory_upsert_witness:
  "dir_entries (dir_upsert (replicate kMaximumDiscoveredSessions new_slot) 7 sample_session 1000)
     = {snapshot_of 7 sample_session 1000}"
  using directory_upsert [OF sample_directory(1) sample_fits, of 7 1000]
  by (simp add: sample_directory(2) Let_def)

section \<open>Erase and expire\<close>

lemma visible_map:
  "visible (map f slots) i s \<longleftrightarrow> i < length slots \<and> own_view (f (slots ! i)) = Some s"
  by (auto simp: visible_def)

text \<open>Both operations close the slots whose entry satisfies a condition.\<close>

lemma closing_slots:
  assumes inv: "dir_inv slots"
    and f: "\<And>sl. slot_wf sl \<Longrightarrow> f sl = (case own_view sl of None \<Rightarrow> sl
      | Some s \<Rightarrow> if keep s then sl else endWrite (beginWrite sl) False)"
  shows "dir_inv (map f slots) \<and> dir_entries (map f slots) = {s \<in> dir_entries slots. keep s}"
proof -
  have wf: "slot_wf (slots ! i)" if "i < length slots" for i
    using inv that by (simp add: dir_inv_iff)
  have vis: "visible (map f slots) i s \<longleftrightarrow> visible slots i s \<and> keep s" for i s
    using f [OF wf] closed_slot(2) [OF wf] by (auto simp: visible_map visible_def split: option.splits if_splits)
  have "slot_wf (f sl)" if "sl \<in> set slots" for sl
    using that inv f [of sl] closed_slot(1) [of sl] by (auto simp: dir_inv_iff split: option.splits)
  then have "dir_inv (map f slots)"
    using inv unfolding dir_inv_iff vis by auto
  moreover have "dir_entries (map f slots) = {s \<in> dir_entries slots. keep s}"
    by (auto simp: dir_entries_iff vis)
  ultimately show ?thesis ..
qed

lemma dir_erase_entries:
  "dir_inv slots \<Longrightarrow> dir_inv (dir_erase slots h origin) \<and>
     dir_entries (dir_erase slots h origin) = {s \<in> dir_entries slots. sn_key s \<noteq> (h, origin)}"
  unfolding dir_erase_def
  by (rule closing_slots) (auto simp: erase_slot_def sn_key_def split: option.splits)

lemma dir_expire_entries:
  "dir_inv slots \<Longrightarrow> dir_inv (dir_expire slots t) \<and>
     dir_entries (dir_expire slots t) = {s \<in> dir_entries slots. t \<le> sn_lastSeen s}"
  unfolding dir_expire_def
  by (rule closing_slots) (auto simp: expire_slot_def split: option.splits)

text \<open>A withdrawal removes exactly the entry of its hash and origin, and expiry exactly the
  entries last seen before the given time; both keep the table's invariant.\<close>

theorem directory_erase_expire:
  assumes "dir_inv slots"
  shows "dir_inv (dir_erase slots h origin) \<and> dir_inv (dir_expire slots t)
    \<and> dir_entries (dir_erase slots h origin) = {s \<in> dir_entries slots. sn_key s \<noteq> (h, origin)}
    \<and> dir_entries (dir_expire slots t) = {s \<in> dir_entries slots. t \<le> sn_lastSeen s}"
  using dir_erase_entries [OF assms] dir_expire_entries [OF assms] by blast

theorem directory_erase_expire_witness:
  "dir_entries (dir_erase (dir_upsert (replicate kMaximumDiscoveredSessions new_slot) 7 sample_session 1000)
     7 ''192.168.1.10'') = {}"
proof -
  let ?d = "dir_upsert (replicate kMaximumDiscoveredSessions new_slot) 7 sample_session 1000"
  have "dir_inv ?d" using dir_upsert_step [OF sample_directory(1) sample_fits] by blast
  from directory_erase_expire [OF this, of 7 "''192.168.1.10''" 0]
  have "dir_entries (dir_erase ?d 7 ''192.168.1.10'') = {s \<in> dir_entries ?d. sn_key s \<noteq> (7, ''192.168.1.10'')}"
    by blast
  moreover have "dir_entries ?d = {snapshot_of 7 sample_session 1000}"
    using dir_upsert_room [OF sample_directory(1) sample_fits, of 7 1000] capacity_pos
    by (simp add: sample_directory(2))
  moreover have "sn_key (snapshot_of 7 sample_session 1000) = (7, ''192.168.1.10'')"
    using snapshot_of_key [OF sample_fits, of 7 1000] by (simp add: sample_session_def)
  ultimately show ?thesis by auto
qed

section \<open>The listing\<close>

text \<open>The listing that other processes obtain contains every readable entry exactly once, at
  most sixteen of them, ordered by name and then by origin.\<close>

theorem directory_listing:
  assumes "dir_inv slots"
  shows "set (dir_snapshots slots) = dir_entries slots \<and> distinct (map sn_key (dir_snapshots slots))
    \<and> length (dir_snapshots slots) \<le> 16
    \<and> sorted (map (\<lambda>s. (sn_name s, sn_originAddress s)) (dir_snapshots slots))"
proof -
  let ?l = "List.map_filter (\<lambda>slot. own_view slot) slots"
  have perm: "mset (dir_snapshots slots) = mset ?l" by (simp add: dir_snapshots_def)
  have "length ?l \<le> length slots"
    by (induction slots) (auto simp: List.map_filter_simps split: option.splits)
  then have "length (dir_snapshots slots) \<le> 16"
    using assms by (simp add: dir_snapshots_def dir_inv_def kMaximumDiscoveredSessions_def)
  moreover have "distinct (map sn_key (dir_snapshots slots))"
    using assms perm mset_eq_imp_distinct_iff [of "map sn_key (dir_snapshots slots)" "map sn_key ?l"]
    by (simp add: dir_inv_def)
  ultimately show ?thesis by (simp add: dir_snapshots_def dir_entries_def)
qed

theorem directory_listing_witness:
  "length (dir_snapshots (dir_upsert (replicate kMaximumDiscoveredSessions new_slot) 7 sample_session 1000)) \<le> 16
   \<and> set (dir_snapshots (dir_upsert (replicate kMaximumDiscoveredSessions new_slot) 7 sample_session 1000))
     = {snapshot_of 7 sample_session 1000}"
proof -
  let ?d = "dir_upsert (replicate kMaximumDiscoveredSessions new_slot) 7 sample_session 1000"
  have "dir_inv ?d" using dir_upsert_step [OF sample_directory(1) sample_fits] by blast
  moreover have "dir_entries ?d = {snapshot_of 7 sample_session 1000}"
    using dir_upsert_room [OF sample_directory(1) sample_fits, of 7 1000] capacity_pos
    by (simp add: sample_directory(2))
  ultimately show ?thesis using directory_listing [of ?d] by simp
qed

section \<open>The directory as a store\<close>

type_synonym dir_put = "u16 \<times> session_description \<times> u64"

definition dir_put_fits :: "dir_put \<Rightarrow> bool" where
  "dir_put_fits p = (case p of (h, session, now) \<Rightarrow> fits_text kIPv4TextCapacity (sd_originAddress session))"

definition dir_put_entry :: "dir_put \<Rightarrow> session_snapshot" where
  "dir_put_entry p = (case p of (h, session, now) \<Rightarrow> snapshot_of h session now)"

abbreviation dir_call :: "(dir_put, u16 \<times> string, u64) store_call \<Rightarrow> session_slot list \<Rightarrow> session_slot list" where
  "dir_call \<equiv> store_step (\<lambda>d (h, session, now). dir_upsert d h session now)
     (\<lambda>d (h, origin). dir_erase d h origin) dir_expire"

lemma dir_entries_finite: "finite (dir_entries slots)"
  by (simp add: dir_entries_def)

lemma dir_entries_inj: "dir_inv slots \<Longrightarrow> inj_on sn_key (dir_entries slots)"
  by (simp add: dir_inv_def dir_entries_def distinct_map)

interpretation directory: session_store
    "\<lambda>d (h, session, now). dir_upsert d h session now" "\<lambda>d (h, origin). dir_erase d h origin" dir_expire
    dir_entries dir_put_entry sn_key sn_lastSeen dir_inv dir_put_fits kMaximumDiscoveredSessions
proof unfold_locales
  fix d and a :: dir_put
  obtain h session now where a: "a = (h, session, now)" by (cases a) auto
  assume inv: "dir_inv d" and fits: "dir_put_fits a"
  then have fits': "fits_text kIPv4TextCapacity (sd_originAddress session)"
    by (simp add: dir_put_fits_def a)
  show "dir_inv (case a of (h, session, now) \<Rightarrow> dir_upsert d h session now)"
    using dir_upsert_step [OF inv fits'] by (simp add: a)
  assume "sn_key (dir_put_entry a) \<in> sn_key ` dir_entries d \<or> card (dir_entries d) < kMaximumDiscoveredSessions"
  then show "dir_entries (case a of (h, session, now) \<Rightarrow> dir_upsert d h session now) =
      insert (dir_put_entry a) {e \<in> dir_entries d. sn_key e \<noteq> sn_key (dir_put_entry a)}"
    using dir_upsert_room [OF inv fits', of h now] snapshot_of_key [OF fits', of h now]
    by (simp add: a dir_put_entry_def)
qed (auto simp: dir_erase_entries dir_expire_entries dir_entries_finite dir_entries_inj split: prod.splits)



section \<open>Origins that do not fit\<close>

lemma map_filter_fill:
  "i < length xs \<Longrightarrow> f (xs ! i) = None \<Longrightarrow> f y = Some z \<Longrightarrow>
   length (List.map_filter f (xs[i := y])) = Suc (length (List.map_filter f xs))"
proof (induction xs arbitrary: i)
  case Nil
  then show ?case by simp
next
  case (Cons x xs)
  then show ?case
    by (cases i) (auto simp: List.map_filter_simps split: option.splits)
qed

text \<open>An origin of sixteen or more characters (a host name in the \<open>o=\<close> line) is stored cut to
  fifteen, so its entry is never found again: every repetition of the same announcement fills
  another slot, and the withdrawal of the session removes nothing.\<close>

theorem long_origin_duplicates:
  assumes inv: "dir_inv slots" and long: "16 \<le> length (sd_originAddress session)"
    and short: "\<forall>s \<in> dir_entries slots. length (sn_originAddress s) < 16"
    and free: "card (dir_entries slots) < 16"
  shows "length (dir_snapshots (dir_upsert slots h session now)) = length (dir_snapshots slots) + 1
    \<and> dir_erase (dir_upsert slots h session now) h (sd_originAddress session)
        = dir_upsert slots h session now"
proof -
  let ?i = "upsert_scan slots 0 h (sd_originAddress session) None 0 (- 1)"
  let ?sl = "endWrite (store_session (beginWrite (slots ! ?i)) h session now) True"
  have nokey: "sn_key s \<noteq> (h, sd_originAddress session)" if "s \<in> dir_entries slots" for s
    using that short long by (auto simp: sn_key_def)
  have i: "?i < length slots \<and> own_view (slots ! ?i) = None"
  proof (rule upsert_choice [OF inv, of h "sd_originAddress session"])
    fix s
    assume "visible slots ?i s" "sn_key s = (h, sd_originAddress session)"
    then show ?thesis using nokey by (auto simp: dir_entries_iff)
  next
    assume all: "\<forall>sl \<in> set slots. own_view sl \<noteq> None"
    obtain j where "j < length slots" "own_view (slots ! j) = None"
      using dir_card [OF inv] free by (auto simp: kMaximumDiscoveredSessions_def)
    with all nth_mem show ?thesis by blast
  qed blast
  then have wf: "slot_wf (slots ! ?i)" using inv by (simp add: dir_inv_iff)
  have upd: "dir_upsert slots h session now = slots[?i := ?sl]"
    by (simp add: dir_upsert_def Let_def)
  have "length (dir_snapshots (dir_upsert slots h session now)) = length (dir_snapshots slots) + 1"
    using i stored_slot(2) [OF wf] by (simp add: dir_snapshots_def upd map_filter_fill)
  moreover have "erase_slot h (sd_originAddress session) sl = sl" if "sl \<in> set (slots[?i := ?sl])" for sl
  proof (cases "own_view sl")
    case None
    then show ?thesis by (simp add: erase_slot_def)
  next
    case (Some s)
    have "length (text_of (take 15 xs)) < 16" for xs
      using length_takeWhile_le [of "\<lambda>c. c \<noteq> CHR 0x00" "take 15 xs"]
      by (simp add: text_of_def min_def split: if_splits)
    then have "length (sn_originAddress (snapshot_of h session now)) < 16"
      by (simp add: snapshot_of_def kIPv4TextCapacity_def)
    moreover have "s = snapshot_of h session now \<or> s \<in> dir_entries slots"
    proof -
      from that have "sl = ?sl \<or> sl \<in> set slots" using set_update_subset_insert by fast
      then show ?thesis
        using Some stored_slot(2) [OF wf]
        by (auto simp: dir_entries_iff visible_def in_set_conv_nth)
    qed
    ultimately have "sn_originAddress s \<noteq> sd_originAddress session" using short long by auto
    with Some show ?thesis by (simp add: erase_slot_def)
  qed
  then have "dir_erase (dir_upsert slots h session now) h (sd_originAddress session)
      = dir_upsert slots h session now"
    by (simp add: dir_erase_def upd map_idI)
  ultimately show ?thesis ..
qed

theorem long_origin_duplicates_witness:
  "length (dir_snapshots (dir_upsert (replicate kMaximumDiscoveredSessions new_slot) 7
     (sample_session\<lparr>sd_originAddress := ''stagebox.example.org''\<rparr>) 1000)) =
   length (dir_snapshots (replicate kMaximumDiscoveredSessions new_slot)) + 1"
  using long_origin_duplicates [OF sample_directory(1),
      of "sample_session\<lparr>sd_originAddress := ''stagebox.example.org''\<rparr>" 7 1000]
  by (simp add: sample_directory(2))

end
