(* ===== verification/Engine_State.thy ===== *)
theory Engine_State
  imports Stream_Banks Shared_Ring L24_Codec Jitter_Buffer Session_Directory
begin

text \<open>
  The state the threads of Sources/Engine/LiveEngine.cpp share: the block of
  Sources/Core/SharedAudioMemory.hpp, the atomics of \<open>LiveEngine\<close> and the runtimes of its streams,
  with \<open>resetRuntimeState\<close>, \<open>setRxActive\<close> and \<open>setTxActive\<close>. Clocks are integers in nanoseconds.
\<close>

section \<open>The shared block\<close>

record shared_statistics =
  st_rxPackets :: u64
  st_txPackets :: u64
  st_packetsLost :: u64
  st_malformedPackets :: u64
  st_inputUnderruns :: u64
  st_outputUnderruns :: u64
  st_ringOverruns :: u64
  st_reconnects :: u64
  st_sapMalformedPackets :: u64
  st_ptpMessages :: u64
  st_ptpErrors :: u64
  st_ptpOffsetNanoseconds :: int
  st_ptpMeanPathDelayNanoseconds :: int

definition zero_statistics :: shared_statistics where
  "zero_statistics = \<lparr> st_rxPackets = 0, st_txPackets = 0, st_packetsLost = 0, st_malformedPackets = 0,
     st_inputUnderruns = 0, st_outputUnderruns = 0, st_ringOverruns = 0, st_reconnects = 0,
     st_sapMalformedPackets = 0, st_ptpMessages = 0, st_ptpErrors = 0, st_ptpOffsetNanoseconds = 0,
     st_ptpMeanPathDelayNanoseconds = 0 \<rparr>"

record shared_block =
  bk_engineRunning :: bool
  bk_ioRunning :: bool
  bk_rxActive :: bool
  bk_txActive :: bool
  bk_ptpLocked :: bool
  bk_activeStreamCount :: u32
  bk_networkToCoreAudio :: "f32 shared_ring list"
  bk_coreAudioToNetwork :: "f32 shared_ring list"
  bk_discoveredSessions :: "session_slot list"
  bk_statistics :: shared_statistics

text \<open>The block as its constructor leaves it.\<close>

definition new_block :: shared_block where
  "new_block = \<lparr> bk_engineRunning = False, bk_ioRunning = False, bk_rxActive = False, bk_txActive = False,
     bk_ptpLocked = False, bk_activeStreamCount = 0,
     bk_networkToCoreAudio = replicate kVirtualChannels (new_ring (Fin 0)),
     bk_coreAudioToNetwork = replicate kVirtualChannels (new_ring (Fin 0)),
     bk_discoveredSessions = replicate kMaximumDiscoveredSessions new_slot,
     bk_statistics = zero_statistics \<rparr>"

text \<open>\<open>fetch_add(1)\<close> on the counter with the update function \<open>upd\<close>.\<close>

definition count_one ::
    "((u64 \<Rightarrow> u64) \<Rightarrow> shared_statistics \<Rightarrow> shared_statistics) \<Rightarrow> shared_block \<Rightarrow> shared_block" where
  "count_one upd b = b\<lparr>bk_statistics := upd (\<lambda>n. n + 1) (bk_statistics b)\<rparr>"

lemma count_one_select [simp]:
  "bk_networkToCoreAudio (count_one upd b) = bk_networkToCoreAudio b"
  "bk_coreAudioToNetwork (count_one upd b) = bk_coreAudioToNetwork b"
  "bk_discoveredSessions (count_one upd b) = bk_discoveredSessions b"
  "bk_statistics (count_one upd b) = upd (\<lambda>n. n + 1) (bk_statistics b)"
  "bk_rxActive (count_one upd b) = bk_rxActive b" "bk_txActive (count_one upd b) = bk_txActive b"
  "bk_ptpLocked (count_one upd b) = bk_ptpLocked b" "bk_ioRunning (count_one upd b) = bk_ioRunning b"
  by (simp_all add: count_one_def)

definition resetRuntimeState :: "shared_block \<Rightarrow> shared_block" where
  "resetRuntimeState b = b\<lparr>
     bk_statistics := (bk_statistics b)\<lparr> st_rxPackets := 0, st_txPackets := 0, st_packetsLost := 0,
       st_malformedPackets := 0, st_inputUnderruns := 0, st_outputUnderruns := 0, st_ringOverruns := 0,
       st_reconnects := 0, st_sapMalformedPackets := 0, st_ptpMessages := 0, st_ptpErrors := 0,
       st_ptpOffsetNanoseconds := 0, st_ptpMeanPathDelayNanoseconds := 0 \<rparr>,
     bk_discoveredSessions := map (\<lambda>session. session\<lparr>sl_active := False\<rparr>) (bk_discoveredSessions b) \<rparr>"

section \<open>The engine\<close>

record stream_runtime =
  rt_jitter :: jitter_buffer
  rt_jitterResetRequested :: bool
  rt_rxActive :: bool
  rt_txActive :: bool
  rt_txEpochJoined :: bool

definition new_runtime :: "nat \<Rightarrow> stream_runtime" where
  "new_runtime jitterPackets = \<lparr> rt_jitter = new_jitter jitterPackets, rt_jitterResetRequested = False,
     rt_rxActive = False, rt_txActive = False, rt_txEpochJoined = False \<rparr>"

record live_engine =
  en_config :: live_engine_config
  en_running :: bool
  en_activeReceivers :: u64
  en_activeTransmitters :: u64
  en_transmitReadyCount :: u64
  en_transmitEpochReady :: bool
  en_consumeEpoch :: int
  en_transmitEpoch :: int
  en_transmitSystemEpochNanoseconds :: int
  en_streams :: "stream_runtime list"
  en_block :: shared_block

definition new_engine :: "live_engine_config \<Rightarrow> shared_block \<Rightarrow> live_engine" where
  "new_engine config b = \<lparr> en_config = config, en_running = False, en_activeReceivers = 0,
     en_activeTransmitters = 0, en_transmitReadyCount = 0, en_transmitEpochReady = False,
     en_consumeEpoch = 0, en_transmitEpoch = 0, en_transmitSystemEpochNanoseconds = 0,
     en_streams = [], en_block = b \<rparr>"

text \<open>The two kinds of state change: of one stream's runtime and of the block.\<close>

definition on_stream :: "nat \<Rightarrow> (stream_runtime \<Rightarrow> stream_runtime) \<Rightarrow> live_engine \<Rightarrow> live_engine" where
  "on_stream bank f e = e\<lparr>en_streams := (en_streams e)[bank := f (en_streams e ! bank)]\<rparr>"

definition on_block :: "(shared_block \<Rightarrow> shared_block) \<Rightarrow> live_engine \<Rightarrow> live_engine" where
  "on_block f e = e\<lparr>en_block := f (en_block e)\<rparr>"

definition setRxActive :: "nat \<Rightarrow> bool \<Rightarrow> live_engine \<Rightarrow> live_engine" where
  "setRxActive bank active e =
     (if rt_rxActive (en_streams e ! bank) = active then e
      else
        let e1 = on_stream bank (\<lambda>r. r\<lparr>rt_rxActive := active\<rparr>) e;
            previous = en_activeReceivers e1
        in if active then on_block (\<lambda>b. b\<lparr>bk_rxActive := True\<rparr>) (e1\<lparr>en_activeReceivers := previous + 1\<rparr>)
           else if previous = 1
           then on_block (\<lambda>b. b\<lparr>bk_rxActive := False\<rparr>) (e1\<lparr>en_activeReceivers := previous - 1\<rparr>)
           else e1\<lparr>en_activeReceivers := previous - 1\<rparr>)"

definition setTxActive :: "nat \<Rightarrow> bool \<Rightarrow> live_engine \<Rightarrow> live_engine" where
  "setTxActive bank active e =
     (if rt_txActive (en_streams e ! bank) = active then e
      else
        let e1 = on_stream bank (\<lambda>r. r\<lparr>rt_txActive := active\<rparr>) e;
            previous = en_activeTransmitters e1
        in if active then on_block (\<lambda>b. b\<lparr>bk_txActive := True\<rparr>) (e1\<lparr>en_activeTransmitters := previous + 1\<rparr>)
           else if previous = 1
           then on_block (\<lambda>b. b\<lparr>bk_txActive := False\<rparr>) (e1\<lparr>en_activeTransmitters := previous - 1\<rparr>)
           else e1\<lparr>en_activeTransmitters := previous - 1\<rparr>)"

section \<open>The activity flags\<close>

text \<open>The counters count the active streams and the block's flags say whether there is one.\<close>

definition activity_inv :: "live_engine \<Rightarrow> bool" where
  "activity_inv e \<longleftrightarrow> length (en_streams e) \<le> kStreamBankCount
     \<and> en_activeReceivers e = of_nat (length (filter rt_rxActive (en_streams e)))
     \<and> (bk_rxActive (en_block e) \<longleftrightarrow> (\<exists>r \<in> set (en_streams e). rt_rxActive r))
     \<and> en_activeTransmitters e = of_nat (length (filter rt_txActive (en_streams e)))
     \<and> (bk_txActive (en_block e) \<longleftrightarrow> (\<exists>r \<in> set (en_streams e). rt_txActive r))"

lemma filter_switch:
  assumes "i < length xs" "P (xs ! i) \<noteq> P y"
  shows "length (filter P (xs[i := y])) + (if P y then 0 else 1)
    = length (filter P xs) + (if P y then 1 else 0)"
  using assms filter_length_update [of i xs P y] filter_length_update_out [of i xs P y]
  by (cases "P y") auto

lemma exists_filter: "(\<exists>x \<in> set xs. P x) \<longleftrightarrow> 0 < length (filter P xs)"
  by (auto simp: filter_empty_conv)

text \<open>What the switch of one of at most eight streams does to the 64-bit counter.\<close>

lemma switch_count:
  fixes counter :: u64
  assumes "i < length xs" "P (xs ! i) \<noteq> P y" "length xs \<le> kStreamBankCount"
    and "counter = of_nat (length (filter P xs))"
  shows "P y \<Longrightarrow> counter + 1 = of_nat (length (filter P (xs[i := y])))"
    and "P y \<Longrightarrow> \<exists>x \<in> set (xs[i := y]). P x"
    and "\<not> P y \<Longrightarrow> counter - 1 = of_nat (length (filter P (xs[i := y])))"
    and "\<not> P y \<Longrightarrow> \<exists>x \<in> set xs. P x"
    and "\<not> P y \<Longrightarrow> counter = 1 \<longleftrightarrow> \<not> (\<exists>x \<in> set (xs[i := y]). P x)"
proof -
  let ?n = "length (filter P xs)" and ?m = "length (filter P (xs[i := y]))"
  have up: "?m = Suc ?n" if "P y" using filter_length_update [OF assms(1), of P y] that assms(2) by simp
  have down: "?n = Suc ?m" if "\<not> P y" using filter_length_update_out [OF assms(1), of P y] that assms(2) by simp
  show "P y \<Longrightarrow> counter + 1 = of_nat ?m" using up assms(4) by simp
  show "P y \<Longrightarrow> \<exists>x \<in> set (xs[i := y]). P x" unfolding exists_filter using up by simp
  show "\<not> P y \<Longrightarrow> counter - 1 = of_nat ?m" using down assms(4) by simp
  show "\<not> P y \<Longrightarrow> \<exists>x \<in> set xs. P x" unfolding exists_filter using down by simp
  have "length xs \<le> 8" using assms(3) by (simp add: profile_defs)
  then have "?n \<le> 8" using length_filter_le [of P xs] by linarith
  then have "unat counter = ?n" by (intro unat_eqI [OF assms(4)]) simp
  then have "counter = 1 \<longleftrightarrow> ?n = 1" by (simp add: word_unat_eq_iff)
  then show "\<not> P y \<Longrightarrow> counter = 1 \<longleftrightarrow> \<not> (\<exists>x \<in> set (xs[i := y]). P x)"
    unfolding exists_filter using down by simp
qed

lemma filter_same_field:
  "f y = f (xs ! i) \<Longrightarrow> i < length xs \<Longrightarrow> length (filter f (xs[i := y])) = length (filter f xs)"
proof (induction xs arbitrary: i)
  case (Cons x xs)
  then show ?case by (cases i) auto
qed simp

lemma setRxActive_inv:
  assumes "activity_inv e" "bank < length (en_streams e)"
  shows "activity_inv (setRxActive bank active e)"
proof (cases "rt_rxActive (en_streams e ! bank) = active")
  case True
  with assms show ?thesis by (simp add: setRxActive_def)
next
  case False
  let ?r = "(en_streams e ! bank)\<lparr>rt_rxActive := active\<rparr>"
  have tx: "length (filter rt_txActive ((en_streams e)[bank := ?r])) = length (filter rt_txActive (en_streams e))"
    using assms(2) by (simp add: filter_same_field)
  have inv: "length (en_streams e) \<le> kStreamBankCount"
    "en_activeReceivers e = of_nat (length (filter rt_rxActive (en_streams e)))"
    using assms(1) by (simp_all add: activity_inv_def)
  note c = switch_count [OF assms(2) _ inv, of ?r]
  show ?thesis
  proof (cases active)
    case True
    then show ?thesis
      using assms False c(1,2) tx exists_filter [of "(en_streams e)[bank := ?r]" rt_txActive]
        exists_filter [of "en_streams e" rt_txActive]
      by (simp add: activity_inv_def setRxActive_def on_stream_def on_block_def Let_def)
  next
    case inactive: False
    then show ?thesis
      using assms False c(3-5) tx exists_filter [of "(en_streams e)[bank := ?r]" rt_txActive]
        exists_filter [of "en_streams e" rt_txActive]
      by (simp add: activity_inv_def setRxActive_def on_stream_def on_block_def Let_def)
  qed
qed

lemma setTxActive_inv:
  assumes "activity_inv e" "bank < length (en_streams e)"
  shows "activity_inv (setTxActive bank active e)"
proof (cases "rt_txActive (en_streams e ! bank) = active")
  case True
  with assms show ?thesis by (simp add: setTxActive_def)
next
  case False
  let ?r = "(en_streams e ! bank)\<lparr>rt_txActive := active\<rparr>"
  have rx: "length (filter rt_rxActive ((en_streams e)[bank := ?r])) = length (filter rt_rxActive (en_streams e))"
    using assms(2) by (simp add: filter_same_field)
  have inv: "length (en_streams e) \<le> kStreamBankCount"
    "en_activeTransmitters e = of_nat (length (filter rt_txActive (en_streams e)))"
    using assms(1) by (simp_all add: activity_inv_def)
  note c = switch_count [OF assms(2) _ inv, of ?r]
  show ?thesis
  proof (cases active)
    case True
    then show ?thesis
      using assms False c(1,2) rx exists_filter [of "(en_streams e)[bank := ?r]" rt_rxActive]
        exists_filter [of "en_streams e" rt_rxActive]
      by (simp add: activity_inv_def setTxActive_def on_stream_def on_block_def Let_def)
  next
    case inactive: False
    then show ?thesis
      using assms False c(3-5) rx exists_filter [of "(en_streams e)[bank := ?r]" rt_rxActive]
        exists_filter [of "en_streams e" rt_rxActive]
      by (simp add: activity_inv_def setTxActive_def on_stream_def on_block_def Let_def)
  qed
qed

text \<open>A call of either function, by which one it is, the stream and the argument.\<close>

fun activity_call :: "bool \<times> nat \<times> bool \<Rightarrow> live_engine \<Rightarrow> live_engine" where
  "activity_call (True, bank, active) e = setRxActive bank active e"
| "activity_call (False, bank, active) e = setTxActive bank active e"

lemma activity_call_inv:
  "activity_inv e \<Longrightarrow> fst (snd c) < length (en_streams e) \<Longrightarrow> activity_inv (activity_call c e)"
  by (cases "(c, e)" rule: activity_call.cases) (simp_all add: setRxActive_inv setTxActive_inv)

lemma length_streams [simp]:
  "length (en_streams (on_stream bank f e)) = length (en_streams e)"
  "length (en_streams (on_block g e)) = length (en_streams e)"
  by (simp_all add: on_stream_def on_block_def)

lemma length_streams_active [simp]:
  "length (en_streams (setRxActive bank active e)) = length (en_streams e)"
  "length (en_streams (setTxActive bank active e)) = length (en_streams e)"
  by (simp_all add: setRxActive_def setTxActive_def Let_def on_block_def)

lemma length_streams_call [simp]: "length (en_streams (activity_call c e)) = length (en_streams e)"
  by (cases "(c, e)" rule: activity_call.cases) simp_all

text \<open>Calls of \<open>setRxActive\<close> and \<open>setTxActive\<close> that do not overlap keep the block's two activity
  flags right: each is set exactly when some stream of the engine is active in that direction.\<close>

theorem activity_flags_follow_streams:
  assumes "activity_inv e" "\<forall>c \<in> set calls. fst (snd c) < length (en_streams e)"
  shows "activity_inv (fold activity_call calls e)
    \<and> (bk_rxActive (en_block (fold activity_call calls e))
        \<longleftrightarrow> (\<exists>r \<in> set (en_streams (fold activity_call calls e)). rt_rxActive r))"
proof -
  have "activity_inv (fold activity_call calls e)"
    using assms by (induction calls arbitrary: e) (simp_all add: activity_call_inv)
  then show ?thesis by (simp add: activity_inv_def)
qed

definition two_streams :: live_engine where
  "two_streams = (new_engine default_config new_block)\<lparr>en_streams := [new_runtime 6, new_runtime 6]\<rparr>"

lemma two_streams_inv: "activity_inv two_streams"
  by (simp add: activity_inv_def two_streams_def new_engine_def new_block_def new_runtime_def profile_defs)

theorem activity_flags_follow_streams_witness:
  "activity_inv (fold activity_call [(True, 0, True), (False, 1, True), (True, 0, False)] two_streams)"
  using activity_flags_follow_streams [OF two_streams_inv,
      of "[(True, 0, True), (False, 1, True), (True, 0, False)]"]
  by (simp add: two_streams_def del: fold_simps)

section \<open>Overlapping calls\<close>

text \<open>The two atomic operations of a call are separate steps of the stream's thread: the counter is
  changed first, the block's flag is stored afterwards.\<close>

datatype activity_pc = Quiet | Counted_up | Counted_down u64

record activity =
  ac_active :: "nat \<Rightarrow> bool"
  ac_pc :: "nat \<Rightarrow> activity_pc"
  ac_count :: u64
  ac_flag :: bool

definition no_activity :: activity where
  "no_activity = \<lparr> ac_active = (\<lambda>_. False), ac_pc = (\<lambda>_. Quiet), ac_count = 0, ac_flag = False \<rparr>"

inductive activity_step :: "nat \<Rightarrow> activity \<Rightarrow> activity \<Rightarrow> bool" for n where
  count_up: "i < n \<Longrightarrow> ac_pc s i = Quiet \<Longrightarrow> \<not> ac_active s i \<Longrightarrow>
    activity_step n s (s\<lparr>ac_active := (ac_active s)(i := True), ac_pc := (ac_pc s)(i := Counted_up),
      ac_count := ac_count s + 1\<rparr>)"
| flag_up: "i < n \<Longrightarrow> ac_pc s i = Counted_up \<Longrightarrow>
    activity_step n s (s\<lparr>ac_pc := (ac_pc s)(i := Quiet), ac_flag := True\<rparr>)"
| count_down: "i < n \<Longrightarrow> ac_pc s i = Quiet \<Longrightarrow> ac_active s i \<Longrightarrow>
    activity_step n s (s\<lparr>ac_active := (ac_active s)(i := False),
      ac_pc := (ac_pc s)(i := Counted_down (ac_count s)), ac_count := ac_count s - 1\<rparr>)"
| flag_down: "i < n \<Longrightarrow> ac_pc s i = Counted_down previous \<Longrightarrow>
    activity_step n s (s\<lparr>ac_pc := (ac_pc s)(i := Quiet),
      ac_flag := (if previous = 1 then False else ac_flag s)\<rparr>)"

definition race_inv :: "nat \<Rightarrow> activity \<Rightarrow> bool" where
  "race_inv n s \<longleftrightarrow> ac_count s = of_nat (length (filter (ac_active s) [0..<n]))
     \<and> (\<forall>i. ac_pc s i = Counted_up \<longrightarrow> ac_active s i)
     \<and> (ac_flag s \<longrightarrow> (\<exists>i < n. ac_active s i \<or> ac_pc s i = Counted_down 1))"

lemma map_fun_upd_upt: "map (f(i := y)) [0..<n] = (map f [0..<n])[i := y]"
  by (rule nth_equalityI) (auto simp: nth_list_update)

lemma length_filter_upt: "length (filter f [0..<n]) = length (filter (\<lambda>b. b) (map f [0..<n]))"
  by (simp add: filter_map o_def)

lemma active_count:
  assumes "i < n" "n \<le> kStreamBankCount" "f i \<noteq> y"
    and "counter = (of_nat (length (filter f [0..<n])) :: u64)"
  shows "(if y then counter + 1 else counter - 1) = of_nat (length (filter (f(i := y)) [0..<n]))"
    and "\<not> y \<Longrightarrow> counter = 1 \<or> (\<exists>k < n. (f(i := y)) k)"
proof -
  note c = switch_count [of i "map f [0..<n]" "\<lambda>b. b" y counter, unfolded length_filter_upt [symmetric]]
  have pre: "i < length (map f [0..<n])" "map f [0..<n] ! i \<noteq> y" "length (map f [0..<n]) \<le> kStreamBankCount"
    using assms by simp_all
  show "(if y then counter + 1 else counter - 1) = of_nat (length (filter (f(i := y)) [0..<n]))"
    using c(1,3) [OF pre assms(4)] by (simp add: length_filter_upt map_fun_upd_upt del: fun_upd_apply)
  assume "\<not> y"
  with c(5) [OF pre assms(4)] have "counter = 1 \<or> (\<exists>x \<in> set (map (f(i := y)) [0..<n]). x)"
    unfolding map_fun_upd_upt by blast
  then show "counter = 1 \<or> (\<exists>k < n. (f(i := y)) k)" by auto
qed

lemma race_step:
  assumes "activity_step n s t" "race_inv n s" "n \<le> kStreamBankCount"
  shows "race_inv n t"
  using assms(1)
proof cases
  case (count_up i)
  with assms(2) active_count(1) [of i n "ac_active s" True "ac_count s"] assms(3)
  show ?thesis by (auto simp: race_inv_def)
next
  case (flag_up i)
  with assms(2) show ?thesis by (auto simp: race_inv_def)
next
  case (count_down i)
  with assms(2) have count: "ac_count s = of_nat (length (filter (ac_active s) [0..<n]))"
    by (simp add: race_inv_def)
  note c = active_count [OF count_down(2) assms(3) _ count, of False]
  have "\<exists>k < n. ((ac_active s)(i := False)) k \<or> ((ac_pc s)(i := Counted_down (ac_count s))) k = Counted_down 1"
    using c(2) count_down(2,4) by fastforce
  then have "\<exists>k < n. ac_active t k \<or> ac_pc t k = Counted_down 1"
    unfolding count_down(1) by (simp del: fun_upd_apply)
  moreover have "ac_count t = of_nat (length (filter (ac_active t) [0..<n]))"
    using c(1) count_down(4) unfolding count_down(1) by (simp del: fun_upd_apply)
  moreover have "\<forall>k. ac_pc t k = Counted_up \<longrightarrow> ac_active t k"
    using assms(2) count_down(1) by (simp add: race_inv_def)
  ultimately show ?thesis by (simp only: race_inv_def) blast
next
  case (flag_down i previous)
  have "\<exists>k < n. ac_active t k \<or> ac_pc t k = Counted_down 1" if "ac_flag t"
  proof -
    from that flag_down(1) have p: "previous \<noteq> 1" "ac_flag s" by (auto split: if_splits)
    with assms(2) obtain k where k: "k < n" "ac_active s k \<or> ac_pc s k = Counted_down 1"
      by (auto simp: race_inv_def)
    with p(1) flag_down(3) have "ac_active t k \<or> ac_pc t k = Counted_down 1"
      unfolding flag_down(1) by auto
    with k(1) show ?thesis by blast
  qed
  with assms(2) flag_down(1) show ?thesis by (simp add: race_inv_def)
qed

lemma race_reachable:
  assumes "(activity_step n)\<^sup>*\<^sup>* no_activity s" "n \<le> kStreamBankCount"
  shows "race_inv n s"
  using assms(1)
proof induction
  case base
  show ?case by (simp add: race_inv_def no_activity_def)
next
  case (step s t)
  then show ?case using race_step assms(2) by blast
qed

text \<open>However the calls of the receiving threads overlap, the counter always is the number of active
  streams, and once every call has returned the block's flag is never set without an active stream.\<close>

theorem activity_race_safe:
  assumes "(activity_step n)\<^sup>*\<^sup>* no_activity s" "n \<le> kStreamBankCount"
  shows "ac_count s = of_nat (length (filter (ac_active s) [0..<n]))
    \<and> ((\<forall>i < n. ac_pc s i = Quiet) \<longrightarrow> ac_flag s \<longrightarrow> (\<exists>i < n. ac_active s i))"
  using race_reachable [OF assms] by (auto simp: race_inv_def)

text \<open>But a stream that becomes active while the last active one is going down loses its flag: the
  late store of the other thread overwrites it, and with every call returned the block says that
  nothing is received although a stream is.\<close>

theorem activity_flag_lost:
  "\<exists>s. (activity_step 2)\<^sup>*\<^sup>* no_activity s \<and> (\<forall>i. ac_pc s i = Quiet) \<and> ac_active s 1
    \<and> ac_count s = 1 \<and> \<not> ac_flag s"
proof -
  define s1 where "s1 = no_activity\<lparr>ac_active := (\<lambda>_. False)(0 := True),
    ac_pc := (\<lambda>_. Quiet)(0 := Counted_up), ac_count := 1\<rparr>"
  define s2 where "s2 = s1\<lparr>ac_pc := (ac_pc s1)(0 := Quiet), ac_flag := True\<rparr>"
  define s3 where "s3 = s2\<lparr>ac_active := (ac_active s2)(0 := False),
    ac_pc := (ac_pc s2)(0 := Counted_down 1), ac_count := 0\<rparr>"
  define s4 where "s4 = s3\<lparr>ac_active := (ac_active s3)(1 := True),
    ac_pc := (ac_pc s3)(1 := Counted_up), ac_count := 1\<rparr>"
  define s5 where "s5 = s4\<lparr>ac_pc := (ac_pc s4)(1 := Quiet), ac_flag := True\<rparr>"
  define s6 where "s6 = s5\<lparr>ac_pc := (ac_pc s5)(0 := Quiet), ac_flag := False\<rparr>"
  note defs = s1_def s2_def s3_def s4_def s5_def s6_def no_activity_def
  have "activity_step 2 no_activity s1" using count_up [of 0 2 no_activity] by (simp add: defs)
  moreover have "activity_step 2 s1 s2" using flag_up [of 0 2 s1] by (simp add: defs)
  moreover have "activity_step 2 s2 s3" using count_down [of 0 2 s2] by (simp add: defs)
  moreover have "activity_step 2 s3 s4" using count_up [of 1 2 s3] by (simp add: defs)
  moreover have "activity_step 2 s4 s5" using flag_up [of 1 2 s4] by (simp add: defs)
  moreover have "activity_step 2 s5 s6" using flag_down [of 0 2 s5 1] by (simp add: defs)
  ultimately have "(activity_step 2)\<^sup>*\<^sup>* no_activity s6" by (meson r_into_rtranclp rtranclp_trans)
  moreover have "(\<forall>i. ac_pc s6 i = Quiet) \<and> ac_active s6 1 \<and> ac_count s6 = 1 \<and> \<not> ac_flag s6"
    by (simp add: defs)
  ultimately show ?thesis by blast
qed

theorem activity_race_safe_witness:
  "\<exists>s. (activity_step 1)\<^sup>*\<^sup>* no_activity s \<and> ac_active s 0 \<and> ac_count s = of_nat (length (filter (ac_active s) [0..<1]))"
proof -
  let ?s = "no_activity\<lparr>ac_active := (\<lambda>_. False)(0 := True), ac_pc := (\<lambda>_. Quiet)(0 := Counted_up), ac_count := 1\<rparr>"
  have "activity_step 1 no_activity ?s" using count_up [of 0 1 no_activity] by (simp add: no_activity_def)
  then have "(activity_step 1)\<^sup>*\<^sup>* no_activity ?s" by (rule r_into_rtranclp)
  moreover from this have "ac_count ?s = of_nat (length (filter (ac_active ?s) [0..<1]))"
    by (rule activity_race_safe [THEN conjunct1]) (simp add: profile_defs)
  ultimately show ?thesis by (intro exI [of _ ?s]) simp
qed

end
