(* ===== verification/RTP_Packet.thy ===== *)
theory RTP_Packet
  imports Cpp_Bytes Constants
begin

text \<open>
  Sources/Core/RTPPacket.hpp and RTPPacket.cpp: the RTP packet and its wire format. The decoder
  is fed with datagrams from the network; its reads are checked, so that "the decoder never
  reads outside the datagram" is the statement that its model never is \<open>None\<close>.
\<close>

record rtp_packet =
  pkt_payloadType :: u8
  pkt_marker :: bool
  pkt_sequence :: u16
  pkt_timestamp :: u32
  pkt_ssrc :: u32
  pkt_payload :: bytes

definition default_rtp_packet :: rtp_packet where
  "default_rtp_packet = \<lparr> pkt_payloadType = 96, pkt_marker = False, pkt_sequence = 0,
     pkt_timestamp = 0, pkt_ssrc = 0, pkt_payload = [] \<rparr>"

definition kFixedHeaderBytes :: nat where "kFixedHeaderBytes = 12"

text \<open>\<open>RTPCodec::encode\<close> fills a caller's span and reports the number of bytes written.\<close>

definition rtp_encode :: "rtp_packet \<Rightarrow> bytes \<Rightarrow> (bool \<times> bytes \<times> nat) option" where
  "rtp_encode p buf =
     (if pkt_payloadType p > 127 \<or> length buf < kFixedHeaderBytes + length (pkt_payload p)
      then Some (False, buf, 0)
      else do {
        b \<leftarrow> wr buf 0 0x80;
        b \<leftarrow> wr b 1 ((if pkt_marker p then 0x80 else 0) OR pkt_payloadType p);
        b \<leftarrow> copy_to b 2 (put16 (pkt_sequence p));
        b \<leftarrow> copy_to b 4 (put32 (pkt_timestamp p));
        b \<leftarrow> copy_to b 8 (put32 (pkt_ssrc p));
        b \<leftarrow> copy_to b kFixedHeaderBytes (pkt_payload p);
        Some (True, b, kFixedHeaderBytes + length (pkt_payload p))
      })"

text \<open>The parts of \<open>RTPCodec::decode\<close>: skipping the extension, trimming the padding, and the
  whole. The outer \<open>option\<close> is undefined behaviour, the inner one the code's
  \<open>return false\<close>.\<close>

definition rtp_skip_extension :: "bytes \<Rightarrow> bool \<Rightarrow> nat \<Rightarrow> nat option option" where
  "rtp_skip_extension bs extension off =
     (if extension then
        (if off + 4 > length bs then Some None
         else do {
           words \<leftarrow> get16 bs (off + 2);
           let off' = off + (4 + unat words * 4);
           Some (if off' > length bs then None else Some off')
         })
      else Some (Some off))"

definition rtp_trim_padding :: "bytes \<Rightarrow> bool \<Rightarrow> nat \<Rightarrow> nat option option" where
  "rtp_trim_padding bs padding off =
     (if padding then do {
        lst \<leftarrow> rd bs (length bs - 1);
        let count = unat lst;
        Some (if count = 0 \<or> count > length bs - off then None else Some (length bs - count))
      }
      else Some (Some (length bs)))"

definition rtp_fields :: "bytes \<Rightarrow> nat \<Rightarrow> nat \<Rightarrow> rtp_packet option" where
  "rtp_fields bs off stop = do {
     b1 \<leftarrow> rd bs 1;
     sq \<leftarrow> get16 bs 2;
     ts \<leftarrow> get32 bs 4;
     ss \<leftarrow> get32 bs 8;
     pl \<leftarrow> range_of bs off stop;
     Some \<lparr> pkt_payloadType = b1 AND 0x7f, pkt_marker = (b1 AND 0x80 \<noteq> 0), pkt_sequence = sq,
            pkt_timestamp = ts, pkt_ssrc = ss, pkt_payload = pl \<rparr> }"

definition rtp_decode :: "bytes \<Rightarrow> rtp_packet \<Rightarrow> (bool \<times> rtp_packet) option" where
  "rtp_decode bs p =
     (if length bs < kFixedHeaderBytes then Some (False, p)
      else do {
        b0 \<leftarrow> rd bs 0;
        if drop_bit 6 b0 \<noteq> 2 then Some (False, p)
        else
          let padding = (b0 AND 0x20 \<noteq> 0);
              extension = (b0 AND 0x10 \<noteq> 0);
              csrcCount = unat (b0 AND 0x0f);
              offset = kFixedHeaderBytes + csrcCount * 4
          in if offset > length bs then Some (False, p)
             else do {
               ext \<leftarrow> rtp_skip_extension bs extension offset;
               case ext of None \<Rightarrow> Some (False, p)
               | Some off \<Rightarrow> do {
                   end \<leftarrow> rtp_trim_padding bs padding off;
                   case end of None \<Rightarrow> Some (False, p)
                   | Some stop \<Rightarrow> do { q \<leftarrow> rtp_fields bs off stop; Some (True, q) }
                 }
             }
      })"

lemmas rtp_defs = rtp_encode_def rtp_decode_def rtp_skip_extension_def rtp_trim_padding_def
  rtp_fields_def

section \<open>The encoder\<close>

text \<open>What a successful encoding puts on the wire.\<close>

definition rtp_wire :: "rtp_packet \<Rightarrow> bytes" where
  "rtp_wire p = 0x80 # ((if pkt_marker p then 0x80 else 0) OR pkt_payloadType p)
     # put16 (pkt_sequence p) @ put32 (pkt_timestamp p) @ put32 (pkt_ssrc p) @ pkt_payload p"

lemma length_rtp_wire [simp]: "length (rtp_wire p) = 12 + length (pkt_payload p)"
  by (simp add: rtp_wire_def)

text \<open>A datagram with room for the fixed header, taken apart.\<close>

lemma header_split:
  assumes "12 \<le> length bs"
  obtains a0 a1 a2 a3 a4 a5 a6 a7 a8 a9 a10 a11 rest
  where "bs = a0 # a1 # a2 # a3 # a4 # a5 # a6 # a7 # a8 # a9 # a10 # a11 # rest"
  using assms by (auto simp: numeral_eq_Suc Suc_le_length_iff)

lemma rtp_encode_ok:
  assumes "pkt_payloadType p \<le> 127" "12 + length (pkt_payload p) \<le> length buf"
  shows "rtp_encode p buf
    = Some (True, rtp_wire p @ drop (12 + length (pkt_payload p)) buf, 12 + length (pkt_payload p))"
proof -
  have "12 \<le> length buf" using assms(2) by simp
  then obtain a0 a1 a2 a3 a4 a5 a6 a7 a8 a9 a10 a11 rest
    where buf: "buf = a0 # a1 # a2 # a3 # a4 # a5 # a6 # a7 # a8 # a9 # a10 # a11 # rest"
    by (rule header_split)
  have "length (pkt_payload p) \<le> length rest" "\<not> pkt_payloadType p > 127"
    using assms by (simp_all add: buf)
  moreover have "drop (12 + k) (b0 # b1 # b2 # b3 # b4 # b5 # b6 # b7 # b8 # b9 # b10 # b11 # r) = drop k r"
    for k b0 b1 b2 b3 b4 b5 b6 b7 b8 b9 b10 b11 and r :: bytes
    by (simp add: numeral_eq_Suc)
  ultimately show ?thesis
    by (simp add: buf rtp_encode_def kFixedHeaderBytes_def rtp_wire_def wr_def copy_to_def
        put16_def put32_def)
qed

lemma rtp_encode_refused:
  "pkt_payloadType p > 127 \<or> length buf < 12 + length (pkt_payload p)
   \<Longrightarrow> rtp_encode p buf = Some (False, buf, 0)"
  by (auto simp: rtp_encode_def kFixedHeaderBytes_def)

section \<open>The decoder\<close>

lemma rtp_skip_extension_safe: "rtp_skip_extension bs e off \<noteq> None"
  by (simp add: rtp_skip_extension_def get16_def rd_def Let_def)

lemma rtp_skip_extension_range:
  "rtp_skip_extension bs e off = Some (Some off') \<Longrightarrow> off \<le> length bs \<Longrightarrow> off \<le> off' \<and> off' \<le> length bs"
  by (auto simp: rtp_skip_extension_def get16_def rd_def Let_def split: if_splits)

lemma rtp_trim_padding_safe: "0 < length bs \<Longrightarrow> rtp_trim_padding bs e off \<noteq> None"
  by (simp add: rtp_trim_padding_def rd_def Let_def)

lemma rtp_trim_padding_range:
  "rtp_trim_padding bs e off = Some (Some stop) \<Longrightarrow> off \<le> length bs \<Longrightarrow> off \<le> stop \<and> stop \<le> length bs"
  by (auto simp: rtp_trim_padding_def rd_def Let_def split: if_splits)

lemma rtp_fields_in:
  "12 \<le> length bs \<Longrightarrow> off \<le> stop \<Longrightarrow> stop \<le> length bs \<Longrightarrow> \<exists>q. rtp_fields bs off stop = Some q"
  by (simp add: rtp_fields_def access_simps)

text \<open>The three outcomes of a decoding.\<close>

lemma rtp_decode_cases:
  obtains (fail) "rtp_decode bs p = Some (False, p)"
  | (ok) q off stop where "rtp_decode bs p = Some (True, q)" "12 \<le> off" "off \<le> stop" "stop \<le> length bs"
      "rtp_fields bs off stop = Some q" "drop_bit 6 (bs ! 0) = 2"
proof (cases "12 \<le> length bs \<and> drop_bit 6 (bs ! 0) = 2
    \<and> 12 + unat (bs ! 0 AND 0x0f) * 4 \<le> length bs")
  case False
  then show ?thesis
    by (intro fail) (auto simp: rtp_decode_def kFixedHeaderBytes_def rd_def Let_def)
next
  case True
  let ?off = "12 + unat (bs ! 0 AND 0x0f) * 4"
  have "0 < length bs" using True by linarith
  then have b0: "rd bs 0 = Some (bs ! 0)" by (rule rd_in)
  have step: "rtp_decode bs p = do {
      ext \<leftarrow> rtp_skip_extension bs (bs ! 0 AND 0x10 \<noteq> 0) ?off;
      case ext of None \<Rightarrow> Some (False, p)
      | Some off \<Rightarrow> do {
          end \<leftarrow> rtp_trim_padding bs (bs ! 0 AND 0x20 \<noteq> 0) off;
          case end of None \<Rightarrow> Some (False, p)
          | Some stop \<Rightarrow> do { q \<leftarrow> rtp_fields bs off stop; Some (True, q) } } }"
    using True b0 by (auto simp: rtp_decode_def kFixedHeaderBytes_def Let_def)
  obtain ext where ext: "rtp_skip_extension bs (bs ! 0 AND 0x10 \<noteq> 0) ?off = Some ext"
    using rtp_skip_extension_safe by blast
  show ?thesis
  proof (cases ext)
    case None
    then show ?thesis using step ext by (intro fail) simp
  next
    case (Some off)
    have off: "?off \<le> off" "off \<le> length bs"
      using rtp_skip_extension_range [of bs _ ?off off] ext Some True by auto
    obtain stop where stop: "rtp_trim_padding bs (bs ! 0 AND 0x20 \<noteq> 0) off = Some stop"
      using rtp_trim_padding_safe [of bs] True by fastforce
    show ?thesis
    proof (cases stop)
      case None
      then show ?thesis using step ext Some stop by (intro fail) simp
    next
      case (Some st)
      have st: "off \<le> st" "st \<le> length bs"
        using rtp_trim_padding_range stop Some off(2) by blast+
      obtain q where q: "rtp_fields bs off st = Some q"
        using rtp_fields_in True st by blast
      show ?thesis
        using step ext \<open>ext = Some off\<close> stop Some q off st True by (intro ok [of q off st]) auto
    qed
  qed
qed

text \<open>C15: Decoding an arbitrary datagram never reads outside it, whatever its CSRC count, extension
  length and padding length say; and a datagram that is refused leaves the packet untouched.\<close>

theorem rtp_decode_safe:
  "rtp_decode bs p \<noteq> None \<and> (\<forall>q. rtp_decode bs p = Some (False, q) \<longrightarrow> q = p)"
  by (cases bs p rule: rtp_decode_cases) auto

theorem rtp_decode_safe_witness:
  "rtp_decode [0x9f, 96, 0, 1] default_rtp_packet = Some (False, default_rtp_packet)"
  using rtp_decode_safe [of "[0x9f, 96, 0, 1]" default_rtp_packet]
  by (simp add: rtp_decode_def kFixedHeaderBytes_def)

text \<open>A payload delivered by the decoder is a contiguous piece of the datagram behind the fixed
  header, so it is at least twelve bytes shorter than the datagram.\<close>

theorem rtp_decode_payload_inside:
  assumes "rtp_decode bs p = Some (True, q)"
  shows "\<exists>off stop. 12 \<le> off \<and> off \<le> stop \<and> stop \<le> length bs
    \<and> pkt_payload q = take (stop - off) (drop off bs) \<and> length (pkt_payload q) + 12 \<le> length bs
    \<and> pkt_payloadType q \<le> 127"
proof (cases bs p rule: rtp_decode_cases)
  case (ok q' off stop)
  then have "12 \<le> length bs" by simp
  with ok assms have q: "pkt_payload q = take (stop - off) (drop off bs)"
    "pkt_payloadType q = bs ! 1 AND 0x7f"
    by (auto simp: rtp_fields_def access_simps)
  have "bs ! 1 AND 0x7f \<le> 127" by (rule word_and_le1)
  with q ok show ?thesis
    by (intro exI [of _ off] exI [of _ stop]) auto
qed (use assms in simp)

theorem rtp_decode_payload_inside_witness:
  "\<exists>off stop. 12 \<le> off \<and> off \<le> stop
    \<and> [7, 8] = take (stop - off) (drop off [0xa0, 96, 0, 1, 0, 0, 0, 2, 0, 0, 0, 3, 7, 8, (1::u8)])"
proof -
  have "rtp_decode [0xa0, 96, 0, 1, 0, 0, 0, 2, 0, 0, 0, 3, 7, 8, 1] default_rtp_packet
    = Some (True, \<lparr> pkt_payloadType = 96, pkt_marker = False, pkt_sequence = 1, pkt_timestamp = 2,
        pkt_ssrc = 3, pkt_payload = [7, 8] \<rparr>)"
    by (simp add: rtp_defs kFixedHeaderBytes_def get16_def get32_def be16_def be32_def range_of_def
        Let_def)
  from rtp_decode_payload_inside [OF this] show ?thesis by fastforce
qed

section \<open>Round trip\<close>

definition rtp_wf :: "rtp_packet \<Rightarrow> bool" where
  "rtp_wf p \<longleftrightarrow> pkt_payloadType p \<le> 127"

definition rtp_parse :: "bytes \<Rightarrow> rtp_packet option" where
  "rtp_parse bs = (case rtp_decode bs default_rtp_packet of Some (True, q) \<Rightarrow> Some q | _ \<Rightarrow> None)"

lemma rtp_decode_wire:
  assumes "rtp_wf p"
  shows "rtp_decode (rtp_wire p) q = Some (True, p)"
proof -
  have low: "pkt_payloadType p \<le> 127" using assms by (simp add: rtp_wf_def)
  have marker: "((if m then 0x80 else 0) OR pkt_payloadType p) AND 0x80 \<noteq> 0 \<longleftrightarrow> m" for m
    using low7_bit [OF low] by (simp add: flag_bits bit_or_iff)
  have pt: "((if m then 0x80 else 0) OR pkt_payloadType p) AND 0x7f = pkt_payloadType p" for m
    using low7_and [OF low] by simp
  have fields: "rtp_fields (rtp_wire p) 12 (length (rtp_wire p)) = Some p"
    using marker [of "pkt_marker p"] pt [of "pkt_marker p"]
    by (simp add: rtp_fields_def rtp_wire_def get16_def get32_def put16_def put32_def range_of_def)
  have "rtp_wire p ! 0 = 0x80" "12 \<le> length (rtp_wire p)" by (simp_all add: rtp_wire_def)
  with fields show ?thesis
    by (simp add: rtp_decode_def rtp_skip_extension_def rtp_trim_padding_def kFixedHeaderBytes_def
        rd_def Let_def)
qed

interpretation rtp: wire_codec rtp_wire rtp_parse rtp_wf
  by unfold_locales (simp add: rtp_parse_def rtp_decode_wire)

text \<open>C19: Encoding a packet into any large enough buffer succeeds, and decoding the bytes reported
  as written gives the packet back, whatever was in the buffer.\<close>

theorem rtp_roundtrip:
  assumes "pkt_payloadType p \<le> 127" "12 + length (pkt_payload p) \<le> length buf"
  shows "\<exists>out n. rtp_encode p buf = Some (True, out, n) \<and> length out = length buf
    \<and> n = 12 + length (pkt_payload p) \<and> rtp_decode (take n out) q = Some (True, p)"
  using assms by (simp add: rtp_encode_ok rtp_decode_wire rtp_wf_def)

theorem rtp_roundtrip_witness:
  "\<exists>out n. rtp_encode (default_rtp_packet\<lparr>pkt_sequence := 65535, pkt_payload := [0, 1, 2]\<rparr>)
       (replicate 64 0) = Some (True, out, n) \<and> length out = 64 \<and> n = 15
    \<and> rtp_decode (take n out) default_rtp_packet
        = Some (True, default_rtp_packet\<lparr>pkt_sequence := 65535, pkt_payload := [0, 1, 2]\<rparr>)"
  using rtp_roundtrip [of "default_rtp_packet\<lparr>pkt_sequence := 65535, pkt_payload := [0, 1, 2]\<rparr>"
      "replicate 64 0" default_rtp_packet]
  by (simp add: default_rtp_packet_def)

end
