(* ===== verification/Reconnect_Policy.thy ===== *)
theory Reconnect_Policy
  imports Prelude
begin

text \<open>
  The back-off of Sources/Core/ReconnectPolicy.hpp. The only state is the 32-bit attempt
  counter; durations are milliseconds.
\<close>

record reconnect_policy =
  attempt :: u32

definition new_reconnect :: reconnect_policy where
  "new_reconnect = \<lparr> attempt = 0 \<rparr>"

text \<open>\<open>attempt_++\<close> yields the old value and wraps at \<open>2 ^ 32\<close>.\<close>

definition nextDelay :: "reconnect_policy \<Rightarrow> nat \<times> reconnect_policy" where
  "nextDelay p =
     (let shift = min (unat (attempt p)) 5
      in (min (250 * 2 ^ shift) 8000, p\<lparr>attempt := attempt p + 1\<rparr>))"

definition connected :: "reconnect_policy \<Rightarrow> reconnect_policy" where
  "connected p = p\<lparr>attempt := 0\<rparr>"

text \<open>The delays of \<open>n\<close> consecutive failures.\<close>

fun delays :: "nat \<Rightarrow> reconnect_policy \<Rightarrow> nat list" where
  "delays 0 p = []"
| "delays (Suc n) p = fst (nextDelay p) # delays n (snd (nextDelay p))"

lemma nextDelay_attempt [simp]: "attempt (snd (nextDelay p)) = attempt p + 1"
  by (simp add: nextDelay_def Let_def)

lemma nextDelay_bounds: "250 \<le> fst (nextDelay p) \<and> fst (nextDelay p) \<le> 8000"
proof -
  have "(1::nat) \<le> 2 ^ min (unat (attempt p)) 5" by simp
  then show ?thesis by (simp add: nextDelay_def Let_def)
qed

lemma nth_delays:
  "k < n \<Longrightarrow> delays n p ! k = min (250 * 2 ^ min (unat (attempt p + of_nat k)) 5) 8000"
proof (induction n arbitrary: p k)
  case 0
  then show ?case by simp
next
  case (Suc n)
  then show ?case
    by (cases k) (simp_all add: nextDelay_def Let_def algebra_simps)
qed

lemma length_delays [simp]: "length (delays n p) = n"
  by (induction n arbitrary: p) auto

text \<open>After a successful connection the delays double from 250 ms and stay at 8 s, for as
  long as the 32-bit attempt counter does not wrap.\<close>

theorem reconnect_backoff:
  assumes "n \<le> 2 ^ 32"
  shows "delays n (connected p) = map (\<lambda>k. min (250 * 2 ^ k) 8000) [0..<n]"
proof (rule nth_equalityI)
  fix k
  assume "k < length (delays n (connected p))"
  then have k: "k < n" by simp
  with assms have u: "unat (of_nat k :: u32) = k"
    by (simp add: unat_of_nat)
  have "min (250 * 2 ^ min k 5) 8000 = min (250 * 2 ^ k) (8000::nat)"
  proof (cases "k \<le> 5")
    case False
    then have "(2::nat) ^ 5 \<le> 2 ^ k" by (intro power_increasing) auto
    with False show ?thesis by simp
  qed simp
  with k u show "delays n (connected p) ! k = map (\<lambda>k. min (250 * 2 ^ k) 8000) [0..<n] ! k"
    by (simp add: nth_delays connected_def)
qed simp

theorem reconnect_backoff_witness:
  "delays 8 (connected new_reconnect) = [250, 500, 1000, 2000, 4000, 8000, 8000, 8000]"
  by (subst reconnect_backoff) (simp_all add: upt_rec)

end
