(* ===== verification/Receive_Path.thy ===== *)
theory Receive_Path
  imports Engine_State RTP_Packet Reconnect_Policy
begin

text \<open>
  \<open>receiveLoop\<close> and \<open>consumeLoop\<close> of Sources/Engine/LiveEngine.cpp: from datagrams through the jitter
  buffer into the Core Audio rings. Each iteration of an inner loop is one definition; what the
  socket and the clock return are its arguments. The outer \<open>option\<close> is undefined behaviour (a read
  outside the datagram, a ring outside the block's array).
\<close>

section \<open>The receiving thread\<close>

text \<open>The local variables of \<open>receiveLoop\<close>: \<open>time_point::min()\<close> is \<open>None\<close>.\<close>

record receive_state =
  rx_reconnect :: reconnect_policy
  rx_lastPacket :: "int option"
  rx_currentSSRC :: u32
  rx_haveSSRC :: bool

definition new_receive :: receive_state where
  "new_receive = \<lparr> rx_reconnect = new_reconnect, rx_lastPacket = None, rx_currentSSRC = 0, rx_haveSSRC = False \<rparr>"

definition two_seconds :: int where "two_seconds = 2000000000"

definition rx_silent :: "int \<Rightarrow> receive_state \<Rightarrow> bool" where
  "rx_silent now l = (case rx_lastPacket l of None \<Rightarrow> False | Some t \<Rightarrow> now - t > two_seconds)"

text \<open>A failed \<open>openReceiver\<close>; the delay the thread sleeps is returned.\<close>

definition receive_open_failed :: "nat \<Rightarrow> live_engine \<Rightarrow> receive_state \<Rightarrow> nat \<times> live_engine \<times> receive_state" where
  "receive_open_failed bank e l =
     (let e1 = on_block (count_one st_reconnects_update) (setRxActive bank False e);
          (delay, reconnect) = nextDelay (rx_reconnect l)
      in (delay, e1, l\<lparr>rx_reconnect := reconnect\<rparr>))"

definition receive_opened :: "nat \<Rightarrow> live_engine \<Rightarrow> receive_state \<Rightarrow> live_engine \<times> receive_state" where
  "receive_opened bank e l =
     (setRxActive bank False e, l\<lparr>rx_reconnect := connected (rx_reconnect l), rx_lastPacket := None,
        rx_currentSSRC := 0, rx_haveSSRC := False\<rparr>)"

text \<open>\<open>receive\<close> returned 0.\<close>

definition receive_timeout :: "nat \<Rightarrow> int \<Rightarrow> live_engine \<Rightarrow> receive_state \<Rightarrow> live_engine" where
  "receive_timeout bank now e l = (if rx_silent now l then setRxActive bank False e else e)"

text \<open>A datagram: \<open>bs\<close> are the bytes received, \<open>arrival\<close> the clock after decoding.\<close>

definition receive_datagram ::
    "nat \<Rightarrow> int \<Rightarrow> bytes \<Rightarrow> live_engine \<Rightarrow> receive_state \<Rightarrow> (live_engine \<times> receive_state) option" where
  "receive_datagram bank arrival bs e l = do {
     (decoded, packet) \<leftarrow> rtp_decode bs default_rtp_packet;
     let config = en_config e;
     let runtime = en_streams e ! bank;
     if \<not> decoded \<or> pkt_payloadType packet \<noteq> lc_rxPayloadType config
        \<or> length (pkt_payload packet) \<noteq> payloadBytesForChannels (unat (lc_channelsPerStream config))
     then Some (on_block (count_one st_malformedPackets_update) e, l)
     else if rx_silent arrival l \<or> rx_haveSSRC l \<and> pkt_ssrc packet \<noteq> rx_currentSSRC l
     then Some (on_block (count_one st_reconnects_update)
                  (setRxActive bank False (on_stream bank (\<lambda>r. r\<lparr>rt_jitterResetRequested := True\<rparr>) e)),
                l\<lparr>rx_currentSSRC := pkt_ssrc packet, rx_haveSSRC := True, rx_lastPacket := Some arrival\<rparr>)
     else if rt_jitterResetRequested runtime then Some (e, l)
     else (case jitter_push (pkt_sequence packet) (pkt_payload packet) (rt_jitter runtime) of
         (pushed, j) \<Rightarrow>
           let e1 = on_stream bank (\<lambda>r. r\<lparr>rt_jitter := j\<rparr>) e
           in if pushed
              then Some (setRxActive bank True (on_block (count_one st_rxPackets_update) e1),
                         l\<lparr>rx_lastPacket := Some arrival, rx_currentSSRC := pkt_ssrc packet, rx_haveSSRC := True\<rparr>)
              else Some (on_block (count_one st_ringOverruns_update) e1, l))
   }"

text \<open>The end of the inner loop: the socket failed, or the engine stops.\<close>

definition receive_closed :: "nat \<Rightarrow> live_engine \<Rightarrow> receive_state \<Rightarrow> nat option \<times> live_engine \<times> receive_state" where
  "receive_closed bank e l =
     (let e1 = setRxActive bank False e
      in if en_running e1
         then let (delay, reconnect) = nextDelay (rx_reconnect l)
           in (Some delay, on_block (count_one st_reconnects_update) e1, l\<lparr>rx_reconnect := reconnect\<rparr>)
         else (None, e1, l))"

section \<open>The consuming thread\<close>

text \<open>The start of an iteration, and the deadline after waking at \<open>now\<close> (\<open>now2\<close> is the second
  reading of the clock). Deadlines and clocks are nanoseconds.\<close>

definition consume_reset :: "nat \<Rightarrow> live_engine \<Rightarrow> live_engine" where
  "consume_reset bank e =
     (if rt_jitterResetRequested (en_streams e ! bank)
      then on_stream bank (\<lambda>r. r\<lparr>rt_jitterResetRequested := False, rt_jitter := jitter_reset (rt_jitter r)\<rparr>) e
      else e)"

definition consume_next :: "int \<Rightarrow> int \<Rightarrow> int \<Rightarrow> int \<Rightarrow> int" where
  "consume_next epoch now now2 deadline =
     (let elapsed = cdiv (now2 - epoch) 1000000
      in (if now - deadline > 10000000 then epoch + elapsed * 1000000 else deadline) + 1000000)"

text \<open>The loop over the channels of a decoded packet.\<close>

fun play_channels ::
    "live_engine_config \<Rightarrow> nat \<Rightarrow> f32 list \<Rightarrow> nat list \<Rightarrow> shared_block \<Rightarrow> shared_block option" where
  "play_channels config bank interleaved [] b = Some b"
| "play_channels config bank interleaved (ch # chs) b = (
     let channel = map (\<lambda>frame. interleaved ! (frame * unat (lc_channelsPerStream config) + ch)) [0..<kFramesPerPacket];
         vc = virtualChannel config bank ch
     in case rd (bk_networkToCoreAudio b) vc of
          None \<Rightarrow> None
        | Some ring \<Rightarrow>
            let (ring', written) = ring_write ring channel;
                b1 = b\<lparr>bk_networkToCoreAudio := (bk_networkToCoreAudio b)[vc := ring']\<rparr>
            in play_channels config bank interleaved chs
                 (if written \<noteq> length channel then count_one st_ringOverruns_update b1 else b1))"

definition play_payload :: "nat \<Rightarrow> bytes \<Rightarrow> live_engine \<Rightarrow> live_engine option" where
  "play_payload bank payload e =
     (let channels = unat (lc_channelsPerStream (en_config e));
          (decoded, interleaved) = l24_decode payload (replicate (kFramesPerPacket * channels) (Fin 0))
      in if length payload \<noteq> payloadBytesForChannels channels \<or> \<not> decoded
         then Some (on_block (count_one st_malformedPackets_update) e)
         else map_option (\<lambda>b. e\<lparr>en_block := b\<rparr>)
                (play_channels (en_config e) bank interleaved [0..<channels] (en_block e)))"

text \<open>One iteration of \<open>consumeLoop\<close> after the thread has slept.\<close>

definition consume_iteration :: "nat \<Rightarrow> live_engine \<Rightarrow> live_engine option" where
  "consume_iteration bank e =
     (case jitter_consume (replicate kJitterMaxPayload 0) (rt_jitter (en_streams e ! bank)) of
        (packet, lost, j) \<Rightarrow>
          let e1 = on_stream bank (\<lambda>r. r\<lparr>rt_jitter := j\<rparr>) e
          in case packet of
               Some (sequence, payload) \<Rightarrow> play_payload bank payload e1
             | None \<Rightarrow> Some (if lost then on_block (count_one st_packetsLost_update) e1 else e1))"

section \<open>Frame facts\<close>

lemma on_stream_select [simp]:
  "en_config (on_stream bank f e) = en_config e" "en_block (on_stream bank f e) = en_block e"
  "en_running (on_stream bank f e) = en_running e"
  "en_streams (on_stream bank f e) = (en_streams e)[bank := f (en_streams e ! bank)]"
  by (simp_all add: on_stream_def)

lemma on_block_select [simp]:
  "en_config (on_block g e) = en_config e" "en_block (on_block g e) = g (en_block e)"
  "en_running (on_block g e) = en_running e" "en_streams (on_block g e) = en_streams e"
  by (simp_all add: on_block_def)

lemma setRxActive_select [simp]:
  "en_config (setRxActive bank active e) = en_config e"
  "en_running (setRxActive bank active e) = en_running e"
  "bk_statistics (en_block (setRxActive bank active e)) = bk_statistics (en_block e)"
  "bk_networkToCoreAudio (en_block (setRxActive bank active e)) = bk_networkToCoreAudio (en_block e)"
  "bk_coreAudioToNetwork (en_block (setRxActive bank active e)) = bk_coreAudioToNetwork (en_block e)"
  "bk_discoveredSessions (en_block (setRxActive bank active e)) = bk_discoveredSessions (en_block e)"
  by (simp_all add: setRxActive_def Let_def)

lemma setRxActive_jitter [simp]:
  "bank < length (en_streams e) \<Longrightarrow>
   rt_jitter (en_streams (setRxActive bank active e) ! i) = rt_jitter (en_streams e ! i)"
  "bank < length (en_streams e) \<Longrightarrow>
   rt_jitterResetRequested (en_streams (setRxActive bank active e) ! i) = rt_jitterResetRequested (en_streams e ! i)"
  by (auto simp: setRxActive_def Let_def nth_list_update)

section \<open>The invariant of the running engine\<close>

definition runtime_ok :: "stream_runtime \<Rightarrow> bool" where
  "runtime_ok r \<longleftrightarrow> jitter_inv (rt_jitter r)"

definition rings_ok :: "f32 shared_ring list \<Rightarrow> bool" where
  "rings_ok rings \<longleftrightarrow> length rings = kVirtualChannels \<and> (\<forall>ring \<in> set rings. ring_inv ring)"

definition engine_wf :: "live_engine \<Rightarrow> bool" where
  "engine_wf e \<longleftrightarrow> routing_ok (en_config e) \<and> lc_coreAudioStartChannel (en_config e) \<le> 64
     \<and> length (en_streams e) = unat (lc_streamCount (en_config e))
     \<and> (\<forall>r \<in> set (en_streams e). runtime_ok r)
     \<and> rings_ok (bk_networkToCoreAudio (en_block e)) \<and> rings_ok (bk_coreAudioToNetwork (en_block e))
     \<and> activity_inv e"

lemma runtime_at: "engine_wf e \<Longrightarrow> bank < length (en_streams e) \<Longrightarrow> jitter_inv (rt_jitter (en_streams e ! bank))"
  by (simp add: engine_wf_def runtime_ok_def)

lemma all_streams_update:
  "\<forall>r \<in> set rs. runtime_ok r \<Longrightarrow> runtime_ok x \<Longrightarrow> \<forall>r \<in> set (rs[i := x]). runtime_ok r"
  using set_update_subset_insert [of rs i x] by blast

lemma wf_on_stream:
  assumes "engine_wf e" "bank < length (en_streams e)"
    and "runtime_ok (f (en_streams e ! bank))"
    and "rt_rxActive (f (en_streams e ! bank)) = rt_rxActive (en_streams e ! bank)"
    and "rt_txActive (f (en_streams e ! bank)) = rt_txActive (en_streams e ! bank)"
  shows "engine_wf (on_stream bank f e)"
proof -
  let ?rs = "(en_streams e)[bank := f (en_streams e ! bank)]"
  have "length (filter rt_rxActive ?rs) = length (filter rt_rxActive (en_streams e))"
    "length (filter rt_txActive ?rs) = length (filter rt_txActive (en_streams e))"
    using assms(2,4,5) by (simp_all add: filter_same_field)
  moreover from this have "(\<exists>r \<in> set ?rs. rt_rxActive r) \<longleftrightarrow> (\<exists>r \<in> set (en_streams e). rt_rxActive r)"
    "(\<exists>r \<in> set ?rs. rt_txActive r) \<longleftrightarrow> (\<exists>r \<in> set (en_streams e). rt_txActive r)"
    unfolding exists_filter by simp_all
  ultimately show ?thesis
    using assms(1-3) all_streams_update [of "en_streams e" _ bank]
    by (simp add: engine_wf_def activity_inv_def on_stream_def)
qed

lemma wf_on_block:
  assumes "engine_wf e" "bk_rxActive (f (en_block e)) = bk_rxActive (en_block e)"
    "bk_txActive (f (en_block e)) = bk_txActive (en_block e)"
    "rings_ok (bk_networkToCoreAudio (f (en_block e)))" "rings_ok (bk_coreAudioToNetwork (f (en_block e)))"
  shows "engine_wf (on_block f e)"
  using assms by (simp add: engine_wf_def activity_inv_def on_block_def)

lemma wf_count: "engine_wf e \<Longrightarrow> engine_wf (on_block (count_one upd) e)"
  by (rule wf_on_block) (simp_all add: engine_wf_def)

lemma wf_setRxActive:
  assumes "engine_wf e" "bank < length (en_streams e)"
  shows "engine_wf (setRxActive bank active e)"
proof -
  have "\<forall>r \<in> set (en_streams (setRxActive bank active e)). runtime_ok r"
    using assms by (auto simp: all_set_conv_all_nth engine_wf_def runtime_ok_def)
  with assms setRxActive_inv [OF _ assms(2)] show ?thesis by (simp add: engine_wf_def)
qed

lemmas wf_steps = wf_on_stream wf_count wf_setRxActive

lemma rings_ok_update:
  "rings_ok rings \<Longrightarrow> ring_inv ring \<Longrightarrow> rings_ok (rings[i := ring])"
  by (auto simp: rings_ok_def dest: set_update_subset_insert [THEN subsetD])

section \<open>Receiving\<close>

lemma rtp_decode_total: "\<exists>ok p. rtp_decode bs p0 = Some (ok, p)"
  by (cases bs p0 rule: rtp_decode_cases) auto

text \<open>The branches of \<open>receive_datagram\<close> once the decoder has answered.\<close>

lemma datagram_malformed:
  assumes "rtp_decode bs default_rtp_packet = Some (ok, p)"
    and "\<not> ok \<or> pkt_payloadType p \<noteq> lc_rxPayloadType (en_config e)
      \<or> length (pkt_payload p) \<noteq> payloadBytesForChannels (unat (lc_channelsPerStream (en_config e)))"
  shows "receive_datagram bank arrival bs e l = Some (on_block (count_one st_malformedPackets_update) e, l)"
  using assms by (simp add: receive_datagram_def)

lemma datagram_restart:
  assumes "rtp_decode bs default_rtp_packet = Some (True, p)" "pkt_payloadType p = lc_rxPayloadType (en_config e)"
    and "length (pkt_payload p) = payloadBytesForChannels (unat (lc_channelsPerStream (en_config e)))"
    and "rx_silent arrival l \<or> rx_haveSSRC l \<and> pkt_ssrc p \<noteq> rx_currentSSRC l"
  shows "receive_datagram bank arrival bs e l = Some (on_block (count_one st_reconnects_update)
      (setRxActive bank False (on_stream bank (\<lambda>r. r\<lparr>rt_jitterResetRequested := True\<rparr>) e)),
    l\<lparr>rx_currentSSRC := pkt_ssrc p, rx_haveSSRC := True, rx_lastPacket := Some arrival\<rparr>)"
  using assms by (simp add: receive_datagram_def)

lemma datagram_waits:
  assumes "rtp_decode bs default_rtp_packet = Some (True, p)" "pkt_payloadType p = lc_rxPayloadType (en_config e)"
    and "length (pkt_payload p) = payloadBytesForChannels (unat (lc_channelsPerStream (en_config e)))"
    and "\<not> (rx_silent arrival l \<or> rx_haveSSRC l \<and> pkt_ssrc p \<noteq> rx_currentSSRC l)"
    and "rt_jitterResetRequested (en_streams e ! bank)"
  shows "receive_datagram bank arrival bs e l = Some (e, l)"
  using assms by (auto simp: receive_datagram_def Let_def)

lemma datagram_pushed:
  assumes "rtp_decode bs default_rtp_packet = Some (True, p)" "pkt_payloadType p = lc_rxPayloadType (en_config e)"
    and "length (pkt_payload p) = payloadBytesForChannels (unat (lc_channelsPerStream (en_config e)))"
    and "\<not> (rx_silent arrival l \<or> rx_haveSSRC l \<and> pkt_ssrc p \<noteq> rx_currentSSRC l)"
    and "\<not> rt_jitterResetRequested (en_streams e ! bank)"
    and "jitter_push (pkt_sequence p) (pkt_payload p) (rt_jitter (en_streams e ! bank)) = (pushed, j)"
  shows "receive_datagram bank arrival bs e l =
    (let e1 = on_stream bank (\<lambda>r. r\<lparr>rt_jitter := j\<rparr>) e
     in if pushed
        then Some (setRxActive bank True (on_block (count_one st_rxPackets_update) e1),
                   l\<lparr>rx_lastPacket := Some arrival, rx_currentSSRC := pkt_ssrc p, rx_haveSSRC := True\<rparr>)
        else Some (on_block (count_one st_ringOverruns_update) e1, l))"
  using assms by (auto simp: receive_datagram_def Let_def)

lemma setRxActive_result [simp]:
  "bank < length (en_streams e) \<Longrightarrow> rt_rxActive (en_streams (setRxActive bank active e) ! bank) = active"
  by (auto simp: setRxActive_def Let_def)

lemma datagram_effect:
  assumes "engine_wf e" "bank < length (en_streams e)"
  shows "\<exists>e' l'. receive_datagram bank arrival bs e l = Some (e', l') \<and> engine_wf e' \<and> en_config e' = en_config e
    \<and> bk_networkToCoreAudio (en_block e') = bk_networkToCoreAudio (en_block e)
    \<and> (let r = en_streams e ! bank; r' = en_streams e' ! bank;
           st = bk_statistics (en_block e); st' = bk_statistics (en_block e')
       in st' = st\<lparr>st_malformedPackets := st_malformedPackets st + 1\<rparr> \<and> r' = r
        \<or> st' = st\<lparr>st_reconnects := st_reconnects st + 1\<rparr> \<and> rt_jitterResetRequested r' \<and> \<not> rt_rxActive r'
            \<and> rt_jitter r' = rt_jitter r
        \<or> st' = st \<and> rt_jitterResetRequested r \<and> r' = r
        \<or> st' = st\<lparr>st_rxPackets := st_rxPackets st + 1\<rparr> \<and> rt_rxActive r'
            \<and> (\<exists>p. rtp_decode bs default_rtp_packet = Some (True, p)
                 \<and> length (pkt_payload p) = payloadBytesForChannels (unat (lc_channelsPerStream (en_config e)))
                 \<and> jitter_map (rt_jitter r') = (jitter_map (rt_jitter r))(pkt_sequence p \<mapsto> pkt_payload p))
        \<or> st' = st\<lparr>st_ringOverruns := st_ringOverruns st + 1\<rparr>
            \<and> jitter_map (rt_jitter r') = jitter_map (rt_jitter r))"
proof -
  let ?r = "en_streams e ! bank"
  obtain ok p where dec: "rtp_decode bs default_rtp_packet = Some (ok, p)"
    using rtp_decode_total by blast
  note jr = runtime_at [OF assms]
  show ?thesis
  proof (cases "\<not> ok \<or> pkt_payloadType p \<noteq> lc_rxPayloadType (en_config e)
      \<or> length (pkt_payload p) \<noteq> payloadBytesForChannels (unat (lc_channelsPerStream (en_config e)))")
    case True
    from datagram_malformed [OF dec this] show ?thesis
      using wf_count [OF assms(1)] by (simp add: Let_def)
  next
    case False
    then have p: "rtp_decode bs default_rtp_packet = Some (True, p)"
      "pkt_payloadType p = lc_rxPayloadType (en_config e)"
      "length (pkt_payload p) = payloadBytesForChannels (unat (lc_channelsPerStream (en_config e)))"
      using dec by simp_all
    show ?thesis
    proof (cases "rx_silent arrival l \<or> rx_haveSSRC l \<and> pkt_ssrc p \<noteq> rx_currentSSRC l")
      case True
      have "engine_wf (on_stream bank (\<lambda>r. r\<lparr>rt_jitterResetRequested := True\<rparr>) e)"
        using jr by (intro wf_on_stream [OF assms]) (simp_all add: runtime_ok_def)
      with datagram_restart [OF p True] assms(2) show ?thesis
        by (simp add: Let_def wf_steps)
    next
      case run: False
      show ?thesis
      proof (cases "rt_jitterResetRequested ?r")
        case True
        with datagram_waits [OF p run True] assms(1) show ?thesis by (simp add: Let_def)
      next
        case False
        obtain pushed j where push: "jitter_push (pkt_sequence p) (pkt_payload p) (rt_jitter ?r) = (pushed, j)"
          by fastforce
        have wf: "engine_wf (on_stream bank (\<lambda>r. r\<lparr>rt_jitter := j\<rparr>) e)"
          using jitter_push_inv [OF jr, of "pkt_sequence p" "pkt_payload p"] push
          by (intro wf_on_stream [OF assms]) (simp_all add: runtime_ok_def)
        have map: "jitter_map j = (if pushed then (jitter_map (rt_jitter ?r))(pkt_sequence p \<mapsto> pkt_payload p)
            else jitter_map (rt_jitter ?r))"
          using jitter_map_push [OF jr, of "pkt_sequence p" "pkt_payload p"] push by simp
        show ?thesis
          using datagram_pushed [OF p run False push] wf map assms(2) p
          by (cases pushed) (simp_all add: Let_def wf_steps)
      qed
    qed
  qed
qed

text \<open>Handling a datagram is never undefined, keeps the engine's invariant, plays nothing by itself and
  is accounted for: it is counted as malformed, or it restarts the stream (a new source, or a pause of
  more than two seconds), or it is ignored while a restart is pending, or its payload is stored under
  its sequence number and the stream is active, or it is counted as an overrun.\<close>

theorem datagram_accounted:
  assumes "engine_wf e" "bank < length (en_streams e)"
  shows "\<exists>e' l'. receive_datagram bank arrival bs e l = Some (e', l') \<and> engine_wf e'
    \<and> bk_networkToCoreAudio (en_block e') = bk_networkToCoreAudio (en_block e)
    \<and> (let r = en_streams e ! bank; r' = en_streams e' ! bank;
           st = bk_statistics (en_block e); st' = bk_statistics (en_block e')
       in st' = st\<lparr>st_malformedPackets := st_malformedPackets st + 1\<rparr> \<and> r' = r
        \<or> st' = st\<lparr>st_reconnects := st_reconnects st + 1\<rparr> \<and> rt_jitterResetRequested r' \<and> \<not> rt_rxActive r'
            \<and> rt_jitter r' = rt_jitter r
        \<or> st' = st \<and> rt_jitterResetRequested r \<and> r' = r
        \<or> st' = st\<lparr>st_rxPackets := st_rxPackets st + 1\<rparr> \<and> rt_rxActive r'
            \<and> (\<exists>p. rtp_decode bs default_rtp_packet = Some (True, p)
                 \<and> length (pkt_payload p) = payloadBytesForChannels (unat (lc_channelsPerStream (en_config e)))
                 \<and> jitter_map (rt_jitter r') = (jitter_map (rt_jitter r))(pkt_sequence p \<mapsto> pkt_payload p))
        \<or> st' = st\<lparr>st_ringOverruns := st_ringOverruns st + 1\<rparr>
            \<and> jitter_map (rt_jitter r') = jitter_map (rt_jitter r))"
  using datagram_effect [OF assms, of arrival bs l] by blast

definition demo_engine :: live_engine where
  "demo_engine = (new_engine default_config new_block)\<lparr>en_running := True, en_streams := [new_runtime 6]\<rparr>"

lemma demo_wf: "engine_wf demo_engine"
  by (simp add: demo_engine_def engine_wf_def routing_ok_def default_config_def new_engine_def new_block_def
      new_runtime_def runtime_ok_def new_jitter_inv rings_ok_def new_ring_inv activity_inv_def profile_defs
      supportedAES67ChannelCount_def)

theorem datagram_accounted_witness:
  "\<exists>e' l'. receive_datagram 0 5 [0x80, 96, 0] demo_engine new_receive = Some (e', l') \<and> engine_wf e'"
proof -
  have "0 < length (en_streams demo_engine)" by (simp add: demo_engine_def)
  from datagram_accounted [OF demo_wf this] show ?thesis by blast
qed

section \<open>Playing\<close>

abbreviation channel_samples :: "live_engine_config \<Rightarrow> f32 list \<Rightarrow> nat \<Rightarrow> f32 list" where
  "channel_samples config interleaved ch \<equiv>
     map (\<lambda>frame. interleaved ! (frame * unat (lc_channelsPerStream config) + ch)) [0..<kFramesPerPacket]"

abbreviation net_queue :: "shared_block \<Rightarrow> nat \<Rightarrow> f32 list" where
  "net_queue b vc \<equiv> ring_queue (bk_networkToCoreAudio b ! vc)"

definition same_but_playback :: "shared_block \<Rightarrow> shared_block \<Rightarrow> bool" where
  "same_but_playback b b' \<longleftrightarrow> (\<exists>rings overruns. b' = b\<lparr>bk_networkToCoreAudio := rings,
     bk_statistics := (bk_statistics b)\<lparr>st_ringOverruns := overruns\<rparr>\<rparr>)"

lemma same_but_playback_refl [simp]: "same_but_playback b b"
  unfolding same_but_playback_def
  by (rule exI [of _ "bk_networkToCoreAudio b"], rule exI [of _ "st_ringOverruns (bk_statistics b)"]) simp

lemma same_but_playback_trans: "same_but_playback a b \<Longrightarrow> same_but_playback b c \<Longrightarrow> same_but_playback a c"
  unfolding same_but_playback_def by (elim exE, intro exI) simp

lemma same_but_playback_step:
  "same_but_playback b (b\<lparr>bk_networkToCoreAudio := rings\<rparr>)"
  "same_but_playback b (count_one st_ringOverruns_update (b\<lparr>bk_networkToCoreAudio := rings\<rparr>))"
proof -
  have "b\<lparr>bk_networkToCoreAudio := rings\<rparr> = b\<lparr>bk_networkToCoreAudio := rings,
      bk_statistics := (bk_statistics b)\<lparr>st_ringOverruns := st_ringOverruns (bk_statistics b)\<rparr>\<rparr>" by simp
  then show "same_but_playback b (b\<lparr>bk_networkToCoreAudio := rings\<rparr>)"
    unfolding same_but_playback_def by blast
  have "count_one st_ringOverruns_update (b\<lparr>bk_networkToCoreAudio := rings\<rparr>) = b\<lparr>bk_networkToCoreAudio := rings,
      bk_statistics := (bk_statistics b)\<lparr>st_ringOverruns := st_ringOverruns (bk_statistics b) + 1\<rparr>\<rparr>"
    by (simp add: count_one_def)
  then show "same_but_playback b (count_one st_ringOverruns_update (b\<lparr>bk_networkToCoreAudio := rings\<rparr>))"
    unfolding same_but_playback_def by blast
qed

lemma play_channels_effect:
  assumes "routing_ok c" "lc_coreAudioStartChannel c \<le> 64" "bank < unat (lc_streamCount c)"
    and "distinct chs" "\<forall>ch \<in> set chs. ch < unat (lc_channelsPerStream c)"
    and "rings_ok (bk_networkToCoreAudio b)"
  shows "\<exists>b'. play_channels c bank interleaved chs b = Some b' \<and> rings_ok (bk_networkToCoreAudio b')
    \<and> same_but_playback b b'
    \<and> (\<forall>ch \<in> set chs. net_queue b' (virtualChannel c bank ch) = net_queue b (virtualChannel c bank ch)
          @ take (kSharedRingCapacity - length (net_queue b (virtualChannel c bank ch))) (channel_samples c interleaved ch))
    \<and> (\<forall>vc. (\<forall>ch \<in> set chs. vc \<noteq> virtualChannel c bank ch) \<longrightarrow> net_queue b' vc = net_queue b vc)
    \<and> ((\<forall>ch \<in> set chs. length (net_queue b (virtualChannel c bank ch)) + kFramesPerPacket \<le> kSharedRingCapacity)
          \<longrightarrow> bk_statistics b' = bk_statistics b)"
  using assms(4-)
proof (induction chs arbitrary: b)
  case (Cons ch chs)
  let ?vc = "virtualChannel c bank ch" and ?xs = "channel_samples c interleaved ch"
  let ?ring = "bk_networkToCoreAudio b ! ?vc"
  let ?w = "ring_write ?ring ?xs"
  let ?b1 = "b\<lparr>bk_networkToCoreAudio := (bk_networkToCoreAudio b)[?vc := fst ?w]\<rparr>"
  define b2 where "b2 = (if snd ?w \<noteq> kFramesPerPacket then count_one st_ringOverruns_update ?b1 else ?b1)"
  have vc: "?vc < 64" using virtualChannel_in [OF assms(1-3)] Cons.prems(2) by simp
  have len: "length (bk_networkToCoreAudio b) = 64" "ring_inv ?ring"
    using Cons.prems(3) vc by (simp_all add: rings_ok_def profile_defs)
  have step: "play_channels c bank interleaved (ch # chs) b = play_channels c bank interleaved chs b2"
    using vc len by (simp add: rd_def b2_def case_prod_unfold Let_def)
  have inv: "rings_ok (bk_networkToCoreAudio b2)"
    using Cons.prems(3) shared.enq_invar [OF len(2)] by (simp add: b2_def rings_ok_update)
  have sb: "same_but_playback b b2" unfolding b2_def using same_but_playback_step by simp
  have q: "net_queue b2 vc' = (if vc' = ?vc then ring_queue ?ring @ take (snd ?w) ?xs else net_queue b vc')" for vc'
    using vc len shared.enq_queue [OF len(2), of ?xs] by (simp add: b2_def nth_list_update)
  have take: "take (snd ?w) ?xs = take (kSharedRingCapacity - length (ring_queue ?ring)) ?xs"
    using shared.enq_count [OF len(2), of ?xs] by (simp add: min_def)
  have fits: "snd ?w = kFramesPerPacket" if "length (ring_queue ?ring) + kFramesPerPacket \<le> kSharedRingCapacity"
    using shared.enq_count [OF len(2), of ?xs] that by simp
  have other: "virtualChannel c bank ch' \<noteq> ?vc" if "ch' \<in> set chs" for ch'
    using that Cons.prems(1,2) virtualChannel_value(1) [OF assms(1-3)] by auto
  obtain b' where b': "play_channels c bank interleaved chs b2 = Some b'" "rings_ok (bk_networkToCoreAudio b')"
    "same_but_playback b2 b'"
    "\<forall>ch \<in> set chs. net_queue b' (virtualChannel c bank ch) = net_queue b2 (virtualChannel c bank ch)
      @ take (kSharedRingCapacity - length (net_queue b2 (virtualChannel c bank ch))) (channel_samples c interleaved ch)"
    "\<forall>vc. (\<forall>ch \<in> set chs. vc \<noteq> virtualChannel c bank ch) \<longrightarrow> net_queue b' vc = net_queue b2 vc"
    "(\<forall>ch \<in> set chs. length (net_queue b2 (virtualChannel c bank ch)) + kFramesPerPacket \<le> kSharedRingCapacity)
      \<longrightarrow> bk_statistics b' = bk_statistics b2"
    using Cons.IH [OF _ _ inv] Cons.prems(1,2) by auto
  have own: "net_queue b' ?vc = net_queue b2 ?vc" using b'(5) other by metis
  have rest: "net_queue b' (virtualChannel c bank ch') = net_queue b (virtualChannel c bank ch')
      @ take (kSharedRingCapacity - length (net_queue b (virtualChannel c bank ch'))) (channel_samples c interleaved ch')"
    if "ch' \<in> set chs" for ch'
    using b'(4) that other [OF that] by (simp only: q if_False)
  have stats: "bk_statistics b' = bk_statistics b"
    if room: "\<forall>ch' \<in> set (ch # chs). length (net_queue b (virtualChannel c bank ch')) + kFramesPerPacket \<le> kSharedRingCapacity"
  proof -
    have "\<forall>ch' \<in> set chs. length (net_queue b2 (virtualChannel c bank ch')) + kFramesPerPacket \<le> kSharedRingCapacity"
      using room other q by simp
    with b'(6) have "bk_statistics b' = bk_statistics b2" by blast
    also have "\<dots> = bk_statistics b" using fits room by (simp add: b2_def)
    finally show ?thesis .
  qed
  have "\<forall>ch' \<in> set (ch # chs). net_queue b' (virtualChannel c bank ch') = net_queue b (virtualChannel c bank ch')
      @ take (kSharedRingCapacity - length (net_queue b (virtualChannel c bank ch'))) (channel_samples c interleaved ch')"
    using rest own take q [of ?vc] by simp
  moreover have "\<forall>vc. (\<forall>ch' \<in> set (ch # chs). vc \<noteq> virtualChannel c bank ch') \<longrightarrow> net_queue b' vc = net_queue b vc"
    using b'(5) q by simp
  moreover have "play_channels c bank interleaved (ch # chs) b = Some b'" using step b'(1) by (rule trans)
  ultimately show ?case
    using b'(2) same_but_playback_trans [OF sb b'(3)] stats by (intro exI [of _ b'] conjI impI)
qed simp

lemma length_l24_samples: "length (l24_samples bs) = length bs div 3"
  by (induction bs rule: l24_samples.induct) simp_all

lemma play_payload_decoded:
  assumes "length payload = payloadBytesForChannels (unat (lc_channelsPerStream (en_config e)))"
  shows "play_payload bank payload e = map_option (\<lambda>b. e\<lparr>en_block := b\<rparr>)
    (play_channels (en_config e) bank (l24_samples payload) [0..<unat (lc_channelsPerStream (en_config e))] (en_block e))"
  using assms by (simp add: play_payload_def l24_decode_def payloadBytesForChannels_def profile_defs mult.commute)

lemma same_but_playback_select:
  "same_but_playback b b' \<Longrightarrow> bk_rxActive b' = bk_rxActive b \<and> bk_txActive b' = bk_txActive b
    \<and> bk_coreAudioToNetwork b' = bk_coreAudioToNetwork b \<and> bk_discoveredSessions b' = bk_discoveredSessions b"
  by (auto simp: same_but_playback_def)

lemma wf_new_block:
  assumes "engine_wf e" "same_but_playback (en_block e) b" "rings_ok (bk_networkToCoreAudio b)"
  shows "engine_wf (e\<lparr>en_block := b\<rparr>)"
  using wf_on_block [of e "\<lambda>_. b"] assms same_but_playback_select [OF assms(2)]
  by (simp add: on_block_def engine_wf_def)

lemma play_payload_effect:
  assumes "engine_wf e" "bank < length (en_streams e)"
    and "length payload = payloadBytesForChannels (unat (lc_channelsPerStream (en_config e)))"
  shows "\<exists>e'. play_payload bank payload e = Some e' \<and> engine_wf e' \<and> en_config e' = en_config e
    \<and> en_streams e' = en_streams e \<and> same_but_playback (en_block e) (en_block e')
    \<and> (\<forall>ch < unat (lc_channelsPerStream (en_config e)). let vc = virtualChannel (en_config e) bank ch in
          net_queue (en_block e') vc = net_queue (en_block e) vc
            @ take (kSharedRingCapacity - length (net_queue (en_block e) vc))
                (channel_samples (en_config e) (l24_samples payload) ch))
    \<and> (\<forall>vc. (\<forall>ch < unat (lc_channelsPerStream (en_config e)). vc \<noteq> virtualChannel (en_config e) bank ch)
          \<longrightarrow> net_queue (en_block e') vc = net_queue (en_block e) vc)"
proof -
  let ?c = "en_config e"
  have c: "routing_ok ?c" "lc_coreAudioStartChannel ?c \<le> 64" "bank < unat (lc_streamCount ?c)"
    "rings_ok (bk_networkToCoreAudio (en_block e))"
    using assms(1,2) by (simp_all add: engine_wf_def)
  obtain b' where b': "play_channels ?c bank (l24_samples payload) [0..<unat (lc_channelsPerStream ?c)] (en_block e) = Some b'"
    "rings_ok (bk_networkToCoreAudio b')" "same_but_playback (en_block e) b'"
    "\<forall>ch \<in> set [0..<unat (lc_channelsPerStream ?c)]. net_queue b' (virtualChannel ?c bank ch)
      = net_queue (en_block e) (virtualChannel ?c bank ch)
        @ take (kSharedRingCapacity - length (net_queue (en_block e) (virtualChannel ?c bank ch)))
            (channel_samples ?c (l24_samples payload) ch)"
    "\<forall>vc. (\<forall>ch \<in> set [0..<unat (lc_channelsPerStream ?c)]. vc \<noteq> virtualChannel ?c bank ch)
      \<longrightarrow> net_queue b' vc = net_queue (en_block e) vc"
    using play_channels_effect [OF c(1-3) _ _ c(4), of "[0..<unat (lc_channelsPerStream ?c)]" "l24_samples payload"]
    by auto
  then have "play_payload bank payload e = Some (e\<lparr>en_block := b'\<rparr>)"
    by (simp add: play_payload_decoded [OF assms(3)])
  with b'(2-) wf_new_block [OF assms(1) b'(3,2)] show ?thesis by (simp add: Let_def)
qed

text \<open>What \<open>consumeLoop\<close> does with any payload the jitter buffer can hold.\<close>

lemma play_payload_safe:
  assumes "engine_wf e" "bank < length (en_streams e)"
  shows "\<exists>e'. play_payload bank payload e = Some e' \<and> engine_wf e' \<and> en_config e' = en_config e
    \<and> length (en_streams e') = length (en_streams e)"
proof (cases "length payload = payloadBytesForChannels (unat (lc_channelsPerStream (en_config e)))")
  case True
  show ?thesis using play_payload_effect [OF assms True] by auto
next
  case False
  then have "play_payload bank payload e = Some (on_block (count_one st_malformedPackets_update) e)"
    by (simp add: play_payload_def case_prod_unfold Let_def)
  then show ?thesis using wf_count [OF assms(1)] by simp
qed

lemma wf_jitter:
  assumes "engine_wf e" "bank < length (en_streams e)" "jitter_inv j"
  shows "engine_wf (on_stream bank (\<lambda>r. r\<lparr>rt_jitter := j\<rparr>) e)"
  by (rule wf_on_stream [OF assms(1,2)]) (simp_all add: runtime_ok_def assms(3))

lemma consume_iteration_safe:
  assumes "engine_wf e" "bank < length (en_streams e)"
  shows "\<exists>e'. consume_iteration bank e = Some e' \<and> engine_wf e' \<and> en_config e' = en_config e
    \<and> length (en_streams e') = length (en_streams e)"
proof -
  obtain packet lost j where c: "jitter_consume (replicate kJitterMaxPayload 0) (rt_jitter (en_streams e ! bank)) = (packet, lost, j)"
    by (cases "jitter_consume (replicate kJitterMaxPayload 0) (rt_jitter (en_streams e ! bank))") auto
  have "jitter_inv j" using jitter_consume_inv [OF runtime_at [OF assms]] c by (metis snd_conv)
  note wf = wf_jitter [OF assms this]
  show ?thesis
  proof (cases packet)
    case None
    then show ?thesis using wf wf_count [OF wf] by (simp add: consume_iteration_def c Let_def)
  next
    case (Some q)
    obtain sequence payload where "q = (sequence, payload)" by (cases q)
    with Some play_payload_safe [OF wf, of bank payload] assms(2) show ?thesis
      by (simp add: consume_iteration_def c Let_def)
  qed
qed

lemma consume_reset_wf:
  assumes "engine_wf e" "bank < length (en_streams e)"
  shows "engine_wf (consume_reset bank e)"
  using wf_on_stream [OF assms] jitter_reset_inv [OF runtime_at [OF assms]] assms(1)
  by (simp add: consume_reset_def runtime_ok_def)

section \<open>The two threads together\<close>

text \<open>What the threads of a stream do, in any order. Each stream's receiving thread has its own local
  variables.\<close>

datatype stream_event =
    Rx_open_failed
  | Rx_opened
  | Rx_timeout int
  | Rx_datagram int bytes
  | Rx_closed
  | Consume_reset
  | Consume

fun stream_event_step ::
    "nat \<Rightarrow> stream_event \<Rightarrow> live_engine \<times> (nat \<Rightarrow> receive_state) \<Rightarrow> (live_engine \<times> (nat \<Rightarrow> receive_state)) option" where
  "stream_event_step bank Rx_open_failed (e, l) =
     (case receive_open_failed bank e (l bank) of (_, e', s) \<Rightarrow> Some (e', l(bank := s)))"
| "stream_event_step bank Rx_opened (e, l) =
     (case receive_opened bank e (l bank) of (e', s) \<Rightarrow> Some (e', l(bank := s)))"
| "stream_event_step bank (Rx_timeout now) (e, l) = Some (receive_timeout bank now e (l bank), l)"
| "stream_event_step bank (Rx_datagram arrival bs) (e, l) =
     map_option (\<lambda>(e', s). (e', l(bank := s))) (receive_datagram bank arrival bs e (l bank))"
| "stream_event_step bank Rx_closed (e, l) =
     (case receive_closed bank e (l bank) of (_, e', s) \<Rightarrow> Some (e', l(bank := s)))"
| "stream_event_step bank Consume_reset (e, l) = Some (consume_reset bank e, l)"
| "stream_event_step bank Consume (e, l) = map_option (\<lambda>e'. (e', l)) (consume_iteration bank e)"

fun stream_events ::
    "(nat \<times> stream_event) list \<Rightarrow> live_engine \<times> (nat \<Rightarrow> receive_state) \<Rightarrow> (live_engine \<times> (nat \<Rightarrow> receive_state)) option" where
  "stream_events [] st = Some st"
| "stream_events ((bank, event) # events) st =
     (case stream_event_step bank event st of None \<Rightarrow> None | Some st' \<Rightarrow> stream_events events st')"

lemma stream_event_safe:
  assumes "engine_wf e" "bank < length (en_streams e)"
  shows "\<exists>e' l'. stream_event_step bank event (e, l) = Some (e', l') \<and> engine_wf e'
    \<and> length (en_streams e') = length (en_streams e)"
proof (cases event)
  case Rx_open_failed
  then show ?thesis
    using wf_setRxActive [OF assms, of False] by (simp add: receive_open_failed_def Let_def case_prod_unfold wf_count)
next
  case Rx_opened
  then show ?thesis using wf_setRxActive [OF assms] by (simp add: receive_opened_def)
next
  case (Rx_timeout now)
  then show ?thesis using wf_setRxActive [OF assms] assms(1) by (simp add: receive_timeout_def)
next
  case (Rx_datagram arrival bs)
  obtain e' s where "receive_datagram bank arrival bs e (l bank) = Some (e', s)" "engine_wf e'" "en_config e' = en_config e"
    using datagram_effect [OF assms, of arrival bs "l bank"] by blast
  moreover from this assms(1) have "length (en_streams e') = length (en_streams e)" by (simp add: engine_wf_def)
  ultimately show ?thesis using Rx_datagram by simp
next
  case Rx_closed
  have "engine_wf (setRxActive bank False e)" by (rule wf_setRxActive [OF assms])
  with Rx_closed show ?thesis by (simp add: receive_closed_def Let_def case_prod_unfold wf_count)
next
  case Consume_reset
  have "length (en_streams (consume_reset bank e)) = length (en_streams e)" by (simp add: consume_reset_def)
  then show ?thesis using Consume_reset consume_reset_wf [OF assms] by simp
next
  case Consume
  then show ?thesis using consume_iteration_safe [OF assms] by auto
qed

text \<open>Whatever the network sends, whenever the sockets fail and however the receiving and consuming
  threads of the streams take turns, no iteration reads outside a datagram, a ring or the block, and the
  engine's invariant (rings, jitter buffers, activity flags) holds after every one.\<close>

theorem receiving_side_safe:
  assumes "engine_wf e" "\<forall>(bank, event) \<in> set events. bank < length (en_streams e)"
  shows "\<exists>e' l'. stream_events events (e, l) = Some (e', l') \<and> engine_wf e'"
  using assms
proof (induction events arbitrary: e l)
  case (Cons x events)
  obtain bank event where x: "x = (bank, event)" by (cases x)
  then obtain e1 l1 where "stream_event_step bank event (e, l) = Some (e1, l1)" "engine_wf e1"
    "length (en_streams e1) = length (en_streams e)"
    using stream_event_safe [of e bank event l] Cons.prems by auto
  with Cons.IH [of e1 l1] Cons.prems x show ?case by simp
qed simp

theorem receiving_side_safe_witness:
  "\<exists>e' l'. stream_events [(0, Rx_opened), (0, Rx_datagram 3 [0x80]), (0, Consume_reset), (0, Consume), (0, Rx_closed)]
     (demo_engine, \<lambda>_. new_receive) = Some (e', l') \<and> engine_wf e'"
  by (rule receiving_side_safe [OF demo_wf]) (simp add: demo_engine_def)

section \<open>Changing sources\<close>

text \<open>When a datagram comes from another source than the stream's, the stream goes inactive, every
  following datagram is ignored until the consuming thread has emptied the buffer, and then nothing of
  the old source is left in it: it is as empty as a new one and has not started.\<close>

theorem source_change_empties_buffer:
  assumes "engine_wf e" "bank < length (en_streams e)" "rtp_decode bs default_rtp_packet = Some (True, p)"
    and "pkt_payloadType p = lc_rxPayloadType (en_config e)"
    and "length (pkt_payload p) = payloadBytesForChannels (unat (lc_channelsPerStream (en_config e)))"
    and "rx_haveSSRC l" "pkt_ssrc p \<noteq> rx_currentSSRC l"
  shows "\<exists>e1 l1. receive_datagram bank arrival bs e l = Some (e1, l1)
    \<and> \<not> rt_rxActive (en_streams e1 ! bank) \<and> rx_currentSSRC l1 = pkt_ssrc p
    \<and> (\<forall>q bs' t. rtp_decode bs' default_rtp_packet = Some (True, q) \<longrightarrow> pkt_ssrc q = pkt_ssrc p
          \<longrightarrow> t - arrival \<le> 2000000000 \<longrightarrow> pkt_payloadType q = lc_rxPayloadType (en_config e)
          \<longrightarrow> length (pkt_payload q) = payloadBytesForChannels (unat (lc_channelsPerStream (en_config e)))
          \<longrightarrow> receive_datagram bank t bs' e1 l1 = Some (e1, l1))
    \<and> (let j = rt_jitter (en_streams (consume_reset bank e1) ! bank) in
         jitter_inv j \<and> jitter_map j = Map.empty \<and> \<not> jb_started j \<and> jb_buffered j = 0)"
proof -
  let ?e1 = "on_block (count_one st_reconnects_update)
      (setRxActive bank False (on_stream bank (\<lambda>r. r\<lparr>rt_jitterResetRequested := True\<rparr>) e))"
  let ?l1 = "l\<lparr>rx_currentSSRC := pkt_ssrc p, rx_haveSSRC := True, rx_lastPacket := Some arrival\<rparr>"
  have r1: "receive_datagram bank arrival bs e l = Some (?e1, ?l1)"
    using assms(6,7) by (intro datagram_restart [OF assms(3-5)]) simp
  have pending: "rt_jitterResetRequested (en_streams ?e1 ! bank)" "\<not> rt_rxActive (en_streams ?e1 ! bank)"
    "rt_jitter (en_streams ?e1 ! bank) = rt_jitter (en_streams e ! bank)"
    using assms(2) by simp_all
  have "receive_datagram bank t bs' ?e1 ?l1 = Some (?e1, ?l1)"
    if "rtp_decode bs' default_rtp_packet = Some (True, q)" "pkt_ssrc q = pkt_ssrc p"
      "pkt_payloadType q = lc_rxPayloadType (en_config e)"
      "length (pkt_payload q) = payloadBytesForChannels (unat (lc_channelsPerStream (en_config e)))"
      "t - arrival \<le> 2000000000" for q bs' t
    using that pending(1) by (intro datagram_waits [of _ q]) (simp_all add: rx_silent_def two_seconds_def)
  moreover have "rt_jitter (en_streams (consume_reset bank ?e1) ! bank) = jitter_reset (rt_jitter (en_streams e ! bank))"
    using pending assms(2) by (simp add: consume_reset_def)
  moreover have "jitter_map (jitter_reset j) = Map.empty" if "jitter_inv j" for j
    using jitter_inv_length [OF that] by (auto simp: jitter_map_def jitter_reset_def slot_holds_def)
  ultimately show ?thesis
    using r1 pending(2) jitter_reset_inv [OF runtime_at [OF assms(1,2)]] runtime_at [OF assms(1,2)]
    by (intro exI [of _ ?e1] exI [of _ ?l1]) (simp add: Let_def, simp add: jitter_reset_def)
qed

definition demo_datagram :: "u32 \<Rightarrow> bytes" where
  "demo_datagram ssrc = rtp_wire (default_rtp_packet\<lparr>pkt_ssrc := ssrc, pkt_payload := replicate 1152 0\<rparr>)"

lemma demo_datagram_decode:
  "rtp_decode (demo_datagram ssrc) q
    = Some (True, default_rtp_packet\<lparr>pkt_ssrc := ssrc, pkt_payload := replicate 1152 0\<rparr>)"
  unfolding demo_datagram_def by (rule rtp_decode_wire) (simp add: rtp_wf_def default_rtp_packet_def)

theorem source_change_empties_buffer_witness:
  "\<exists>e1 l1. receive_datagram 0 9 (demo_datagram 8) demo_engine (new_receive\<lparr>rx_haveSSRC := True, rx_currentSSRC := 7\<rparr>)
      = Some (e1, l1) \<and> rx_currentSSRC l1 = 8"
proof -
  have "payloadBytesForChannels (unat (lc_channelsPerStream (en_config demo_engine))) = 1152"
    "lc_rxPayloadType (en_config demo_engine) = 96" "0 < length (en_streams demo_engine)"
    by (simp_all add: demo_engine_def new_engine_def default_config_def payloadBytesForChannels_def profile_defs)
  then show ?thesis
    using source_change_empties_buffer [OF demo_wf _ demo_datagram_decode, of 0 8
        "new_receive\<lparr>rx_haveSSRC := True, rx_currentSSRC := 7\<rparr>" 9]
    by (simp add: default_rtp_packet_def) blast
qed

section \<open>Deadlines\<close>

text \<open>The consuming thread's deadlines stay on the millisecond grid of the common epoch: one
  millisecond after the last, or, when the thread woke more than ten milliseconds late, the next grid
  point after the present, so that a stall is skipped instead of replayed.\<close>

theorem consume_deadlines_on_grid:
  assumes "epoch \<le> now" "now \<le> now2" "deadline = epoch + 1000000 * k"
  shows "\<exists>k'. consume_next epoch now now2 deadline = epoch + 1000000 * k' \<and> k' > k
    \<and> (if now - deadline > 10000000
        then now2 < consume_next epoch now now2 deadline \<and> consume_next epoch now now2 deadline \<le> now2 + 1000000
        else k' = k + 1)"
proof (cases "now - deadline > 10000000")
  case True
  let ?m = "(now2 - epoch) div 1000000"
  have m: "?m * 1000000 \<le> now2 - epoch" "now2 - epoch < ?m * 1000000 + 1000000"
    using div_mult_mod_eq [of "now2 - epoch" 1000000] pos_mod_bound [of 1000000 "now2 - epoch"]
      pos_mod_sign [of 1000000 "now2 - epoch"] by linarith+
  have "consume_next epoch now now2 deadline = epoch + 1000000 * (?m + 1)"
    using True assms by (simp add: consume_next_def Let_def cdiv_nonneg)
  moreover have "k < ?m + 1" using True assms m by linarith
  ultimately show ?thesis using True m by (intro exI [of _ "?m + 1"]) simp
next
  case False
  then show ?thesis using assms by (intro exI [of _ "k + 1"]) (simp add: consume_next_def Let_def)
qed

theorem consume_deadlines_on_grid_witness:
  "\<exists>k'. consume_next 20000000 85300000 85300100 21000000 = 20000000 + 1000000 * k' \<and> k' > 1"
  using consume_deadlines_on_grid [of 20000000 85300000 85300100 21000000 1] by auto

end
