(* ===== verification/Transmit_Path.thy ===== *)
theory Transmit_Path
  imports Receive_Path
begin

text \<open>
  \<open>transmitLoop\<close> of Sources/Engine/LiveEngine.cpp: from the Core Audio rings to RTP packets, on the
  deadlines of the epoch all transmitters share, and the way of a packet through a sending and a
  receiving engine. What \<open>lrint\<close> makes of a NaN is the parameter \<open>z\<close> of the sample codec.
\<close>

section \<open>The code\<close>

record transmit_state =
  tx_reconnect :: reconnect_policy
  tx_packet :: rtp_packet
  tx_interleaved :: "f32 list"
  tx_channel :: "f32 list"
  tx_wire :: bytes
  tx_next :: int

definition new_transmit :: "live_engine_config \<Rightarrow> nat \<Rightarrow> transmit_state" where
  "new_transmit config bank = \<lparr> tx_reconnect = new_reconnect,
     tx_packet = default_rtp_packet\<lparr>pkt_payloadType := lc_txPayloadType config,
       pkt_ssrc := 0x41455342 + of_nat bank,
       pkt_payload := replicate (payloadBytesForChannels (unat (lc_channelsPerStream config))) 0\<rparr>,
     tx_interleaved = replicate (kFramesPerPacket * kChannels) (Fin 0),
     tx_channel = replicate kFramesPerPacket (Fin 0),
     tx_wire = replicate (kFixedHeaderBytes + kPayloadBytes) 0, tx_next = 0 \<rparr>"

definition nextDeadline :: "int \<Rightarrow> int \<Rightarrow> int" where
  "nextDeadline epoch now = (if now < epoch then epoch
     else epoch + (cdiv (now - epoch) 1000000 + 1) * 1000000)"

definition transmit_open_failed :: "nat \<Rightarrow> live_engine \<Rightarrow> transmit_state \<Rightarrow> nat \<times> live_engine \<times> transmit_state" where
  "transmit_open_failed bank e l =
     (let e1 = on_block (count_one st_reconnects_update) (setTxActive bank False e);
          (delay, reconnect) = nextDelay (tx_reconnect l)
      in (delay, e1, l\<lparr>tx_reconnect := reconnect\<rparr>))"

text \<open>A transmitter opened: it joins the epoch once, and the last one to join fixes it.\<close>

definition transmit_opened ::
    "nat \<Rightarrow> int \<Rightarrow> int \<Rightarrow> live_engine \<Rightarrow> transmit_state \<Rightarrow> live_engine \<times> transmit_state" where
  "transmit_opened bank steadyNow systemNow e l =
     (let e1 = setTxActive bank True e;
          e2 = (if rt_txEpochJoined (en_streams e1 ! bank) then e1
            else
              let e3 = on_stream bank (\<lambda>r. r\<lparr>rt_txEpochJoined := True\<rparr>) e1;
                  ready = en_transmitReadyCount e3 + 1;
                  e4 = e3\<lparr>en_transmitReadyCount := ready\<rparr>
              in if ready = lc_streamCount (en_config e4)
                 then e4\<lparr>en_transmitEpoch := steadyNow + 50000000,
                   en_transmitSystemEpochNanoseconds := systemNow + 50000000,
                   en_transmitEpochReady := True\<rparr>
                 else e4)
      in (e2, l\<lparr>tx_reconnect := connected (tx_reconnect l)\<rparr>))"

text \<open>The loop over the channels: one ring read per channel into the same array \<open>channel\<close>, silence where
  the ring had too little.\<close>

fun capture_channels ::
    "live_engine_config \<Rightarrow> nat \<Rightarrow> nat list \<Rightarrow> f32 list \<Rightarrow> f32 list \<Rightarrow> bool \<Rightarrow> shared_block
      \<Rightarrow> (f32 list \<times> f32 list \<times> bool \<times> shared_block) option" where
  "capture_channels config bank [] channel interleaved underrun b = Some (channel, interleaved, underrun, b)"
| "capture_channels config bank (ch # chs) channel interleaved underrun b = (
     let vc = virtualChannel config bank ch
     in case rd (bk_coreAudioToNetwork b) vc of
          None \<Rightarrow> None
        | Some ring \<Rightarrow>
            let (ring', channel1, taken) = ring_read ring channel;
                short = taken < length channel;
                channel2 = (if short then take taken channel1 @ replicate (length channel1 - taken) (Fin 0) else channel1);
                interleaved' = fold (\<lambda>frame xs. xs[frame * unat (lc_channelsPerStream config) + ch := channel2 ! frame])
                  [0..<kFramesPerPacket] interleaved
            in capture_channels config bank chs channel2 interleaved' (underrun \<or> short)
                 (b\<lparr>bk_coreAudioToNetwork := (bk_coreAudioToNetwork b)[vc := ring']\<rparr>))"

text \<open>One iteration of the inner loop after the thread slept until its deadline: the result says whether
  the loop goes on and which bytes were handed to the socket; \<open>sent\<close> is the socket's answer. The two
  sums of signed 64-bit nanoseconds are checked.\<close>

definition transmit_iteration ::
    "int \<Rightarrow> nat \<Rightarrow> int \<Rightarrow> int \<Rightarrow> bool \<Rightarrow> live_engine \<Rightarrow> transmit_state
      \<Rightarrow> (bool \<times> bytes \<times> live_engine \<times> transmit_state) option" where
  "transmit_iteration z bank now now2 sent e l = do {
     let config = en_config e;
     let channels = unat (lc_channelsPerStream config);
     let deadline = (if now - tx_next l > 10000000 then nextDeadline (en_transmitEpoch e) now2 else tx_next l);
     (channel, interleaved, underrun, b) \<leftarrow>
       capture_channels config bank [0..<channels] (tx_channel l) (tx_interleaved l) False (en_block e);
     let b1 = (if underrun \<and> bk_ioRunning b then count_one st_outputUnderruns_update b else b);
     let packet = tx_packet l;
     let payload = snd (l24_encode z (take (kFramesPerPacket * channels) interleaved) (pkt_payload packet));
     scheduled \<leftarrow> chk64 (en_transmitSystemEpochNanoseconds e + (deadline - en_transmitEpoch e));
     let offset = (if bk_ptpLocked b1 then st_ptpOffsetNanoseconds (bk_statistics b1) else 0);
     corrected \<leftarrow> chk64 (scheduled - offset);
     let packet1 = packet\<lparr>pkt_payload := payload, pkt_sequence := pkt_sequence packet + 1,
       pkt_timestamp := rtpTimestampForNanoseconds corrected\<rparr>;
     (encoded, wire, written) \<leftarrow> rtp_encode packet1 (tx_wire l);
     let l1 = l\<lparr>tx_packet := packet1, tx_interleaved := interleaved, tx_channel := channel, tx_wire := wire,
       tx_next := deadline\<rparr>;
     if \<not> encoded then Some (False, [], e\<lparr>en_block := b1\<rparr>, l1)
     else if \<not> sent then Some (False, take written wire, e\<lparr>en_block := b1\<rparr>, l1)
     else Some (True, take written wire, e\<lparr>en_block := count_one st_txPackets_update b1\<rparr>,
                l1\<lparr>tx_next := deadline + 1000000\<rparr>)
   }"

definition transmit_closed :: "nat \<Rightarrow> live_engine \<Rightarrow> transmit_state \<Rightarrow> nat option \<times> live_engine \<times> transmit_state" where
  "transmit_closed bank e l =
     (let e1 = setTxActive bank False e
      in if en_running e1
         then let (delay, reconnect) = nextDelay (tx_reconnect l)
           in (Some delay, on_block (count_one st_reconnects_update) e1, l\<lparr>tx_reconnect := reconnect\<rparr>)
         else (None, e1, l))"

section \<open>Capturing\<close>

definition padded :: "f32 list \<Rightarrow> f32 list" where
  "padded q = take kFramesPerPacket q @ replicate (kFramesPerPacket - length q) (Fin 0)"

abbreviation core_queue :: "shared_block \<Rightarrow> nat \<Rightarrow> f32 list" where
  "core_queue b vc \<equiv> ring_queue (bk_coreAudioToNetwork b ! vc)"

lemma length_padded [simp]: "length (padded q) = kFramesPerPacket"
  by (simp add: padded_def)

lemma read_channel:
  assumes "ring_inv ring" "length channel = kFramesPerPacket" "ring_read ring channel = (ring', channel1, taken)"
  shows "(if taken < length channel then take taken channel1 @ replicate (length channel1 - taken) (Fin 0) else channel1)
      = padded (ring_queue ring)"
    "taken < length channel \<longleftrightarrow> length (ring_queue ring) < kFramesPerPacket"
    "ring_inv ring'" "ring_queue ring' = drop kFramesPerPacket (ring_queue ring)"
proof -
  have taken: "taken = min (length channel) (length (ring_queue ring))"
    using shared.deq_count [OF assms(1), of channel] assms(3) by simp
  have data: "channel1 = take taken (ring_queue ring) @ drop taken channel"
    using shared.deq_data [OF assms(1), of channel] assms(3) by simp
  show "(if taken < length channel then take taken channel1 @ replicate (length channel1 - taken) (Fin 0) else channel1)
      = padded (ring_queue ring)" using assms(2) by (auto simp: padded_def data taken min_def)
  show "taken < length channel \<longleftrightarrow> length (ring_queue ring) < kFramesPerPacket" using assms(2) taken by auto
  show "ring_inv ring'" using shared.deq_invar [OF assms(1), of channel] assms(3) by simp
  show "ring_queue ring' = drop kFramesPerPacket (ring_queue ring)"
    using shared.deq_queue [OF assms(1), of channel] assms(2,3) taken by (simp add: min_def)
qed

text \<open>What the frame loop stores, and what it leaves alone.\<close>

lemma frame_loop:
  fixes channel il :: "f32 list" and ch k :: nat
  assumes "ch < k" "kFramesPerPacket * k \<le> length il"
  defines "il' \<equiv> fold (\<lambda>frame xs. xs[frame * k + ch := channel ! frame]) [0..<kFramesPerPacket] il"
  shows "length il' = length il" "f < kFramesPerPacket \<Longrightarrow> il' ! (f * k + ch) = channel ! f"
    "(\<And>f. f < kFramesPerPacket \<Longrightarrow> j \<noteq> f * k + ch) \<Longrightarrow> il' ! j = il ! j"
proof -
  show "length il' = length il" by (simp add: il'_def)
  have "f * k + ch < length il" if "f < kFramesPerPacket" for f
    using that assms(1,2) by (intro frame_index_in_range [of ch k kFramesPerPacket]) (simp_all add: less_eq_div_iff_mult_less_eq)
  then show "f < kFramesPerPacket \<Longrightarrow> il' ! (f * k + ch) = channel ! f" for f
    unfolding il'_def using assms(1)
    by (intro nth_fold_update [where ix = "\<lambda>f. f * k + ch"]) (auto simp: frame_index_inj)
  show "il' ! j = il ! j" if "\<And>f. f < kFramesPerPacket \<Longrightarrow> j \<noteq> f * k + ch"
    unfolding il'_def using that by (intro nth_fold_update_other) fastforce
qed

lemma capture_effect:
  assumes "routing_ok c" "lc_coreAudioStartChannel c \<le> 64" "bank < unat (lc_streamCount c)"
    and "distinct chs" "\<forall>ch \<in> set chs. ch < unat (lc_channelsPerStream c)"
    and "rings_ok (bk_coreAudioToNetwork b)" "length channel = kFramesPerPacket"
    and "kFramesPerPacket * unat (lc_channelsPerStream c) \<le> length il"
  shows "\<exists>channel' il' underrun' rings. capture_channels c bank chs channel il underrun b
        = Some (channel', il', underrun', b\<lparr>bk_coreAudioToNetwork := rings\<rparr>)
    \<and> length channel' = kFramesPerPacket \<and> length il' = length il \<and> rings_ok rings
    \<and> (underrun' \<longleftrightarrow> underrun \<or> (\<exists>ch \<in> set chs. length (core_queue b (virtualChannel c bank ch)) < kFramesPerPacket))
    \<and> (\<forall>ch \<in> set chs. \<forall>f < kFramesPerPacket.
          il' ! (f * unat (lc_channelsPerStream c) + ch) = padded (core_queue b (virtualChannel c bank ch)) ! f)
    \<and> (\<forall>j. (\<forall>ch \<in> set chs. \<forall>f < kFramesPerPacket. j \<noteq> f * unat (lc_channelsPerStream c) + ch) \<longrightarrow> il' ! j = il ! j)
    \<and> (\<forall>ch \<in> set chs. ring_queue (rings ! virtualChannel c bank ch)
          = drop kFramesPerPacket (core_queue b (virtualChannel c bank ch)))
    \<and> (\<forall>vc. (\<forall>ch \<in> set chs. vc \<noteq> virtualChannel c bank ch) \<longrightarrow> ring_queue (rings ! vc) = core_queue b vc)"
  using assms(4-)
proof (induction chs arbitrary: channel il underrun b)
  case Nil
  then show ?case by - (rule exI [of _ channel], rule exI [of _ il], rule exI [of _ underrun],
        rule exI [of _ "bk_coreAudioToNetwork b"], simp)
next
  case (Cons ch chs)
  let ?k = "unat (lc_channelsPerStream c)"
  let ?vc = "virtualChannel c bank ch"
  let ?ring = "bk_coreAudioToNetwork b ! ?vc"
  obtain ring' channel1 taken where read: "ring_read ?ring channel = (ring', channel1, taken)"
    by (cases "ring_read ?ring channel") auto
  have vc: "?vc < 64" using virtualChannel_in [OF assms(1-3)] Cons.prems(2) by simp
  have len: "length (bk_coreAudioToNetwork b) = 64" "ring_inv ?ring"
    using Cons.prems(3) vc by (simp_all add: rings_ok_def profile_defs)
  note r = read_channel [OF len(2) Cons.prems(4) read]
  define channel2 where "channel2 = padded (ring_queue ?ring)"
  define il2 where "il2 = fold (\<lambda>frame xs. xs[frame * ?k + ch := channel2 ! frame]) [0..<kFramesPerPacket] il"
  let ?rings = "(bk_coreAudioToNetwork b)[?vc := ring']"
  let ?b2 = "b\<lparr>bk_coreAudioToNetwork := ?rings\<rparr>"
  let ?u2 = "underrun \<or> length (ring_queue ?ring) < kFramesPerPacket"
  have step: "capture_channels c bank (ch # chs) channel il underrun b = capture_channels c bank chs channel2 il2 ?u2 ?b2"
    using vc len r(1,2) by (simp add: rd_def Let_def read channel2_def il2_def cong: if_cong)
  have ch: "ch < ?k" using Cons.prems(2) by simp
  note il2 = frame_loop [OF ch Cons.prems(5), where channel = channel2, folded il2_def]
  have pre: "distinct chs" "\<forall>ch \<in> set chs. ch < ?k" "rings_ok (bk_coreAudioToNetwork ?b2)"
    "length channel2 = kFramesPerPacket" "kFramesPerPacket * ?k \<le> length il2"
    using Cons.prems r(3) il2(1) by (simp_all add: rings_ok_update channel2_def)
  obtain channel' il' underrun' rings where ih: "capture_channels c bank chs channel2 il2 ?u2 ?b2
        = Some (channel', il', underrun', ?b2\<lparr>bk_coreAudioToNetwork := rings\<rparr>)"
    "length channel' = kFramesPerPacket" "length il' = length il2" "rings_ok rings"
    "underrun' \<longleftrightarrow> ?u2 \<or> (\<exists>ch \<in> set chs. length (core_queue ?b2 (virtualChannel c bank ch)) < kFramesPerPacket)"
    "\<forall>ch \<in> set chs. \<forall>f < kFramesPerPacket.
          il' ! (f * ?k + ch) = padded (core_queue ?b2 (virtualChannel c bank ch)) ! f"
    "\<forall>j. (\<forall>ch \<in> set chs. \<forall>f < kFramesPerPacket. j \<noteq> f * ?k + ch) \<longrightarrow> il' ! j = il2 ! j"
    "\<forall>ch \<in> set chs. ring_queue (rings ! virtualChannel c bank ch)
          = drop kFramesPerPacket (core_queue ?b2 (virtualChannel c bank ch))"
    "\<forall>vc. (\<forall>ch \<in> set chs. vc \<noteq> virtualChannel c bank ch) \<longrightarrow> ring_queue (rings ! vc) = core_queue ?b2 vc"
    using Cons.IH [OF pre, of ?u2] by auto
  have other: "virtualChannel c bank ch' \<noteq> ?vc" "ch' < ?k" "ch' \<noteq> ch" if "ch' \<in> set chs" for ch'
    using that Cons.prems(1,2) virtualChannel_value(1) [OF assms(1-3)] by auto
  have q: "core_queue ?b2 (virtualChannel c bank ch') = core_queue b (virtualChannel c bank ch')" if "ch' \<in> set chs" for ch'
    using other [OF that] by simp
  have qv: "core_queue ?b2 vc' = (if vc' = ?vc then drop kFramesPerPacket (ring_queue ?ring) else core_queue b vc')" for vc'
    using vc len r(4) by (simp add: nth_list_update)
  have own_frames: "il' ! (f * ?k + ch) = padded (ring_queue ?ring) ! f" if "f < kFramesPerPacket" for f
  proof -
    have "f * ?k + ch \<noteq> f' * ?k + ch'" if "ch' \<in> set chs" for ch' f'
      using frame_index_eq_iff [OF ch other(2) [OF that]] other(3) [OF that] by blast
    with ih(7) have "il' ! (f * ?k + ch) = il2 ! (f * ?k + ch)" by simp
    with il2(2) [OF that] show ?thesis by (simp add: channel2_def)
  qed
  show ?case
  proof (rule exI [of _ channel'], rule exI [of _ il'], rule exI [of _ underrun'], rule exI [of _ rings], intro conjI)
    show "capture_channels c bank (ch # chs) channel il underrun b
        = Some (channel', il', underrun', b\<lparr>bk_coreAudioToNetwork := rings\<rparr>)"
      using ih(1) by (simp only: step) simp
    show "underrun' \<longleftrightarrow> underrun \<or> (\<exists>ch' \<in> set (ch # chs). length (core_queue b (virtualChannel c bank ch')) < kFramesPerPacket)"
      using ih(5) q by auto
    show "\<forall>ch' \<in> set (ch # chs). \<forall>f < kFramesPerPacket. il' ! (f * ?k + ch') = padded (core_queue b (virtualChannel c bank ch')) ! f"
      using own_frames ih(6) q by simp
    show "\<forall>j. (\<forall>ch' \<in> set (ch # chs). \<forall>f < kFramesPerPacket. j \<noteq> f * ?k + ch') \<longrightarrow> il' ! j = il ! j"
      using ih(7) il2(3) by simp
    show "\<forall>ch' \<in> set (ch # chs). ring_queue (rings ! virtualChannel c bank ch') = drop kFramesPerPacket (core_queue b (virtualChannel c bank ch'))"
    proof
      fix ch' assume "ch' \<in> set (ch # chs)"
      then consider "ch' = ch" | "ch' \<in> set chs" by auto
      then show "ring_queue (rings ! virtualChannel c bank ch') = drop kFramesPerPacket (core_queue b (virtualChannel c bank ch'))"
      proof cases
        case 1
        have "ring_queue (rings ! ?vc) = core_queue ?b2 ?vc" using ih(9) other(1) by metis
        with 1 qv [of ?vc] show ?thesis by simp
      next
        case 2
        with ih(8) q show ?thesis by simp
      qed
    qed
    show "\<forall>vc. (\<forall>ch' \<in> set (ch # chs). vc \<noteq> virtualChannel c bank ch') \<longrightarrow> ring_queue (rings ! vc) = core_queue b vc"
      using ih(9) qv by simp
  qed (use ih(2-4) il2(1) in simp_all)
qed

section \<open>One packet\<close>

definition transmit_wf :: "live_engine_config \<Rightarrow> transmit_state \<Rightarrow> bool" where
  "transmit_wf c l \<longleftrightarrow> length (tx_channel l) = kFramesPerPacket
     \<and> length (tx_interleaved l) = kFramesPerPacket * kChannels
     \<and> length (tx_wire l) = kFixedHeaderBytes + kPayloadBytes
     \<and> length (pkt_payload (tx_packet l)) = payloadBytesForChannels (unat (lc_channelsPerStream c))
     \<and> pkt_payloadType (tx_packet l) = lc_txPayloadType c"

lemma new_transmit_wf: "transmit_wf c (new_transmit c bank)"
  by (simp add: transmit_wf_def new_transmit_def)

definition silent_nan :: "shared_block \<Rightarrow> live_engine_config \<Rightarrow> nat \<Rightarrow> bool" where
  "silent_nan b c bank \<longleftrightarrow>
     (\<forall>ch < unat (lc_channelsPerStream c). NaN \<notin> set (core_queue b (virtualChannel c bank ch)))"

abbreviation tx_deadline :: "live_engine \<Rightarrow> transmit_state \<Rightarrow> int \<Rightarrow> int \<Rightarrow> int" where
  "tx_deadline e l now now2 \<equiv> (if now - tx_next l > 10000000 then nextDeadline (en_transmitEpoch e) now2 else tx_next l)"

abbreviation tx_scheduled :: "live_engine \<Rightarrow> transmit_state \<Rightarrow> int \<Rightarrow> int \<Rightarrow> int" where
  "tx_scheduled e l now now2 \<equiv> en_transmitSystemEpochNanoseconds e + (tx_deadline e l now now2 - en_transmitEpoch e)"

abbreviation tx_media_time :: "live_engine \<Rightarrow> transmit_state \<Rightarrow> int \<Rightarrow> int \<Rightarrow> int" where
  "tx_media_time e l now now2 \<equiv> tx_scheduled e l now now2
     - (if bk_ptpLocked (en_block e) then st_ptpOffsetNanoseconds (bk_statistics (en_block e)) else 0)"

lemma interleaved_near:
  assumes "0 < k" "kFramesPerPacket * k \<le> length il"
    and "\<forall>ch < k. \<forall>f < kFramesPerPacket. il ! (f * k + ch) = padded (q ch) ! f"
    and "\<forall>ch < k. NaN \<notin> set (q ch)" and "ch < k"
  shows "list_all2 sample_near (padded (q ch))
    (map (\<lambda>f. l24_samples (concat (map pcm_bytes (map (to_pcm z) (take (kFramesPerPacket * k) il)))) ! (f * k + ch))
      [0..<kFramesPerPacket])"
proof -
  let ?xs = "take (kFramesPerPacket * k) il"
  have not_nan: "padded (q c) ! f \<noteq> NaN" if "c < k" "f < kFramesPerPacket" for c f
  proof -
    have "padded (q c) ! f \<in> set (padded (q c))" using that by simp
    moreover have "set (padded (q c)) \<subseteq> set (q c) \<union> {Fin 0}" by (auto simp: padded_def dest: in_set_takeD)
    ultimately have "padded (q c) ! f \<in> set (q c) \<union> {Fin 0}" by blast
    moreover have "NaN \<notin> set (q c) \<union> {Fin 0}" using assms(4) that by simp
    ultimately show ?thesis by metis
  qed
  have index: "f * k + c < kFramesPerPacket * k" if "c < k" "f < kFramesPerPacket" for c f
    using that by (intro frame_index_in_range [of c k kFramesPerPacket]) simp_all
  have "x \<noteq> NaN" if x: "x \<in> set ?xs" for x
  proof -
    obtain j where j: "j < length ?xs" "x = ?xs ! j" using x by (metis in_set_conv_nth)
    then have jk: "j < kFramesPerPacket * k" by simp
    then have "j div k < kFramesPerPacket" "j mod k < k"
      using assms(1) by (simp_all add: less_mult_imp_div_less)
    then have "il ! (j div k * k + j mod k) \<noteq> NaN" using assms(3) not_nan by metis
    with j jk show ?thesis by simp
  qed
  then have "NaN \<notin> set ?xs" by blast
  from l24_near [OF this, of z] have near: "list_all2 sample_near ?xs (l24_samples (concat (map pcm_bytes (map (to_pcm z) ?xs))))" .
  have len: "length ?xs = kFramesPerPacket * k" using assms(2) by simp
  show ?thesis
  proof (rule list_all2_all_nthI)
    fix f assume "f < length (padded (q ch))"
    then have f: "f < kFramesPerPacket" by simp
    have "sample_near (?xs ! (f * k + ch)) (l24_samples (concat (map pcm_bytes (map (to_pcm z) ?xs))) ! (f * k + ch))"
      by (rule list_all2_nthD [OF near]) (use index [OF assms(5) f] len in linarith)
    moreover have "?xs ! (f * k + ch) = padded (q ch) ! f"
      using assms(3,5) f index [OF assms(5) f] by simp
    ultimately show "sample_near (padded (q ch) ! f) (map (\<lambda>f. l24_samples (concat (map pcm_bytes
        (map (to_pcm z) ?xs))) ! (f * k + ch)) [0..<kFramesPerPacket] ! f)"
      using f by simp
  qed simp
qed

lemma transmit_sends:
  assumes "engine_wf e" "bank < length (en_streams e)" "transmit_wf (en_config e) l"
    and "lc_txPayloadType (en_config e) \<le> 127" "silent_nan (en_block e) (en_config e) bank"
    and "in_int64 (tx_scheduled e l now now2)" "in_int64 (tx_media_time e l now now2)"
  shows "\<exists>p e' l'. transmit_iteration z bank now now2 True e l = Some (True, rtp_wire p, e', l')
    \<and> tx_packet l' = p \<and> transmit_wf (en_config e) l' \<and> tx_next l' = tx_deadline e l now now2 + 1000000
    \<and> engine_wf e' \<and> en_config e' = en_config e
    \<and> pkt_sequence p = pkt_sequence (tx_packet l) + 1 \<and> pkt_ssrc p = pkt_ssrc (tx_packet l)
    \<and> pkt_timestamp p = rtpTimestampForNanoseconds (tx_media_time e l now now2)
    \<and> pkt_payloadType p = lc_txPayloadType (en_config e)
    \<and> length (pkt_payload p) = payloadBytesForChannels (unat (lc_channelsPerStream (en_config e)))
    \<and> (\<forall>ch < unat (lc_channelsPerStream (en_config e)). let vc = virtualChannel (en_config e) bank ch in
          list_all2 sample_near (padded (core_queue (en_block e) vc))
            (channel_samples (en_config e) (l24_samples (pkt_payload p)) ch)
          \<and> core_queue (en_block e') vc = drop kFramesPerPacket (core_queue (en_block e) vc))"
proof -
  let ?c = "en_config e" and ?b = "en_block e"
  let ?k = "unat (lc_channelsPerStream ?c)"
  have c: "routing_ok ?c" "lc_coreAudioStartChannel ?c \<le> 64" "bank < unat (lc_streamCount ?c)"
    "rings_ok (bk_coreAudioToNetwork ?b)"
    using assms(1,2) by (simp_all add: engine_wf_def)
  have k: "0 < ?k" "?k \<le> 8" using routing_bounds [OF c(1)] by simp_all
  have l: "length (tx_channel l) = kFramesPerPacket" "kFramesPerPacket * ?k \<le> length (tx_interleaved l)"
    using assms(3) k by (simp_all add: transmit_wf_def profile_defs)
  obtain channel il underrun rings where cap: "capture_channels ?c bank [0..<?k] (tx_channel l) (tx_interleaved l) False ?b
        = Some (channel, il, underrun, ?b\<lparr>bk_coreAudioToNetwork := rings\<rparr>)"
    "length channel = kFramesPerPacket" "length il = length (tx_interleaved l)" "rings_ok rings"
    "\<forall>ch \<in> set [0..<?k]. \<forall>f < kFramesPerPacket. il ! (f * ?k + ch) = padded (core_queue ?b (virtualChannel ?c bank ch)) ! f"
    "\<forall>ch \<in> set [0..<?k]. ring_queue (rings ! virtualChannel ?c bank ch)
      = drop kFramesPerPacket (core_queue ?b (virtualChannel ?c bank ch))"
    using capture_effect [OF c(1-3) _ _ c(4) l, of "[0..<?k]" False] by auto
  define payload where "payload = concat (map pcm_bytes (map (to_pcm z) (take (kFramesPerPacket * ?k) il)))"
  have len: "length payload = payloadBytesForChannels ?k"
    unfolding payload_def length_l24_concat using cap(3) l(2)
    by (simp add: payloadBytesForChannels_def profile_defs)
  have enc: "snd (l24_encode z (take (kFramesPerPacket * ?k) il) (pkt_payload (tx_packet l))) = payload"
    using assms(3) cap(3) l(2) unfolding payload_def
    by (subst l24_encode_ok) (simp_all add: transmit_wf_def payloadBytesForChannels_def profile_defs)
  define b1 where "b1 = (if underrun \<and> bk_ioRunning (?b\<lparr>bk_coreAudioToNetwork := rings\<rparr>)
    then count_one st_outputUnderruns_update (?b\<lparr>bk_coreAudioToNetwork := rings\<rparr>) else ?b\<lparr>bk_coreAudioToNetwork := rings\<rparr>)"
  have b1: "bk_ptpLocked b1 = bk_ptpLocked ?b" "st_ptpOffsetNanoseconds (bk_statistics b1) = st_ptpOffsetNanoseconds (bk_statistics ?b)"
    "bk_coreAudioToNetwork b1 = rings" "bk_networkToCoreAudio b1 = bk_networkToCoreAudio ?b"
    "bk_rxActive b1 = bk_rxActive ?b" "bk_txActive b1 = bk_txActive ?b"
    by (simp_all add: b1_def)
  define p where "p = (tx_packet l)\<lparr>pkt_payload := payload, pkt_sequence := pkt_sequence (tx_packet l) + 1,
    pkt_timestamp := rtpTimestampForNanoseconds (tx_media_time e l now now2)\<rparr>"
  have pt: "pkt_payloadType p \<le> 127" using assms(3,4) by (simp add: p_def transmit_wf_def)
  have room: "12 + length (pkt_payload p) \<le> length (tx_wire l)"
    using assms(3) supported_payload_le [OF routing_bounds(5) [OF c(1)]]
    by (simp add: p_def len transmit_wf_def kFixedHeaderBytes_def)
  obtain wire n where wire: "rtp_encode p (tx_wire l) = Some (True, wire, n)" "take n wire = rtp_wire p"
    "length wire = length (tx_wire l)"
    using rtp_encode_ok [OF pt room] room by simp
  let ?l' = "l\<lparr>tx_packet := p, tx_interleaved := il, tx_channel := channel, tx_wire := wire,
    tx_next := tx_deadline e l now now2 + 1000000\<rparr>"
  let ?e' = "e\<lparr>en_block := count_one st_txPackets_update b1\<rparr>"
  have run: "transmit_iteration z bank now now2 True e l = Some (True, rtp_wire p, ?e', ?l')"
    using assms(6,7) wire
    unfolding transmit_iteration_def Let_def cap(1) Option.bind.simps prod.case b1_def [symmetric] enc b1(1,2)
    by (simp add: chk64_def p_def [symmetric] split del: if_split)
  have "engine_wf ?e'"
    using wf_on_block [OF assms(1), of "\<lambda>_. count_one st_txPackets_update b1"] assms(1) cap(4) b1
    by (simp add: on_block_def engine_wf_def)
  moreover have "transmit_wf ?c ?l'"
    using assms(3) cap(2,3) wire(3) len by (simp add: transmit_wf_def p_def)
  moreover have "list_all2 sample_near (padded (core_queue ?b (virtualChannel ?c bank ch)))
      (channel_samples ?c (l24_samples (pkt_payload p)) ch)" if "ch < ?k" for ch
    using interleaved_near [of ?k il "\<lambda>ch. core_queue ?b (virtualChannel ?c bank ch)" ch z] k cap(3,5) l(2) that assms(5)
    by (simp add: p_def payload_def silent_nan_def)
  moreover have "pkt_payloadType p = lc_txPayloadType ?c" using assms(3) by (simp add: p_def transmit_wf_def)
  ultimately show ?thesis
    using run len cap(6) b1(3) by (intro exI [of _ p] exI [of _ ?e'] exI [of _ ?l']) (simp add: Let_def p_def)
qed

section \<open>From engine to engine\<close>

text \<open>One packet's way: what a transmitting engine takes from its Core Audio rings (48 samples per
  channel, silence where a ring ran dry) arrives in one datagram, and a receiving engine of the same
  profile stores it under its sequence number. Its payload holds each sample within \<open>2 ^ -22\<close> of the
  original clipped to \<open>[-1, 1]\<close>.\<close>

lemma packet_travels:
  assumes sender: "engine_wf e" "bank < length (en_streams e)" "transmit_wf (en_config e) l"
      "lc_txPayloadType (en_config e) \<le> 127" "silent_nan (en_block e) (en_config e) bank"
      "in_int64 (tx_scheduled e l now now2)" "in_int64 (tx_media_time e l now now2)"
    and receiver: "engine_wf r" "bank' < length (en_streams r)"
      "lc_rxPayloadType (en_config r) = lc_txPayloadType (en_config e)"
      "lc_channelsPerStream (en_config r) = lc_channelsPerStream (en_config e)"
      "\<not> rx_silent arrival s" "rx_haveSSRC s \<longrightarrow> rx_currentSSRC s = pkt_ssrc (tx_packet l)"
      "\<not> rt_jitterResetRequested (en_streams r ! bank')"
      "js_state (jb_slots (rt_jitter (en_streams r ! bank')) ! slot_index (pkt_sequence (tx_packet l) + 1)) = Slot_empty"
  obtains wire e' l' r' s' payload where
    "transmit_iteration z bank now now2 True e l = Some (True, wire, e', l')"
    "receive_datagram bank' arrival wire r s = Some (r', s')"
    "jitter_map (rt_jitter (en_streams r' ! bank'))
        = (jitter_map (rt_jitter (en_streams r ! bank')))(pkt_sequence (tx_packet l) + 1 \<mapsto> payload)"
    "length payload = payloadBytesForChannels (unat (lc_channelsPerStream (en_config e)))"
    "\<forall>ch < unat (lc_channelsPerStream (en_config e)).
      list_all2 sample_near (padded (core_queue (en_block e) (virtualChannel (en_config e) bank ch)))
        (channel_samples (en_config e) (l24_samples payload) ch)"
proof -
  obtain p e' l' where tx: "transmit_iteration z bank now now2 True e l = Some (True, rtp_wire p, e', l')"
    "pkt_sequence p = pkt_sequence (tx_packet l) + 1" "pkt_ssrc p = pkt_ssrc (tx_packet l)"
    "pkt_payloadType p = lc_txPayloadType (en_config e)"
    "length (pkt_payload p) = payloadBytesForChannels (unat (lc_channelsPerStream (en_config e)))"
    "\<forall>ch < unat (lc_channelsPerStream (en_config e)).
      list_all2 sample_near (padded (core_queue (en_block e) (virtualChannel (en_config e) bank ch)))
        (channel_samples (en_config e) (l24_samples (pkt_payload p)) ch)"
    using transmit_sends [OF sender, of z] unfolding Let_def by blast
  have dec: "rtp_decode (rtp_wire p) default_rtp_packet = Some (True, p)"
    by (rule rtp_decode_wire) (simp add: rtp_wf_def tx(4) sender(4))
  let ?j = "rt_jitter (en_streams r ! bank')"
  note jr = runtime_at [OF receiver(1,2)]
  have small: "length (pkt_payload p) \<le> kJitterMaxPayload"
    using supported_payload_le [of "unat (lc_channelsPerStream (en_config e))"] sender(1)
    by (simp add: tx(5) engine_wf_def routing_bounds(5) kPayloadBytes_value kJitterMaxPayload_def)
  obtain j where push: "jitter_push (pkt_sequence p) (pkt_payload p) ?j = (True, j)"
    using jitter_push_accepts [of "pkt_sequence p" "pkt_payload p" ?j] small receiver(8) tx(2)
    by (cases "jitter_push (pkt_sequence p) (pkt_payload p) ?j") auto
  have map: "jitter_map j = (jitter_map ?j)(pkt_sequence p \<mapsto> pkt_payload p)"
    using jitter_map_push [OF jr, of "pkt_sequence p" "pkt_payload p"] push by simp
  obtain r' s' where rx: "receive_datagram bank' arrival (rtp_wire p) r s = Some (r', s')"
    "jitter_map (rt_jitter (en_streams r' ! bank')) = (jitter_map ?j)(pkt_sequence p \<mapsto> pkt_payload p)"
    using datagram_pushed [OF dec _ _ _ receiver(7) push, of arrival s] receiver tx map
    by (simp add: Let_def)
  show ?thesis using that [OF tx(1) rx(1)] rx(2) tx by simp
qed

section \<open>The common epoch\<close>

definition epoch_inv :: "live_engine \<Rightarrow> bool" where
  "epoch_inv e \<longleftrightarrow> length (en_streams e) = unat (lc_streamCount (en_config e)) \<and> length (en_streams e) \<le> kStreamBankCount
     \<and> en_transmitReadyCount e = of_nat (length (filter rt_txEpochJoined (en_streams e)))
     \<and> (en_transmitEpochReady e \<longleftrightarrow> (\<forall>r \<in> set (en_streams e). rt_txEpochJoined r))"

lemma setTxActive_select [simp]:
  "en_config (setTxActive bank active e) = en_config e"
  "en_running (setTxActive bank active e) = en_running e"
  "en_transmitReadyCount (setTxActive bank active e) = en_transmitReadyCount e"
  "en_transmitEpochReady (setTxActive bank active e) = en_transmitEpochReady e"
  "en_transmitEpoch (setTxActive bank active e) = en_transmitEpoch e"
  "en_transmitSystemEpochNanoseconds (setTxActive bank active e) = en_transmitSystemEpochNanoseconds e"
  by (simp_all add: setTxActive_def Let_def on_stream_def on_block_def)

lemma setTxActive_joined:
  assumes "bank < length (en_streams e)"
  shows "map rt_txEpochJoined (en_streams (setTxActive bank active e)) = map rt_txEpochJoined (en_streams e)"
  using assms by (auto simp: setTxActive_def Let_def list_eq_iff_nth_eq nth_list_update)

lemma all_joined_iff: "(\<forall>r \<in> set rs. f r) \<longleftrightarrow> length (filter f rs) = length rs"
  by (metis filter_id_conv length_filter_less nat_neq_iff)

text \<open>The invariant only depends on who joined.\<close>

lemma joined_cong:
  assumes "map rt_txEpochJoined rs = map rt_txEpochJoined rs'"
  shows "length rs = length rs'" "length (filter rt_txEpochJoined rs) = length (filter rt_txEpochJoined rs')"
proof -
  show "length rs = length rs'" using arg_cong [OF assms, of length] by simp
  have "length (filter (\<lambda>b. b) (map rt_txEpochJoined rs)) = length (filter (\<lambda>b. b) (map rt_txEpochJoined rs'))"
    by (simp only: assms)
  then show "length (filter rt_txEpochJoined rs) = length (filter rt_txEpochJoined rs')"
    by (simp add: filter_map o_def)
qed

lemma transmit_opened_epoch:
  fixes steadyNow systemNow :: int and l :: transmit_state
  assumes "epoch_inv e" "bank < length (en_streams e)"
  defines "e' \<equiv> fst (transmit_opened bank steadyNow systemNow e l)"
  shows "epoch_inv e'" "length (en_streams e') = length (en_streams e)" "rt_txEpochJoined (en_streams e' ! bank)"
    "en_transmitEpochReady e \<Longrightarrow> en_transmitEpochReady e' \<and> en_transmitEpoch e' = en_transmitEpoch e
      \<and> en_transmitSystemEpochNanoseconds e' = en_transmitSystemEpochNanoseconds e"
proof -
  let ?e1 = "setTxActive bank True e"
  note j = joined_cong [OF setTxActive_joined [OF assms(2), of True]]
  have inv1: "epoch_inv ?e1"
    using assms(1) j unfolding epoch_inv_def all_joined_iff by simp
  have same: "rt_txEpochJoined (en_streams ?e1 ! bank) = rt_txEpochJoined (en_streams e ! bank)"
    using arg_cong [OF setTxActive_joined [OF assms(2), of True], of "\<lambda>xs. xs ! bank"] assms(2) by simp
  have "epoch_inv e' \<and> length (en_streams e') = length (en_streams e) \<and> rt_txEpochJoined (en_streams e' ! bank)
    \<and> (en_transmitEpochReady e \<longrightarrow> en_transmitEpochReady e' \<and> en_transmitEpoch e' = en_transmitEpoch e
      \<and> en_transmitSystemEpochNanoseconds e' = en_transmitSystemEpochNanoseconds e)"
  proof (cases "rt_txEpochJoined (en_streams ?e1 ! bank)")
    case True
    then have "e' = ?e1" by (simp add: e'_def transmit_opened_def Let_def)
    with inv1 True show ?thesis by simp
  next
    case False
    let ?r = "(en_streams ?e1 ! bank)\<lparr>rt_txEpochJoined := True\<rparr>"
    let ?rs = "(en_streams ?e1)[bank := ?r]"
    have b: "bank < length (en_streams ?e1)" using assms(2) by simp
    have inv: "length (en_streams ?e1) \<le> kStreamBankCount"
      "en_transmitReadyCount ?e1 = of_nat (length (filter rt_txEpochJoined (en_streams ?e1)))"
      "length (en_streams ?e1) = unat (lc_streamCount (en_config e))"
      using inv1 by (simp_all add: epoch_inv_def)
    have up: "en_transmitReadyCount ?e1 + 1 = of_nat (length (filter rt_txEpochJoined ?rs))"
      using switch_count(1) [OF b _ inv(1,2), of ?r] False by simp
    have "length ?rs \<le> 8" using inv(1) by (simp add: profile_defs)
    then have "length (filter rt_txEpochJoined ?rs) \<le> 8" using length_filter_le [of rt_txEpochJoined ?rs] by linarith
    then have "unat (en_transmitReadyCount ?e1 + 1) = length (filter rt_txEpochJoined ?rs)"
      by (intro unat_eqI [OF up]) simp
    then have last: "en_transmitReadyCount ?e1 + 1 = lc_streamCount (en_config e) \<longleftrightarrow> (\<forall>r \<in> set ?rs. rt_txEpochJoined r)"
      unfolding all_joined_iff using inv(3) by (simp add: word_unat_eq_iff)
    have not_ready: "\<not> en_transmitEpochReady e"
      using assms(1,2) False same by (auto simp: epoch_inv_def)
    show ?thesis
      using False last up inv1 not_ready b
      by (simp add: e'_def transmit_opened_def Let_def epoch_inv_def on_stream_def)
  qed
  then show "epoch_inv e'" "length (en_streams e') = length (en_streams e)" "rt_txEpochJoined (en_streams e' ! bank)"
    "en_transmitEpochReady e \<Longrightarrow> en_transmitEpochReady e' \<and> en_transmitEpoch e' = en_transmitEpoch e
      \<and> en_transmitSystemEpochNanoseconds e' = en_transmitSystemEpochNanoseconds e" by blast+
qed

text \<open>Openings of transmitters, by stream, steady and system clock.\<close>

fun openings :: "(nat \<times> int \<times> int) list \<Rightarrow> transmit_state \<Rightarrow> live_engine \<Rightarrow> live_engine" where
  "openings [] l e = e"
| "openings ((bank, steadyNow, systemNow) # rest) l e =
     openings rest l (fst (transmit_opened bank steadyNow systemNow e l))"

lemma openings_inv:
  assumes "epoch_inv e" "\<forall>(bank, _) \<in> set os. bank < length (en_streams e)"
  shows "epoch_inv (openings os l e) \<and> (en_transmitEpochReady e \<longrightarrow> en_transmitEpochReady (openings os l e)
    \<and> en_transmitEpoch (openings os l e) = en_transmitEpoch e
    \<and> en_transmitSystemEpochNanoseconds (openings os l e) = en_transmitSystemEpochNanoseconds e)"
  using assms
proof (induction os arbitrary: e)
  case (Cons x os)
  obtain bank steady system where x: "x = (bank, steady, system)" by (cases x)
  note t = transmit_opened_epoch [OF Cons.prems(1), of bank steady system l]
  show ?case using Cons.IH [OF t(1)] Cons.prems t x by simp
qed simp

text \<open>The transmitters share one epoch: however often sockets are opened and reopened, it becomes ready
  exactly when the last stream has joined, and from then on it never changes, so the packets of all
  streams stay on one timestamp grid.\<close>

theorem epoch_fixed_once:
  assumes "epoch_inv e" "\<forall>(bank, _) \<in> set (before @ after). bank < length (en_streams e)"
  shows "(en_transmitEpochReady (openings before l e)
      \<longleftrightarrow> (\<forall>r \<in> set (en_streams (openings before l e)). rt_txEpochJoined r))
    \<and> (en_transmitEpochReady (openings before l e) \<longrightarrow>
        en_transmitEpoch (openings (before @ after) l e) = en_transmitEpoch (openings before l e))"
proof -
  have split: "openings (before @ after) l e = openings after l (openings before l e)" for e
    by (induction before l e rule: openings.induct) simp_all
  have len: "length (en_streams (openings before l e)) = length (en_streams e)"
    if "epoch_inv e" "\<forall>(bank, _) \<in> set before. bank < length (en_streams e)" for e
    using that by (induction before l e rule: openings.induct) (simp_all add: transmit_opened_epoch)
  have b: "epoch_inv (openings before l e)" using openings_inv [OF assms(1), of before] assms(2) by simp
  have "en_transmitEpochReady (openings before l e) \<longrightarrow>
      en_transmitEpoch (openings after l (openings before l e)) = en_transmitEpoch (openings before l e)"
    using openings_inv [OF b, of "after" l] assms len [OF assms(1)] by simp
  with b show ?thesis by (simp add: split epoch_inv_def)
qed

theorem epoch_fixed_once_witness:
  "en_transmitEpoch (openings ([(0, 100, 7)] @ [(0, 900, 8)]) (new_transmit default_config 0) demo_engine)
    = en_transmitEpoch (openings [(0, 100, 7)] (new_transmit default_config 0) demo_engine)"
proof -
  have inv: "epoch_inv demo_engine"
    by (simp add: epoch_inv_def demo_engine_def new_engine_def default_config_def new_runtime_def profile_defs)
  have "length (en_streams demo_engine) = 1" by (simp add: demo_engine_def)
  moreover have "en_transmitEpochReady (openings [(0, 100, 7)] (new_transmit default_config 0) demo_engine)"
    by (simp add: transmit_opened_def Let_def demo_engine_def new_engine_def new_runtime_def default_config_def
        setTxActive_def on_stream_def on_block_def)
  ultimately show ?thesis
    using epoch_fixed_once [OF inv, of "[(0, 100, 7)]" "[(0, 900, 8)]"] by simp
qed

end
