(* ===== verification/Driver_IO.thy ===== *)
theory Driver_IO
  imports Receive_Path
begin

text \<open>
  The Core Audio side of the block: \<open>LXToolIOHandler\<close> of Sources/Driver/LXToolIOHandler.cpp, which fills the
  buffers applications record from and takes the mix they play; the device around it is in Driver_Device. A buffer
  of \<open>bytesCount\<close> bytes is the list of its floats; \<open>None\<close> is a null pointer. The outer \<open>option\<close> is undefined
  behaviour.
\<close>

section \<open>The code\<close>

definition kBytesPerFrame :: nat where "kBytesPerFrame = kVirtualChannels * 4"

definition kDriverFrames :: nat where "kDriverFrames = 4096"

fun driver_read_channels ::
    "nat list \<Rightarrow> f32 list \<Rightarrow> f32 list \<Rightarrow> bool \<Rightarrow> shared_block \<Rightarrow> (f32 list \<times> bool \<times> shared_block) option" where
  "driver_read_channels [] channel out underrun b = Some (out, underrun, b)"
| "driver_read_channels (ch # chs) channel out underrun b =
     (case rd (bk_networkToCoreAudio b) ch of
        None \<Rightarrow> None
      | Some ring \<Rightarrow>
          let (ring', channel1, taken) = ring_read ring channel;
              short = taken < length channel;
              channel2 = (if short then take taken channel1 @ replicate (length channel1 - taken) (Fin 0) else channel1);
              out' = snd (interleaveChannel channel2 ch kVirtualChannels out)
          in driver_read_channels chs channel2 out' (underrun \<or> short)
               (b\<lparr>bk_networkToCoreAudio := (bk_networkToCoreAudio b)[ch := ring']\<rparr>))"

definition on_read_client_input ::
    "shared_block option \<Rightarrow> f32 list option \<Rightarrow> nat \<Rightarrow> (f32 list option \<times> shared_block option) option" where
  "on_read_client_input bridge bytes bytesCount = (case bytes of
     None \<Rightarrow> Some (None, bridge)
   | Some out \<Rightarrow>
       let frameCount = bytesCount div kBytesPerFrame;
           silence = Some (Some (map (\<lambda>_. Fin 0) out), bridge)
       in if frameCount = 0 \<or> frameCount > kDriverFrames \<or> bytesCount mod kBytesPerFrame \<noteq> 0 then silence
          else (case bridge of
              None \<Rightarrow> silence
            | Some b \<Rightarrow>
                if \<not> bk_engineRunning b then silence
                else map_option (\<lambda>(out', underrun, b').
                       (Some out', Some (if underrun then count_one st_inputUnderruns_update b' else b')))
                     (driver_read_channels [0..<kVirtualChannels] (replicate frameCount (Fin 0)) out False b)))"

fun driver_write_channels ::
    "nat list \<Rightarrow> f32 list \<Rightarrow> f32 list \<Rightarrow> bool \<Rightarrow> shared_block \<Rightarrow> (bool \<times> shared_block) option" where
  "driver_write_channels [] frames channel overrun b = Some (overrun, b)"
| "driver_write_channels (ch # chs) frames channel overrun b =
     (let channel1 = snd (deinterleaveChannel frames ch kVirtualChannels channel)
      in case rd (bk_coreAudioToNetwork b) ch of
           None \<Rightarrow> None
         | Some ring \<Rightarrow>
             let (ring', written) = ring_write ring channel1
             in driver_write_channels chs frames channel1 (overrun \<or> written \<noteq> length channel1)
                  (b\<lparr>bk_coreAudioToNetwork := (bk_coreAudioToNetwork b)[ch := ring']\<rparr>))"

definition write_output ::
    "shared_block option \<Rightarrow> f32 list option \<Rightarrow> nat \<Rightarrow> nat \<Rightarrow> shared_block option option" where
  "write_output bridge frames frameCount channelCount =
     (case (frames, bridge) of
        (Some fs, Some b) \<Rightarrow>
          if \<not> bk_engineRunning b \<or> channelCount \<noteq> kVirtualChannels \<or> frameCount > kDriverFrames then Some bridge
          else if length fs < frameCount * kVirtualChannels then None
          else map_option (\<lambda>(overrun, b'). Some (if overrun then count_one st_ringOverruns_update b' else b'))
                 (driver_write_channels [0..<kVirtualChannels] (take (frameCount * kVirtualChannels) fs)
                   (replicate frameCount (Fin 0)) False b)
      | _ \<Rightarrow> Some bridge)"

definition on_write_mixed_output ::
    "shared_block option \<Rightarrow> f32 list option \<Rightarrow> nat \<Rightarrow> shared_block option option" where
  "on_write_mixed_output bridge bytes bytesCount =
     (if bytes = None \<or> bytesCount mod kBytesPerFrame \<noteq> 0 then Some bridge
      else write_output bridge bytes (bytesCount div kBytesPerFrame) kVirtualChannels)"

definition on_write_client_output ::
    "shared_block option \<Rightarrow> f32 list option \<Rightarrow> nat \<Rightarrow> nat \<Rightarrow> shared_block option option" where
  "on_write_client_output bridge frames frameCount channelCount = write_output bridge frames frameCount channelCount"

section \<open>Recording\<close>

text \<open>A queue's first \<open>n\<close> samples, with silence where there are fewer.\<close>

definition heard :: "nat \<Rightarrow> f32 list \<Rightarrow> f32 list" where
  "heard n q = take n q @ replicate (n - length q) (Fin 0)"

lemma whole_frames: "(m :: nat) = m div 256 * 256 \<longleftrightarrow> m mod 256 = 0"
  by (rule iffI) (use div_mult_mod_eq [of m 256] in linarith)+

text \<open>Buffers that are not served.\<close>

lemma frames_in_buffer:
  "bytesCount div kBytesPerFrame = bytesCount div 256" "bytesCount mod kBytesPerFrame = bytesCount mod 256"
  "kDriverFrames = 4096"
  by (simp_all add: kBytesPerFrame_def kDriverFrames_def profile_defs)

lemma driver_silences:
  assumes "\<not> (bk_engineRunning b \<and> 0 < bytesCount div 256 \<and> bytesCount div 256 \<le> 4096 \<and> bytesCount = bytesCount div 256 * 256)"
  shows "on_read_client_input (Some b) (Some out) bytesCount = Some (Some (map (\<lambda>_. Fin 0) out), Some b)"
  using assms unfolding whole_frames de_Morgan_conj
  by (elim disjE) (simp_all add: on_read_client_input_def frames_in_buffer Let_def)

lemma driver_drops:
  assumes "\<not> (bk_engineRunning b \<and> bytesCount div 256 \<le> 4096 \<and> bytesCount = bytesCount div 256 * 256)"
  shows "on_write_mixed_output (Some b) (Some frames) bytesCount = Some (Some b)"
  using assms unfolding whole_frames de_Morgan_conj
  by (elim disjE) (simp_all add: on_write_mixed_output_def write_output_def frames_in_buffer)

lemma length_heard [simp]: "length (heard n q) = n"
  by (simp add: heard_def)

lemma read_heard:
  assumes "ring_inv ring" "ring_read ring channel = (ring', channel1, taken)"
  shows "(if taken < length channel then take taken channel1 @ replicate (length channel1 - taken) (Fin 0) else channel1)
      = heard (length channel) (ring_queue ring)"
    "taken < length channel \<longleftrightarrow> length (ring_queue ring) < length channel"
    "ring_inv ring'" "ring_queue ring' = drop (length channel) (ring_queue ring)"
proof -
  have taken: "taken = min (length channel) (length (ring_queue ring))"
    using shared.deq_count [OF assms(1), of channel] assms(2) by simp
  have data: "channel1 = take taken (ring_queue ring) @ drop taken channel"
    using shared.deq_data [OF assms(1), of channel] assms(2) by simp
  show "(if taken < length channel then take taken channel1 @ replicate (length channel1 - taken) (Fin 0) else channel1)
      = heard (length channel) (ring_queue ring)" by (auto simp: heard_def data taken min_def)
  show "taken < length channel \<longleftrightarrow> length (ring_queue ring) < length channel" using taken by auto
  show "ring_inv ring'" using shared.deq_invar [OF assms(1), of channel] assms(2) by simp
  show "ring_queue ring' = drop (length channel) (ring_queue ring)"
    using shared.deq_queue [OF assms(1), of channel] assms(2) taken by (simp add: min_def)
qed

lemma interleave_all:
  assumes "length s * 64 = length d" "ch < 64" "cj < 64" "f < length s"
  shows "snd (interleaveChannel s ch kVirtualChannels d) ! (f * 64 + cj) = (if cj = ch then s ! f else d ! (f * 64 + cj))"
proof (cases "cj = ch")
  case True
  with interleave_nth_own [of ch 64 s d f] assms show ?thesis by (simp add: profile_defs)
next
  case False
  have "snd (interleaveChannel s ch 64 d) ! (f * 64 + cj) = d ! (f * 64 + cj)"
    using assms False by (intro interleave_nth_other) (auto simp: frame_index_eq_iff)
  with False show ?thesis by (simp add: profile_defs)
qed

lemma driver_read_effect:
  assumes "distinct chs" "\<forall>ch \<in> set chs. ch < 64" "rings_ok (bk_networkToCoreAudio b)" "length out = length channel * 64"
  shows "\<exists>out' underrun' rings. driver_read_channels chs channel out underrun b
        = Some (out', underrun', b\<lparr>bk_networkToCoreAudio := rings\<rparr>)
    \<and> length out' = length out \<and> rings_ok rings
    \<and> (underrun' \<longleftrightarrow> underrun \<or> (\<exists>ch \<in> set chs. length (net_queue b ch) < length channel))
    \<and> (\<forall>ch < 64. \<forall>f < length channel. out' ! (f * 64 + ch)
        = (if ch \<in> set chs then heard (length channel) (net_queue b ch) ! f else out ! (f * 64 + ch)))
    \<and> (\<forall>ch < 64. ring_queue (rings ! ch)
        = (if ch \<in> set chs then drop (length channel) (net_queue b ch) else net_queue b ch))"
  using assms
proof (induction chs arbitrary: channel out underrun b)
  case Nil
  then show ?case by - (rule exI [of _ out], rule exI [of _ underrun], rule exI [of _ "bk_networkToCoreAudio b"], simp)
next
  case (Cons ch chs)
  let ?ring = "bk_networkToCoreAudio b ! ch" and ?n = "length channel"
  obtain ring' channel1 taken where read: "ring_read ?ring channel = (ring', channel1, taken)"
    by (cases "ring_read ?ring channel") auto
  have ch: "ch < 64" "length (bk_networkToCoreAudio b) = 64" "ring_inv ?ring"
    using Cons.prems(2,3) by (simp_all add: rings_ok_def profile_defs)
  note r = read_heard [OF ch(3) read]
  define channel2 where "channel2 = heard ?n (ring_queue ?ring)"
  define out2 where "out2 = snd (interleaveChannel channel2 ch kVirtualChannels out)"
  let ?rings = "(bk_networkToCoreAudio b)[ch := ring']"
  let ?b2 = "b\<lparr>bk_networkToCoreAudio := ?rings\<rparr>"
  let ?u2 = "underrun \<or> length (ring_queue ?ring) < ?n"
  have step: "driver_read_channels (ch # chs) channel out underrun b = driver_read_channels chs channel2 out2 ?u2 ?b2"
    using ch r(1,2) by (simp add: rd_def Let_def read channel2_def out2_def cong: if_cong)
  have len: "length channel2 = ?n" "length out2 = length out" by (simp_all add: channel2_def out2_def)
  have pre: "distinct chs" "\<forall>ch \<in> set chs. ch < 64" "rings_ok (bk_networkToCoreAudio ?b2)" "length out2 = length channel2 * 64"
    using Cons.prems r(3) len by (simp_all add: rings_ok_update)
  have out2: "out2 ! (f * 64 + cj) = (if cj = ch then channel2 ! f else out ! (f * 64 + cj))" if "cj < 64" "f < ?n" for cj f
    unfolding out2_def using that ch(1) Cons.prems(4) len by (intro interleave_all) simp_all
  have q: "net_queue ?b2 cj = (if cj = ch then drop ?n (ring_queue ?ring) else net_queue b cj)" for cj
    using ch r(4) by (simp add: nth_list_update)
  obtain out' underrun' rings where ih: "driver_read_channels chs channel2 out2 ?u2 ?b2
        = Some (out', underrun', ?b2\<lparr>bk_networkToCoreAudio := rings\<rparr>)"
    "length out' = length out2" "rings_ok rings"
    "underrun' \<longleftrightarrow> ?u2 \<or> (\<exists>ch \<in> set chs. length (net_queue ?b2 ch) < length channel2)"
    "\<forall>ch < 64. \<forall>f < length channel2. out' ! (f * 64 + ch)
        = (if ch \<in> set chs then heard (length channel2) (net_queue ?b2 ch) ! f else out2 ! (f * 64 + ch))"
    "\<forall>ch < 64. ring_queue (rings ! ch)
        = (if ch \<in> set chs then drop (length channel2) (net_queue ?b2 ch) else net_queue ?b2 ch)"
    using Cons.IH [OF pre, of ?u2] by (elim exE conjE) blast
  have "ch \<notin> set chs" using Cons.prems(1) by simp
  moreover from this have "(\<exists>c \<in> set chs. length (net_queue ?b2 c) < ?n) \<longleftrightarrow> (\<exists>c \<in> set chs. length (net_queue b c) < ?n)"
    using q by (intro bex_cong) auto
  ultimately show ?case
    using ih(1-4) ih(5,6) out2 q len
    by - (rule exI [of _ out'], rule exI [of _ underrun'], rule exI [of _ rings], simp only: step, auto simp: channel2_def)
qed

lemma driver_records_running:
  assumes "rings_ok (bk_networkToCoreAudio b)" "length out = n * 64" "bk_engineRunning b" "0 < n" "n \<le> 4096"
  shows "\<exists>out' b'. on_read_client_input (Some b) (Some out) (n * 256) = Some (Some out', Some b')
      \<and> length out' = length out
      \<and> (\<forall>ch < 64. \<forall>f < n. out' ! (f * 64 + ch) = heard n (net_queue b ch) ! f)
      \<and> rings_ok (bk_networkToCoreAudio b') \<and> (\<forall>ch < 64. net_queue b' ch = drop n (net_queue b ch))
      \<and> bk_statistics b' = (if \<exists>ch < 64. length (net_queue b ch) < n
          then (bk_statistics b)\<lparr>st_inputUnderruns := st_inputUnderruns (bk_statistics b) + 1\<rparr> else bk_statistics b)
      \<and> bk_coreAudioToNetwork b' = bk_coreAudioToNetwork b"
proof -
  let ?channel = "replicate n (Fin 0) :: f32 list"
  have len: "length out = length ?channel * 64" using assms(2-) by simp
  obtain out' underrun rings where run: "driver_read_channels [0..<64] ?channel out False b
        = Some (out', underrun, b\<lparr>bk_networkToCoreAudio := rings\<rparr>)"
    and out': "length out' = length out" "rings_ok rings"
    "underrun \<longleftrightarrow> False \<or> (\<exists>ch \<in> set [0..<64]. length (net_queue b ch) < length ?channel)"
    "\<forall>ch < 64. \<forall>f < length ?channel. out' ! (f * 64 + ch)
        = (if ch \<in> set [0..<64] then heard (length ?channel) (net_queue b ch) ! f else out ! (f * 64 + ch))"
    "\<forall>ch < 64. ring_queue (rings ! ch)
        = (if ch \<in> set [0..<64] then drop (length ?channel) (net_queue b ch) else net_queue b ch)"
    using driver_read_effect [OF _ _ assms(1) len, of "[0..<64]" False] by auto
  let ?b1 = "b\<lparr>bk_networkToCoreAudio := rings\<rparr>"
  let ?b' = "if underrun then count_one st_inputUnderruns_update ?b1 else ?b1"
  have "on_read_client_input (Some b) (Some out) (n * 256) = Some (Some out', Some ?b')"
    using assms(2-) run by (simp add: on_read_client_input_def kBytesPerFrame_def kDriverFrames_def profile_defs Let_def)
  moreover have "underrun \<longleftrightarrow> (\<exists>ch < 64. length (net_queue b ch) < n)" using out'(3) by auto
  ultimately show ?thesis
    using out'(1,2,4,5) by (simp add: count_one_def)
qed



section \<open>Playing out\<close>

abbreviation core_ring :: "shared_block \<Rightarrow> nat \<Rightarrow> f32 list" where
  "core_ring b ch \<equiv> ring_queue (bk_coreAudioToNetwork b ! ch)"

definition frame_channel :: "f32 list \<Rightarrow> nat \<Rightarrow> nat \<Rightarrow> f32 list" where
  "frame_channel frames n ch = map (\<lambda>f. frames ! (f * 64 + ch)) [0..<n]"

lemma driver_write_effect:
  assumes "distinct chs" "\<forall>ch \<in> set chs. ch < 64" "rings_ok (bk_coreAudioToNetwork b)" "length frames = length channel * 64"
  shows "\<exists>overrun' rings. driver_write_channels chs frames channel overrun b
        = Some (overrun', b\<lparr>bk_coreAudioToNetwork := rings\<rparr>) \<and> rings_ok rings
    \<and> (overrun' \<longleftrightarrow> overrun \<or> (\<exists>ch \<in> set chs. kSharedRingCapacity - length (core_ring b ch) < length channel))
    \<and> (\<forall>ch < 64. ring_queue (rings ! ch) = (if ch \<in> set chs
        then core_ring b ch @ take (kSharedRingCapacity - length (core_ring b ch)) (frame_channel frames (length channel) ch)
        else core_ring b ch))"
  using assms
proof (induction chs arbitrary: channel overrun b)
  case Nil
  then show ?case by - (rule exI [of _ overrun], rule exI [of _ "bk_coreAudioToNetwork b"], simp)
next
  case (Cons ch chs)
  let ?ring = "bk_coreAudioToNetwork b ! ch" and ?n = "length channel"
  define channel1 where "channel1 = frame_channel frames ?n ch"
  obtain ring' written where wr: "ring_write ?ring channel1 = (ring', written)" by fastforce
  have ch: "ch < 64" "length (bk_coreAudioToNetwork b) = 64" "ring_inv ?ring"
    using Cons.prems(2,3) by (simp_all add: rings_ok_def profile_defs)
  have deint: "snd (deinterleaveChannel frames ch kVirtualChannels channel) = channel1"
    using ch(1) Cons.prems(4) by (simp add: deinterleave_eq profile_defs channel1_def frame_channel_def)
  have len: "length channel1 = ?n" by (simp add: channel1_def frame_channel_def)
  have w: "written = min ?n (kSharedRingCapacity - length (ring_queue ?ring))" "ring_inv ring'"
    "ring_queue ring' = ring_queue ?ring @ take written channel1"
    using shared.enq_count [OF ch(3), of channel1] shared.enq_invar [OF ch(3), of channel1]
      shared.enq_queue [OF ch(3), of channel1] wr len by simp_all
  have queue: "ring_queue ring' = ring_queue ?ring @ take (kSharedRingCapacity - length (ring_queue ?ring)) channel1"
    using w(1,3) len by (simp add: min_def)
  let ?rings = "(bk_coreAudioToNetwork b)[ch := ring']"
  let ?b2 = "b\<lparr>bk_coreAudioToNetwork := ?rings\<rparr>"
  let ?o2 = "overrun \<or> kSharedRingCapacity - length (ring_queue ?ring) < ?n"
  have step: "driver_write_channels (ch # chs) frames channel overrun b = driver_write_channels chs frames channel1 ?o2 ?b2"
    using ch w(1) len by (simp add: rd_def Let_def deint wr min_def)
  have pre: "distinct chs" "\<forall>ch \<in> set chs. ch < 64" "rings_ok (bk_coreAudioToNetwork ?b2)" "length frames = length channel1 * 64"
    using Cons.prems w(2) len by (simp_all add: rings_ok_update)
  have q: "core_ring ?b2 cj = (if cj = ch then ring_queue ring' else core_ring b cj)" for cj
    using ch by (simp add: nth_list_update)
  obtain overrun' rings where ih: "driver_write_channels chs frames channel1 ?o2 ?b2
        = Some (overrun', ?b2\<lparr>bk_coreAudioToNetwork := rings\<rparr>)" "rings_ok rings"
    "overrun' \<longleftrightarrow> ?o2 \<or> (\<exists>ch \<in> set chs. kSharedRingCapacity - length (core_ring ?b2 ch) < length channel1)"
    "\<forall>ch < 64. ring_queue (rings ! ch) = (if ch \<in> set chs
        then core_ring ?b2 ch @ take (kSharedRingCapacity - length (core_ring ?b2 ch)) (frame_channel frames (length channel1) ch)
        else core_ring ?b2 ch)"
    using Cons.IH [OF pre, of ?o2] by (elim exE conjE) blast
  have "ch \<notin> set chs" using Cons.prems(1) by simp
  moreover from this have "(\<exists>c \<in> set chs. kSharedRingCapacity - length (core_ring ?b2 c) < ?n)
      \<longleftrightarrow> (\<exists>c \<in> set chs. kSharedRingCapacity - length (core_ring b c) < ?n)"
    using q by (intro bex_cong) auto
  ultimately show ?case
    using ih q len queue
    by - (rule exI [of _ overrun'], rule exI [of _ rings], simp only: step, auto simp: channel1_def)
qed

lemma driver_plays_running:
  assumes "rings_ok (bk_coreAudioToNetwork b)" "length frames = n * 64" "bk_engineRunning b" "n \<le> 4096"
  shows "\<exists>b'. on_write_mixed_output (Some b) (Some frames) (n * 256) = Some (Some b')
      \<and> rings_ok (bk_coreAudioToNetwork b')
      \<and> (\<forall>ch < 64. core_ring b' ch = core_ring b ch
            @ take (kSharedRingCapacity - length (core_ring b ch)) (frame_channel frames n ch))
      \<and> (\<exists>rings overruns. b' = b\<lparr>bk_coreAudioToNetwork := rings, bk_statistics :=
            (bk_statistics b)\<lparr>st_ringOverruns := overruns\<rparr>\<rparr>
          \<and> overruns = st_ringOverruns (bk_statistics b)
              + (if \<exists>ch < 64. kSharedRingCapacity - length (core_ring b ch) < n then 1 else 0))"
proof -
  let ?channel = "replicate n (Fin 0) :: f32 list"
  have len: "length frames = length ?channel * 64" using assms(2-) by simp
  obtain overrun rings where run: "driver_write_channels [0..<64] frames ?channel False b
        = Some (overrun, b\<lparr>bk_coreAudioToNetwork := rings\<rparr>)" and rings: "rings_ok rings"
    "overrun \<longleftrightarrow> False \<or> (\<exists>ch \<in> set [0..<64]. kSharedRingCapacity - length (core_ring b ch) < length ?channel)"
    "\<forall>ch < 64. ring_queue (rings ! ch) = (if ch \<in> set [0..<64]
        then core_ring b ch @ take (kSharedRingCapacity - length (core_ring b ch)) (frame_channel frames (length ?channel) ch)
        else core_ring b ch)"
    using driver_write_effect [OF _ _ assms(1) len, of "[0..<64]" False] by auto
  let ?b1 = "b\<lparr>bk_coreAudioToNetwork := rings\<rparr>"
  let ?b' = "if overrun then count_one st_ringOverruns_update ?b1 else ?b1"
  have "on_write_mixed_output (Some b) (Some frames) (n * 256) = Some (Some ?b')"
    using assms(2-) run len
    by (simp add: on_write_mixed_output_def write_output_def kBytesPerFrame_def kDriverFrames_def profile_defs)
  moreover have "overrun \<longleftrightarrow> (\<exists>ch < 64. kSharedRingCapacity - length (core_ring b ch) < n)" using rings(2) by auto
  moreover have "\<exists>rings overruns. ?b' = b\<lparr>bk_coreAudioToNetwork := rings, bk_statistics :=
      (bk_statistics b)\<lparr>st_ringOverruns := overruns\<rparr>\<rparr> \<and> overruns = st_ringOverruns (bk_statistics b) + (if overrun then 1 else 0)"
    by (intro exI [of _ rings] exI [of _ "st_ringOverruns (bk_statistics b) + (if overrun then 1 else 0)"])
      (simp add: count_one_def)
  ultimately show ?thesis
    using rings(1,3) by (simp only:) (simp add: count_one_def)
qed

text \<open>The driver's output handler appends to every channel's ring that channel's samples of the mix, as
  many as fit, and counts an overrun once if they did not all fit; a mix that is not whole frames, too
  long, or comes while no engine runs is dropped without a trace.\<close>

theorem driver_plays:
  assumes "rings_ok (bk_coreAudioToNetwork b)" "length frames = bytesCount div 4"
  defines "n \<equiv> bytesCount div 256"
  shows "if bk_engineRunning b \<and> n \<le> 4096 \<and> bytesCount = n * 256
    then \<exists>b'. on_write_mixed_output (Some b) (Some frames) bytesCount = Some (Some b')
      \<and> rings_ok (bk_coreAudioToNetwork b')
      \<and> (\<forall>ch < 64. core_ring b' ch = core_ring b ch
            @ take (kSharedRingCapacity - length (core_ring b ch)) (frame_channel frames n ch))
      \<and> (\<exists>rings overruns. b' = b\<lparr>bk_coreAudioToNetwork := rings, bk_statistics :=
            (bk_statistics b)\<lparr>st_ringOverruns := overruns\<rparr>\<rparr>
          \<and> overruns = st_ringOverruns (bk_statistics b)
              + (if \<exists>ch < 64. kSharedRingCapacity - length (core_ring b ch) < n then 1 else 0))
    else on_write_mixed_output (Some b) (Some frames) bytesCount = Some (Some b)"
proof (cases "bk_engineRunning b \<and> n \<le> 4096 \<and> bytesCount = n * 256")
  case True
  have "bytesCount = n * 256" "length frames = n * 64" using True assms(2) by simp_all
  with driver_plays_running [OF assms(1), of frames n] True show ?thesis by simp
next
  case False
  then have "on_write_mixed_output (Some b) (Some frames) bytesCount = Some (Some b)"
    unfolding n_def by (rule driver_drops)
  then show ?thesis unfolding if_not_P [OF False] .
qed

theorem driver_plays_witness:
  "\<exists>b'. on_write_mixed_output (Some (new_block\<lparr>bk_engineRunning := True\<rparr>)) (Some (replicate 128 (Fin 1))) 512
    = Some (Some b') \<and> core_ring b' 5 = [Fin 1, Fin 1]"
proof -
  let ?b = "new_block\<lparr>bk_engineRunning := True\<rparr>"
  have rings: "rings_ok (bk_coreAudioToNetwork ?b)" by (simp add: new_block_def rings_ok_def new_ring_inv)
  have "core_ring ?b 5 = []" by (simp add: new_block_def new_ring_queue profile_defs)
  moreover have "frame_channel (replicate 128 (Fin 1)) 2 5 = [Fin 1, Fin 1]" by (simp add: frame_channel_def upt_rec)
  ultimately show ?thesis
    using driver_plays [OF rings, of "replicate 128 (Fin 1)" 512] by (force simp: new_block_def kSharedRingCapacity_def)
qed

end
