(* ===== verification/Audio_Path.thy ===== *)
theory Audio_Path
  imports Transmit_Path Driver_IO
begin

text \<open>
  The whole way of a sound: from the mix that applications on one computer play, through the driver, the
  transmitting engine, the network, the receiving engine and its driver, into the buffer that
  applications on another computer record.
\<close>

section \<open>From Core Audio to Core Audio\<close>

lemma silent_mix:
  assumes "\<forall>ch < unat (lc_channelsPerStream c). core_ring b (virtualChannel c bank ch) = frame_channel frames 48 (virtualChannel c bank ch)"
    and "\<forall>ch < unat (lc_channelsPerStream c). \<forall>f < 48. frames ! (f * 64 + virtualChannel c bank ch) \<noteq> NaN"
  shows "silent_nan b c bank"
  using assms by (auto simp: silent_nan_def frame_channel_def) (metis)

lemma padded_full: "length q = 48 \<Longrightarrow> padded q = q"
  by (simp add: padded_def profile_defs)

lemma heard_full: "length q = n \<Longrightarrow> heard n q = q"
  by (simp add: heard_def)


definition playing_engine :: live_engine where
  "playing_engine = demo_engine\<lparr>en_block := new_block\<lparr>bk_engineRunning := True\<rparr>\<rparr>"

lemma playing_select:
  "en_config playing_engine = default_config" "en_streams playing_engine = [new_runtime 6]"
  "bk_engineRunning (en_block playing_engine)" "bk_ptpLocked (en_block playing_engine) = False"
  "en_transmitEpoch playing_engine = 0" "en_transmitSystemEpochNanoseconds playing_engine = 0"
  by (simp_all add: playing_engine_def demo_engine_def new_engine_def new_block_def)

lemma playing_wf: "engine_wf playing_engine"
  using demo_wf by (simp add: playing_engine_def demo_engine_def new_engine_def new_block_def engine_wf_def activity_inv_def)

lemma playing_idle:
  assumes "ch < unat (lc_channelsPerStream default_config)"
  shows "core_ring (en_block playing_engine) (virtualChannel default_config 0 ch) = []"
    "net_queue (en_block playing_engine) (virtualChannel default_config 0 ch) = []"
proof -
  have "virtualChannel default_config 0 ch < 64"
    using virtualChannel_in [of default_config 0 ch] playing_wf assms by (simp add: engine_wf_def playing_select)
  then show "core_ring (en_block playing_engine) (virtualChannel default_config 0 ch) = []"
    "net_queue (en_block playing_engine) (virtualChannel default_config 0 ch) = []"
    by (simp_all add: playing_engine_def new_block_def new_ring_queue profile_defs)
qed


end
