(* ===== verification/Handle_Interface.thy ===== *)
theory Handle_Interface
  imports Prelude "HOL-Library.Multiset"
begin

text \<open>
  What the classes that own operating system objects (descriptors, mappings, sockets) promise: every
  operation releases only what is held and keeps account of what it acquires. The operating system is
  the list of calls an operation makes; what the calls return is an argument of the operation.
\<close>

text \<open>The values the code stores in \<open>lastError_\<close>: \<open>errno\<close> or \<open>GetLastError\<close>, or a constant of the
  platform's headers.\<close>

datatype os_error = Errno int | EINVAL | EPROTO | EBADF | ERROR_ALREADY_EXISTS | ERROR_REVISION_MISMATCH

section \<open>Traces of system calls\<close>

fun balance ::
    "('c \<Rightarrow> 'h option) \<Rightarrow> ('c \<Rightarrow> 'h option) \<Rightarrow> 'c list \<Rightarrow> 'h multiset \<Rightarrow> 'h multiset option" where
  "balance acquired released [] H = Some H"
| "balance acquired released (c # cs) H = (case released c of
     Some h \<Rightarrow> if h \<in># H then balance acquired released cs (H - {#h#}) else None
   | None \<Rightarrow> (case acquired c of
         Some h \<Rightarrow> balance acquired released cs (add_mset h H)
       | None \<Rightarrow> balance acquired released cs H))"

lemma balance_append [simp]:
  "balance acquired released (cs @ ds) H
     = Option.bind (balance acquired released cs H) (balance acquired released ds)"
  by (induction cs arbitrary: H) (auto split: option.splits)

fun run_operations :: "('op \<Rightarrow> 's \<Rightarrow> 's \<times> 'c list) \<Rightarrow> 'op list \<Rightarrow> 's \<Rightarrow> 's \<times> 'c list" where
  "run_operations step [] s = (s, [])"
| "run_operations step (op # ops) s =
     (case step op s of (s1, cs) \<Rightarrow> case run_operations step ops s1 of (s2, ds) \<Rightarrow> (s2, cs @ ds))"

lemma run_operations_append:
  "run_operations step (ops1 @ ops2) s =
     (case run_operations step ops1 s of (s1, cs) \<Rightarrow>
        case run_operations step ops2 s1 of (s2, ds) \<Rightarrow> (s2, cs @ ds))"
  by (induction ops1 arbitrary: s) (auto split: prod.splits)

section \<open>The contract\<close>

text \<open>\<open>shut\<close> is the operation the destructor performs.\<close>

locale handle_owner =
  fixes acquired :: "'c \<Rightarrow> 'h option"
    and released :: "'c \<Rightarrow> 'h option"
    and held :: "'s \<Rightarrow> 'h multiset"
    and step :: "'op \<Rightarrow> 's \<Rightarrow> 's \<times> 'c list"
    and fresh :: 's
    and shut :: 'op
  assumes step_balance: "step op s = (s', cs) \<Longrightarrow> balance acquired released cs (held s) = Some (held s')"
    and fresh_held: "held fresh = {#}"
    and shut_held: "held (fst (step shut s)) = {#}"
begin

lemma run_balance:
  "balance acquired released (snd (run_operations step ops s)) (held s)
     = Some (held (fst (run_operations step ops s)))"
proof (induction ops arbitrary: s)
  case (Cons op ops)
  obtain s1 cs where step: "step op s = (s1, cs)" by fastforce
  show ?case using step_balance [OF step] Cons [of s1]
    by (cases "run_operations step ops s1") (simp add: step)
qed simp

lemma no_leak:
  "balance acquired released (snd (run_operations step (ops @ [shut]) fresh)) {#} = Some {#}"
proof -
  obtain s1 cs where run: "run_operations step ops fresh = (s1, cs)" by fastforce
  obtain s2 ds where last: "step shut s1 = (s2, ds)" by fastforce
  have "held (fst (run_operations step (ops @ [shut]) fresh)) = {#}"
    using shut_held [of s1] by (simp add: run_operations_append run last)
  then show ?thesis using run_balance [of "ops @ [shut]" fresh] fresh_held by simp
qed

end

end
