(* ===== verification/Shared_Memory.thy ===== *)
theory Shared_Memory
  imports Engine_State Handle_Interface
begin

text \<open>
  \<open>SharedAudioMemory\<close>: Sources/Core/SharedAudioMemory.cpp (POSIX) and
  Sources/Platform/Windows/WindowsSharedAudioMemory.cpp, with the driver's opening sequence of
  Sources/Driver/LXToolDevice.cpp. What the operating system answers is an argument; the calls that are
  made are part of the result. What another process left in the file is arbitrary.
\<close>

section \<open>The layout of the block\<close>

record shared_layout =
  ly_magic :: u32
  ly_version :: u32
  ly_channels :: u32
  ly_channelsPerStream :: u32
  ly_streamBankCount :: u32
  ly_sampleRate :: u32

definition kSharedMagic :: u32 where "kSharedMagic = 0x41455342"
definition kSharedVersion :: u32 where "kSharedVersion = 3"

definition new_layout :: shared_layout where
  "new_layout = \<lparr> ly_magic = kSharedMagic, ly_version = kSharedVersion, ly_channels = of_nat kVirtualChannels,
     ly_channelsPerStream = of_nat kAES67ChannelsPerStream, ly_streamBankCount = of_nat kStreamBankCount,
     ly_sampleRate = kSampleRate \<rparr>"

definition valid_layout :: "shared_layout \<Rightarrow> bool" where
  "valid_layout l \<longleftrightarrow> ly_magic l = kSharedMagic \<and> ly_version l = kSharedVersion
     \<and> ly_channels l = of_nat kVirtualChannels \<and> ly_channelsPerStream l = of_nat kAES67ChannelsPerStream
     \<and> ly_streamBankCount l = of_nat kStreamBankCount \<and> ly_sampleRate l = kSampleRate"

lemma valid_layout_iff: "valid_layout l \<longleftrightarrow> l = new_layout"
  by (auto simp: valid_layout_def new_layout_def)

text \<open>The memory as it is mapped.\<close>

type_synonym mapped = "shared_layout \<times> shared_block"

definition placed :: "bool \<Rightarrow> bool \<Rightarrow> mapped \<Rightarrow> mapped" where
  "placed createOwner existingLayout mem =
     (let validLayout = existingLayout \<and> valid_layout (fst mem)
      in if createOwner \<and> \<not> validLayout then (new_layout, new_block) else mem)"

section \<open>POSIX\<close>

record shared_memory =
  sm_descriptor :: int
  sm_block :: "mapped option"
  sm_lastError :: os_error

definition new_memory :: shared_memory where
  "new_memory = \<lparr> sm_descriptor = - 1, sm_block = None, sm_lastError = Errno 0 \<rparr>"

datatype memory_call =
    Sys_open bool int
  | Sys_fstat
  | Sys_flock bool
  | Sys_unlock
  | Sys_fchmod
  | Sys_ftruncate
  | Sys_mmap bool
  | Construct
  | Sys_munmap
  | Sys_close int

record memory_answers =
  ma_open :: int
  ma_fstat :: bool
  ma_size :: int
  ma_mode :: u32
  ma_flock :: bool
  ma_fchmod :: bool
  ma_ftruncate :: bool
  ma_mmap :: "mapped option"
  ma_errno :: int

definition memory_close :: "shared_memory \<Rightarrow> shared_memory \<times> memory_call list" where
  "memory_close m = (m\<lparr>sm_block := None, sm_descriptor := - 1\<rparr>,
     (if sm_block m \<noteq> None then [Sys_munmap] else [])
     @ (if sm_descriptor m \<ge> 0 then [Sys_close (sm_descriptor m)] else []))"

definition memory_failed ::
    "os_error \<Rightarrow> shared_memory \<Rightarrow> memory_call list \<Rightarrow> bool \<times> shared_memory \<times> memory_call list" where
  "memory_failed err m cs = (case memory_close (m\<lparr>sm_lastError := err\<rparr>) of (m', ds) \<Rightarrow> (False, m', cs @ ds))"

text \<open>The condition on line 31: whether the set-up failed, and the calls made until then.\<close>

definition owner_setup :: "bool \<Rightarrow> bool \<Rightarrow> memory_answers \<Rightarrow> bool \<times> memory_call list" where
  "owner_setup existingLayout permissionsAreShared a =
     (if \<not> ma_flock a then (True, [Sys_flock False])
      else let chmod = (if permissionsAreShared then [] else [Sys_fchmod])
        in if \<not> permissionsAreShared \<and> \<not> ma_fchmod a then (True, Sys_flock True # chmod)
           else if existingLayout then (False, Sys_flock True # chmod)
           else (\<not> ma_ftruncate a, Sys_flock True # chmod @ [Sys_ftruncate]))"

text \<open>\<open>block_bytes\<close> is \<open>sizeof(SharedAudioBlock)\<close>.\<close>

definition memory_open ::
    "int \<Rightarrow> bool \<Rightarrow> memory_answers \<Rightarrow> shared_memory \<Rightarrow> bool \<times> shared_memory \<times> memory_call list" where
  "memory_open block_bytes createOwner a m =
     (let (m0, c0) = memory_close m;
          m1 = m0\<lparr>sm_lastError := Errno 0, sm_descriptor := ma_open a\<rparr>;
          c1 = c0 @ [Sys_open createOwner (ma_open a)];
          c2 = c1 @ [Sys_fstat];
          existingLayout = (ma_size a = block_bytes);
          permissionsAreShared = (ma_mode a AND 511 = 438);
          (setup_failed, prepared) = (if createOwner then owner_setup existingLayout permissionsAreShared a else (False, []));
          c3 = c2 @ prepared;
          c4 = c3 @ [Sys_mmap (ma_mmap a \<noteq> None)]
      in if ma_open a < 0 then (False, m1\<lparr>sm_lastError := Errno (ma_errno a)\<rparr>, c1)
         else if \<not> ma_fstat a then memory_failed (Errno (ma_errno a)) m1 c2
         else if setup_failed then memory_failed (Errno (ma_errno a)) m1 c3
         else if \<not> createOwner \<and> \<not> existingLayout
         then memory_failed (if ma_errno a \<noteq> 0 then Errno (ma_errno a) else EINVAL) m1 c3
         else (case ma_mmap a of
             None \<Rightarrow> memory_failed (Errno (ma_errno a)) m1 c4
           | Some mem \<Rightarrow>
               let mem' = placed createOwner existingLayout mem;
                   m2 = m1\<lparr>sm_block := Some mem'\<rparr>;
                   c5 = c4 @ (if createOwner \<and> \<not> (existingLayout \<and> valid_layout (fst mem)) then [Construct] else [])
               in if \<not> valid_layout (fst mem') then memory_failed EPROTO m2 c5
                  else (True, m2, c5)))"

text \<open>The probe \<open>ownerActive\<close>: \<open>would_block\<close> is whether \<open>errno\<close> is \<open>EWOULDBLOCK\<close> or \<open>EAGAIN\<close>.\<close>

definition memory_ownerActive :: "int \<Rightarrow> bool \<Rightarrow> bool \<Rightarrow> bool \<times> memory_call list" where
  "memory_ownerActive descriptor locked would_block =
     (if descriptor < 0 then (False, [Sys_open False descriptor])
      else let active = (\<not> locked \<and> would_block)
        in (active, [Sys_open False descriptor, Sys_flock locked] @ (if active then [] else [Sys_unlock])
              @ [Sys_close descriptor]))"

definition memory_remove :: "bool \<Rightarrow> bool \<Rightarrow> bool" where
  "memory_remove unlinked no_entry \<longleftrightarrow> unlinked \<or> no_entry"

text \<open>\<open>openDriverSharedMemory\<close>: the initializer is destroyed, and so closed, on return.\<close>

definition driver_open_memory ::
    "int \<Rightarrow> memory_answers \<Rightarrow> memory_answers \<Rightarrow> memory_answers \<Rightarrow> shared_memory
      \<Rightarrow> bool \<times> shared_memory \<times> memory_call list" where
  "driver_open_memory block_bytes a1 a2 a3 m =
     (case memory_open block_bytes False a1 m of
        (True, m1, c1) \<Rightarrow> (True, m1, c1)
      | (False, m1, c1) \<Rightarrow>
          (case memory_open block_bytes True a2 new_memory of
             (False, i, c2) \<Rightarrow> (False, m1, c1 @ c2 @ snd (memory_close i))
           | (True, i, c2) \<Rightarrow>
               (case memory_open block_bytes False a3 m1 of
                  (ok, m2, c3) \<Rightarrow> (ok, m2, c1 @ c2 @ c3 @ snd (memory_close i)))))"

section \<open>Windows\<close>

record windows_memory =
  wm_mapping :: "int option"
  wm_semaphore :: "int option"
  wm_block :: "mapped option"
  wm_lastError :: os_error

definition new_windows_memory :: windows_memory where
  "new_windows_memory = \<lparr> wm_mapping = None, wm_semaphore = None, wm_block = None, wm_lastError = Errno 0 \<rparr>"

datatype wait_result = Wait_object_0 | Wait_timeout | Wait_failed

datatype windows_call =
    Create_semaphore "int option"
  | Open_semaphore "int option"
  | Wait_semaphore wait_result
  | Release_semaphore
  | Close_semaphore int
  | Create_mapping "int option"
  | Open_mapping "int option"
  | Map_view bool
  | Construct_view
  | Unmap_view
  | Close_mapping int

record windows_answers =
  wa_semaphore :: "int option"
  wa_wait :: wait_result
  wa_mapping :: "int option"
  wa_already_exists :: bool
  wa_view :: "mapped option"
  wa_error :: int

definition windows_close :: "windows_memory \<Rightarrow> windows_memory \<times> windows_call list" where
  "windows_close m = (m\<lparr>wm_block := None, wm_mapping := None, wm_semaphore := None\<rparr>,
     (if wm_block m \<noteq> None then [Unmap_view] else [])
     @ (case wm_mapping m of Some h \<Rightarrow> [Close_mapping h] | None \<Rightarrow> [])
     @ (case wm_semaphore m of Some h \<Rightarrow> [Release_semaphore, Close_semaphore h] | None \<Rightarrow> []))"

definition windows_failed ::
    "os_error \<Rightarrow> windows_memory \<Rightarrow> windows_call list \<Rightarrow> bool \<times> windows_memory \<times> windows_call list" where
  "windows_failed err m cs = (case windows_close (m\<lparr>wm_lastError := err\<rparr>) of (m', ds) \<Rightarrow> (False, m', cs @ ds))"

text \<open>From line 113 on: the mapping has been created or opened.\<close>

definition windows_map ::
    "bool \<Rightarrow> bool \<Rightarrow> windows_answers \<Rightarrow> windows_memory \<Rightarrow> windows_call list
      \<Rightarrow> bool \<times> windows_memory \<times> windows_call list" where
  "windows_map createOwner existingLayout a m cs =
     (case wa_mapping a of
        None \<Rightarrow> windows_failed (Errno (wa_error a)) m cs
      | Some mapping \<Rightarrow>
          let m1 = m\<lparr>wm_mapping := Some mapping\<rparr>;
              c1 = cs @ [Map_view (wa_view a \<noteq> None)]
          in case wa_view a of
               None \<Rightarrow> windows_failed (Errno (wa_error a)) m1 c1
             | Some mem \<Rightarrow>
                 let mem' = placed createOwner existingLayout mem;
                     m2 = m1\<lparr>wm_block := Some mem'\<rparr>;
                     c2 = c1 @ (if createOwner \<and> \<not> (existingLayout \<and> valid_layout (fst mem)) then [Construct_view] else [])
                 in if \<not> valid_layout (fst mem') then windows_failed ERROR_REVISION_MISMATCH m2 c2
                    else (True, m2, c2))"

definition windows_open ::
    "bool \<Rightarrow> windows_answers \<Rightarrow> windows_memory \<Rightarrow> bool \<times> windows_memory \<times> windows_call list" where
  "windows_open createOwner a m =
     (let (m0, c0) = windows_close m;
          m1 = m0\<lparr>wm_lastError := Errno 0\<rparr>
      in if createOwner
         then let c1 = c0 @ [Create_semaphore (wa_semaphore a)]
           in case wa_semaphore a of
                None \<Rightarrow> (False, m1\<lparr>wm_lastError := Errno (wa_error a)\<rparr>, c1)
              | Some semaphore \<Rightarrow>
                  let c2 = c1 @ [Wait_semaphore (wa_wait a)]
                  in if wa_wait a \<noteq> Wait_object_0
                     then (False, m1\<lparr>wm_lastError :=
                         (if wa_wait a = Wait_timeout then ERROR_ALREADY_EXISTS else Errno (wa_error a))\<rparr>,
                       c2 @ [Close_semaphore semaphore])
                     else windows_map True (wa_mapping a \<noteq> None \<and> wa_already_exists a) a
                            (m1\<lparr>wm_semaphore := Some semaphore\<rparr>) (c2 @ [Create_mapping (wa_mapping a)])
         else windows_map False (wa_mapping a \<noteq> None) a m1 (c0 @ [Open_mapping (wa_mapping a)]))"

definition windows_ownerActive :: "int option \<Rightarrow> wait_result \<Rightarrow> bool \<times> windows_call list" where
  "windows_ownerActive semaphore ownership = (case semaphore of
     None \<Rightarrow> (False, [Open_semaphore None])
   | Some h \<Rightarrow> (ownership = Wait_timeout, [Open_semaphore (Some h), Wait_semaphore ownership]
       @ (if ownership = Wait_object_0 then [Release_semaphore] else []) @ [Close_semaphore h]))"

section \<open>What opening yields\<close>

lemma placed_valid:
  "valid_layout (fst (placed owner existing mem)) \<longleftrightarrow> owner \<or> fst mem = new_layout"
  "valid_layout (fst (placed owner existing mem)) \<Longrightarrow> placed owner existing mem
     = (new_layout, if (owner \<longrightarrow> existing) \<and> fst mem = new_layout then snd mem else new_block)"
  by (auto simp: placed_def valid_layout_iff prod_eq_iff)

lemma memory_close_select [simp]:
  "sm_block (fst (memory_close m)) = None" "sm_descriptor (fst (memory_close m)) = - 1"
  "sm_lastError (fst (memory_close m)) = sm_lastError m"
  by (simp_all add: memory_close_def)

lemma memory_failed_closed:
  "memory_failed err m cs = (ok, m', cs') \<Longrightarrow> \<not> ok \<and> sm_block m' = None \<and> sm_descriptor m' < 0 \<and> sm_lastError m' = err"
  by (auto simp: memory_failed_def memory_close_def)

lemma memory_open_effect:
  assumes "memory_open block_bytes owner a m = (ok, m', calls)"
  shows "if ok
    then sm_descriptor m' = ma_open a \<and> 0 \<le> ma_open a \<and> (\<exists>layout b. ma_mmap a = Some (layout, b)
      \<and> sm_block m' = Some (new_layout, if ma_size a = block_bytes \<and> layout = new_layout then b else new_block)
      \<and> (\<not> owner \<longrightarrow> ma_size a = block_bytes \<and> layout = new_layout))
    else sm_block m' = None \<and> sm_descriptor m' < 0"
proof -
  let ?existing = "ma_size a = block_bytes"
  obtain failed prepared where s: "(if owner then owner_setup ?existing (ma_mode a AND 511 = 438) a else (False, [])) = (failed, prepared)"
    by fastforce
  consider (unopened) "ma_open a < 0" | (unready) "0 \<le> ma_open a" "\<not> ma_fstat a \<or> failed \<or> \<not> owner \<and> \<not> ?existing"
    | (unmapped) "0 \<le> ma_open a" "ma_fstat a" "\<not> failed" "owner \<or> ?existing" "ma_mmap a = None"
    | (mapped) mem where "0 \<le> ma_open a" "ma_fstat a" "\<not> failed" "owner \<or> ?existing" "ma_mmap a = Some mem"
    by (cases "ma_mmap a") fastforce+
  then show ?thesis
  proof cases
    case unopened
    then show ?thesis using assms s by (auto simp: memory_open_def Let_def memory_close_def)
  next
    case unready
    then show ?thesis using assms s
      by (auto simp: memory_open_def Let_def split: prod.splits if_splits dest!: memory_failed_closed)
  next
    case unmapped
    then show ?thesis using assms s
      by (auto simp: memory_open_def Let_def split: prod.splits if_splits dest!: memory_failed_closed)
  next
    case (mapped mem)
    let ?mem' = "placed owner ?existing mem"
    show ?thesis
    proof (cases "valid_layout (fst ?mem')")
      case False
      then show ?thesis using mapped assms s
        by (auto simp: memory_open_def Let_def split: prod.splits dest!: memory_failed_closed)
    next
      case True
      then have "ok" "sm_descriptor m' = ma_open a" "sm_block m' = Some ?mem'"
        using mapped assms s by (auto simp: memory_open_def Let_def split: prod.splits)
      moreover have "?mem' = (new_layout, if ?existing \<and> fst mem = new_layout then snd mem else new_block)"
        using placed_valid(2) [OF True] mapped(4) by (auto split: if_splits)
      moreover have "\<not> owner \<longrightarrow> ?existing \<and> fst mem = new_layout"
        using True placed_valid(1) mapped(4) by auto
      ultimately show ?thesis using mapped(1,5) by (cases mem) simp
    qed
  qed
qed

lemma memory_opened:
  assumes "memory_open block_bytes owner a m = (ok, m', calls)" "ok"
  shows "\<exists>b. sm_block m' = Some (new_layout, b)" "0 \<le> sm_descriptor m'"
  using memory_open_effect [OF assms(1)] assms(2) by auto

text \<open>A successful open maps a block with the layout this version was compiled for. Contents of that
  layout are kept, anything else is replaced by a new block, which only an owner does; and a failed open
  leaves nothing open.\<close>

theorem memory_open_result:
  assumes "memory_open block_bytes owner a m = (ok, m', calls)"
  shows "if ok
    then sm_descriptor m' = ma_open a \<and> 0 \<le> ma_open a \<and> (\<exists>layout b. ma_mmap a = Some (layout, b)
      \<and> sm_block m' = Some (new_layout, if ma_size a = block_bytes \<and> layout = new_layout then b else new_block)
      \<and> (\<not> owner \<longrightarrow> ma_size a = block_bytes \<and> layout = new_layout))
    else sm_block m' = None \<and> sm_descriptor m' < 0"
  using memory_open_effect [OF assms] .

definition sample_answers :: memory_answers where
  "sample_answers = \<lparr> ma_open = 3, ma_fstat = True, ma_size = 0, ma_mode = 438, ma_flock = True, ma_fchmod = True,
     ma_ftruncate = True, ma_mmap = Some (new_layout\<lparr>ly_magic := 0\<rparr>, new_block), ma_errno = 0 \<rparr>"

theorem memory_open_result_witness:
  "\<exists>m' calls. memory_open 4205760 True sample_answers new_memory = (True, m', calls)
    \<and> sm_block m' = Some (new_layout, new_block)"
proof -
  have "ma_mode sample_answers AND 511 = 438" by (simp add: sample_answers_def)
  moreover have "fst (new_layout\<lparr>ly_magic := 0\<rparr>, new_block) \<noteq> new_layout" by (simp add: new_layout_def kSharedMagic_def)
  ultimately obtain m' calls where run: "memory_open 4205760 True sample_answers new_memory = (True, m', calls)"
    by (simp add: memory_open_def Let_def owner_setup_def placed_def memory_close_def valid_layout_iff sample_answers_def)
  moreover have "sm_block m' = Some (new_layout, new_block)"
    using memory_open_result [OF run] by (simp add: sample_answers_def)
  ultimately show ?thesis by blast
qed

section \<open>The owner's lock\<close>

text \<open>The calls that change what other processes see.\<close>

definition modifies :: "memory_call \<Rightarrow> bool" where
  "modifies c \<longleftrightarrow> c \<in> {Sys_fchmod, Sys_ftruncate, Construct}"

text \<open>In a list of calls every modification has a successful lock before it.\<close>

fun locked_first :: "bool \<Rightarrow> memory_call list \<Rightarrow> bool" where
  "locked_first locked [] = True"
| "locked_first locked (c # cs) = ((modifies c \<longrightarrow> locked) \<and>
     locked_first (case c of Sys_flock ok \<Rightarrow> ok \<or> locked | Sys_close _ \<Rightarrow> False | Sys_unlock \<Rightarrow> False | _ \<Rightarrow> locked) cs)"

text \<open>The file's mode, its size and its contents are changed only under the owner's lock, and never by
  a process that does not open it as the owner.\<close>

theorem memory_modified_under_lock:
  assumes "memory_open block_bytes owner a m = (ok, m', calls)"
  shows "locked_first False calls \<and> (\<not> owner \<longrightarrow> \<not> list_ex modifies calls)"
  using assms
  by (auto simp: memory_open_def memory_failed_def memory_close_def owner_setup_def Let_def modifies_def
      split: prod.splits if_splits option.splits)

section \<open>Handles\<close>

datatype memory_handle = Descriptor int | Mapping

fun memory_acquired :: "memory_call \<Rightarrow> memory_handle option" where
  "memory_acquired (Sys_open _ descriptor) = (if descriptor < 0 then None else Some (Descriptor descriptor))"
| "memory_acquired (Sys_mmap ok) = (if ok then Some Mapping else None)"
| "memory_acquired _ = None"

fun memory_released :: "memory_call \<Rightarrow> memory_handle option" where
  "memory_released (Sys_close descriptor) = Some (Descriptor descriptor)"
| "memory_released Sys_munmap = Some Mapping"
| "memory_released _ = None"

abbreviation "memory_balance \<equiv> balance memory_acquired memory_released"

definition memory_held :: "shared_memory \<Rightarrow> memory_handle multiset" where
  "memory_held m = (if sm_block m \<noteq> None then {#Mapping#} else {#})
     + (if sm_descriptor m \<ge> 0 then {#Descriptor (sm_descriptor m)#} else {#})"

lemma close_balance:
  "memory_close m = (m', cs) \<Longrightarrow> memory_balance cs (memory_held m + H) = Some (memory_held m' + H)"
  by (auto simp: memory_close_def memory_held_def)

lemma failed_balance:
  assumes "memory_failed err m cs = (ok, m', cs')" "memory_balance cs H = Some (memory_held m + G)"
  shows "memory_balance cs' H = Some (memory_held m' + G)"
proof -
  obtain m1 ds where c: "memory_close (m\<lparr>sm_lastError := err\<rparr>) = (m1, ds)" by fastforce
  have "memory_held (m\<lparr>sm_lastError := err\<rparr>) = memory_held m" by (simp add: memory_held_def)
  with close_balance [OF c, of G] assms c show ?thesis by (auto simp: memory_failed_def)
qed

lemma owner_setup_balance: "memory_balance (snd (owner_setup existing shared a)) H = Some H"
  by (simp add: owner_setup_def Let_def)

lemma open_balance:
  assumes "memory_open block_bytes owner a m = (ok, m', cs)"
  shows "memory_balance cs (memory_held m + H) = Some (memory_held m' + H)"
proof -
  let ?existing = "ma_size a = block_bytes" and ?shared = "ma_mode a AND 511 = 438"
  obtain m0 c0 where c: "memory_close m = (m0, c0)" by fastforce
  obtain failed calls where s: "(if owner then owner_setup ?existing ?shared a else (False, [])) = (failed, calls)"
    by fastforce
  let ?m1 = "m0\<lparr>sm_lastError := Errno 0, sm_descriptor := ma_open a\<rparr>"
  let ?c2 = "c0 @ [Sys_open owner (ma_open a), Sys_fstat]"
  have m0: "sm_block m0 = None" "sm_descriptor m0 = - 1" "memory_held m0 = {#}"
    using c by (auto simp: memory_close_def memory_held_def)
  have prep: "memory_balance calls G = Some G" for G
    using s owner_setup_balance [of ?existing ?shared a] by (auto split: if_splits)
  have b0: "memory_balance c0 (memory_held m + H) = Some H" using close_balance [OF c] m0(3) by simp
  show ?thesis
  proof (cases "ma_open a < 0")
    case True
    then show ?thesis using assms c s b0 m0 by (auto simp: memory_open_def Let_def memory_held_def)
  next
    case False
    then have b2: "memory_balance ?c2 (memory_held m + H) = Some (memory_held ?m1 + H)"
      and b3: "memory_balance (?c2 @ calls) (memory_held m + H) = Some (memory_held ?m1 + H)"
      using b0 prep m0 by (simp_all add: memory_held_def)
    show ?thesis
    proof (cases "\<not> ma_fstat a \<or> failed \<or> \<not> owner \<and> \<not> ?existing")
      case True
      then show ?thesis using assms c s False failed_balance [OF _ b2] failed_balance [OF _ b3]
        by (auto simp: memory_open_def Let_def split: if_splits)
    next
      case go: False
      show ?thesis
      proof (cases "ma_mmap a")
        case None
        then have "memory_balance (?c2 @ calls @ [Sys_mmap False]) (memory_held m + H) = Some (memory_held ?m1 + H)"
          using b0 b2 prep m0 by (simp add: memory_held_def)
        from failed_balance [OF _ this] show ?thesis using assms c s False go None
          by (auto simp: memory_open_def Let_def split: if_splits)
      next
        case (Some mem)
        let ?mem' = "placed owner ?existing mem"
        let ?m2 = "?m1\<lparr>sm_block := Some ?mem'\<rparr>"
        let ?place = "if owner \<and> \<not> (?existing \<and> valid_layout (fst mem)) then [Construct] else []"
        have "memory_balance (?c2 @ calls @ [Sys_mmap True] @ ?place) (memory_held m + H) = Some (memory_held ?m2 + H)"
          using b0 b2 prep m0 by (simp add: memory_held_def)
        then show ?thesis using assms c s False go Some failed_balance [where cs = "?c2 @ calls @ [Sys_mmap True] @ ?place"]
          by (auto simp: memory_open_def Let_def split: if_splits)
      qed
    qed
  qed
qed

lemma driver_balance:
  assumes "driver_open_memory block_bytes a1 a2 a3 m = (ok, m', cs)"
  shows "memory_balance cs (memory_held m) = Some (memory_held m')"
proof -
  obtain ok1 m1 c1 where o1: "memory_open block_bytes False a1 m = (ok1, m1, c1)" by (metis prod_cases3)
  obtain ok2 i c2 where o2: "memory_open block_bytes True a2 new_memory = (ok2, i, c2)" by (metis prod_cases3)
  obtain ok3 m2 c3 where o3: "memory_open block_bytes False a3 m1 = (ok3, m2, c3)" by (metis prod_cases3)
  obtain i' c4 where c: "memory_close i = (i', c4)" by fastforce
  have i': "memory_held i' = {#}" and new: "memory_held new_memory = {#}"
    using c by (auto simp: memory_close_def memory_held_def new_memory_def)
  note b = open_balance [OF o1, of "{#}"] open_balance [OF o2, of "memory_held m1"]
    open_balance [OF o3, of "memory_held i"] close_balance [OF c, of "memory_held m1"]
    close_balance [OF c, of "memory_held m2"]
  show ?thesis
    using assms b i' new
    by (cases ok1; cases ok2) (auto simp: driver_open_memory_def o1 o2 o3 c add.commute)
qed

datatype memory_op =
    Memory_open bool memory_answers
  | Driver_open memory_answers memory_answers memory_answers
  | Memory_probe int bool bool
  | Memory_close

fun memory_step :: "int \<Rightarrow> memory_op \<Rightarrow> shared_memory \<Rightarrow> shared_memory \<times> memory_call list" where
  "memory_step n (Memory_open owner a) m = snd (memory_open n owner a m)"
| "memory_step n (Driver_open a1 a2 a3) m = snd (driver_open_memory n a1 a2 a3 m)"
| "memory_step n (Memory_probe descriptor locked would_block) m =
     (m, snd (memory_ownerActive descriptor locked would_block))"
| "memory_step n Memory_close m = memory_close m"

interpretation posix_memory: handle_owner memory_acquired memory_released memory_held "memory_step block_bytes"
  new_memory Memory_close
proof
  fix call m m' cs
  assume step: "memory_step block_bytes call m = (m', cs)"
  show "memory_balance cs (memory_held m) = Some (memory_held m')"
  proof (cases call)
    case (Memory_open owner a)
    then obtain ok where "memory_open block_bytes owner a m = (ok, m', cs)"
      using step by (cases "memory_open block_bytes owner a m") auto
    from open_balance [OF this, of "{#}"] show ?thesis by simp
  next
    case (Driver_open a1 a2 a3)
    then obtain ok where "driver_open_memory block_bytes a1 a2 a3 m = (ok, m', cs)"
      using step by (cases "driver_open_memory block_bytes a1 a2 a3 m") auto
    then show ?thesis by (rule driver_balance)
  next
    case (Memory_probe descriptor locked would_block)
    then show ?thesis using step by (auto simp: memory_ownerActive_def Let_def split: if_splits)
  next
    case Memory_close
    then show ?thesis using step close_balance [of m m' cs "{#}"] by simp
  qed
qed (simp_all add: memory_held_def new_memory_def)


section \<open>Windows\<close>

datatype windows_handle = Semaphore int | Ownership | File_mapping int | View

text \<open>Waiting for the semaphore takes the ownership, which has to be given back.\<close>

fun windows_acquired :: "windows_call \<Rightarrow> windows_handle option" where
  "windows_acquired (Create_semaphore h) = map_option Semaphore h"
| "windows_acquired (Open_semaphore h) = map_option Semaphore h"
| "windows_acquired (Wait_semaphore result) = (if result = Wait_object_0 then Some Ownership else None)"
| "windows_acquired (Create_mapping h) = map_option File_mapping h"
| "windows_acquired (Open_mapping h) = map_option File_mapping h"
| "windows_acquired (Map_view ok) = (if ok then Some View else None)"
| "windows_acquired _ = None"

fun windows_released :: "windows_call \<Rightarrow> windows_handle option" where
  "windows_released Release_semaphore = Some Ownership"
| "windows_released (Close_semaphore h) = Some (Semaphore h)"
| "windows_released (Close_mapping h) = Some (File_mapping h)"
| "windows_released Unmap_view = Some View"
| "windows_released _ = None"

abbreviation "windows_balance \<equiv> balance windows_acquired windows_released"

definition windows_held :: "windows_memory \<Rightarrow> windows_handle multiset" where
  "windows_held m = (if wm_block m \<noteq> None then {#View#} else {#})
     + (case wm_mapping m of Some h \<Rightarrow> {#File_mapping h#} | None \<Rightarrow> {#})
     + (case wm_semaphore m of Some h \<Rightarrow> {#Ownership, Semaphore h#} | None \<Rightarrow> {#})"

lemma windows_close_balance:
  "windows_close m = (m', cs) \<Longrightarrow> windows_balance cs (windows_held m) = Some (windows_held m') \<and> windows_held m' = {#}"
  by (auto simp: windows_close_def windows_held_def split: option.splits)

lemma windows_failed_balance:
  assumes "windows_failed err m cs = (ok, m', cs')" "windows_balance cs H = Some (windows_held m)"
  shows "windows_balance cs' H = Some (windows_held m')"
proof -
  obtain m1 ds where c: "windows_close (m\<lparr>wm_lastError := err\<rparr>) = (m1, ds)" by fastforce
  have "windows_held (m\<lparr>wm_lastError := err\<rparr>) = windows_held m" by (simp add: windows_held_def)
  with windows_close_balance [OF c] assms c show ?thesis by (auto simp: windows_failed_def)
qed

lemma windows_failed_closed:
  "windows_failed err m cs = (ok, m', cs') \<Longrightarrow> \<not> ok \<and> wm_block m' = None"
  by (auto simp: windows_failed_def windows_close_def)

lemma windows_map_result:
  assumes "windows_map owner existing a m cs = (ok, m', cs')" "wm_block m = None"
  shows "(ok \<longleftrightarrow> wm_block m' \<noteq> None) \<and> (ok \<longrightarrow> wm_semaphore m' = wm_semaphore m \<and> (\<exists>b. wm_block m' = Some (new_layout, b)))"
  using assms
  by (auto simp: windows_map_def Let_def valid_layout_iff split: option.splits if_splits dest!: windows_failed_closed)
    (metis prod.collapse)+

lemma windows_map_balance:
  assumes "windows_map owner existing a m cs = (ok, m', cs')" "wm_block m = None" "wm_mapping m = None"
    and cs: "windows_balance cs H = Some ((case wa_mapping a of Some h \<Rightarrow> {#File_mapping h#} | None \<Rightarrow> {#}) + windows_held m)"
  shows "windows_balance cs' H = Some (windows_held m')"
proof (cases "wa_mapping a")
  case None
  then show ?thesis using assms windows_failed_balance by (fastforce simp: windows_map_def)
next
  case (Some h)
  let ?m1 = "m\<lparr>wm_mapping := Some h\<rparr>"
  have m1: "windows_balance cs H = Some (windows_held ?m1)" using cs Some assms(2,3) by (simp add: windows_held_def)
  show ?thesis
  proof (cases "wa_view a")
    case None
    from m1 have "windows_balance (cs @ [Map_view False]) H = Some (windows_held ?m1)" by simp
    from windows_failed_balance [OF _ this] show ?thesis using assms(1) Some None by (simp add: windows_map_def)
  next
    case view: (Some mem)
    let ?m2 = "?m1\<lparr>wm_block := Some (placed owner existing mem)\<rparr>"
    let ?place = "if owner \<and> \<not> (existing \<and> valid_layout (fst mem)) then [Construct_view] else []"
    have m2: "windows_balance (cs @ [Map_view True] @ ?place) H = Some (windows_held ?m2)"
      using m1 assms(2) by (simp add: windows_held_def)
    show ?thesis
      using assms(1) Some view m2 windows_failed_balance [where cs = "cs @ [Map_view True] @ ?place"]
      by (auto simp: windows_map_def Let_def split: if_splits)
  qed
qed

lemma windows_open_balance:
  assumes "windows_open owner a m = (ok, m', cs)"
  shows "windows_balance cs (windows_held m) = Some (windows_held m')"
proof -
  obtain m0 c0 where c: "windows_close m = (m0, c0)" by fastforce
  then have m0: "wm_block m0 = None" "wm_mapping m0 = None" "wm_semaphore m0 = None"
    by (auto simp: windows_close_def)
  have b0: "windows_balance c0 (windows_held m) = Some {#}" using windows_close_balance [OF c] by simp
  show ?thesis
  proof (cases "\<not> owner")
    case True
    have "windows_balance (c0 @ [Open_mapping (wa_mapping a)]) (windows_held m)
      = Some ((case wa_mapping a of Some h \<Rightarrow> {#File_mapping h#} | None \<Rightarrow> {#}) + windows_held (m0\<lparr>wm_lastError := Errno 0\<rparr>))"
      using b0 m0 by (auto simp: windows_held_def split: option.splits)
    from windows_map_balance [OF _ _ _ this] show ?thesis using assms True c m0 by (simp add: windows_open_def)
  next
    case owner: False
    show ?thesis
    proof (cases "\<exists>h. wa_semaphore a = Some h \<and> wa_wait a = Wait_object_0")
      case True
      then obtain h where h: "wa_semaphore a = Some h" "wa_wait a = Wait_object_0" by blast
      let ?m1 = "m0\<lparr>wm_lastError := Errno 0, wm_semaphore := Some h\<rparr>"
      have "windows_balance (c0 @ [Create_semaphore (Some h), Wait_semaphore Wait_object_0, Create_mapping (wa_mapping a)])
          (windows_held m)
        = Some ((case wa_mapping a of Some h \<Rightarrow> {#File_mapping h#} | None \<Rightarrow> {#}) + windows_held ?m1)"
        using b0 m0 by (auto simp: windows_held_def split: option.splits)
      from windows_map_balance [OF _ _ _ this] show ?thesis using assms owner c h m0 by (simp add: windows_open_def)
    next
      case False
      have "windows_held m' = {#}" using False assms owner c m0
        by (auto simp: windows_open_def windows_held_def Let_def split: option.splits if_splits)
      moreover have "windows_balance cs (windows_held m) = Some {#}" using False assms owner c b0
        by (auto simp: windows_open_def Let_def split: option.splits if_splits)
      ultimately show ?thesis by simp
    qed
  qed
qed

datatype windows_op =
    Windows_open bool windows_answers
  | Windows_probe "int option" wait_result
  | Windows_close

fun windows_step :: "windows_op \<Rightarrow> windows_memory \<Rightarrow> windows_memory \<times> windows_call list" where
  "windows_step (Windows_open owner a) m = snd (windows_open owner a m)"
| "windows_step (Windows_probe h result) m = (m, snd (windows_ownerActive h result))"
| "windows_step Windows_close m = windows_close m"

interpretation windows_memory: handle_owner windows_acquired windows_released windows_held windows_step
  new_windows_memory Windows_close
proof
  fix call m m' cs
  assume step: "windows_step call m = (m', cs)"
  show "windows_balance cs (windows_held m) = Some (windows_held m')"
  proof (cases call)
    case (Windows_open owner a)
    then obtain ok where "windows_open owner a m = (ok, m', cs)" using step by (cases "windows_open owner a m") auto
    then show ?thesis by (rule windows_open_balance)
  next
    case (Windows_probe h result)
    then show ?thesis using step by (auto simp: windows_ownerActive_def split: option.splits if_splits)
  next
    case Windows_close
    then show ?thesis using step windows_close_balance by simp
  qed
qed (simp_all add: windows_held_def new_windows_memory_def windows_close_def)

text \<open>On Windows, too, any sequence of openings, probes and closings gives back every handle and the
  ownership of the semaphore exactly once.\<close>

theorem windows_memory_no_leak:
  "windows_balance (snd (run_operations windows_step (ops @ [Windows_close]) new_windows_memory)) {#} = Some {#}"
  by (rule windows_memory.no_leak)

text \<open>A process opens the block as its owner on Windows only while it holds the ownership, and keeps it
  as long as the block is mapped.\<close>

theorem windows_owner_exclusive:
  assumes "windows_open True a m = (ok, m', calls)"
  shows "(ok \<longleftrightarrow> wm_block m' \<noteq> None) \<and> (ok \<longrightarrow> Ownership \<in># windows_held m' \<and> wa_wait a = Wait_object_0
    \<and> (\<exists>b. wm_block m' = Some (new_layout, b)))"
proof -
  obtain m0 c0 where c: "windows_close m = (m0, c0)" by fastforce
  then have m0: "wm_block m0 = None" by (auto simp: windows_close_def)
  show ?thesis
  proof (cases "\<exists>h. wa_semaphore a = Some h \<and> wa_wait a = Wait_object_0")
    case False
    then show ?thesis using assms c m0
      by (auto simp: windows_open_def Let_def split: option.splits if_splits)
  next
    case True
    then obtain h where h: "wa_semaphore a = Some h" "wa_wait a = Wait_object_0" by blast
    let ?m1 = "m0\<lparr>wm_lastError := Errno 0, wm_semaphore := Some h\<rparr>"
    have "windows_map True (wa_mapping a \<noteq> None \<and> wa_already_exists a) a ?m1
        (c0 @ [Create_semaphore (Some h), Wait_semaphore Wait_object_0, Create_mapping (wa_mapping a)]) = (ok, m', calls)"
      using assms c h by (simp add: windows_open_def)
    from windows_map_result [OF this] m0 h show ?thesis by (auto simp: windows_held_def)
  qed
qed

end
