(* ===== verification/SAP_Message.thy ===== *)
theory SAP_Message
  imports SDP_Session
begin

text \<open>
  Sources/Core/SAP.hpp and Sources/Core/SAP.cpp: announcements. A decoded announcement is a
  triple of the returned \<open>bool\<close>, the message argument after the call (the decoder stores fields
  before its last checks) and the error text it stored; \<open>None\<close> is a read outside the datagram.
\<close>

section \<open>Texts as bytes\<close>

definition text_bytes :: "string \<Rightarrow> bytes" where
  "text_bytes s = map of_char s"

definition bytes_text :: "bytes \<Rightarrow> string" where
  "bytes_text bs = map (\<lambda>b. char_of (unat b)) bs"

lemma bytes_text_text_bytes [simp]: "bytes_text (text_bytes s) = s"
proof -
  have "char_of (unat (of_char c :: u8)) = c" for c
  proof -
    have "unat (of_char c :: u8) = of_char c"
    proof -
      have "(of_char c :: u8) = of_nat (of_char c)" by (simp only: of_nat_of_char)
      moreover have "(of_char c :: nat) < 256" by simp
      ultimately show ?thesis by (simp only: unat_of_nat) simp
    qed
    then show ?thesis by simp
  qed
  then show ?thesis by (simp add: bytes_text_def text_bytes_def o_def)
qed

lemma length_text_bytes [simp]: "length (text_bytes s) = length s"
  by (simp add: text_bytes_def)

lemma text_bytes_append [simp]: "text_bytes (s @ t) = text_bytes s @ text_bytes t"
  by (simp add: text_bytes_def)

section \<open>The code\<close>

record sap_message =
  sap_deletion :: bool
  sap_messageHash :: u16
  sap_originAddress :: string
  sap_payloadType :: string
  sap_sdp :: string

definition default_sap :: sap_message where
  "default_sap = \<lparr> sap_deletion = False, sap_messageHash = 0, sap_originAddress = [],
     sap_payloadType = [], sap_sdp = [] \<rparr>"

datatype sap_error = Unsupported_header

definition sap_hash :: "string \<Rightarrow> u16" where
  "sap_hash sdp =
     (let value = foldl (\<lambda>value byte. (value XOR of_char byte) * 16777619) (2166136261 :: u32) sdp
      in ucast (drop_bit 16 value XOR value))"

definition sap_encode :: "sap_message \<Rightarrow> bytes" where
  "sap_encode m = (case ipv4_parse (sap_originAddress m) of
     None \<Rightarrow> []
   | Some origin \<Rightarrow>
       let mime = (if sap_payloadType m = [] then ''application/sdp'' else sap_payloadType m);
           messageHash = (if sap_messageHash m \<noteq> 0 then sap_messageHash m else sap_hash (sap_sdp m))
       in [0x20 OR (if sap_deletion m then 0x04 else 0), 0, ucast (drop_bit 8 messageHash),
           ucast messageHash] @ origin @ text_bytes mime @ [0] @ text_bytes (sap_sdp m))"

definition find_zero :: "bytes \<Rightarrow> nat \<Rightarrow> nat option" where
  "find_zero bs start = (let n = length (takeWhile (\<lambda>b. b \<noteq> 0) (drop start bs))
     in if start + n < length bs then Some (start + n) else None)"

definition sap_decode ::
    "bytes \<Rightarrow> sap_message \<Rightarrow> (bool \<times> sap_message \<times> sap_error option) option" where
  "sap_decode bs m =
     (if length bs < 9 then Some (False, m, Some Unsupported_header)
      else do {
        b0 \<leftarrow> rd bs 0;
        if drop_bit 5 b0 AND 0x07 \<noteq> 1 \<or> b0 AND 0x02 \<noteq> 0 \<or> b0 AND 0x01 \<noteq> 0
        then Some (False, m, Some Unsupported_header)
        else do {
          b1 \<leftarrow> rd bs 1;
          let payloadStart = 8 + unat b1 * 4;
          if payloadStart \<ge> length bs then Some (False, m, None)
          else (case find_zero bs payloadStart of
            None \<Rightarrow> Some (False, m, None)
          | Some zero \<Rightarrow> do {
              origin \<leftarrow> range_of bs 4 8;
              h \<leftarrow> rd bs 2; l \<leftarrow> rd bs 3;
              ptype \<leftarrow> range_of bs payloadStart zero;
              let m1 = m\<lparr>sap_deletion := b0 AND 0x04 \<noteq> 0, sap_messageHash := be16 h l,
                  sap_originAddress := ipv4_toString origin, sap_payloadType := bytes_text ptype\<rparr>;
              let sdpStart = zero + 1;
              if sdpStart = length bs then Some (False, m1, None)
              else do {
                body \<leftarrow> range_of bs sdpStart (length bs);
                let m2 = m1\<lparr>sap_sdp := bytes_text body\<rparr>;
                if sap_payloadType m2 \<noteq> ''application/sdp'' \<or> \<not> starts_with (sap_sdp m2) ''v=0''
                then Some (False, m2, None)
                else Some (True, m2, None)
              }
            })
        }
      })"

section \<open>Decoding arbitrary datagrams\<close>

lemma find_zero_range: "find_zero bs s = Some z \<Longrightarrow> s \<le> z \<and> z < length bs"
  by (auto simp: find_zero_def Let_def split: if_splits)

lemma find_zero_text:
  assumes "0 \<notin> set ys" "length xs = s"
  shows "find_zero (xs @ ys @ 0 # zs) s = Some (s + length ys)"
proof -
  have "takeWhile (\<lambda>b. b \<noteq> 0) (ys @ 0 # zs) = ys"
    using assms(1) by (subst takeWhile_append2) auto
  with assms(2) show ?thesis by (simp add: find_zero_def)
qed

lemma sap_decode_defined: "sap_decode bs m \<noteq> None"
proof (cases "length bs < 9")
  case False
  then show ?thesis
    by (auto simp: sap_decode_def rd_def range_of_def Let_def dest: find_zero_range split: option.splits)
qed (simp add: sap_decode_def)

lemma sap_decode_True:
  assumes "sap_decode bs m = Some (True, m', e)"
  obtains zero start where "8 \<le> start" "start \<le> zero" "zero + 1 < length bs" "e = None"
    "sap_payloadType m' = ''application/sdp''" "starts_with (sap_sdp m') ''v=0''"
    "sap_payloadType m' = bytes_text (take (zero - start) (drop start bs))"
    "sap_sdp m' = bytes_text (drop (zero + 1) bs)"
    "sap_originAddress m' = ipv4_toString (take 4 (drop 4 bs))"
proof -
  have nine: "\<not> length bs < 9" using assms by (auto simp: sap_decode_def)
  then have reads: "rd bs 0 = Some (bs ! 0)" "rd bs (Suc 0) = Some (bs ! Suc 0)" "rd bs 2 = Some (bs ! 2)"
    "rd bs 3 = Some (bs ! 3)" "range_of bs 4 8 = Some (take 4 (drop 4 bs))"
    by (auto simp: rd_def range_of_def)
  let ?start = "8 + unat (bs ! Suc 0) * 4"
  have start: "?start < length bs"
    using assms nine by (auto simp: sap_decode_def reads Let_def split: if_splits)
  obtain zero where zero: "find_zero bs ?start = Some zero"
    using assms nine start
    by (auto simp: sap_decode_def reads Let_def split: if_splits option.splits)
  note range = find_zero_range [OF zero]
  have more: "zero + 1 \<noteq> length bs"
    using assms nine start zero range
    by (auto simp: sap_decode_def reads range_of_def Let_def split: if_splits)
  show thesis
    by (rule that [of ?start zero])
      (use assms nine start zero range more in
        \<open>auto simp: sap_decode_def reads range_of_def Let_def split: if_splits\<close>)
qed

text \<open>C22: Decoding never reads outside the datagram, and an accepted announcement has the MIME type,
  an SDP body and an origin address whose text parses back to the four bytes of the header.\<close>

theorem sap_decode_accepts:
  "sap_decode bs m \<noteq> None \<and>
   (\<forall>m' e. sap_decode bs m = Some (True, m', e) \<longrightarrow>
      e = None \<and> sap_payloadType m' = ''application/sdp'' \<and> starts_with (sap_sdp m') ''v=0''
      \<and> ipv4_parse (sap_originAddress m') = Some (take 4 (drop 4 bs))
      \<and> length (sap_sdp m') + 24 \<le> length bs)"
proof (intro conjI allI impI)
  show "sap_decode bs m \<noteq> None" by (rule sap_decode_defined)
next
  fix m' e
  assume acc: "sap_decode bs m = Some (True, m', e)"
  from acc obtain zero start where "8 \<le> start" "start \<le> zero" "zero + 1 < length bs" "e = None"
    and mime: "sap_payloadType m' = ''application/sdp''" "starts_with (sap_sdp m') ''v=0''"
    and body: "sap_payloadType m' = bytes_text (take (zero - start) (drop start bs))"
      "sap_sdp m' = bytes_text (drop (zero + 1) bs)"
      "sap_originAddress m' = ipv4_toString (take 4 (drop 4 bs))"
    by (rule sap_decode_True)
  have "length (sap_payloadType m') = zero - start"
    unfolding body(1) using \<open>zero + 1 < length bs\<close> \<open>start \<le> zero\<close> by (simp add: bytes_text_def)
  moreover have "8 < length bs"
    using \<open>zero + 1 < length bs\<close> \<open>8 \<le> start\<close> \<open>start \<le> zero\<close> by simp
  ultimately have len: "length (sap_payloadType m') = zero - start" "8 < length bs" .
  show "ipv4_parse (sap_originAddress m') = Some (take 4 (drop 4 bs))"
    using len \<open>zero + 1 < length bs\<close> \<open>8 \<le> start\<close> \<open>start \<le> zero\<close> unfolding body by (intro parse_toString) simp
  have "zero - start = 15" using len(1) mime(1) by simp
  with \<open>8 \<le> start\<close> \<open>zero + 1 < length bs\<close> show "length (sap_sdp m') + 24 \<le> length bs"
    by (simp add: body bytes_text_def)
  show "e = None" "sap_payloadType m' = ''application/sdp''" "starts_with (sap_sdp m') ''v=0''"
    by fact+
qed

section \<open>Round trip\<close>

definition sap_wf :: "sap_message \<Rightarrow> bool" where
  "sap_wf m \<longleftrightarrow> (\<exists>a. length a = 4 \<and> sap_originAddress m = ipv4_toString a)
     \<and> (sap_messageHash m = 0 \<longrightarrow> sap_hash (sap_sdp m) = 0) \<and> sap_payloadType m = ''application/sdp''
     \<and> starts_with (sap_sdp m) ''v=0''"

definition sap_parse :: "bytes \<Rightarrow> sap_message option" where
  "sap_parse bs = (case sap_decode bs default_sap of Some (True, m, _) \<Rightarrow> Some m | _ \<Rightarrow> None)"

lemma sap_header_bits:
  "drop_bit 5 (0x20 OR (if d then 0x04 else 0) :: u8) AND 0x07 = 1"
  "(0x20 OR (if d then 0x04 else 0) :: u8) AND 0x02 = 0"
  "(0x20 OR (if d then 0x04 else 0) :: u8) AND 0x01 = 0"
  "(0x20 OR (if d then 0x04 else 0) :: u8) AND 0x04 \<noteq> 0 \<longleftrightarrow> d"
  by (cases d; simp)+

lemma mime_no_zero: "0 \<notin> set (text_bytes ''application/sdp'')"
  by (simp add: text_bytes_def)

text \<open>What a receiver sees of any message the encoder sends, whatever its hash and MIME fields.\<close>

lemma sap_decode_encode:
  assumes a: "length a = 4" "sap_originAddress m = ipv4_toString a"
    and mime: "sap_payloadType m = [] \<or> sap_payloadType m = ''application/sdp''"
    and body: "starts_with (sap_sdp m) ''v=0''"
  shows "sap_decode (sap_encode m) m0 = Some (True, m\<lparr>sap_payloadType := ''application/sdp'',
    sap_messageHash := (if sap_messageHash m \<noteq> 0 then sap_messageHash m else sap_hash (sap_sdp m))\<rparr>,
    None)"
proof -
  define h where "h = (if sap_messageHash m \<noteq> 0 then sap_messageHash m else sap_hash (sap_sdp m))"
  define b0 :: u8 where "b0 = 0x20 OR (if sap_deletion m then 0x04 else 0)"
  define wire where "wire = [b0, 0, ucast (drop_bit 8 h), ucast h] @ a
    @ text_bytes ''application/sdp'' @ 0 # text_bytes (sap_sdp m)"
  have bits: "drop_bit 5 b0 AND 0x07 = 1" "b0 AND 0x02 = 0" "b0 AND 0x01 = 0"
    "b0 AND 0x04 \<noteq> 0 \<longleftrightarrow> sap_deletion m"
    unfolding b0_def by (rule sap_header_bits)+
  have enc: "sap_encode m = wire"
    using mime by (auto simp: sap_encode_def a parse_toString wire_def b0_def h_def Let_def)
  have sdp: "sap_sdp m \<noteq> []" using body by (auto simp: starts_with_def)
  have lenw: "length wire = 24 + length (sap_sdp m)" by (simp add: wire_def a)
  have zero: "find_zero wire 8 = Some 23"
    using find_zero_text [OF mime_no_zero, of "[b0, 0, ucast (drop_bit 8 h), ucast h] @ a" 8] a
    by (simp add: wire_def)
  have reads: "rd wire 0 = Some b0" "rd wire (Suc 0) = Some 0" "rd wire 2 = Some (ucast (drop_bit 8 h))"
    "rd wire 3 = Some (ucast h)" "range_of wire 4 8 = Some a"
    "range_of wire 8 23 = Some (text_bytes ''application/sdp'')"
    "range_of wire 24 (length wire) = Some (text_bytes (sap_sdp m))"
    using lenw a by (simp_all add: wire_def range_of_def)
  have ok: "\<not> length wire < 9" "\<not> length wire \<le> 8" "length wire \<noteq> 24"
    using lenw sdp by simp_all
  show ?thesis
    unfolding enc sap_decode_def h_def [symmetric]
    using ok bits zero body a by (simp add: reads)
qed

interpretation sap: wire_codec sap_encode sap_parse sap_wf
proof unfold_locales
  fix m
  assume wf: "sap_wf m"
  then obtain a where a: "length a = 4" "sap_originAddress m = ipv4_toString a"
    by (auto simp: sap_wf_def)
  have "m\<lparr>sap_payloadType := ''application/sdp'', sap_messageHash :=
      (if sap_messageHash m \<noteq> 0 then sap_messageHash m else sap_hash (sap_sdp m))\<rparr> = m"
    using wf by (auto simp: sap_wf_def)
  moreover have "sap_decode (sap_encode m) default_sap = Some (True, m\<lparr>sap_payloadType :=
      ''application/sdp'', sap_messageHash :=
      (if sap_messageHash m \<noteq> 0 then sap_messageHash m else sap_hash (sap_sdp m))\<rparr>, None)"
    using wf by (intro sap_decode_encode [OF a]) (auto simp: sap_wf_def)
  ultimately show "sap_parse (sap_encode m) = Some m" by (simp add: sap_parse_def)
qed

text \<open>Any announcement or deletion the encoder sends (an IPv4 origin, the default or the SDP MIME
  type, an SDP body) is received with the same origin, body and deletion flag; a hash field of zero
  travels as the hash of the body.\<close>

theorem sap_roundtrip:
  assumes "length a = 4" "sap_originAddress m = ipv4_toString a"
    "sap_payloadType m \<in> {[], ''application/sdp''}" "starts_with (sap_sdp m) ''v=0''"
  shows "sap_decode (sap_encode m) m0 = Some (True, m\<lparr>sap_payloadType := ''application/sdp'',
    sap_messageHash := (if sap_messageHash m \<noteq> 0 then sap_messageHash m else sap_hash (sap_sdp m))\<rparr>,
    None)"
  using assms by (intro sap_decode_encode) auto

definition sample_deletion :: sap_message where
  "sample_deletion = \<lparr> sap_deletion = True, sap_messageHash = 0x1234,
     sap_originAddress = ipv4_toString [10, 0, 0, 7], sap_payloadType = [], sap_sdp = ''v=0'' \<rparr>"

theorem sap_roundtrip_witness:
  "sap_decode (sap_encode sample_deletion) default_sap
     = Some (True, sample_deletion\<lparr>sap_payloadType := ''application/sdp''\<rparr>, None)"
  using sap_roundtrip [of "[10, 0, 0, 7]" sample_deletion default_sap]
  by (simp add: sample_deletion_def starts_with_def)

text \<open>The deletion of the sample above is such a datagram.\<close>

theorem sap_decode_accepts_witness:
  "sap_decode (sap_encode sample_deletion) default_sap
     = Some (True, sample_deletion\<lparr>sap_payloadType := ''application/sdp''\<rparr>, None)
   \<and> ipv4_parse (sap_originAddress sample_deletion) = Some (take 4 (drop 4 (sap_encode sample_deletion)))
   \<and> length (sap_sdp sample_deletion) + 24 \<le> length (sap_encode sample_deletion)"
proof -
  have "sap_decode (sap_encode sample_deletion) default_sap
     = Some (True, sample_deletion\<lparr>sap_payloadType := ''application/sdp''\<rparr>, None)"
    using sap_decode_encode [of "[10, 0, 0, 7]" sample_deletion default_sap]
    by (simp add: sample_deletion_def starts_with_def)
  with sap_decode_accepts [of "sap_encode sample_deletion" default_sap] show ?thesis by simp
qed

section \<open>Sessions inside announcements\<close>

text \<open>The message the engine builds for a session, as the encoder completes it.\<close>

definition sap_seal :: "sap_message \<Rightarrow> sap_message" where
  "sap_seal m = m\<lparr>sap_payloadType := (if sap_payloadType m = [] then ''application/sdp'' else sap_payloadType m),
     sap_messageHash := (if sap_messageHash m \<noteq> 0 then sap_messageHash m else sap_hash (sap_sdp m))\<rparr>"

lemma sap_encode_seal: "sap_encode (sap_seal m) = sap_encode m"
  by (simp add: sap_encode_def sap_seal_def Let_def split: option.splits)

definition sap_announcement :: "session_description \<Rightarrow> string \<Rightarrow> sap_message" where
  "sap_announcement s sdp = \<lparr> sap_deletion = False, sap_messageHash = 0,
     sap_originAddress = sd_originAddress s, sap_payloadType = ''application/sdp'', sap_sdp = sdp \<rparr>"

definition announceable :: "session_description \<Rightarrow> bool" where
  "announceable s \<longleftrightarrow> sd_wf s \<and> (\<exists>a. length a = 4 \<and> sd_originAddress s = ipv4_toString a)"

lemma sdp_generate_v0: "starts_with (sdp_generate s) ''v=0''"
  by (simp add: sdp_generate_def starts_with_def)

interpretation announcement: carried_codec sap_encode sap_parse sap_wf sdp_generate sdp_decode sd_wf
    "\<lambda>s sdp. sap_seal (sap_announcement s sdp)" sap_sdp announceable
  by unfold_locales
    (auto simp: sap_seal_def sap_announcement_def sap_wf_def announceable_def sdp_generate_v0)

text \<open>A session announced over SAP is discovered as the same session: the receiver decodes the
  datagram, takes its body and parses exactly the description that was sent.\<close>

theorem announced_session_discovered:
  assumes "sd_wf s" "length a = 4" "sd_originAddress s = ipv4_toString a"
  shows "\<exists>m. sap_decode (sap_encode (sap_announcement s (sdp_generate s))) default_sap = Some (True, m, None)
    \<and> sap_messageHash m = sap_hash (sdp_generate s) \<and> \<not> sap_deletion m
    \<and> sdp_parse (sap_sdp m) = Inr s"
  using sap_decode_encode [of a "sap_announcement s (sdp_generate s)" default_sap] assms
  by (simp add: sap_announcement_def sdp_generate_v0 sdp_parse_generate)

lemma sample_session_origin: "sd_originAddress sample_session = ipv4_toString [192, 168, 1, 10]"
  by code_simp

theorem announced_session_discovered_witness:
  "\<exists>m. sap_decode (sap_encode (sap_announcement sample_session (sdp_generate sample_session))) default_sap
       = Some (True, m, None) \<and> sdp_parse (sap_sdp m) = Inr sample_session"
  using announced_session_discovered [OF sample_session_wf _ sample_session_origin] by auto

section \<open>The address type bit\<close>

text \<open>The decoder never looks at the address type bit of the header (\<open>0x10\<close>, set for an IPv6
  origin), although its error text says that only IPv4 headers are supported: the bit changes
  nothing in the result.\<close>

theorem sap_address_type_ignored: "sap_decode ((b OR 0x10) # bs) m = sap_decode (b # bs) m"
proof -
  have "drop_bit 5 (b OR 0x10) = drop_bit 5 b"
    by (rule bit_word_eqI) (auto simp: bit_simps bit_numeral_iff)
  moreover have "(b OR 0x10) AND 0x02 = b AND 0x02" "(b OR 0x10) AND 0x01 = b AND 0x01"
    "(b OR 0x10) AND 0x04 = b AND 0x04"
    by (simp_all add: bit.conj_disj_distrib2)
  moreover have "find_zero ((b OR 0x10) # bs) n = find_zero (b # bs) n" if "0 < n" for n
    using that by (cases n) (simp_all add: find_zero_def)
  moreover have "range_of ((b OR 0x10) # bs) i j = range_of (b # bs) i j" if "0 < i" for i j
    using that by (cases i) (simp_all add: range_of_def)
  ultimately show ?thesis
    by (simp add: sap_decode_def cong: option.case_cong if_cong)
qed

end
