(* ===== verification/Session_Loops.thy ===== *)
theory Session_Loops
  imports Engine_State SAP_Message Reconnect_Policy
begin

text \<open>
  \<open>sapPublishLoop\<close> and \<open>sapDiscoveryLoop\<close> of Sources/Engine/LiveEngine.cpp: the engine announces its
  streams over SAP and keeps the directory of the sessions other engines announce. The system clock in
  milliseconds is an argument; the outer \<open>option\<close> of a discovery step is undefined behaviour.
\<close>

section \<open>Publishing\<close>

definition first_channel :: "live_engine_config \<Rightarrow> nat \<Rightarrow> u64" where
  "first_channel c bank = lc_coreAudioStartChannel c + of_nat bank * lc_channelsPerStream c"

definition bank_session :: "live_engine_config \<Rightarrow> nat \<Rightarrow> session_description" where
  "bank_session c bank =
     (let firstChannel = first_channel c bank;
          lastChannel = firstChannel + lc_channelsPerStream c - 1
      in default_session\<lparr>
        sd_name := ''AES-Bridge-Outputs-'' @ to_string (unat firstChannel) @ ''-'' @ to_string (unat lastChannel),
        sd_originAddress := lc_interfaceAddress c,
        sd_sourceAddress := lc_interfaceAddress c,
        sd_multicastAddress := bankAddress (lc_txAddress c) bank,
        sd_port := bankPort (lc_txPort c) (lc_portStride c) bank,
        sd_payloadType := lc_txPayloadType c,
        sd_channels := ucast (lc_channelsPerStream c)\<rparr>)"

definition bank_announcement :: "live_engine_config \<Rightarrow> nat \<Rightarrow> sap_message" where
  "bank_announcement c bank = \<lparr> sap_deletion = False, sap_messageHash = 0,
     sap_originAddress = lc_interfaceAddress c, sap_payloadType = ''application/sdp'',
     sap_sdp = sdp_generate (bank_session c bank) \<rparr>"

text \<open>All datagrams of the thread: nothing when the publisher cannot be opened, otherwise every
  announcement in each round until the engine stops, then the deletions.\<close>

definition sap_publish :: "live_engine_config \<Rightarrow> bool \<Rightarrow> nat \<Rightarrow> bytes list" where
  "sap_publish c opened rounds =
     (let announcements = map (bank_announcement c) [0..<unat (lc_streamCount c)];
          encoded = map sap_encode announcements
      in if \<not> opened then []
         else concat (replicate rounds encoded)
              @ map (\<lambda>announcement. sap_encode (announcement\<lparr>sap_deletion := True\<rparr>)) announcements)"

section \<open>Discovering\<close>

text \<open>What \<open>listener.receive\<close> returned: a datagram, 0 or an error.\<close>

datatype reception = Received bytes | Timed_out | Failed

definition oldest_allowed :: "live_engine_config \<Rightarrow> u64 \<Rightarrow> u64" where
  "oldest_allowed c now =
     (let timeoutMilliseconds = ucast (lc_sapSessionTimeoutSeconds c) * 1000
      in if now > timeoutMilliseconds then now - timeoutMilliseconds else 0)"

definition discovery_message :: "live_engine_config \<Rightarrow> u64 \<Rightarrow> bytes \<Rightarrow> shared_block \<Rightarrow> shared_block option" where
  "discovery_message c now bs b = do {
     (decoded, message, error) \<leftarrow> sap_decode bs default_sap;
     if \<not> decoded \<or> sap_payloadType message \<noteq> ''application/sdp''
     then Some (count_one st_sapMalformedPackets_update b)
     else (case sdp_parse (sap_sdp message) of
         Inl _ \<Rightarrow> Some (count_one st_sapMalformedPackets_update b)
       | Inr session \<Rightarrow>
           if validateLXToolProfile session \<noteq> [] then Some (count_one st_sapMalformedPackets_update b)
           else if sd_originAddress session = lc_interfaceAddress c \<and> starts_with (sd_name session) ''AES-Bridge-Outputs-''
           then Some b
           else if sap_deletion message
           then Some (b\<lparr>bk_discoveredSessions :=
                  dir_erase (bk_discoveredSessions b) (sap_messageHash message) (sd_originAddress session)\<rparr>)
           else Some (b\<lparr>bk_discoveredSessions :=
                  dir_upsert (bk_discoveredSessions b) (sap_messageHash message) session now\<rparr>))
   }"

text \<open>One iteration of the inner loop; the \<open>bool\<close> is whether it goes on.\<close>

definition discovery_iteration ::
    "live_engine_config \<Rightarrow> u64 \<Rightarrow> reception \<Rightarrow> shared_block \<Rightarrow> (bool \<times> shared_block) option" where
  "discovery_iteration c now received b =
     (let b1 = b\<lparr>bk_discoveredSessions := dir_expire (bk_discoveredSessions b) (oldest_allowed c now)\<rparr>
      in case received of
           Timed_out \<Rightarrow> Some (True, b1)
         | Failed \<Rightarrow> Some (False, b1)
         | Received bs \<Rightarrow> map_option (\<lambda>b2. (True, b2)) (discovery_message c now bs b1))"

definition discovery_open :: "bool \<Rightarrow> reconnect_policy \<Rightarrow> shared_block \<Rightarrow> nat option \<times> reconnect_policy \<times> shared_block" where
  "discovery_open opened reconnect b =
     (if opened then (None, connected reconnect, b)
      else case nextDelay reconnect of (delay, reconnect') \<Rightarrow>
        (Some delay, reconnect', count_one st_reconnects_update b))"

definition discovery_closed :: "bool \<Rightarrow> reconnect_policy \<Rightarrow> shared_block \<Rightarrow> nat option \<times> reconnect_policy \<times> shared_block" where
  "discovery_closed running reconnect b =
     (if running
      then case nextDelay reconnect of (delay, reconnect') \<Rightarrow>
        (Some delay, reconnect', count_one st_reconnects_update b)
      else (None, reconnect, b))"

section \<open>The sessions an engine announces\<close>

definition publishes :: "live_engine_config \<Rightarrow> nat \<Rightarrow> bool" where
  "publishes c bank \<longleftrightarrow> routing_ok c \<and> bank < unat (lc_streamCount c) \<and> lc_txPayloadType c \<le> 127
     \<and> (\<exists>a. length a = 4 \<and> lc_interfaceAddress c = ipv4_toString a)
     \<and> validIPv4 (bankAddress (lc_txAddress c) bank) True"

lemma bank_session_select [simp]:
  "sd_originAddress (bank_session c bank) = lc_interfaceAddress c"
  "sd_multicastAddress (bank_session c bank) = bankAddress (lc_txAddress c) bank"
  "sd_port (bank_session c bank) = bankPort (lc_txPort c) (lc_portStride c) bank"
  by (simp_all add: bank_session_def Let_def)

lemma bank_session_name: "starts_with (sd_name (bank_session c bank)) ''AES-Bridge-Outputs-''"
  by (simp add: bank_session_def Let_def starts_with_def)

lemma bank_session_wf:
  assumes "publishes c bank"
  shows "sd_wf (bank_session c bank)"
proof -
  obtain a where a: "length a = 4" "lc_interfaceAddress c = ipv4_toString a"
    using assms by (auto simp: publishes_def)
  then have "x \<in> set (lc_interfaceAddress c) \<Longrightarrow> is_digit x \<or> x = CHR ''.''" for x
    using ipv4_toString_chars by simp
  then have "CHR '' '' \<notin> set (lc_interfaceAddress c)" "CHR 0x0A \<notin> set (lc_interfaceAddress c)"
    by (fastforce simp: is_digit_def)+
  with assms show ?thesis
    by (simp add: sd_wf_def publishes_def)
      (simp add: bank_session_def Let_def default_session_def profile_defs to_string_no_char is_digit_def)
qed

lemma bank_session_profile:
  assumes "publishes c bank"
  shows "validateLXToolProfile (bank_session c bank) = []"
proof -
  have r: "routing_ok c" "validIPv4 (bankAddress (lc_txAddress c) bank) True"
    using assms by (simp_all add: publishes_def)
  have "unat (ucast (lc_channelsPerStream c) :: u16) = unat (lc_channelsPerStream c)"
    using routing_bounds(4) [OF r(1)] by (simp add: unsigned_ucast_eq take_bit_nat_eq_self unsigned_take_bit_eq)
  then show ?thesis
    using r(2) routing_bounds(5) [OF r(1)]
    by (simp add: validateLXToolProfile_def)
      (simp add: bank_session_def Let_def default_session_def profile_defs)
qed

text \<open>What discovery does with an announcement or deletion another engine sent.\<close>

lemma discovery_of_announcement:
  assumes "publishes c bank" "lc_interfaceAddress r \<noteq> lc_interfaceAddress c"
  shows "discovery_message r now (sap_encode ((bank_announcement c bank)\<lparr>sap_deletion := d\<rparr>)) b
    = Some (b\<lparr>bk_discoveredSessions :=
        (let h = sap_hash (sdp_generate (bank_session c bank)); slots = bk_discoveredSessions b
         in if d then dir_erase slots h (lc_interfaceAddress c) else dir_upsert slots h (bank_session c bank) now)\<rparr>)"
proof -
  obtain a where a: "length a = 4" "lc_interfaceAddress c = ipv4_toString a"
    using assms(1) by (auto simp: publishes_def)
  let ?m = "(bank_announcement c bank)\<lparr>sap_deletion := d\<rparr>"
  have "sap_decode (sap_encode ?m) default_sap = Some (True, ?m\<lparr>sap_payloadType := ''application/sdp'',
      sap_messageHash := (if sap_messageHash ?m \<noteq> 0 then sap_messageHash ?m else sap_hash (sap_sdp ?m))\<rparr>, None)"
    using a by (intro sap_decode_encode [of a]) (simp_all add: bank_announcement_def sdp_generate_v0)
  moreover have "sdp_parse (sdp_generate (bank_session c bank)) = Inr (bank_session c bank)"
    using sdp_parse_generate [OF bank_session_wf [OF assms(1)]] .
  ultimately show ?thesis
    using assms(2) bank_session_profile [OF assms(1)]
    by (simp add: discovery_message_def bank_announcement_def Let_def)
qed

lemma address_fits: "publishes c bank \<Longrightarrow> fits_text kIPv4TextCapacity (lc_interfaceAddress c)"
  using ipv4_toString_length ipv4_toString_chars
  by (fastforce simp: publishes_def fits_text_def kIPv4TextCapacity_def is_digit_def intro: le_less_trans)


definition publisher :: live_engine_config where
  "publisher = default_config\<lparr>lc_interfaceAddress := ipv4_toString [10, 0, 0, 7]\<rparr>"

lemma publisher_publishes: "publishes publisher 0"
proof -
  have "bankAddress ''239.69.83.81'' 0 = ipv4_toString [239, 69, 83, 81]"
    by (simp add: bankAddress_eq [OF default_groups(2)] default_groups isMulticast_def)
  then have "validIPv4 (bankAddress ''239.69.83.81'' 0) True"
    by (simp add: validIPv4_def parse_toString isMulticast_def)
  moreover have "routing_ok publisher"
    by (simp add: publisher_def routing_ok_def default_config_def profile_defs supportedAES67ChannelCount_def)
  moreover have "\<exists>a. length a = 4 \<and> ipv4_toString [10, 0, 0, 7] = ipv4_toString a"
    by (rule exI [of _ "[10, 0, 0, 7]"]) simp
  ultimately show ?thesis
    by (simp add: publishes_def publisher_def default_config_def profile_defs)
qed


section \<open>Expiry, and datagrams of any kind\<close>

definition slots_ok :: "session_slot list \<Rightarrow> bool" where
  "slots_ok slots \<longleftrightarrow> length slots = kMaximumDiscoveredSessions \<and> (\<forall>sl \<in> set slots. slot_wf sl)"

lemma slots_ok_at: "slots_ok slots \<Longrightarrow> i < length slots \<Longrightarrow> slot_wf (slots ! i)"
  by (simp add: slots_ok_def)

text \<open>The closing operations without the assumption that the keys differ, which a truncated origin
  breaks.\<close>

lemma close_some_slots:
  assumes "slots_ok slots"
    and f: "\<And>sl. slot_wf sl \<Longrightarrow> f sl = (case own_view sl of None \<Rightarrow> sl
      | Some s \<Rightarrow> if keep s then sl else endWrite (beginWrite sl) False)"
  shows "slots_ok (map f slots)" "dir_entries (map f slots) = {s \<in> dir_entries slots. keep s}"
proof -
  have "slot_wf (f sl)" if "slot_wf sl" for sl
    using that f [OF that] closed_slot(1) [OF that] by (auto split: option.splits)
  with assms(1) show "slots_ok (map f slots)" by (simp add: slots_ok_def)
  have "visible (map f slots) i s \<longleftrightarrow> visible slots i s \<and> keep s" for i s
    using f [OF slots_ok_at [OF assms(1)]] closed_slot(2) [OF slots_ok_at [OF assms(1)]]
    by (auto simp: visible_map visible_def split: option.splits if_splits)
  then show "dir_entries (map f slots) = {s \<in> dir_entries slots. keep s}" by (auto simp: dir_entries_iff)
qed

lemma expire_any:
  assumes "slots_ok slots"
  shows "slots_ok (dir_expire slots t)" "dir_entries (dir_expire slots t) = {s \<in> dir_entries slots. t \<le> sn_lastSeen s}"
  unfolding dir_expire_def
  by (rule close_some_slots [OF assms]; auto simp: expire_slot_def split: option.splits)+

lemma erase_any:
  assumes "slots_ok slots"
  shows "slots_ok (dir_erase slots h origin)" "dir_entries (dir_erase slots h origin) \<subseteq> dir_entries slots"
proof -
  note c = close_some_slots [OF assms, of "erase_slot h origin" "\<lambda>s. sn_key s \<noteq> (h, origin)"]
  have f: "erase_slot h origin sl = (case own_view sl of None \<Rightarrow> sl
      | Some s \<Rightarrow> if sn_key s \<noteq> (h, origin) then sl else endWrite (beginWrite sl) False)" for sl
    by (auto simp: erase_slot_def sn_key_def split: option.splits)
  show "slots_ok (dir_erase slots h origin)" "dir_entries (dir_erase slots h origin) \<subseteq> dir_entries slots"
    unfolding dir_erase_def using c [OF f] by auto
qed

lemma upsert_any:
  assumes "slots_ok slots"
  shows "slots_ok (dir_upsert slots h session now)"
    "dir_entries (dir_upsert slots h session now) \<subseteq> insert (snapshot_of h session now) (dir_entries slots)"
proof -
  let ?i = "upsert_scan slots 0 h (sd_originAddress session) None 0 (- 1)"
  let ?new = "endWrite (store_session (beginWrite (slots ! ?i)) h session now) True"
  have upd: "dir_upsert slots h session now = slots[?i := ?new]" by (simp add: dir_upsert_def Let_def)
  have "slots_ok (slots[?i := ?new])
    \<and> dir_entries (slots[?i := ?new]) \<subseteq> insert (snapshot_of h session now) (dir_entries slots)"
  proof (cases "?i < length slots")
    case True
    note new = stored_slot [OF slots_ok_at [OF assms True], of h session now]
    have "slots_ok (slots[?i := ?new])"
      using assms new(1) set_update_subset_insert [of slots ?i ?new] by (auto simp: slots_ok_def)
    moreover have "s \<in> insert (snapshot_of h session now) (dir_entries slots)"
      if "s \<in> dir_entries (slots[?i := ?new])" for s
      using that visible_update [OF True new(2)] by (auto simp: dir_entries_iff split: if_splits)
    ultimately show ?thesis by blast
  next
    case False
    then have "slots[?i := ?new] = slots" by (simp add: list_update_beyond)
    then show ?thesis using assms by (simp only:) blast
  qed
  then show "slots_ok (dir_upsert slots h session now)"
    "dir_entries (dir_upsert slots h session now) \<subseteq> insert (snapshot_of h session now) (dir_entries slots)"
    by (simp_all only: upd)
qed

lemma sap_decode_total: "\<exists>r. sap_decode bs m = Some r"
  using sap_decode_defined [of bs m] by auto

lemma discovery_message_effect:
  assumes "slots_ok (bk_discoveredSessions b)"
  shows "\<exists>b'. discovery_message c now bs b = Some b' \<and> slots_ok (bk_discoveredSessions b')
    \<and> (\<forall>s \<in> dir_entries (bk_discoveredSessions b'). s \<in> dir_entries (bk_discoveredSessions b) \<or> sn_lastSeen s = now)"
proof -
  obtain decoded m err where dec: "sap_decode bs default_sap = Some (decoded, m, err)"
    using sap_decode_total by (metis prod_cases3)
  consider "\<not> decoded \<or> sap_payloadType m \<noteq> ''application/sdp''" | "decoded" "sap_payloadType m = ''application/sdp''"
    by blast
  then show ?thesis
  proof cases
    case 1
    then show ?thesis using assms by (simp add: discovery_message_def dec)
  next
    case 2
    show ?thesis
    proof (cases "sdp_parse (sap_sdp m)")
      case (Inl err')
      then show ?thesis using 2 assms by (simp add: discovery_message_def dec)
    next
      case (Inr session)
      let ?e = "dir_erase (bk_discoveredSessions b) (sap_messageHash m) (sd_originAddress session)"
      let ?u = "dir_upsert (bk_discoveredSessions b) (sap_messageHash m) session now"
      have "sn_lastSeen (snapshot_of (sap_messageHash m) session now) = now" by (simp add: snapshot_of_def)
      with upsert_any(2) [OF assms, of "sap_messageHash m" session now]
      have up: "\<forall>s \<in> dir_entries ?u. s \<in> dir_entries (bk_discoveredSessions b) \<or> sn_lastSeen s = now" by blast
      have er: "\<forall>s \<in> dir_entries ?e. s \<in> dir_entries (bk_discoveredSessions b)" using erase_any(2) [OF assms] by blast
      show ?thesis
        using 2 Inr up er assms erase_any(1) [OF assms] upsert_any(1) [OF assms]
        by (simp add: discovery_message_def dec)
    qed
  qed
qed

lemma oldest_le_now: "oldest_allowed c now \<le> now"
proof (cases "now > ucast (lc_sapSessionTimeoutSeconds c) * 1000")
  case True
  then show ?thesis by (simp add: oldest_allowed_def Let_def word_sub_le)
qed (simp add: oldest_allowed_def Let_def)



end
