(* ===== verification/Engine_Lifecycle.thy ===== *)
theory Engine_Lifecycle
  imports Shared_Memory Session_Loops Transmit_Path
begin

text \<open>
  \<open>LiveEngine::start\<close> and \<open>LiveEngine::stop\<close> of Sources/Engine/LiveEngine.cpp: what a start checks and
  resets, what a stop leaves, and what an engine finds in a block that an earlier one left in the file.
  The effects of the threads in between are arbitrary changes of the state they share.
\<close>

section \<open>The code\<close>

text \<open>\<open>PTPClientConfig\<close> as \<open>start\<close> fills it, and the members of \<open>LiveEngine\<close> beside the state its stream
  threads share. From a successful open on, the contents of the mapping are the engine's \<open>en_block\<close>.\<close>

record ptp_endpoint =
  pe_multicastAddress :: string
  pe_interfaceAddress :: string
  pe_eventReceivePort :: u16
  pe_eventTransmitPort :: u16
  pe_generalReceivePort :: u16
  pe_domain :: u8

definition ptp_endpoint_of :: "live_engine_config \<Rightarrow> ptp_endpoint" where
  "ptp_endpoint_of c = \<lparr> pe_multicastAddress = lc_ptpAddress c, pe_interfaceAddress = lc_interfaceAddress c,
     pe_eventReceivePort = lc_ptpEventPort c, pe_eventTransmitPort = lc_ptpEventPort c,
     pe_generalReceivePort = lc_ptpGeneralPort c, pe_domain = kPTPDomain \<rparr>"

record engine_object =
  eo_engine :: live_engine
  eo_memory :: shared_memory
  eo_sapPublish :: bool
  eo_sapDiscovery :: bool
  eo_ptp :: "ptp_endpoint option"

definition new_engine_object :: "live_engine_config \<Rightarrow> engine_object" where
  "new_engine_object config = \<lparr> eo_engine = new_engine config new_block, eo_memory = new_memory,
     eo_sapPublish = False, eo_sapDiscovery = False, eo_ptp = None \<rparr>"

text \<open>What \<open>start\<close> meets: the address of an interface, the shared memory, the steady clock, the number of
  thread creations that succeed before one throws, and whether the PTP thread can be created.\<close>

record start_answers =
  sa_interfaceIPv4 :: "string \<Rightarrow> string"
  sa_memory :: memory_answers
  sa_steadyNow :: int
  sa_throwsAt :: "nat option"
  sa_ptpThread :: bool

definition engine_stop :: "engine_object \<Rightarrow> engine_object" where
  "engine_stop self =
     (let e = eo_engine self; b = en_block e in
      if \<not> en_running e then self
      else
        let b1 = (if eo_ptp self \<noteq> None then b\<lparr>bk_ptpLocked := False\<rparr> else b);
            b2 = (if sm_block (eo_memory self) \<noteq> None
              then b1\<lparr>bk_rxActive := False, bk_txActive := False, bk_activeStreamCount := 0, bk_engineRunning := False\<rparr>
              else b1)
        in self\<lparr>eo_engine := e\<lparr>en_running := False, en_streams := [], en_block := b2\<rparr>,
             eo_sapPublish := False, eo_sapDiscovery := False, eo_ptp := None\<rparr>)"

text \<open>Lines 102 to 113 and the streams of the loop: \<open>created\<close> runtimes.\<close>

definition prepared_engine :: "live_engine_config \<Rightarrow> int \<Rightarrow> shared_block \<Rightarrow> nat \<Rightarrow> live_engine \<Rightarrow> live_engine" where
  "prepared_engine config steadyNow b created e =
     e\<lparr>en_config := config, en_running := True,
       en_block := (resetRuntimeState b)\<lparr>bk_engineRunning := True, bk_ptpLocked := False,
         bk_activeStreamCount := ucast (lc_streamCount config)\<rparr>,
       en_activeReceivers := 0, en_activeTransmitters := 0, en_transmitReadyCount := 0,
       en_transmitEpochReady := False, en_consumeEpoch := steadyNow + 20000000,
       en_streams := en_streams e @ replicate created (new_runtime (lc_jitterPackets config))\<rparr>"

text \<open>\<open>PTPClient::start\<close> on the block: it clears the published measurement before its thread starts.\<close>

definition ptp_client_start :: "ptp_endpoint \<Rightarrow> bool \<Rightarrow> shared_block \<Rightarrow> bool \<times> shared_block" where
  "ptp_client_start p thread_ok b = (if pe_interfaceAddress p = [] then (False, b)
     else (thread_ok, b\<lparr>bk_ptpLocked := False, bk_statistics := (bk_statistics b)
       \<lparr>st_ptpOffsetNanoseconds := 0, st_ptpMeanPathDelayNanoseconds := 0\<rparr>\<rparr>))"

definition engine_services :: "live_engine_config \<Rightarrow> start_answers \<Rightarrow> engine_object \<Rightarrow> engine_object" where
  "engine_services config a self =
     (let self1 = self\<lparr>eo_sapPublish := lc_enableSAPPublication config, eo_sapDiscovery := lc_enableSAPDiscovery config\<rparr>
      in if \<not> lc_enablePTP config then self1
         else
           let endpoint = ptp_endpoint_of config;
               (started, b) = ptp_client_start endpoint (sa_ptpThread a) (en_block (eo_engine self1))
           in self1\<lparr>eo_engine := (eo_engine self1)\<lparr>en_block := b\<rparr>, eo_ptp := (if started then Some endpoint else None)\<rparr>)"

definition engine_start :: "int \<Rightarrow> start_answers \<Rightarrow> engine_object \<Rightarrow> bool \<times> engine_object" where
  "engine_start block_bytes a self =
     (let e = eo_engine self;
          config = (if lc_interfaceAddress (en_config e) = []
            then (en_config e)\<lparr>lc_interfaceAddress := sa_interfaceIPv4 a (lc_interfaceName (en_config e))\<rparr>
            else en_config e);
          self1 = self\<lparr>eo_engine := e\<lparr>en_config := config\<rparr>\<rparr>;
          (opened, memory, calls) = memory_open block_bytes True (sa_memory a) (eo_memory self);
          b = (case sm_block memory of Some (layout, b) \<Rightarrow> b | None \<Rightarrow> en_block e);
          streams = unat (lc_streamCount config);
          throws = (case sa_throwsAt a of Some t \<Rightarrow> t < 3 * streams | None \<Rightarrow> False);
          created = (if throws then the (sa_throwsAt a) div 3 + 1 else streams);
          self2 = self1\<lparr>eo_memory := memory, eo_engine := prepared_engine config (sa_steadyNow a) b created e\<rparr>
      in if en_running e then (False, self)
         else if \<not> routing_ok config \<or> \<not> transport_ok config then (False, self1)
         else if \<not> opened then (False, self1\<lparr>eo_memory := memory\<rparr>)
         else if throws then (False, engine_stop self2)
         else (True, engine_services config a self2))"

section \<open>Any sequence of starts and stops\<close>

text \<open>What the threads do to the state they share, while there are any.\<close>

datatype lifecycle_op = Start start_answers | Stop | Threads live_engine

fun lifecycle_step :: "int \<Rightarrow> lifecycle_op \<Rightarrow> engine_object \<Rightarrow> engine_object" where
  "lifecycle_step n (Start a) self = snd (engine_start n a self)"
| "lifecycle_step n Stop self = engine_stop self"
| "lifecycle_step n (Threads e') self =
     (let e = eo_engine self in
      if en_running e \<and> length (en_streams e') = length (en_streams e)
      then self\<lparr>eo_engine := e'\<lparr>en_config := en_config e, en_running := True\<rparr>\<rparr> else self)"

definition lifecycle_inv :: "engine_object \<Rightarrow> bool" where
  "lifecycle_inv self \<longleftrightarrow> (let e = eo_engine self in
     if en_running e
     then routing_ok (en_config e) \<and> transport_ok (en_config e)
       \<and> length (en_streams e) = unat (lc_streamCount (en_config e))
       \<and> (\<exists>b. sm_block (eo_memory self) = Some (new_layout, b)) \<and> 0 \<le> sm_descriptor (eo_memory self)
     else en_streams e = [] \<and> \<not> eo_sapPublish self \<and> \<not> eo_sapDiscovery self \<and> eo_ptp self = None)"

lemma engine_stop_inv: "lifecycle_inv self \<Longrightarrow> lifecycle_inv (engine_stop self)"
  by (simp add: engine_stop_def lifecycle_inv_def Let_def)

lemma engine_stop_running [simp]: "\<not> en_running (eo_engine (engine_stop self))"
  by (simp add: engine_stop_def Let_def)

lemma engine_services_select [simp]:
  "eo_memory (engine_services config a self) = eo_memory self"
  "en_running (eo_engine (engine_services config a self)) = en_running (eo_engine self)"
  "en_config (eo_engine (engine_services config a self)) = en_config (eo_engine self)"
  "en_streams (eo_engine (engine_services config a self)) = en_streams (eo_engine self)"
  by (simp_all add: engine_services_def Let_def split: prod.splits)

lemma engine_start_inv:
  assumes "lifecycle_inv self" "engine_start n a self = (ok, self')"
  shows "lifecycle_inv self' \<and> (ok \<longrightarrow> \<not> en_running (eo_engine self) \<and> en_running (eo_engine self'))
    \<and> (\<not> ok \<longrightarrow> en_running (eo_engine self') = en_running (eo_engine self))"
proof (cases "en_running (eo_engine self)")
  case True
  then show ?thesis using assms by (simp add: engine_start_def Let_def split: prod.splits)
next
  case False
  obtain opened memory calls where o: "memory_open n True (sa_memory a) (eo_memory self) = (opened, memory, calls)"
    by (metis prod_cases3)
  have opened: "opened \<Longrightarrow> (\<exists>b. sm_block memory = Some (new_layout, b)) \<and> 0 \<le> sm_descriptor memory"
    using memory_opened [OF o] by blast
  show ?thesis using False assms opened
    by (auto simp: engine_start_def o lifecycle_inv_def prepared_engine_def engine_stop_def Let_def split: if_splits)
qed


section \<open>What a successful start establishes\<close>

text \<open>Any successful start, in terms of the block that was mapped.\<close>

lemma engine_started:
  assumes "engine_start n a self = (True, self')" "lifecycle_inv self"
  obtains config b where
    "routing_ok config" "transport_ok config" "lc_streamCount config = lc_streamCount (en_config (eo_engine self))"
    "lc_coreAudioStartChannel config = lc_coreAudioStartChannel (en_config (eo_engine self))"
    "lc_jitterPackets config = lc_jitterPackets (en_config (eo_engine self))"
    "sm_block (eo_memory self') = Some (new_layout, b)"
    "\<exists>layout mem. ma_mmap (sa_memory a) = Some (layout, mem) \<and>
       b = (if ma_size (sa_memory a) = n \<and> layout = new_layout then mem else new_block)"
    "self' = engine_services config a (self\<lparr>eo_memory := eo_memory self',
       eo_engine := prepared_engine config (sa_steadyNow a) b (unat (lc_streamCount config)) (eo_engine self)\<rparr>)"
    "en_streams (eo_engine self) = []"
proof -
  obtain opened memory calls where o: "memory_open n True (sa_memory a) (eo_memory self) = (opened, memory, calls)"
    by (metis prod_cases3)
  let ?c = "if lc_interfaceAddress (en_config (eo_engine self)) = []
    then (en_config (eo_engine self))\<lparr>lc_interfaceAddress := sa_interfaceIPv4 a (lc_interfaceName (en_config (eo_engine self)))\<rparr>
    else en_config (eo_engine self)"
  have ok: "routing_ok ?c" "transport_ok ?c" "opened" "\<not> en_running (eo_engine self)"
    using assms(1) by (auto simp: engine_start_def o Let_def split: if_splits)
  obtain b layout mem where b: "sm_block memory = Some (new_layout, b)" "ma_mmap (sa_memory a) = Some (layout, mem)"
    "b = (if ma_size (sa_memory a) = n \<and> layout = new_layout then mem else new_block)"
    using memory_open_effect [OF o] ok(3) by auto
  have self': "self' = engine_services ?c a (self\<lparr>eo_memory := memory,
      eo_engine := prepared_engine ?c (sa_steadyNow a) b (unat (lc_streamCount ?c)) (eo_engine self)\<rparr>)"
    using assms(1) ok b(1) by (auto simp: engine_start_def o Let_def prepared_engine_def split: if_splits)
  have "en_streams (eo_engine self) = []" using assms(2) ok(4) by (simp add: lifecycle_inv_def Let_def)
  with ok b self' show ?thesis by (intro that [of ?c b]) auto
qed

lemma new_runtime_ok: "runtime_ok (new_runtime n)"
  by (simp add: runtime_ok_def new_runtime_def new_jitter_inv)

lemma closed_unreadable: "own_view (sl\<lparr>sl_active := False\<rparr>) = None"
proof -
  have "snapshot_attempts k (\<lambda>_. sl\<lparr>sl_active := False\<rparr>) m = None" for k m
    by (induction k arbitrary: m) (simp_all add: snapshot_attempt_def Let_def)
  then show ?thesis by (simp add: snapshotSlot_def)
qed

lemma closed_sessions: "dir_entries (map (\<lambda>session. session\<lparr>sl_active := False\<rparr>) slots) = {}"
  using closed_unreadable by (auto simp: dir_entries_def List.map_filter_def)

lemma services_block:
  "en_block (eo_engine (engine_services config a self)) = en_block (eo_engine self) \<or>
   en_block (eo_engine (engine_services config a self)) = (en_block (eo_engine self))\<lparr>bk_ptpLocked := False,
     bk_statistics := (bk_statistics (en_block (eo_engine self)))
       \<lparr>st_ptpOffsetNanoseconds := 0, st_ptpMeanPathDelayNanoseconds := 0\<rparr>\<rparr>"
  by (auto simp: engine_services_def ptp_client_start_def Let_def)

lemma services_engine:
  "eo_engine (engine_services config a self) = (eo_engine self)\<lparr>en_block := en_block (eo_engine (engine_services config a self))\<rparr>"
  by (simp add: engine_services_def Let_def split: prod.splits)

lemma new_block_clean: "\<not> bk_rxActive new_block \<and> \<not> bk_txActive new_block
    \<and> rings_ok (bk_networkToCoreAudio new_block) \<and> rings_ok (bk_coreAudioToNetwork new_block)"
  by (simp add: new_block_def rings_ok_def new_ring_inv)

lemma prepared_ready:
  fixes now :: int
  assumes "routing_ok config" "lc_coreAudioStartChannel config \<le> 64" "en_streams e = []"
    and "\<not> bk_rxActive b \<and> \<not> bk_txActive b \<and> rings_ok (bk_networkToCoreAudio b) \<and> rings_ok (bk_coreAudioToNetwork b)"
  defines "p \<equiv> prepared_engine config now b (unat (lc_streamCount config)) e"
  shows "engine_wf p \<and> epoch_inv p \<and> en_running p \<and> bk_statistics (en_block p) = zero_statistics
    \<and> dir_entries (bk_discoveredSessions (en_block p)) = {}
    \<and> bk_engineRunning (en_block p) \<and> \<not> bk_ptpLocked (en_block p)
    \<and> unat (bk_activeStreamCount (en_block p)) = length (en_streams p)"
proof -
  have count: "0 < unat (lc_streamCount config)" "unat (lc_streamCount config) \<le> 8"
    using routing_bounds [OF assms(1)] by simp_all
  have "unat (ucast (lc_streamCount config) :: u32) = unat (lc_streamCount config)"
    using count(2) by (simp add: unsigned_ucast_eq unsigned_take_bit_eq take_bit_nat_eq_self)
  moreover have "filter P (replicate k x) = []" if "\<not> P x" for P k and x :: stream_runtime using that by simp
  ultimately show ?thesis using assms(1-4) count new_runtime_ok [of "lc_jitterPackets config"]
    by (simp add: p_def prepared_engine_def engine_wf_def epoch_inv_def activity_inv_def resetRuntimeState_def
        closed_sessions profile_defs zero_statistics_def new_runtime_def)
qed

text \<open>The engine of a successful start is the prepared one, over the block that was mapped: the PTP client's
  clearing of a measurement that is still zero changes nothing.\<close>

lemma engine_start_prepared:
  assumes "engine_start n a self = (True, self')" "lifecycle_inv self"
    and "lc_coreAudioStartChannel (en_config (eo_engine self)) \<le> 64"
  obtains config b layout mem where "routing_ok config" "lc_coreAudioStartChannel config \<le> 64" "en_streams (eo_engine self) = []"
    "ma_mmap (sa_memory a) = Some (layout, mem)"
    "b = (if ma_size (sa_memory a) = n \<and> layout = new_layout then mem else new_block)"
    "eo_engine self' = prepared_engine config (sa_steadyNow a) b (unat (lc_streamCount config)) (eo_engine self)"
proof -
  obtain config b where c: "routing_ok config" "lc_coreAudioStartChannel config \<le> 64"
    and mem: "\<exists>layout mem. ma_mmap (sa_memory a) = Some (layout, mem) \<and>
       b = (if ma_size (sa_memory a) = n \<and> layout = new_layout then mem else new_block)"
    and self': "self' = engine_services config a (self\<lparr>eo_memory := eo_memory self',
       eo_engine := prepared_engine config (sa_steadyNow a) b (unat (lc_streamCount config)) (eo_engine self)\<rparr>)"
    and empty: "en_streams (eo_engine self) = []"
    using engine_started [OF assms(1,2)] assms(3) by metis
  let ?e = "prepared_engine config (sa_steadyNow a) b (unat (lc_streamCount config)) (eo_engine self)"
  have e: "eo_engine self' = ?e\<lparr>en_block := en_block (eo_engine self')\<rparr>"
    by (subst self', subst services_engine) (simp add: self' [symmetric])
  have "en_block (eo_engine self') = en_block ?e \<or> en_block (eo_engine self') = (en_block ?e)\<lparr>bk_ptpLocked := False,
      bk_statistics := (bk_statistics (en_block ?e))\<lparr>st_ptpOffsetNanoseconds := 0, st_ptpMeanPathDelayNanoseconds := 0\<rparr>\<rparr>"
    using services_block [of config a "self\<lparr>eo_memory := eo_memory self', eo_engine := ?e\<rparr>"] self' by simp
  moreover have "(en_block ?e)\<lparr>bk_ptpLocked := False,
      bk_statistics := (bk_statistics (en_block ?e))\<lparr>st_ptpOffsetNanoseconds := 0, st_ptpMeanPathDelayNanoseconds := 0\<rparr>\<rparr> = en_block ?e"
    by (simp add: prepared_engine_def resetRuntimeState_def)
  ultimately have "en_block (eo_engine self') = en_block ?e" by metis
  with e have "eo_engine self' = ?e" by simp
  with c empty mem that show ?thesis by blast
qed

lemma engine_start_ready:
  assumes "engine_start n a self = (True, self')" "lifecycle_inv self"
    and "lc_coreAudioStartChannel (en_config (eo_engine self)) \<le> 64"
    and left: "\<forall>layout b. ma_mmap (sa_memory a) = Some (layout, b) \<longrightarrow> \<not> bk_rxActive b \<and> \<not> bk_txActive b
      \<and> rings_ok (bk_networkToCoreAudio b) \<and> rings_ok (bk_coreAudioToNetwork b)"
  shows "engine_wf (eo_engine self') \<and> epoch_inv (eo_engine self') \<and> en_running (eo_engine self')
    \<and> bk_statistics (en_block (eo_engine self')) = zero_statistics
    \<and> dir_entries (bk_discoveredSessions (en_block (eo_engine self'))) = {}
    \<and> bk_engineRunning (en_block (eo_engine self')) \<and> \<not> bk_ptpLocked (en_block (eo_engine self'))
    \<and> unat (bk_activeStreamCount (en_block (eo_engine self'))) = length (en_streams (eo_engine self'))"
proof -
  obtain config b layout mem where c: "routing_ok config" "lc_coreAudioStartChannel config \<le> 64" "en_streams (eo_engine self) = []"
    and mem: "ma_mmap (sa_memory a) = Some (layout, mem)"
      "b = (if ma_size (sa_memory a) = n \<and> layout = new_layout then mem else new_block)"
    and e: "eo_engine self' = prepared_engine config (sa_steadyNow a) b (unat (lc_streamCount config)) (eo_engine self)"
    by (rule engine_start_prepared [OF assms(1-3)])
  have "\<not> bk_rxActive b \<and> \<not> bk_txActive b \<and> rings_ok (bk_networkToCoreAudio b) \<and> rings_ok (bk_coreAudioToNetwork b)"
    using mem left new_block_clean by (auto split: if_splits)
  from prepared_ready [OF c this] show ?thesis unfolding e .
qed

text \<open>A successful start on a fresh file, or on the block an engine left by stopping, establishes the
  invariants that the threads' proofs begin with: the well-formed engine and the unjoined epoch; the
  statistics are zero, no session is listed, and the block says how many streams are active.\<close>

theorem engine_start_establishes:
  assumes "engine_start n a self = (True, self')" "lifecycle_inv self"
    and "lc_coreAudioStartChannel (en_config (eo_engine self)) \<le> 64"
    and left: "\<forall>layout b. ma_mmap (sa_memory a) = Some (layout, b) \<longrightarrow> \<not> bk_rxActive b \<and> \<not> bk_txActive b
      \<and> rings_ok (bk_networkToCoreAudio b) \<and> rings_ok (bk_coreAudioToNetwork b)"
  shows "engine_wf (eo_engine self') \<and> epoch_inv (eo_engine self') \<and> en_running (eo_engine self')
    \<and> bk_statistics (en_block (eo_engine self')) = zero_statistics
    \<and> dir_entries (bk_discoveredSessions (en_block (eo_engine self'))) = {}
    \<and> bk_engineRunning (en_block (eo_engine self')) \<and> \<not> bk_ptpLocked (en_block (eo_engine self'))
    \<and> unat (bk_activeStreamCount (en_block (eo_engine self'))) = length (en_streams (eo_engine self'))"
  using engine_start_ready [OF assms] .

text \<open>A start that succeeds, for the witnesses.\<close>

definition demo_start :: "memory_answers \<Rightarrow> start_answers" where
  "demo_start m = \<lparr> sa_interfaceIPv4 = (\<lambda>_. ipv4_toString [10, 0, 0, 7]), sa_memory = m, sa_steadyNow = 0,
     sa_throwsAt = None, sa_ptpThread = True \<rparr>"

lemma demo_routing: "routing_ok publisher" "transport_ok publisher"
  using publisher_publishes default_groups toString_nonempty [of "[10, 0, 0, 7]"]
  by (simp_all add: publishes_def transport_ok_def publisher_def default_config_def bankAddress_base)

lemma demo_object: "lifecycle_inv (new_engine_object default_config)"
  "lc_coreAudioStartChannel (en_config (eo_engine (new_engine_object default_config))) \<le> 64"
  by (simp_all add: lifecycle_inv_def new_engine_object_def new_engine_def default_config_def)

lemma demo_started:
  assumes "fst (memory_open n True m new_memory)"
  shows "\<exists>self'. engine_start n (demo_start m) (new_engine_object default_config) = (True, self')"
proof -
  obtain mem calls where "memory_open n True m new_memory = (True, mem, calls)"
    using assms by (metis prod.collapse)
  moreover have "default_config\<lparr>lc_interfaceAddress := ipv4_toString [10, 0, 0, 7]\<rparr> = publisher"
    by (simp add: publisher_def)
  moreover have "lc_interfaceAddress default_config = []" by (simp add: default_config_def)
  ultimately show ?thesis using demo_routing
    by (simp add: engine_start_def new_engine_object_def new_engine_def demo_start_def Let_def)
qed

lemma demo_opens:
  assumes "ma_size m = n" "ma_mmap m = Some (new_layout, b)" "0 \<le> ma_open m" "ma_fstat m" "ma_flock m" "ma_fchmod m"
  shows "fst (memory_open n True m new_memory)"
  using assms by (simp add: memory_open_def owner_setup_def placed_def memory_close_def valid_layout_iff Let_def)

definition left_answers :: "shared_block \<Rightarrow> memory_answers" where
  "left_answers b = sample_answers\<lparr>ma_size := 4205760, ma_mmap := Some (new_layout, b)\<rparr>"

lemma left_opens:
  "\<exists>self'. engine_start 4205760 (demo_start (left_answers b)) (new_engine_object default_config) = (True, self')"
  by (intro demo_started demo_opens) (simp_all add: left_answers_def sample_answers_def)

theorem engine_start_establishes_witness:
  "\<exists>self'. engine_start 4205760 (demo_start (left_answers new_block)) (new_engine_object default_config) = (True, self')
    \<and> engine_wf (eo_engine self') \<and> epoch_inv (eo_engine self')"
proof -
  obtain self' where start: "engine_start 4205760 (demo_start (left_answers new_block)) (new_engine_object default_config) = (True, self')"
    using left_opens by blast
  have "\<forall>layout b. ma_mmap (sa_memory (demo_start (left_answers new_block))) = Some (layout, b) \<longrightarrow>
      \<not> bk_rxActive b \<and> \<not> bk_txActive b \<and> rings_ok (bk_networkToCoreAudio b) \<and> rings_ok (bk_coreAudioToNetwork b)"
    using new_block_clean by (simp add: demo_start_def left_answers_def)
  from engine_start_establishes [OF start demo_object this]
  have "engine_wf (eo_engine self') \<and> epoch_inv (eo_engine self')" by blast
  with start show ?thesis by blast
qed


section \<open>What a crashed engine leaves\<close>

text \<open>The activity flag: \<open>start\<close> does not clear it, and a stream that is not active does not either.\<close>

lemma inactive_unchanged:
  assumes "\<forall>bank \<in> set banks. \<not> rt_rxActive (en_streams e ! bank)"
  shows "fold (\<lambda>bank. setRxActive bank False) banks e = e"
  using assms by (induction banks) (simp_all add: setRxActive_def)

text \<open>An engine that starts on the block a crashed engine left with \<open>rxActive\<close> set says that something is
  received although no stream is active, and the calls with which its threads begin leave it so.\<close>

theorem stale_activity_after_crash:
  assumes "engine_start n a self = (True, self')" "lifecycle_inv self"
    and "ma_mmap (sa_memory a) = Some (new_layout, b)" "ma_size (sa_memory a) = n" "bk_rxActive b"
    and "\<forall>bank \<in> set banks. bank < length (en_streams (eo_engine self'))"
  shows "bk_rxActive (en_block (fold (\<lambda>bank. setRxActive bank False) banks (eo_engine self')))
    \<and> (\<forall>r \<in> set (en_streams (fold (\<lambda>bank. setRxActive bank False) banks (eo_engine self'))). \<not> rt_rxActive r)"
proof -
  obtain config where
    self': "self' = engine_services config a (self\<lparr>eo_memory := eo_memory self',
       eo_engine := prepared_engine config (sa_steadyNow a) b (unat (lc_streamCount config)) (eo_engine self)\<rparr>)"
    and empty: "en_streams (eo_engine self) = []"
    using engine_started [OF assms(1,2)] assms(3,4) by (metis option.inject prod.inject)
  have streams: "\<forall>r \<in> set (en_streams (eo_engine self')). \<not> rt_rxActive r"
    by (subst self') (simp add: prepared_engine_def empty new_runtime_def)
  have "bk_rxActive (en_block (eo_engine self'))"
    using services_block [of config a "self\<lparr>eo_memory := eo_memory self', eo_engine := prepared_engine config
      (sa_steadyNow a) b (unat (lc_streamCount config)) (eo_engine self)\<rparr>"] assms(5)
    unfolding self' [symmetric] by (auto simp: prepared_engine_def resetRuntimeState_def)
  moreover have "fold (\<lambda>bank. setRxActive bank False) banks (eo_engine self') = eo_engine self'"
    using assms(6) streams by (intro inactive_unchanged) simp
  ultimately show ?thesis using streams by simp
qed

definition crash_block :: shared_block where
  "crash_block = new_block\<lparr>bk_rxActive := True,
     bk_discoveredSessions := (bk_discoveredSessions new_block)[0 := beginWrite new_slot]\<rparr>"

lemma crash_mapped: "ma_mmap (sa_memory (demo_start (left_answers b))) = Some (new_layout, b)"
  "ma_size (sa_memory (demo_start (left_answers b))) = 4205760"
  by (simp_all add: demo_start_def left_answers_def)

theorem stale_activity_after_crash_witness:
  "\<exists>self'. engine_start 4205760 (demo_start (left_answers crash_block)) (new_engine_object default_config) = (True, self')
    \<and> bk_rxActive (en_block (eo_engine self')) \<and> (\<forall>r \<in> set (en_streams (eo_engine self')). \<not> rt_rxActive r)"
proof -
  obtain self' where start: "engine_start 4205760 (demo_start (left_answers crash_block)) (new_engine_object default_config) = (True, self')"
    using left_opens by blast
  show ?thesis
    using stale_activity_after_crash [OF start demo_object(1) crash_mapped, of "[]"] start by (auto simp: crash_block_def)
qed

text \<open>A slot of the directory whose revision is odd: a crash between \<open>beginWrite\<close> and \<open>endWrite\<close>. Slot \<open>i\<close> is
  such a slot and no slot behind it can be read.\<close>

definition dead_from :: "nat \<Rightarrow> session_slot list \<Rightarrow> bool" where
  "dead_from i slots \<longleftrightarrow> i < length slots \<and> sl_revision (slots ! i) AND 1 \<noteq> 0
     \<and> (\<forall>j. i < j \<longrightarrow> j < length slots \<longrightarrow> own_view (slots ! j) = None)"

lemma odd_unreadable: "sl_revision sl AND 1 \<noteq> 0 \<Longrightarrow> own_view sl = None"
proof -
  assume "sl_revision sl AND 1 \<noteq> 0"
  then have "snapshot_attempts k (\<lambda>_. sl) m = None" for k m
    by (induction k arbitrary: m) (simp_all add: snapshot_attempt_def Let_def)
  then show ?thesis by (simp add: snapshotSlot_def)
qed

lemma dead_unreadable: "dead_from i slots \<Longrightarrow> i \<le> j \<Longrightarrow> j < length slots \<Longrightarrow> own_view (slots ! j) = None"
  using odd_unreadable by (cases "i = j") (auto simp: dead_from_def)

lemma dead_entries: "dead_from i slots \<Longrightarrow> card (dir_entries slots) \<le> i"
proof -
  assume dead: "dead_from i slots"
  have "dir_entries slots \<subseteq> (\<lambda>j. the (own_view (slots ! j))) ` {..<i}"
  proof
    fix s assume "s \<in> dir_entries slots"
    then obtain j where "j < length slots" "own_view (slots ! j) = Some s"
      unfolding dir_entries_iff visible_def by blast
    moreover from this have "j < i" using dead_unreadable [OF dead, of j] by force
    ultimately show "s \<in> (\<lambda>j. the (own_view (slots ! j))) ` {..<i}" by (intro image_eqI [of _ _ j]) auto
  qed
  then show ?thesis using card_mono card_image_le by (metis card_lessThan finite_imageI finite_lessThan le_trans)
qed

lemma odd_again: "(r + 1 + 1 :: u32) AND 1 = r AND 1"
  by (simp add: and_one_eq mod_2_eq_odd)

lemma scan_target: "\<forall>sl \<in> set slots. own_view sl = None \<Longrightarrow> upsert_scan slots s h origin (Some t) old time = t"
  by (induction slots arbitrary: s) simp_all

lemma scan_dead:
  assumes "j < length slots" "own_view (slots ! j) = None" "\<forall>k. j < k \<longrightarrow> k < length slots \<longrightarrow> own_view (slots ! k) = None"
    and "\<forall>t. target = Some t \<longrightarrow> t \<le> s + j"
  shows "upsert_scan slots s h origin target old time \<le> s + j"
  using assms
proof (induction slots arbitrary: s j target old time)
  case (Cons sl slots)
  show ?case
  proof (cases j)
    case 0
    have "own_view (slots ! k) = None" if "k < length slots" for k
      using spec [OF Cons.prems(3), of "Suc k"] 0 that by simp
    then have "\<forall>x \<in> set slots. own_view x = None" by (auto simp: in_set_conv_nth)
    from scan_target [OF this] show ?thesis using Cons.prems(2,4) 0 by (cases target) auto
  next
    case (Suc j')
    have rest: "\<forall>k. j' < k \<longrightarrow> k < length slots \<longrightarrow> own_view (slots ! k) = None" using Cons.prems(3) Suc by auto
    have "upsert_scan slots (s + 1) h origin target' old' time' \<le> (s + 1) + j'" if "\<forall>t. target' = Some t \<longrightarrow> t \<le> s + j" for target' old' time'
      by (rule Cons.IH) (use Cons.prems(1,2) Suc that rest in auto)
    with Cons.prems(4) Suc show ?thesis by (auto split: option.splits)
  qed
qed simp

lemma dead_map:
  assumes "dead_from i slots" "\<And>sl. own_view sl = None \<Longrightarrow> f sl = sl"
  shows "dead_from i (map f slots)"
proof -
  have "f (slots ! j) = slots ! j" if "i \<le> j" "j < length slots" for j
    using assms(2) dead_unreadable [OF assms(1) that] .
  with assms(1) show ?thesis by (auto simp: dead_from_def)
qed

lemma dead_upsert: "dead_from i slots \<Longrightarrow> dead_from i (dir_upsert slots h session now)"
proof -
  assume dead: "dead_from i slots"
  let ?k = "upsert_scan slots 0 h (sd_originAddress session) None 0 (- 1)"
  let ?new = "endWrite (store_session (beginWrite (slots ! ?k)) h session now) True"
  have k: "?k \<le> i" using scan_dead [of i slots None 0] dead dead_unreadable [OF dead] by (simp add: dead_from_def)
  have "sl_revision ?new AND 1 = sl_revision (slots ! ?k) AND 1"
    using odd_again [of "sl_revision (slots ! ?k)"] by (simp add: endWrite_def store_session_def beginWrite_def)
  then show ?thesis using dead k
    by (cases "?k = i") (auto simp: dir_upsert_def Let_def dead_from_def nth_list_update)
qed

lemma dead_message:
  assumes "dead_from i (bk_discoveredSessions b)"
  shows "\<exists>b'. discovery_message c now bs b = Some b' \<and> dead_from i (bk_discoveredSessions b')"
proof -
  obtain decoded m err where dec: "sap_decode bs default_sap = Some (decoded, m, err)"
    using sap_decode_total by (metis prod_cases3)
  have "dead_from i (dir_erase (bk_discoveredSessions b) h origin)" for h origin
    unfolding dir_erase_def by (rule dead_map [OF assms]) (simp add: erase_slot_def)
  with assms dead_upsert [OF assms] show ?thesis
    by (cases "sdp_parse (sap_sdp m)") (auto simp: discovery_message_def dec)
qed

fun discovery_run :: "live_engine_config \<Rightarrow> (u64 \<times> reception) list \<Rightarrow> shared_block \<Rightarrow> shared_block option" where
  "discovery_run c [] b = Some b"
| "discovery_run c ((now, received) # rest) b =
     Option.bind (discovery_iteration c now received b) (\<lambda>(goes_on, b'). discovery_run c rest b')"

lemma dead_run:
  assumes "dead_from i (bk_discoveredSessions b)"
  shows "\<exists>b'. discovery_run c events b = Some b' \<and> dead_from i (bk_discoveredSessions b')"
  using assms
proof (induction events arbitrary: b)
  case (Cons event events)
  obtain now received where event: "event = (now, received)" by fastforce
  let ?b1 = "b\<lparr>bk_discoveredSessions := dir_expire (bk_discoveredSessions b) (oldest_allowed c now)\<rparr>"
  have "dead_from i (dir_expire (bk_discoveredSessions b) (oldest_allowed c now))"
    unfolding dir_expire_def by (rule dead_map [OF Cons.prems]) (simp add: expire_slot_def)
  then have dead: "dead_from i (bk_discoveredSessions ?b1)" by simp
  have "\<exists>goes_on b1. discovery_iteration c now received b = Some (goes_on, b1) \<and> dead_from i (bk_discoveredSessions b1)"
    using dead_message [OF dead] dead by (cases received) (fastforce simp: discovery_iteration_def Let_def)+
  with Cons.IH show ?case by (fastforce simp: event)
qed simp

text \<open>An engine that was killed while it wrote slot \<open>i\<close> of the directory leaves an odd revision in the file,
  which the next engine's start keeps. From then on the directory never holds more than \<open>i\<close> sessions,
  whatever is announced: with the first slot, in which the first session is refreshed, none at all.\<close>

theorem crash_disables_directory:
  assumes "engine_start n a self = (True, self')" "lifecycle_inv self"
    and "ma_mmap (sa_memory a) = Some (new_layout, b)" "ma_size (sa_memory a) = n"
    and "i < length (bk_discoveredSessions b)" "sl_revision (bk_discoveredSessions b ! i) AND 1 \<noteq> 0"
  shows "\<exists>b'. discovery_run c events (en_block (eo_engine self')) = Some b'
    \<and> card (dir_entries (bk_discoveredSessions b')) \<le> i"
proof -
  obtain config where
    self': "self' = engine_services config a (self\<lparr>eo_memory := eo_memory self',
       eo_engine := prepared_engine config (sa_steadyNow a) b (unat (lc_streamCount config)) (eo_engine self)\<rparr>)"
    using engine_started [OF assms(1,2)] assms(3,4) by (metis option.inject prod.inject)
  have "bk_discoveredSessions (en_block (eo_engine self'))
      = map (\<lambda>session. session\<lparr>sl_active := False\<rparr>) (bk_discoveredSessions b)"
    using services_block [of config a "self\<lparr>eo_memory := eo_memory self', eo_engine := prepared_engine config
      (sa_steadyNow a) b (unat (lc_streamCount config)) (eo_engine self)\<rparr>"]
    unfolding self' [symmetric] by (auto simp: prepared_engine_def resetRuntimeState_def)
  then have "dead_from i (bk_discoveredSessions (en_block (eo_engine self')))"
    using assms(5,6) closed_unreadable by (simp add: dead_from_def)
  from dead_run [OF this] dead_entries show ?thesis by blast
qed

theorem crash_disables_directory_witness:
  "\<exists>self' b'. engine_start 4205760 (demo_start (left_answers crash_block)) (new_engine_object default_config) = (True, self')
    \<and> discovery_run default_config [(77, Received (sap_encode (bank_announcement publisher 0)))]
        (en_block (eo_engine self')) = Some b'
    \<and> card (dir_entries (bk_discoveredSessions b')) = 0"
proof -
  obtain self' where start: "engine_start 4205760 (demo_start (left_answers crash_block)) (new_engine_object default_config) = (True, self')"
    using left_opens by blast
  have "0 < length (bk_discoveredSessions crash_block)" "sl_revision (bk_discoveredSessions crash_block ! 0) AND 1 \<noteq> 0"
    by (simp_all add: crash_block_def new_block_def beginWrite_def new_slot_def kMaximumDiscoveredSessions_def)
  from crash_disables_directory [OF start demo_object(1) crash_mapped this] start show ?thesis by fastforce
qed

end
