(* ===== verification/Polling_Interface.thy ===== *)
theory Polling_Interface
  imports Main
begin

text \<open>
  What the program's waiting loops promise: round after round they look at the system and leave in the first
  round whose condition holds, with that round's result.
\<close>

locale polling =
  fixes loop :: "nat \<Rightarrow> 'r option" and leaves :: "nat \<Rightarrow> bool" and result :: "nat \<Rightarrow> 'r"
  assumes round: "loop i = (if leaves i then Some (result i) else loop (i + 1))"
begin

lemma leaves_after:
  assumes "leaves (i + n)" "\<forall>j < n. \<not> leaves (i + j)"
  shows "loop i = Some (result (i + n))"
  using assms
proof (induction n arbitrary: i)
  case (Suc n)
  have "loop (i + 1) = Some (result ((i + 1) + n))"
    using Suc.prems by (intro Suc.IH) (auto dest: spec [of _ "Suc _"])
  moreover have "\<not> leaves i" using Suc.prems(2) by fastforce
  ultimately show ?case by (subst round) simp
qed (simp add: round)

lemma ends:
  assumes "leaves m"
  shows "\<exists>k \<le> m. loop 0 = Some (result k) \<and> leaves k \<and> (\<forall>j < k. \<not> leaves j)"
proof -
  obtain k where k: "leaves k" "\<forall>j < k. \<not> leaves j" "k \<le> m"
    using assms by (metis LeastI Least_le not_less_Least)
  then have "loop 0 = Some (result k)" using leaves_after [of 0 k] by simp
  with k show ?thesis by blast
qed

end

text \<open>A clock that advances by at least \<open>step\<close> in each round.\<close>

lemma clock_after:
  fixes clock :: "nat \<Rightarrow> int"
  assumes "\<forall>i. clock (i + 1) \<ge> clock i + step"
  shows "clock 0 + int n * step \<le> clock n"
proof (induction n)
  case (Suc n)
  have "clock (Suc n) \<ge> clock n + step" using assms by simp
  with Suc show ?case by (simp add: algebra_simps)
qed simp

end
