(* ===== verification/Engine_Options.thy ===== *)
theory Engine_Options
  imports Engine_Lifecycle Polling_Interface
begin

text \<open>
  The command line of Sources/Engine/EngineMain.cpp: which command is chosen, how an engine's
  configuration is read from the options, and the loop in which \<open>main\<close> waits. \<open>argv\<close> is the list of
  arguments with the program's name first.
\<close>

section \<open>The code\<close>

fun value_scan :: "string \<Rightarrow> string list \<Rightarrow> string option" where
  "value_scan option (argument # next_argument # rest) =
     (if argument = option then Some next_argument else value_scan option (next_argument # rest))"
| "value_scan option _ = None"

definition valueAfter :: "string list \<Rightarrow> string \<Rightarrow> string option" where
  "valueAfter argv option = value_scan option (drop 1 argv)"

definition hasOption :: "string list \<Rightarrow> string \<Rightarrow> bool" where
  "hasOption argv option = list_ex (\<lambda>argument. argument = option) (drop 1 argv)"

definition value_or :: "string option \<Rightarrow> string \<Rightarrow> string" where
  "value_or value otherwise = (case value of Some v \<Rightarrow> v | None \<Rightarrow> otherwise)"

text \<open>\<open>std::stoull\<close> in base 10, which is \<open>strtoull\<close>: spaces, an optional sign, digits; a minus sign
  negates modulo \<open>2 ^ 64\<close>. \<open>None\<close> is an exception, the number is \<open>consumed\<close>.\<close>

definition is_space :: "char \<Rightarrow> bool" where
  "is_space c \<longleftrightarrow> c = CHR '' '' \<or> 9 \<le> (of_char c :: nat) \<and> (of_char c :: nat) \<le> 13"

definition split_sign :: "string \<Rightarrow> bool \<times> string" where
  "split_sign s = (case s of [] \<Rightarrow> (False, []) | c # cs \<Rightarrow>
     if c = CHR ''-'' then (True, cs) else if c = CHR ''+'' then (False, cs) else (False, s))"

definition stoull :: "string \<Rightarrow> (u64 \<times> nat) option" where
  "stoull value =
     (let c_str = takeWhile (\<lambda>c. c \<noteq> CHR 0x00) value;
          unspaced = dropWhile is_space c_str;
          (negative, unsigned) = split_sign unspaced;
          digits = takeWhile is_digit unsigned
      in if digits = [] \<or> decval digits \<ge> 2 ^ 64 then None
         else Some (if negative then - of_nat (decval digits) else of_nat (decval digits),
                length c_str - length unsigned + length digits))"

definition parseUnsigned :: "string \<Rightarrow> u64 \<Rightarrow> u64 option" where
  "parseUnsigned value maximum = (case stoull value of
     None \<Rightarrow> None
   | Some (parsed, consumed) \<Rightarrow> if consumed \<noteq> length value \<or> parsed > maximum then None else Some parsed)"

definition number_option :: "string list \<Rightarrow> string \<Rightarrow> u64 \<Rightarrow> u64 \<Rightarrow> u64 option" where
  "number_option argv option maximum otherwise =
     (case valueAfter argv option of Some value \<Rightarrow> parseUnsigned value maximum | None \<Rightarrow> Some otherwise)"

text \<open>The commands of \<open>main\<close>, up to line 194.\<close>

datatype command = List_interfaces | Print_tx_sdp string | Status | Usage int | Run

definition engine_command :: "string list \<Rightarrow> command" where
  "engine_command argv =
     (if length argv = 2 \<and> argv ! 1 = ''--list-interfaces'' then List_interfaces
      else if length argv = 3 \<and> argv ! 1 = ''--print-tx-sdp'' then Print_tx_sdp (argv ! 2)
      else if hasOption argv ''--status'' then Status
      else if \<not> hasOption argv ''--run'' then Usage (if length argv = 1 then 0 else 2)
      else Run)"

definition print_tx_sdp :: "string \<Rightarrow> string" where
  "print_tx_sdp address = sdp_generate (default_session\<lparr>sd_name := kMacSessionName, sd_originAddress := address,
     sd_sourceAddress := address, sd_multicastAddress := ''239.69.83.81''\<rparr>)"

text \<open>The profile of line 199: the configuration it changes, or an unknown profile.\<close>

definition apply_profile :: "string \<Rightarrow> live_engine_config \<Rightarrow> live_engine_config option" where
  "apply_profile profile c =
     (if profile = ''computer-a'' then Some (c\<lparr>lc_streamCount := of_nat kStreamBankCount,
        lc_rxAddress := ''239.69.83.80'', lc_txAddress := ''239.69.83.96''\<rparr>)
      else if profile = ''computer-b'' then Some (c\<lparr>lc_streamCount := of_nat kStreamBankCount,
        lc_rxAddress := ''239.69.83.96'', lc_txAddress := ''239.69.83.80''\<rparr>)
      else if profile \<noteq> ''raspberry'' then None else Some c)"

text \<open>Lines 196 to 249; \<open>None\<close> is the exit code 2. The second component is the parent's process id.\<close>

definition parse_options :: "string list \<Rightarrow> (live_engine_config \<times> u32) option" where
  "parse_options argv = do {
     c \<leftarrow> apply_profile (value_or (valueAfter argv ''--profile'') ''raspberry'')
       (default_config\<lparr>lc_interfaceName := value_or (valueAfter argv ''--interface'') [],
          lc_interfaceAddress := value_or (valueAfter argv ''--interface-address'') []\<rparr>);
     let c1 = c\<lparr>lc_rxAddress := value_or (valueAfter argv ''--rx-group'') (lc_rxAddress c),
       lc_rxSourceAddress := value_or (valueAfter argv ''--rx-source'') [],
       lc_txAddress := value_or (valueAfter argv ''--tx-group'') (lc_txAddress c),
       lc_enableSAPPublication := \<not> hasOption argv ''--no-sap'' \<and> \<not> hasOption argv ''--no-sap-publish'',
       lc_enableSAPDiscovery := \<not> hasOption argv ''--no-sap'' \<and> \<not> hasOption argv ''--no-sap-discovery'',
       lc_enablePTP := \<not> hasOption argv ''--no-ptp''\<rparr>;
     rxPort \<leftarrow> number_option argv ''--rx-port'' 65535 (ucast (lc_rxPort c1));
     txPort \<leftarrow> number_option argv ''--tx-port'' 65535 (ucast (lc_txPort c1));
     streamCount \<leftarrow> number_option argv ''--stream-count'' (of_nat kStreamBankCount) (lc_streamCount c1);
     channels \<leftarrow> number_option argv ''--channels-per-stream'' (of_nat kAES67ChannelsPerStream) (lc_channelsPerStream c1);
     startChannel \<leftarrow> number_option argv ''--core-audio-start-channel'' (of_nat kVirtualChannels) (lc_coreAudioStartChannel c1);
     stride \<leftarrow> number_option argv ''--port-stride'' 65535 (ucast (lc_portStride c1));
     jitter \<leftarrow> number_option argv ''--jitter-packets'' 63 (of_nat (lc_jitterPackets c1));
     rxType \<leftarrow> number_option argv ''--rx-payload-type'' 127 (ucast (lc_rxPayloadType c1));
     txType \<leftarrow> number_option argv ''--tx-payload-type'' 127 (ucast (lc_txPayloadType c1));
     parent \<leftarrow> number_option argv ''--parent-pid'' 4294967295 0;
     let c2 = c1\<lparr>lc_rxPort := ucast rxPort, lc_txPort := ucast txPort, lc_streamCount := streamCount,
       lc_channelsPerStream := channels, lc_coreAudioStartChannel := startChannel, lc_portStride := ucast stride,
       lc_jitterPackets := unat jitter, lc_rxPayloadType := ucast rxType, lc_txPayloadType := ucast txType\<rparr>;
     if valueAfter argv ''--parent-pid'' \<noteq> None \<and> parent = 0 then None
     else if lc_jitterPackets c2 < 2 then None
     else if lc_streamCount c2 < 1 then None
     else if \<not> supportedAES67ChannelCount (unat (lc_channelsPerStream c2)) then None
     else if lc_coreAudioStartChannel c2 < 1
       \<or> lc_coreAudioStartChannel c2 - 1 + lc_streamCount c2 * lc_channelsPerStream c2 > of_nat kVirtualChannels then None
     else if lc_interfaceName c2 = [] \<and> lc_interfaceAddress c2 = [] then None
     else Some (c2, ucast parent)
   }"

section \<open>Numbers\<close>

lemma parseUnsigned_bound: "parseUnsigned value maximum = Some n \<Longrightarrow> n \<le> maximum"
  by (auto simp: parseUnsigned_def split: option.splits if_splits)

lemma number_option_bound:
  "number_option argv option maximum otherwise = Some n \<Longrightarrow> otherwise \<le> maximum \<Longrightarrow> n \<le> maximum"
  by (auto simp: number_option_def split: option.splits dest: parseUnsigned_bound)

lemma apply_profile_bounds:
  "apply_profile profile c = Some c' \<Longrightarrow> lc_streamCount c \<le> 8 \<Longrightarrow> lc_streamCount c' \<le> 8
    \<and> lc_channelsPerStream c' = lc_channelsPerStream c \<and> lc_coreAudioStartChannel c' = lc_coreAudioStartChannel c
    \<and> lc_jitterPackets c' = lc_jitterPackets c \<and> lc_rxPayloadType c' = lc_rxPayloadType c
    \<and> lc_txPayloadType c' = lc_txPayloadType c"
  by (auto simp: apply_profile_def profile_defs split: if_splits)

lemma ucast_u8_bound:
  fixes w :: u64
  assumes "w \<le> 127"
  shows "(ucast w :: u8) \<le> 127"
proof -
  have "unat (ucast w :: u8) = unat w"
    using assms by (simp add: unsigned_ucast_eq unsigned_take_bit_eq take_bit_nat_eq_self word_le_nat_alt)
  with assms show ?thesis by (simp add: word_le_nat_alt)
qed

lemma options_checked:
  assumes "parse_options argv = Some (c, parent)"
  shows "routing_ok c \<and> lc_coreAudioStartChannel c \<le> 64 \<and> 2 \<le> lc_jitterPackets c \<and> lc_jitterPackets c \<le> 63
    \<and> lc_rxPayloadType c \<le> 127 \<and> lc_txPayloadType c \<le> 127
    \<and> (lc_interfaceName c \<noteq> [] \<or> lc_interfaceAddress c \<noteq> [])"
proof -
  let ?base = "default_config\<lparr>lc_interfaceName := value_or (valueAfter argv ''--interface'') [],
    lc_interfaceAddress := value_or (valueAfter argv ''--interface-address'') []\<rparr>"
  obtain p streamCount channels startChannel jitter rxType txType where
    profile: "apply_profile (value_or (valueAfter argv ''--profile'') ''raspberry'') ?base = Some p"
    and read: "number_option argv ''--stream-count'' (of_nat kStreamBankCount) (lc_streamCount p) = Some streamCount"
    "number_option argv ''--core-audio-start-channel'' (of_nat kVirtualChannels) (lc_coreAudioStartChannel p) = Some startChannel"
    "number_option argv ''--jitter-packets'' 63 (of_nat (lc_jitterPackets p)) = Some jitter"
    "number_option argv ''--rx-payload-type'' 127 (ucast (lc_rxPayloadType p)) = Some rxType"
    "number_option argv ''--tx-payload-type'' 127 (ucast (lc_txPayloadType p)) = Some txType"
    and c: "lc_streamCount c = streamCount" "lc_channelsPerStream c = channels" "lc_coreAudioStartChannel c = startChannel"
    "lc_jitterPackets c = unat jitter" "lc_rxPayloadType c = ucast rxType" "lc_txPayloadType c = ucast txType"
    and checks: "\<not> unat jitter < 2" "\<not> streamCount < 1" "supportedAES67ChannelCount (unat channels)"
    "\<not> startChannel < 1" "\<not> startChannel - 1 + streamCount * channels > of_nat kVirtualChannels"
    "\<not> (lc_interfaceName c = [] \<and> lc_interfaceAddress c = [])"
    using assms by (auto simp: parse_options_def bind_eq_Some_conv Let_def split: if_splits)
  note p = apply_profile_bounds [OF profile]
  have base: "lc_streamCount ?base \<le> 8" "lc_coreAudioStartChannel ?base = 1" "lc_jitterPackets ?base = 6"
    "lc_rxPayloadType ?base = 96" "lc_txPayloadType ?base = 96"
    by (simp_all add: default_config_def profile_defs kPayloadType_def)
  have bounds: "streamCount \<le> 8" "startChannel \<le> 64" "jitter \<le> 63" "rxType \<le> 127" "txType \<le> 127"
    using number_option_bound [OF read(1)] number_option_bound [OF read(2)] number_option_bound [OF read(3)]
      number_option_bound [OF read(4)] number_option_bound [OF read(5)] p base by (simp_all add: profile_defs)
  then have "unat jitter \<le> 63" by (simp add: word_le_nat_alt)
  moreover have "routing_ok c" using checks(2-5) bounds(1)
    by (auto simp: routing_ok_def c profile_defs word_less_nat_alt word_le_nat_alt unat_gt_0)
  ultimately show ?thesis using checks bounds ucast_u8_bound by (auto simp: c)
qed

text \<open>C26: Every configuration that the command line can produce passes the routing checks of the engine's
  start without wrap-around, and keeps the bounds the components rely on: a start channel of at most 64, a
  jitter target of 2 to 63 packets, seven-bit payload types and a way to find the interface.\<close>

theorem options_are_safe:
  assumes "parse_options argv = Some (c, parent)"
  shows "routing_ok c \<and> lc_coreAudioStartChannel c \<le> 64 \<and> 2 \<le> lc_jitterPackets c \<and> lc_jitterPackets c \<le> 63
    \<and> lc_rxPayloadType c \<le> 127 \<and> lc_txPayloadType c \<le> 127
    \<and> (lc_interfaceName c \<noteq> [] \<or> lc_interfaceAddress c \<noteq> [])"
  using options_checked [OF assms] .

theorem options_are_safe_witness:
  "\<exists>c. parse_options [''engine'', ''--run'', ''--interface'', ''en0'', ''--profile'', ''computer-b''] = Some (c, 0) \<and> routing_ok c"
proof -
  let ?argv = "[''engine'', ''--run'', ''--interface'', ''en0'', ''--profile'', ''computer-b'']"
  obtain c where run: "parse_options ?argv = Some (c, 0)"
    by (simp add: parse_options_def apply_profile_def number_option_def valueAfter_def value_or_def Let_def
        default_config_def profile_defs supportedAES67ChannelCount_def)
  with options_are_safe [OF run] show ?thesis by blast
qed

lemma digit_not_space: "is_digit c \<Longrightarrow> \<not> is_space c"
  by (auto simp: is_digit_def is_space_def)

lemma stoull_digits:
  assumes "all_digits s"
  shows "stoull s = (if decval s \<ge> 2 ^ 64 then None else Some (of_nat (decval s), length s))"
proof -
  have digits: "\<forall>c \<in> set s. is_digit c" "s \<noteq> []" using assms by (simp_all add: all_digits_def list_all_iff)
  have nul: "\<not> is_digit CHR 0x00" by (simp add: is_digit_def)
  then have "takeWhile (\<lambda>c. c \<noteq> CHR 0x00) s = s" using digits(1) by (intro takeWhile_eq_all_conv [THEN iffD2]) auto
  moreover have "takeWhile is_digit s = s" using digits(1) by (simp add: takeWhile_eq_all_conv)
  moreover have "dropWhile is_space s = s" using digits digit_not_space by (cases s) auto
  moreover have "split_sign s = (False, s)" using digits by (cases s) (auto simp: split_sign_def is_digit_def)
  ultimately show ?thesis using digits by (simp add: stoull_def Let_def takeWhile_eq_all_conv [THEN iffD2])
qed

text \<open>A number of digits is read as its value when that is at most the option's maximum and refused
  otherwise; and a minus sign is read modulo \<open>2 ^ 64\<close>, so that the text -18446744073709551615 is taken for 1.\<close>

theorem options_numbers:
  "(\<forall>s. all_digits s \<longrightarrow> parseUnsigned s maximum = (if decval s \<le> unat maximum then Some (of_nat (decval s)) else None))
   \<and> parseUnsigned ''-18446744073709551615'' 8 = Some 1"
proof (intro conjI allI impI)
  fix s assume s: "all_digits s"
  have "unat maximum < 2 ^ 64" using unat_bound [of maximum] by simp
  then show "parseUnsigned s maximum = (if decval s \<le> unat maximum then Some (of_nat (decval s)) else None)"
    by (auto simp: parseUnsigned_def stoull_digits [OF s] word_less_nat_alt unat_of_nat)
next
  show "parseUnsigned ''-18446744073709551615'' 8 = Some 1"
    by (simp add: parseUnsigned_def stoull_def split_sign_def is_space_def is_digit_def decval_def digit_val_def)
qed

section \<open>From the command line to a running engine\<close>

text \<open>An engine that \<open>main\<close> configures from its arguments and that starts, on a fresh file or on one a
  stopped engine left, begins with all the invariants of the audio paths.\<close>

theorem command_line_engine:
  assumes "parse_options argv = Some (c, parent)"
    and "engine_start n a (new_engine_object c) = (True, self')"
    and "\<forall>layout b. ma_mmap (sa_memory a) = Some (layout, b) \<longrightarrow> \<not> bk_rxActive b \<and> \<not> bk_txActive b
      \<and> rings_ok (bk_networkToCoreAudio b) \<and> rings_ok (bk_coreAudioToNetwork b)"
  shows "engine_wf (eo_engine self') \<and> epoch_inv (eo_engine self')"
proof -
  have "lifecycle_inv (new_engine_object c)"
    "lc_coreAudioStartChannel (en_config (eo_engine (new_engine_object c))) \<le> 64"
    using options_checked [OF assms(1)] by (simp_all add: lifecycle_inv_def new_engine_object_def new_engine_def)
  from engine_start_ready [OF assms(2) this assms(3)] show ?thesis by blast
qed

lemma demo_command_line:
  "\<exists>c self'. parse_options [''engine'', ''--run'', ''--interface-address'', ''10.0.0.7'', ''--interface'', ''en0''] = Some (c, 0)
    \<and> engine_start 4205760 (demo_start (left_answers new_block)) (new_engine_object c) = (True, self')"
proof -
  let ?argv = "[''engine'', ''--run'', ''--interface-address'', ''10.0.0.7'', ''--interface'', ''en0'']"
  define c where "c = publisher\<lparr>lc_interfaceName := ''en0''\<rparr>"
  have "ipv4_toString [10, 0, 0, 7] = ''10.0.0.7''" by code_simp
  then have run: "parse_options ?argv = Some (c, 0)"
    by (simp add: parse_options_def apply_profile_def number_option_def valueAfter_def value_or_def hasOption_def Let_def
        default_config_def profile_defs supportedAES67ChannelCount_def c_def publisher_def)
  have ok: "routing_ok c" "transport_ok c" "lc_interfaceAddress c \<noteq> []"
    using demo_routing toString_nonempty by (simp_all add: c_def routing_ok_def transport_ok_def publisher_def)
  have opens: "fst (memory_open 4205760 True (left_answers new_block) new_memory)"
    by (rule demo_opens) (simp_all add: left_answers_def sample_answers_def)
  then obtain mem calls where "memory_open 4205760 True (left_answers new_block) new_memory = (True, mem, calls)"
    by (metis prod.collapse)
  then obtain self' where "engine_start 4205760 (demo_start (left_answers new_block)) (new_engine_object c) = (True, self')"
    using ok by (simp add: engine_start_def new_engine_object_def new_engine_def demo_start_def Let_def)
  with run show ?thesis by blast
qed

theorem command_line_engine_witness:
  "\<exists>c self'. parse_options [''engine'', ''--run'', ''--interface-address'', ''10.0.0.7'', ''--interface'', ''en0''] = Some (c, 0)
    \<and> engine_start 4205760 (demo_start (left_answers new_block)) (new_engine_object c) = (True, self')
    \<and> engine_wf (eo_engine self')"
proof -
  obtain c self' where start: "parse_options [''engine'', ''--run'', ''--interface-address'', ''10.0.0.7'', ''--interface'', ''en0''] = Some (c, 0)"
    "engine_start 4205760 (demo_start (left_answers new_block)) (new_engine_object c) = (True, self')"
    using demo_command_line by blast
  have "\<forall>layout b. ma_mmap (sa_memory (demo_start (left_answers new_block))) = Some (layout, b) \<longrightarrow>
      \<not> bk_rxActive b \<and> \<not> bk_txActive b \<and> rings_ok (bk_networkToCoreAudio b) \<and> rings_ok (bk_coreAudioToNetwork b)"
    using new_block_clean by (simp add: demo_start_def left_answers_def)
  from command_line_engine [OF start this] start show ?thesis by blast
qed

section \<open>Waiting\<close>

text \<open>The loop of \<open>main\<close>: the i-th evaluation of its condition sees whether a signal asked to stop, the clock
  and whether the parent lives; the result is the evaluation that left the loop. No \<open>--duration\<close> is no
  deadline.\<close>

partial_function (option) wait_loop :: "(nat \<Rightarrow> bool \<times> int \<times> bool) \<Rightarrow> int option \<Rightarrow> nat \<Rightarrow> nat option" where
  "wait_loop observe deadline i = (case observe i of (stopRequested, now, alive) \<Rightarrow>
     if \<not> stopRequested \<and> (case deadline of None \<Rightarrow> True | Some d \<Rightarrow> now < d) \<and> alive
     then wait_loop observe deadline (i + 1) else Some i)"

definition leaves :: "(nat \<Rightarrow> bool \<times> int \<times> bool) \<Rightarrow> int option \<Rightarrow> nat \<Rightarrow> bool" where
  "leaves observe deadline i \<longleftrightarrow> (case observe i of (stopRequested, now, alive) \<Rightarrow>
     stopRequested \<or> (\<exists>d. deadline = Some d \<and> d \<le> now) \<or> \<not> alive)"

lemma wait_loop_unfold:
  "wait_loop observe deadline i = (if leaves observe deadline i then Some i else wait_loop observe deadline (i + 1))"
  by (subst wait_loop.simps) (auto simp: leaves_def not_le split: prod.splits option.splits)

interpretation main_loop: polling "wait_loop observe deadline" "leaves observe deadline" "\<lambda>k. k" for observe deadline
  by unfold_locales (rule wait_loop_unfold)

text \<open>The engine's main loop ends: with a duration of \<open>s\<close> seconds, each sleep lasting at least one, after
  at most \<open>s\<close> rounds; and without one in the first round that sees a stop request or a dead parent.\<close>

theorem wait_loop_terminates:
  assumes "\<forall>i. fst (snd (observe (i + 1))) \<ge> fst (snd (observe i)) + 1000000000" "start \<le> fst (snd (observe 0))"
  shows "(\<exists>k \<le> s. wait_loop observe (Some (start + int s * 1000000000)) 0 = Some k)
    \<and> (\<forall>deadline m. fst (observe m) \<or> \<not> snd (snd (observe m)) \<longrightarrow> (\<exists>k \<le> m. wait_loop observe deadline 0 = Some k))"
proof (intro conjI allI impI)
  have "start + int s * 1000000000 \<le> fst (snd (observe s))"
    using clock_after [OF assms(1), of s] assms(2) by simp
  then have "leaves observe (Some (start + int s * 1000000000)) s"
    by (auto simp: leaves_def split: prod.splits)
  from main_loop.ends [OF this] show "\<exists>k \<le> s. wait_loop observe (Some (start + int s * 1000000000)) 0 = Some k" by blast
  fix deadline m assume "fst (observe m) \<or> \<not> snd (snd (observe m))"
  then have "leaves observe deadline m" by (auto simp: leaves_def split: prod.splits)
  from main_loop.ends [OF this] show "\<exists>k \<le> m. wait_loop observe deadline 0 = Some k" by blast
qed

theorem wait_loop_terminates_witness:
  "\<exists>k \<le> 3. wait_loop (\<lambda>i. (False, 7 + int i * 1000000000, True)) (Some (7 + int 3 * 1000000000)) 0 = Some k"
proof -
  let ?observe = "\<lambda>i. (False, 7 + int i * 1000000000, True)"
  have "\<forall>i. fst (snd (?observe (i + 1))) \<ge> fst (snd (?observe i)) + 1000000000" "7 \<le> fst (snd (?observe 0))"
    by simp_all
  from wait_loop_terminates [OF this, of 3] show ?thesis by blast
qed

end
