(* ===== verification/Json_Reader.thy ===== *)
theory Json_Reader
  imports Cpp_Text
begin

text \<open>
  A reader for the JSON texts the program prints: what a client makes of them. It is the specification the
  status report of the engine is measured against; no code of the repository is modelled here. Numbers are
  integers, and of the escapes the two-character ones are known.
\<close>

section \<open>Values and tokens\<close>

datatype json =
    JBool bool
  | JNumber int
  | JString string
  | JArray "json list"
  | JObject "(string \<times> json) list"

datatype token = Punct char | Text string | Word string

definition is_punct :: "char \<Rightarrow> bool" where
  "is_punct c \<longleftrightarrow> c \<in> {CHR ''{'', CHR ''}'', CHR ''['', CHR '']'', CHR '','', CHR '':''}"

definition is_blank :: "char \<Rightarrow> bool" where
  "is_blank c \<longleftrightarrow> c \<in> {CHR 0x20, CHR 0x09, CHR 0x0A, CHR 0x0D}"

definition is_word :: "char \<Rightarrow> bool" where
  "is_word c \<longleftrightarrow> is_digit c \<or> c = CHR ''-'' \<or> 97 \<le> (of_char c :: nat) \<and> (of_char c :: nat) \<le> 122"

definition unescape :: "char \<Rightarrow> char option" where
  "unescape c = (if c = CHR 0x22 \<or> c = CHR 0x5C \<or> c = CHR ''/'' then Some c
     else if c = CHR ''n'' then Some (CHR 0x0A) else if c = CHR ''r'' then Some (CHR 0x0D)
     else if c = CHR ''t'' then Some (CHR 0x09) else None)"

text \<open>The rest of a string behind its opening quote.\<close>

fun lex_string :: "string \<Rightarrow> (string \<times> string) option" where
  "lex_string [] = None"
| "lex_string [c] = (if c = CHR 0x22 then Some ([], []) else None)"
| "lex_string (c # d # s) =
     (if c = CHR 0x22 then Some ([], d # s)
      else if c = CHR 0x5C
      then (case unescape d of None \<Rightarrow> None | Some e \<Rightarrow> map_option (\<lambda>(t, r). (e # t, r)) (lex_string s))
      else if (of_char c :: nat) < 32 then None
      else map_option (\<lambda>(t, r). (c # t, r)) (lex_string (d # s)))"

lemma lex_string_shorter: "lex_string s = Some (t, r) \<Longrightarrow> length r < length s"
  by (induction s arbitrary: t r rule: lex_string.induct) (force split: if_splits option.splits)+

function json_lex :: "string \<Rightarrow> token list option" where
  "json_lex [] = Some []"
| "json_lex (c # s) =
     (if is_blank c then json_lex s
      else if is_punct c then map_option (\<lambda>ts. Punct c # ts) (json_lex s)
      else if c = CHR 0x22
      then (case lex_string s of None \<Rightarrow> None | Some (t, r) \<Rightarrow> map_option (\<lambda>ts. Text t # ts) (json_lex r))
      else if is_word c
      then map_option (\<lambda>ts. Word (c # takeWhile is_word s) # ts) (json_lex (dropWhile is_word s))
      else None)"
  by pat_completeness auto
termination
  by (relation "measure length") (auto dest: lex_string_shorter simp: le_imp_less_Suc length_dropWhile_le)

declare json_lex.simps(2) [simp del]

definition read_word :: "string \<Rightarrow> json option" where
  "read_word w =
     (if w = ''true'' then Some (JBool True) else if w = ''false'' then Some (JBool False)
      else if all_digits w then Some (JNumber (int (decval w)))
      else case w of c # ds \<Rightarrow> if c = CHR ''-'' \<and> all_digits ds then Some (JNumber (- int (decval ds))) else None
         | [] \<Rightarrow> None)"

text \<open>Reading with fuel: every token is worth two calls.\<close>

fun json_value :: "nat \<Rightarrow> token list \<Rightarrow> (json \<times> token list) option"
  and json_elements :: "nat \<Rightarrow> token list \<Rightarrow> (json list \<times> token list) option"
  and json_members :: "nat \<Rightarrow> token list \<Rightarrow> ((string \<times> json) list \<times> token list) option" where
  "json_value (Suc n) (Text s # ts) = Some (JString s, ts)"
| "json_value (Suc n) (Word w # ts) = map_option (\<lambda>v. (v, ts)) (read_word w)"
| "json_value (Suc n) (Punct c # ts) =
     (if c = CHR ''['' then
        (if take 1 ts = [Punct CHR '']''] then Some (JArray [], drop 1 ts)
         else map_option (\<lambda>(vs, r). (JArray vs, r)) (json_elements n ts))
      else if c = CHR ''{'' then
        (if take 1 ts = [Punct CHR ''}''] then Some (JObject [], drop 1 ts)
         else map_option (\<lambda>(ms, r). (JObject ms, r)) (json_members n ts))
      else None)"
| "json_value _ _ = None"
| "json_elements (Suc n) ts = (case json_value n ts of
     Some (v, Punct c # r) \<Rightarrow>
       if c = CHR '','' then map_option (\<lambda>(vs, q). (v # vs, q)) (json_elements n r)
       else if c = CHR '']'' then Some ([v], r) else None
   | _ \<Rightarrow> None)"
| "json_elements 0 _ = None"
| "json_members (Suc n) (Text key # Punct colon # ts) =
     (if colon \<noteq> CHR '':'' then None
      else case json_value n ts of
        Some (v, Punct c # r) \<Rightarrow>
          if c = CHR '','' then map_option (\<lambda>(ms, q). ((key, v) # ms, q)) (json_members n r)
          else if c = CHR ''}'' then Some ([(key, v)], r) else None
      | _ \<Rightarrow> None)"
| "json_members _ _ = None"

definition json_read :: "string \<Rightarrow> json option" where
  "json_read s = (case json_lex s of None \<Rightarrow> None | Some ts \<Rightarrow>
     (case json_value (2 * length ts) ts of Some (v, []) \<Rightarrow> Some v | _ \<Rightarrow> None))"

section \<open>Printing and reading tokens\<close>

definition int_text :: "int \<Rightarrow> string" where
  "int_text i = (if i < 0 then CHR ''-'' # to_string (nat (- i)) else to_string (nat i))"

fun commas :: "token list list \<Rightarrow> token list" where
  "commas [] = []"
| "commas [ts] = ts"
| "commas (ts # us # rest) = ts @ Punct CHR '','' # commas (us # rest)"

fun json_tokens :: "json \<Rightarrow> token list" where
  "json_tokens (JBool b) = [Word (if b then ''true'' else ''false'')]"
| "json_tokens (JNumber i) = [Word (int_text i)]"
| "json_tokens (JString s) = [Text s]"
| "json_tokens (JArray vs) = Punct CHR ''['' # commas (map json_tokens vs) @ [Punct CHR '']'']"
| "json_tokens (JObject ms) =
     Punct CHR ''{'' # commas (map (\<lambda>(key, v). Text key # Punct CHR '':'' # json_tokens v) ms) @ [Punct CHR ''}'']"

lemma word_chars: "all_digits ds \<Longrightarrow> ds \<noteq> ''true'' \<and> ds \<noteq> ''false'' \<and> CHR ''-'' # ds \<noteq> ''true'' \<and> CHR ''-'' # ds \<noteq> ''false''
    \<and> \<not> all_digits (CHR ''-'' # ds)"
  by (auto simp: all_digits_def is_digit_def)

lemma read_int_text: "read_word (int_text i) = Some (JNumber i)"
  using word_chars [OF to_string_all_digits] to_string_all_digits
  by (auto simp: read_word_def int_text_def split: list.split)

lemma tokens_begin: "\<exists>t ts. json_tokens v = t # ts \<and> t \<noteq> Punct CHR '']''"
  by (cases v) auto

lemma length_commas: "ts \<noteq> [] \<Longrightarrow> length (commas (t # ts)) = length t + 1 + length (commas ts)"
  by (cases ts) simp_all

lemma elements_read:
  assumes "\<And>v n rest. v \<in> set vs \<Longrightarrow> 2 * length (json_tokens v) \<le> n + 1 \<Longrightarrow> json_value n (json_tokens v @ rest) = Some (v, rest)"
    and "vs \<noteq> []" "2 * length (commas (map json_tokens vs)) \<le> n"
  shows "json_elements n (commas (map json_tokens vs) @ Punct CHR '']'' # rest) = Some (vs, rest)"
  using assms
proof (induction vs arbitrary: n)
  case (Cons v vs)
  obtain t ts where t: "json_tokens v = t # ts" using tokens_begin by blast
  obtain m where n: "n = Suc m" using Cons.prems(3) t by (cases vs; cases n) auto
  show ?case
  proof (cases vs)
    case Nil
    then show ?thesis using Cons.prems(1) [of v m "Punct CHR '']'' # rest"] Cons.prems(3) n by simp
  next
    case (Cons u us)
    have len: "2 * length (json_tokens v) \<le> m + 1" "2 * length (commas (map json_tokens vs)) \<le> m"
      using \<open>2 * length (commas (map json_tokens (v # vs))) \<le> n\<close> n Cons length_commas [of "map json_tokens vs" "json_tokens v"] by simp_all
    have "json_elements m (commas (map json_tokens vs) @ Punct CHR '']'' # rest) = Some (vs, rest)"
      by (rule Cons.IH) (use Cons.prems(1) len Cons in auto)
    then show ?thesis
      using Cons.prems(1) [of v m "Punct CHR '','' # commas (map json_tokens vs) @ Punct CHR '']'' # rest"] len n Cons by simp
  qed
qed simp

abbreviation member_tokens :: "string \<times> json \<Rightarrow> token list" where
  "member_tokens m \<equiv> case m of (key, v) \<Rightarrow> Text key # Punct CHR '':'' # json_tokens v"

lemma members_read:
  assumes "\<And>m n rest. m \<in> set ms \<Longrightarrow> 2 * length (json_tokens (snd m)) \<le> n + 1 \<Longrightarrow>
      json_value n (json_tokens (snd m) @ rest) = Some (snd m, rest)"
    and "ms \<noteq> []" "2 * length (commas (map member_tokens ms)) \<le> n"
  shows "json_members n (commas (map member_tokens ms) @ Punct CHR ''}'' # rest) = Some (ms, rest)"
  using assms
proof (induction ms arbitrary: n)
  case (Cons m ms)
  obtain key v where m: "m = (key, v)" by fastforce
  obtain k where n: "n = Suc k" using Cons.prems(3) m by (cases ms; cases n) auto
  show ?case
  proof (cases ms)
    case Nil
    then show ?thesis using Cons.prems(1) [of m k "Punct CHR ''}'' # rest"] Cons.prems(3) n m by simp
  next
    case (Cons u us)
    have len: "2 * length (json_tokens v) \<le> k + 1" "2 * length (commas (map member_tokens ms)) \<le> k"
      using \<open>2 * length (commas (map member_tokens (m # ms))) \<le> n\<close> n m Cons
        length_commas [of "map member_tokens ms" "member_tokens m"] by simp_all
    have "json_members k (commas (map member_tokens ms) @ Punct CHR ''}'' # rest) = Some (ms, rest)"
      by (rule Cons.IH) (use Cons.prems(1) len Cons in auto)
    then show ?thesis
      using Cons.prems(1) [of m k "Punct CHR '','' # commas (map member_tokens ms) @ Punct CHR ''}'' # rest"] len n m Cons
      by simp
  qed
qed simp

lemma value_read: "2 * length (json_tokens v) \<le> n + 1 \<Longrightarrow> json_value n (json_tokens v @ rest) = Some (v, rest)"
proof (induction v arbitrary: n rest)
  case (JArray vs)
  obtain k where n: "n = Suc k" using JArray.prems by (cases n) auto
  show ?case
  proof (cases vs)
    case (Cons u us)
    have "take 1 (commas (map json_tokens vs) @ Punct CHR '']'' # rest) \<noteq> [Punct CHR '']'']"
      using tokens_begin [of u] Cons by (cases us) auto
    moreover have "json_elements k (commas (map json_tokens vs) @ Punct CHR '']'' # rest) = Some (vs, rest)"
      by (rule elements_read) (use JArray n Cons in auto)
    ultimately show ?thesis by (simp add: n)
  qed (simp add: n)
next
  case (JObject ms)
  obtain k where n: "n = Suc k" using JObject.prems by (cases n) auto
  show ?case
  proof (cases ms)
    case (Cons u us)
    have "take 1 (commas (map member_tokens ms) @ Punct CHR ''}'' # rest) \<noteq> [Punct CHR ''}'']"
      using Cons by (cases u; cases us) auto
    moreover have "json_members k (commas (map member_tokens ms) @ Punct CHR ''}'' # rest) = Some (ms, rest)"
    proof (rule members_read)
      fix m and i :: nat and r
      assume "m \<in> set ms" "2 * length (json_tokens (snd m)) \<le> i + 1"
      then show "json_value i (json_tokens (snd m) @ r) = Some (snd m, r)"
        by (intro JObject.IH [of m]) (auto intro: snds.intros)
    qed (use JObject.prems n Cons in auto)
    ultimately show ?thesis by (simp add: n)
  qed (simp add: n)
next
  case (JBool b)
  then obtain k where "n = Suc k" by (cases n) auto
  then show ?case by (simp add: read_word_def)
next
  case (JNumber i)
  then obtain k where "n = Suc k" by (cases n) auto
  then show ?case by (simp add: read_int_text)
next
  case (JString s)
  then obtain k where "n = Suc k" by (cases n) auto
  then show ?case by simp
qed

text \<open>A text whose tokens are those of a value is read as that value.\<close>

lemma json_read_tokens: "json_lex s = Some (json_tokens v) \<Longrightarrow> json_read s = Some v"
  using value_read [of v "2 * length (json_tokens v)" "[]"] by (simp add: json_read_def)

section \<open>Tokens of pieces of text\<close>

lemma lex_punct [simp]: "is_punct c \<Longrightarrow> json_lex (c # s) = map_option (\<lambda>ts. Punct c # ts) (json_lex s)"
  by (auto simp: json_lex.simps(2) is_punct_def is_blank_def)

lemma lex_blank [simp]: "is_blank c \<Longrightarrow> json_lex (c # s) = json_lex s"
  by (simp add: json_lex.simps(2))

lemma lex_quoted: "lex_string s = Some (t, r) \<Longrightarrow> json_lex (CHR 0x22 # s) = map_option (\<lambda>ts. Text t # ts) (json_lex r)"
  by (simp add: json_lex.simps(2) is_blank_def is_punct_def)

lemma word_not_special: "is_word c \<Longrightarrow> \<not> is_blank c \<and> \<not> is_punct c \<and> c \<noteq> CHR 0x22"
  by (auto simp: is_word_def is_digit_def is_blank_def is_punct_def)

lemma lex_word:
  assumes "w \<noteq> []" "\<forall>c \<in> set w. is_word c" "s = [] \<or> \<not> is_word (hd s)"
  shows "json_lex (w @ s) = map_option (\<lambda>ts. Word w # ts) (json_lex s)"
proof -
  obtain c cs where w: "w = c # cs" using assms(1) by (cases w) auto
  have "takeWhile is_word (cs @ s) = cs" "dropWhile is_word (cs @ s) = s"
    using assms w by (cases s; simp add: takeWhile_tail)+
  then show ?thesis using assms(2) word_not_special [of c] by (simp add: w json_lex.simps(2))
qed

lemma int_text_word: "int_text i \<noteq> [] \<and> (\<forall>c \<in> set (int_text i). is_word c)"
  using to_string_chars by (auto simp: int_text_def is_word_def)

lemma lex_int: "s = [] \<or> \<not> is_word (hd s) \<Longrightarrow> json_lex (int_text i @ s) = map_option (\<lambda>ts. Word (int_text i) # ts) (json_lex s)"
  using int_text_word by (intro lex_word) auto

lemma lex_nat: "s = [] \<or> \<not> is_word (hd s) \<Longrightarrow> json_lex (to_string n @ s) = map_option (\<lambda>ts. Word (int_text (int n)) # ts) (json_lex s)"
  using lex_int [of s "int n"] by (simp add: int_text_def)

end
