(* ===== verification/Status_Report.thy ===== *)
theory Status_Report
  imports Shared_Memory Json_Reader
begin

text \<open>
  The status report of Sources/Engine/EngineMain.cpp (\<open>printStatusJson\<close> with \<open>jsonEscape\<close>), which shows
  what the network announced. Texts are byte strings.
\<close>

section \<open>The code\<close>

definition escape_char :: "char \<Rightarrow> string" where
  "escape_char c =
     (if c = CHR 0x5C then [CHR 0x5C, CHR 0x5C]
      else if c = CHR 0x22 then [CHR 0x5C, CHR 0x22]
      else if c = CHR 0x0A then [CHR 0x5C, CHR ''n'']
      else if c = CHR 0x0D then [CHR 0x5C, CHR ''r'']
      else if c = CHR 0x09 then [CHR 0x5C, CHR ''t'']
      else if (of_char c :: nat) < 32 then ''?'' else [c])"

definition jsonEscape :: "string \<Rightarrow> string" where
  "jsonEscape s = concat (map escape_char s)"

definition bool_text :: "bool \<Rightarrow> string" where
  "bool_text b = (if b then ''true'' else ''false'')"

definition u64_text :: "u64 \<Rightarrow> string" where
  "u64_text w = to_string (unat w)"

definition session_json :: "session_snapshot \<Rightarrow> string" where
  "session_json s =
     ''{\"id\":\"'' @ to_string (unat (sn_messageHash s)) @ ''-'' @ jsonEscape (sn_originAddress s)
     @ ''\",\"name\":\"'' @ jsonEscape (sn_name s)
     @ ''\",\"originAddress\":\"'' @ jsonEscape (sn_originAddress s)
     @ ''\",\"sourceAddress\":\"'' @ jsonEscape (sn_sourceAddress s)
     @ ''\",\"multicastAddress\":\"'' @ jsonEscape (sn_multicastAddress s)
     @ ''\",\"port\":'' @ to_string (unat (sn_port s))
     @ '',\"channels\":'' @ to_string (unat (sn_channels s))
     @ '',\"sampleRate\":'' @ to_string (unat (sn_sampleRate s))
     @ '',\"framesPerPacket\":'' @ to_string (unat (sn_framesPerPacket s))
     @ '',\"payloadType\":'' @ to_string (unat (sn_payloadType s))
     @ '',\"ptpDomain\":'' @ to_string (unat (sn_ptpDomain s))
     @ '',\"lastSeenUnixMilliseconds\":'' @ u64_text (sn_lastSeen s) @ ''}''"

fun sessions_json :: "nat \<Rightarrow> session_snapshot list \<Rightarrow> string" where
  "sessions_json i [] = []"
| "sessions_json i (s # ss) = (if i \<noteq> 0 then '','' else []) @ session_json s @ sessions_json (i + 1) ss"

definition printStatusJson :: "shared_layout \<Rightarrow> shared_block \<Rightarrow> string" where
  "printStatusJson layout b =
     (let st = bk_statistics b in
      ''{\"engineRunning\":'' @ bool_text (bk_engineRunning b)
      @ '',\"virtualChannels\":'' @ to_string (unat (ly_channels layout))
      @ '',\"activeStreamCount\":'' @ to_string (unat (bk_activeStreamCount b))
      @ '',\"rxPackets\":'' @ u64_text (st_rxPackets st)
      @ '',\"txPackets\":'' @ u64_text (st_txPackets st)
      @ '',\"lostPackets\":'' @ u64_text (st_packetsLost st)
      @ '',\"malformedPackets\":'' @ u64_text (st_malformedPackets st)
      @ '',\"sapMalformedPackets\":'' @ u64_text (st_sapMalformedPackets st)
      @ '',\"reconnects\":'' @ u64_text (st_reconnects st)
      @ '',\"inputUnderruns\":'' @ u64_text (st_inputUnderruns st)
      @ '',\"outputUnderruns\":'' @ u64_text (st_outputUnderruns st)
      @ '',\"ringOverruns\":'' @ u64_text (st_ringOverruns st)
      @ '',\"ptpMessages\":'' @ u64_text (st_ptpMessages st)
      @ '',\"ptpErrors\":'' @ u64_text (st_ptpErrors st)
      @ '',\"ptpOffsetNanoseconds\":'' @ int_text (st_ptpOffsetNanoseconds st)
      @ '',\"ptpMeanPathDelayNanoseconds\":'' @ int_text (st_ptpMeanPathDelayNanoseconds st)
      @ '',\"rxActive\":'' @ bool_text (bk_rxActive b)
      @ '',\"txActive\":'' @ bool_text (bk_txActive b)
      @ '',\"coreAudioRunning\":'' @ bool_text (bk_ioRunning b)
      @ '',\"ptpLocked\":'' @ bool_text (bk_ptpLocked b)
      @ '',\"sessions\":['' @ sessions_json 0 (dir_snapshots (bk_discoveredSessions b)) @ '']}'' @ [CHR 0x0A])"

section \<open>What a client reads\<close>

text \<open>Control characters other than line ends and tabs are shown as question marks.\<close>

definition shown :: "string \<Rightarrow> string" where
  "shown = map (\<lambda>c. if (of_char c :: nat) < 32 \<and> c \<notin> {CHR 0x0A, CHR 0x0D, CHR 0x09} then CHR ''?'' else c)"

definition json_nat :: "nat \<Rightarrow> json" where "json_nat n = JNumber (int n)"

definition session_value :: "session_snapshot \<Rightarrow> json" where
  "session_value s = JObject
     [(''id'', JString (to_string (unat (sn_messageHash s)) @ ''-'' @ shown (sn_originAddress s))),
      (''name'', JString (shown (sn_name s))), (''originAddress'', JString (shown (sn_originAddress s))),
      (''sourceAddress'', JString (shown (sn_sourceAddress s))),
      (''multicastAddress'', JString (shown (sn_multicastAddress s))),
      (''port'', json_nat (unat (sn_port s))), (''channels'', json_nat (unat (sn_channels s))),
      (''sampleRate'', json_nat (unat (sn_sampleRate s))), (''framesPerPacket'', json_nat (unat (sn_framesPerPacket s))),
      (''payloadType'', json_nat (unat (sn_payloadType s))), (''ptpDomain'', json_nat (unat (sn_ptpDomain s))),
      (''lastSeenUnixMilliseconds'', json_nat (unat (sn_lastSeen s)))]"

definition status_value :: "shared_layout \<Rightarrow> shared_block \<Rightarrow> json" where
  "status_value layout b = (let st = bk_statistics b in JObject
     [(''engineRunning'', JBool (bk_engineRunning b)), (''virtualChannels'', json_nat (unat (ly_channels layout))),
      (''activeStreamCount'', json_nat (unat (bk_activeStreamCount b))),
      (''rxPackets'', json_nat (unat (st_rxPackets st))), (''txPackets'', json_nat (unat (st_txPackets st))),
      (''lostPackets'', json_nat (unat (st_packetsLost st))),
      (''malformedPackets'', json_nat (unat (st_malformedPackets st))),
      (''sapMalformedPackets'', json_nat (unat (st_sapMalformedPackets st))),
      (''reconnects'', json_nat (unat (st_reconnects st))),
      (''inputUnderruns'', json_nat (unat (st_inputUnderruns st))),
      (''outputUnderruns'', json_nat (unat (st_outputUnderruns st))),
      (''ringOverruns'', json_nat (unat (st_ringOverruns st))),
      (''ptpMessages'', json_nat (unat (st_ptpMessages st))), (''ptpErrors'', json_nat (unat (st_ptpErrors st))),
      (''ptpOffsetNanoseconds'', JNumber (st_ptpOffsetNanoseconds st)),
      (''ptpMeanPathDelayNanoseconds'', JNumber (st_ptpMeanPathDelayNanoseconds st)),
      (''rxActive'', JBool (bk_rxActive b)), (''txActive'', JBool (bk_txActive b)),
      (''coreAudioRunning'', JBool (bk_ioRunning b)), (''ptpLocked'', JBool (bk_ptpLocked b)),
      (''sessions'', JArray (map session_value (dir_snapshots (bk_discoveredSessions b))))])"

section \<open>Escaping\<close>

lemma lex_plain_char:
  "(of_char c :: nat) \<ge> 32 \<Longrightarrow> c \<noteq> CHR 0x22 \<Longrightarrow> c \<noteq> CHR 0x5C \<Longrightarrow> s \<noteq> [] \<Longrightarrow>
   lex_string (c # s) = map_option (\<lambda>(t, r). (c # t, r)) (lex_string s)"
  by (cases s) simp_all

lemma lex_escaped_char:
  assumes "s \<noteq> []"
  shows "lex_string (escape_char c @ s) = map_option (\<lambda>(t, r). (hd (shown [c]) # t, r)) (lex_string s)"
  using assms lex_plain_char [OF _ _ _ assms] by (cases s) (auto simp: escape_char_def unescape_def shown_def)

lemma lex_escaped:
  assumes "s \<noteq> []"
  shows "lex_string (jsonEscape xs @ s) = map_option (\<lambda>(t, r). (shown xs @ t, r)) (lex_string s)"
proof (induction xs)
  case Nil
  show ?case by (cases "lex_string s") (simp_all add: jsonEscape_def shown_def)
next
  case (Cons x xs)
  have "jsonEscape (x # xs) @ s = escape_char x @ (jsonEscape xs @ s)" by (simp add: jsonEscape_def)
  moreover have "hd (shown [x]) # shown xs = shown (x # xs)" by (simp add: shown_def)
  ultimately show ?case using Cons lex_escaped_char [of "jsonEscape xs @ s" x] assms
    by (cases "lex_string s") auto
qed

lemma lex_plain:
  assumes "\<forall>c \<in> set xs. (of_char c :: nat) \<ge> 32 \<and> c \<noteq> CHR 0x22 \<and> c \<noteq> CHR 0x5C" "s \<noteq> []"
  shows "lex_string (xs @ s) = map_option (\<lambda>(t, r). (xs @ t, r)) (lex_string s)"
  using assms
proof (induction xs)
  case Nil
  then show ?case by (cases "lex_string s") simp_all
next
  case (Cons x xs)
  then show ?case using lex_plain_char [of x "xs @ s"] by (cases "lex_string s") auto
qed

lemma lex_quote: "json_lex (CHR 0x22 # s) =
    (case lex_string s of None \<Rightarrow> None | Some (t, r) \<Rightarrow> map_option (\<lambda>ts. Text t # ts) (json_lex r))"
  by (simp add: json_lex.simps(2) is_blank_def is_punct_def)

lemma lex_string_end: "lex_string (CHR 0x22 # s) = Some ([], s)"
  by (cases s) simp_all

lemma lex_digits: "s \<noteq> [] \<Longrightarrow> lex_string (to_string n @ s) = map_option (\<lambda>(t, r). (to_string n @ t, r)) (lex_string s)"
  using to_string_chars by (intro lex_plain) (fastforce simp: is_digit_def)+

lemma lex_bool: "s = [] \<or> \<not> is_word (hd s) \<Longrightarrow>
    json_lex (bool_text b @ s) = map_option (\<lambda>ts. Word (if b then ''true'' else ''false'') # ts) (json_lex s)"
  by (subst lex_word) (auto simp: bool_text_def is_word_def)

lemma lex_dash: "s \<noteq> [] \<Longrightarrow> lex_string (CHR ''-'' # s) = map_option (\<lambda>(t, r). (CHR ''-'' # t, r)) (lex_string s)"
  by (intro lex_plain_char) simp_all

lemmas lex_pieces = lex_quote lex_string_end lex_digits lex_dash lex_bool lex_nat lex_int lex_escaped
  option.map_comp o_def is_punct_def is_word_def is_digit_def

lemma lex_session:
  "json_lex (session_json s @ rest) = map_option (\<lambda>ts. json_tokens (session_value s) @ ts) (json_lex rest)"
  by (simp add: session_json_def session_value_def json_nat_def u64_text_def lex_pieces)

lemma lex_more_sessions:
  "json_lex (sessions_json (Suc i) ss @ rest)
     = map_option (\<lambda>ts. concat (map (\<lambda>s. Punct CHR '','' # json_tokens (session_value s)) ss) @ ts) (json_lex rest)"
  by (induction ss arbitrary: i; cases "json_lex rest") (simp_all add: lex_session is_punct_def)

lemma commas_concat: "commas (map f (s # ss)) = f s @ concat (map (\<lambda>s. Punct CHR '','' # f s) ss)"
  by (induction ss arbitrary: s) simp_all

lemma lex_sessions:
  "json_lex (sessions_json 0 ss @ rest)
     = map_option (\<lambda>ts. commas (map (\<lambda>s. json_tokens (session_value s)) ss) @ ts) (json_lex rest)"
proof (cases ss)
  case (Cons s ss')
  then show ?thesis
    using lex_more_sessions [of 0 ss' rest] commas_concat [of "\<lambda>s. json_tokens (session_value s)" s ss']
    by (simp add: lex_session option.map_comp o_def)
qed (simp add: option.map_ident)

lemma lex_status: "json_lex (printStatusJson layout b) = Some (json_tokens (status_value layout b))"
  by (simp add: printStatusJson_def status_value_def json_nat_def u64_text_def Let_def lex_pieces lex_sessions is_blank_def)

text \<open>A client that reads the status report gets exactly the block's flags, counters and sessions: every
  text the network announced, whatever bytes it holds, comes back as it was (control characters as
  question marks) and cannot leave its string, so it forges no field and no session.\<close>

theorem status_report_faithful:
  "json_read (printStatusJson layout b) = Some (status_value layout b)"
  by (rule json_read_tokens [OF lex_status])

end
