(* ===== verification/Core_Audio_Check.thy ===== *)
theory Core_Audio_Check
  imports Engine_Options Status_Report
begin

text \<open>
  The diagnostic Sources/Tools/CoreAudioCheck.cpp, which looks for the bridge's device among the answers of
  Core Audio, and what Sources/Driver/LXToolDevice.cpp declares to Core Audio. A property query is its
  answer: the status, the size and the value. The text on the standard error stream is left out.
\<close>

section \<open>Property queries\<close>

text \<open>Doubles, as rationals with infinities and NaN. A difference of two doubles around 48000 is exact.\<close>

type_synonym f64 = f32

fun at_least_half_off :: "f64 \<Rightarrow> bool" where
  "at_least_half_off (Fin rate) = (\<bar>rate - 48000\<bar> \<ge> 1 / 2)"
| "at_least_half_off PosInf = True"
| "at_least_half_off NegInf = True"
| "at_least_half_off NaN = False"

fun less_than_half_off :: "f64 \<Rightarrow> bool" where
  "less_than_half_off (Fin rate) = (\<bar>rate - 48000\<bar> < 1 / 2)"
| "less_than_half_off PosInf = False"
| "less_than_half_off NegInf = False"
| "less_than_half_off NaN = False"

text \<open>\<open>property\<close>: \<open>status\<close> is \<open>noErr\<close>, \<open>n\<close> the number of bytes stored. \<open>propertyList\<close>: the answers to the size and to the
  data query, with values of \<open>bytes\<close> bytes that are zeroed before.\<close>

definition property :: "nat \<Rightarrow> bool \<times> nat \<times> 'v \<Rightarrow> 'v option" where
  "property bytes answer = (case answer of (status, n, v) \<Rightarrow> if status \<and> n = bytes then Some v else None)"

definition propertyList :: "nat \<Rightarrow> 'v \<Rightarrow> bool \<times> nat \<Rightarrow> bool \<times> 'v list \<Rightarrow> 'v list" where
  "propertyList bytes zero sized stored = (case (sized, stored) of ((size_ok, stored_bytes), (data_ok, vs)) \<Rightarrow>
     if \<not> size_ok \<or> stored_bytes mod bytes \<noteq> 0 then []
     else if stored_bytes \<noteq> 0 \<and> \<not> data_ok then []
     else let n = stored_bytes div bytes in take n vs @ replicate (n - length vs) zero)"

text \<open>\<open>textProperty\<close>: a Core Foundation string, or a null pointer, and whether it converts to UTF-8; 255 bytes fit.\<close>

definition textProperty :: "bool \<times> nat \<times> string option \<Rightarrow> string option" where
  "textProperty answer = (case property 8 answer of
     Some (Some s) \<Rightarrow> if length s < 256 then Some (takeWhile (\<lambda>c. c \<noteq> CHR 0x00) s) else None
   | _ \<Rightarrow> None)"

record stream_format =
  sf_sampleRate :: f64
  sf_formatID :: u32
  sf_formatFlags :: u32
  sf_bytesPerPacket :: u32
  sf_framesPerPacket :: u32
  sf_bytesPerFrame :: u32
  sf_channelsPerFrame :: u32
  sf_bitsPerChannel :: u32

definition kAudioFormatLinearPCM :: u32 where "kAudioFormatLinearPCM = 0x6C70636D"

definition kAudioFormatFlagIsFloat :: u32 where "kAudioFormatFlagIsFloat = 1"

definition kAudioFormatFlagIsPacked :: u32 where "kAudioFormatFlagIsPacked = 8"

definition kAudioFormatFlagIsNonInterleaved :: u32 where "kAudioFormatFlagIsNonInterleaved = 32"

text \<open>The answers for one device: \<open>True\<close> is the input scope.\<close>

record device_answers =
  da_uid :: "bool \<times> nat \<times> string option"
  da_name :: "bool \<times> nat \<times> string option"
  da_sampleRate :: "bool \<times> nat \<times> f64"
  da_availableRates :: "(bool \<times> nat) \<times> (bool \<times> (f64 \<times> f64) list)"
  da_streams :: "bool \<Rightarrow> (bool \<times> nat) \<times> (bool \<times> u32 list)"

section \<open>The check\<close>

datatype check_error =
    Unexpected_streams bool
  | Invalid_format bool
  | Unreadable_rate
  | Invalid_rates
  | Unexpected_identity
  | Absent

record device_snapshot =
  ds_visible :: bool
  ds_valid :: bool
  ds_name :: string
  ds_uid :: string
  ds_sampleRate :: f64
  ds_inputChannels :: u32
  ds_outputChannels :: u32
  ds_error :: "check_error option"

definition empty_snapshot :: device_snapshot where
  "empty_snapshot = \<lparr> ds_visible = False, ds_valid = False, ds_name = [], ds_uid = [], ds_sampleRate = Fin 0,
     ds_inputChannels = 0, ds_outputChannels = 0, ds_error = None \<rparr>"

definition format_refused :: "stream_format \<Rightarrow> bool" where
  "format_refused f \<longleftrightarrow> sf_formatID f \<noteq> kAudioFormatLinearPCM
     \<or> sf_formatFlags f AND kAudioFormatFlagIsFloat = 0
     \<or> sf_formatFlags f AND kAudioFormatFlagIsNonInterleaved \<noteq> 0
     \<or> sf_bitsPerChannel f \<noteq> 32
     \<or> at_least_half_off (sf_sampleRate f)
     \<or> (ucast (sf_bytesPerFrame f) :: u64) \<noteq> ucast (sf_channelsPerFrame f) * 4
     \<or> sf_framesPerPacket f \<noteq> 1
     \<or> sf_bytesPerPacket f \<noteq> sf_bytesPerFrame f"

text \<open>\<open>channelCount\<close>: the number of channels and what it leaves in \<open>error\<close>; \<open>formats\<close> answers for a stream.\<close>

definition channelCount ::
    "(u32 \<Rightarrow> bool \<times> nat \<times> stream_format) \<Rightarrow> device_answers \<Rightarrow> bool \<Rightarrow> check_error option \<Rightarrow> u32 \<times> check_error option" where
  "channelCount formats device input_scope err =
     (case propertyList 4 0 (fst (da_streams device input_scope)) (snd (da_streams device input_scope)) of
        [stream] \<Rightarrow> (case property 40 (formats stream) of
            None \<Rightarrow> (0, Some (Invalid_format input_scope))
          | Some f \<Rightarrow> if format_refused f then (0, Some (Invalid_format input_scope)) else (sf_channelsPerFrame f, err))
      | _ \<Rightarrow> (0, Some (Unexpected_streams input_scope)))"

definition kDeviceUID :: string where "kDeviceUID = ''org.maxpierr.aesbridge.device''"

text \<open>One matching device, and the loop over the devices.\<close>

definition inspect_match :: "(u32 \<Rightarrow> bool \<times> nat \<times> stream_format) \<Rightarrow> device_answers \<Rightarrow> string \<Rightarrow> device_snapshot" where
  "inspect_match formats device uid =
     (let r = empty_snapshot\<lparr>ds_visible := True, ds_uid := uid,
            ds_name := (case textProperty (da_name device) of Some n \<Rightarrow> n | None \<Rightarrow> [])\<rparr>
      in case property 8 (da_sampleRate device) of
           None \<Rightarrow> r\<lparr>ds_error := Some Unreadable_rate\<rparr>
         | Some rate \<Rightarrow>
             let r1 = r\<lparr>ds_sampleRate := rate\<rparr>
             in case propertyList 16 (Fin 0, Fin 0) (fst (da_availableRates device)) (snd (da_availableRates device)) of
                  [(minimum, maximum)] \<Rightarrow>
                    if at_least_half_off minimum \<or> at_least_half_off maximum then r1\<lparr>ds_error := Some Invalid_rates\<rparr>
                    else
                      let (inputs, err1) = channelCount formats device True None;
                          r2 = r1\<lparr>ds_inputChannels := inputs, ds_error := err1\<rparr>;
                          (outputs, err2) = channelCount formats device False err1;
                          r3 = r2\<lparr>ds_outputChannels := outputs, ds_error := err2\<rparr>;
                          ok = (ds_name r3 = ''AES Bridge'' \<and> less_than_half_off (ds_sampleRate r3)
                            \<and> unat (ds_inputChannels r3) = kVirtualChannels \<and> unat (ds_outputChannels r3) = kVirtualChannels)
                      in if err1 \<noteq> None then r2
                         else if err2 \<noteq> None then r3
                         else if ok then r3\<lparr>ds_valid := True\<rparr>
                         else r3\<lparr>ds_error := Some Unexpected_identity\<rparr>
                | _ \<Rightarrow> r1\<lparr>ds_error := Some Invalid_rates\<rparr>)"

fun inspect_devices ::
    "(u32 \<Rightarrow> device_answers) \<Rightarrow> (u32 \<Rightarrow> bool \<times> nat \<times> stream_format) \<Rightarrow> u32 list \<Rightarrow> device_snapshot" where
  "inspect_devices answers formats [] = empty_snapshot\<lparr>ds_error := Some Absent\<rparr>"
| "inspect_devices answers formats (device # devices) =
     (case textProperty (da_uid (answers device)) of
        Some uid \<Rightarrow> if uid \<noteq> kDeviceUID then inspect_devices answers formats devices
          else inspect_match formats (answers device) uid
      | None \<Rightarrow> inspect_devices answers formats devices)"

record core_audio =
  ca_devices :: "(bool \<times> nat) \<times> (bool \<times> u32 list)"
  ca_answers :: "u32 \<Rightarrow> device_answers"
  ca_formats :: "u32 \<Rightarrow> bool \<times> nat \<times> stream_format"

definition inspectDevice :: "core_audio \<Rightarrow> device_snapshot" where
  "inspectDevice ca = inspect_devices (ca_answers ca) (ca_formats ca)
     (propertyList 4 0 (fst (ca_devices ca)) (snd (ca_devices ca)))"

definition waitSeconds :: "string list \<Rightarrow> u64 option" where
  "waitSeconds argv = (case valueAfter argv ''--wait'' of
     None \<Rightarrow> Some 0
   | Some value \<Rightarrow> (case stoull value of
         None \<Rightarrow> None
       | Some (parsed, consumed) \<Rightarrow> if consumed \<noteq> length value \<or> parsed > 120 then None else Some parsed))"

text \<open>The loop of \<open>main\<close>: what Core Audio answers in the i-th round, and the clock behind it in nanoseconds.\<close>

partial_function (option) check_loop :: "(nat \<Rightarrow> core_audio) \<Rightarrow> (nat \<Rightarrow> int) \<Rightarrow> int \<Rightarrow> nat \<Rightarrow> device_snapshot option" where
  "check_loop system clock deadline i =
     (let snapshot = inspectDevice (system i)
      in if ds_visible snapshot \<or> clock i \<ge> deadline then Some snapshot else check_loop system clock deadline (i + 1))"

definition check_json :: "(f64 \<Rightarrow> string) \<Rightarrow> device_snapshot \<Rightarrow> string" where
  "check_json show_double s =
     ''{\"visible\":'' @ (if ds_visible s then ''true'' else ''false'')
     @ '',\"valid\":'' @ (if ds_valid s then ''true'' else ''false'')
     @ '',\"name\":\"'' @ ds_name s @ ''\"''
     @ '',\"uid\":\"'' @ ds_uid s @ ''\"''
     @ '',\"sampleRate\":'' @ show_double (ds_sampleRate s)
     @ '',\"inputChannels\":'' @ to_string (unat (ds_inputChannels s))
     @ '',\"outputChannels\":'' @ to_string (unat (ds_outputChannels s)) @ ''}'' @ [CHR 0x0A]"

definition check_exit :: "device_snapshot \<Rightarrow> int" where
  "check_exit s = (if ds_valid s then 0 else if ds_visible s then 1 else 2)"

definition check_text :: "(f64 \<Rightarrow> string) \<Rightarrow> string list \<Rightarrow> device_snapshot \<Rightarrow> string" where
  "check_text show_double argv s =
     (if hasOption argv ''--json'' then check_json show_double s
      else if ds_valid s then ''AES Bridge visible dans Core Audio: 64 entr'' @ [CHR 0xC3, CHR 0xA9] @ ''es, 64 sorties, 48 kHz.'' @ [CHR 0x0A]
      else [])"

definition check_main ::
    "(f64 \<Rightarrow> string) \<Rightarrow> (nat \<Rightarrow> core_audio) \<Rightarrow> (nat \<Rightarrow> int) \<Rightarrow> int \<Rightarrow> string list \<Rightarrow> (int \<times> string) option" where
  "check_main show_double system clock now argv = (case waitSeconds argv of
     None \<Rightarrow> Some (2, [])
   | Some wait \<Rightarrow> map_option (\<lambda>s. (check_exit s, check_text show_double argv s))
       (check_loop system clock (now + int (unat wait) * 1000000000) 0))"

section \<open>The device of the driver\<close>

record stream_parameters =
  sp_input :: bool
  sp_startingChannel :: u32
  sp_format :: stream_format

definition streamParameters :: "bool \<Rightarrow> stream_parameters" where
  "streamParameters input_direction = \<lparr> sp_input = input_direction, sp_startingChannel = 1,
     sp_format = \<lparr> sf_sampleRate = Fin (of_nat (unat kSampleRate)), sf_formatID = kAudioFormatLinearPCM,
       sf_formatFlags = kAudioFormatFlagIsFloat OR kAudioFormatFlagIsPacked,
       sf_bytesPerPacket = of_nat (kVirtualChannels * 4), sf_framesPerPacket = 1,
       sf_bytesPerFrame = of_nat (kVirtualChannels * 4), sf_channelsPerFrame = of_nat kVirtualChannels,
       sf_bitsPerChannel = 32 \<rparr> \<rparr>"

record device_parameters =
  dp_name :: string
  dp_manufacturer :: string
  dp_deviceUID :: string
  dp_modelUID :: string
  dp_canBeDefault :: bool
  dp_canBeDefaultForSystemSounds :: bool
  dp_sampleRate :: u32
  dp_channelCount :: nat

definition lxtool_parameters :: device_parameters where
  "lxtool_parameters = \<lparr> dp_name = ''AES Bridge'', dp_manufacturer = ''maxpierr'',
     dp_deviceUID = ''org.maxpierr.aesbridge.device'', dp_modelUID = ''org.maxpierr.aesbridge.model'',
     dp_canBeDefault = True, dp_canBeDefaultForSystemSounds = False,
     dp_sampleRate = kSampleRate, dp_channelCount = kVirtualChannels \<rparr>"

definition availableSampleRates :: "(f64 \<times> f64) list" where
  "availableSampleRates = [(Fin (of_nat (unat kSampleRate)), Fin (of_nat (unat kSampleRate)))]"

definition lxtool_streams :: "stream_parameters list" where
  "lxtool_streams = [streamParameters True, streamParameters False]"

section \<open>What the check accepts\<close>

definition devices_of :: "core_audio \<Rightarrow> u32 list" where
  "devices_of ca = propertyList 4 0 (fst (ca_devices ca)) (snd (ca_devices ca))"

definition streams_of :: "core_audio \<Rightarrow> u32 \<Rightarrow> bool \<Rightarrow> u32 list" where
  "streams_of ca device input_scope =
     propertyList 4 0 (fst (da_streams (ca_answers ca device) input_scope)) (snd (da_streams (ca_answers ca device) input_scope))"

definition rates_of :: "core_audio \<Rightarrow> u32 \<Rightarrow> (f64 \<times> f64) list" where
  "rates_of ca device = propertyList 16 (Fin 0, Fin 0) (fst (da_availableRates (ca_answers ca device)))
     (snd (da_availableRates (ca_answers ca device)))"

text \<open>One stream in a scope, of 64 channels of packed floats at 48 kHz.\<close>

definition scope_ok :: "core_audio \<Rightarrow> u32 \<Rightarrow> bool \<Rightarrow> bool" where
  "scope_ok ca device input_scope \<longleftrightarrow> (\<exists>stream f. streams_of ca device input_scope = [stream]
     \<and> property 40 (ca_formats ca stream) = Some f \<and> \<not> format_refused f \<and> unat (sf_channelsPerFrame f) = 64)"

definition device_ok :: "core_audio \<Rightarrow> u32 \<Rightarrow> bool" where
  "device_ok ca device \<longleftrightarrow> textProperty (da_name (ca_answers ca device)) = Some ''AES Bridge''
     \<and> (\<exists>rate. property 8 (da_sampleRate (ca_answers ca device)) = Some rate \<and> less_than_half_off rate)
     \<and> (\<exists>lo hi. rates_of ca device = [(lo, hi)] \<and> \<not> at_least_half_off lo \<and> \<not> at_least_half_off hi)
     \<and> scope_ok ca device True \<and> scope_ok ca device False"

definition named :: "core_audio \<Rightarrow> u32 \<Rightarrow> bool" where
  "named ca device \<longleftrightarrow> textProperty (da_uid (ca_answers ca device)) = Some kDeviceUID"

lemma channelCount_cases:
  "channelCount (ca_formats ca) (ca_answers ca device) input_scope err =
     (case streams_of ca device input_scope of
        [stream] \<Rightarrow> (case property 40 (ca_formats ca stream) of
            None \<Rightarrow> (0, Some (Invalid_format input_scope))
          | Some f \<Rightarrow> if format_refused f then (0, Some (Invalid_format input_scope)) else (sf_channelsPerFrame f, err))
      | _ \<Rightarrow> (0, Some (Unexpected_streams input_scope)))"
  by (simp add: channelCount_def streams_of_def)

lemma match_valid:
  "ds_valid (inspect_match (ca_formats ca) (ca_answers ca device) uid) \<longleftrightarrow> device_ok ca device"
proof -
  obtain i1 e1 where c1: "channelCount (ca_formats ca) (ca_answers ca device) True None = (i1, e1)" by fastforce
  obtain i2 e2 where c2: "channelCount (ca_formats ca) (ca_answers ca device) False e1 = (i2, e2)" by fastforce
  have one: "e1 = None \<and> unat i1 = 64 \<longleftrightarrow> scope_ok ca device True"
    using c1 by (auto simp: channelCount_cases scope_ok_def split: list.splits option.splits if_splits)
  have two: "e1 = None \<Longrightarrow> e2 = None \<and> unat i2 = 64 \<longleftrightarrow> scope_ok ca device False"
    using c2 by (auto simp: channelCount_cases scope_ok_def split: list.splits option.splits if_splits)
  show ?thesis using one two
    by (auto simp: inspect_match_def device_ok_def c1 c2 empty_snapshot_def rates_of_def [symmetric] kVirtualChannels_value Let_def
        split: option.splits list.splits)
qed

lemma match_visible:
  "ds_visible (inspect_match formats device uid) \<and> ds_uid (inspect_match formats device uid) = uid"
  by (simp add: inspect_match_def empty_snapshot_def Let_def split: option.splits list.splits prod.splits)

lemma inspect_first:
  "inspect_devices (ca_answers ca) (ca_formats ca) devices =
     (case List.find (named ca) devices of
        Some device \<Rightarrow> inspect_match (ca_formats ca) (ca_answers ca device) kDeviceUID
      | None \<Rightarrow> empty_snapshot\<lparr>ds_error := Some Absent\<rparr>)"
  by (induction devices) (auto simp: named_def split: option.splits)

lemma inspect_device:
  "inspectDevice ca = (case List.find (named ca) (devices_of ca) of
        Some device \<Rightarrow> inspect_match (ca_formats ca) (ca_answers ca device) kDeviceUID
      | None \<Rightarrow> empty_snapshot\<lparr>ds_error := Some Absent\<rparr>)"
  by (simp add: inspectDevice_def devices_of_def inspect_first)

lemma sixty_four: "unat (n :: u32) = 64 \<longleftrightarrow> n = 64"
  by (simp add: word_unat_eq_iff)

lemma valid_fields:
  assumes "ds_valid (inspectDevice ca)"
  shows "ds_visible (inspectDevice ca)" "ds_name (inspectDevice ca) = ''AES Bridge''" "ds_uid (inspectDevice ca) = kDeviceUID"
    "ds_inputChannels (inspectDevice ca) = 64" "ds_outputChannels (inspectDevice ca) = 64" "ds_error (inspectDevice ca) = None"
proof -
  obtain device where "inspectDevice ca = inspect_match (ca_formats ca) (ca_answers ca device) kDeviceUID"
    using assms by (auto simp: inspect_device empty_snapshot_def split: option.splits)
  with assms show "ds_visible (inspectDevice ca)" "ds_name (inspectDevice ca) = ''AES Bridge''"
    "ds_uid (inspectDevice ca) = kDeviceUID" "ds_inputChannels (inspectDevice ca) = 64"
    "ds_outputChannels (inspectDevice ca) = 64" "ds_error (inspectDevice ca) = None"
    by (auto simp: inspect_match_def empty_snapshot_def kVirtualChannels_value sixty_four Let_def
        split: option.splits list.splits prod.splits if_splits)
qed


section \<open>The driver's device passes\<close>

text \<open>Core Audio shows a device as its driver declares it: the parameters' texts and rate, one stream object per
  declared stream in the scope of its direction, with its format.\<close>

definition shows_declared :: "core_audio \<Rightarrow> u32 \<Rightarrow> device_parameters \<Rightarrow> (f64 \<times> f64) list \<Rightarrow> stream_parameters list \<Rightarrow> bool" where
  "shows_declared ca device p rates streams \<longleftrightarrow>
     textProperty (da_uid (ca_answers ca device)) = Some (dp_deviceUID p)
     \<and> textProperty (da_name (ca_answers ca device)) = Some (dp_name p)
     \<and> property 8 (da_sampleRate (ca_answers ca device)) = Some (Fin (of_nat (unat (dp_sampleRate p))))
     \<and> rates_of ca device = rates
     \<and> (\<forall>input_scope. map (\<lambda>stream. property 40 (ca_formats ca stream)) (streams_of ca device input_scope)
          = map (\<lambda>sp. Some (sp_format sp)) (filter (\<lambda>sp. sp_input sp = input_scope) streams))"

lemma declared_format: "\<not> format_refused (sp_format (streamParameters d))" "unat (sf_channelsPerFrame (sp_format (streamParameters d))) = 64"
  by (simp_all add: format_refused_def streamParameters_def kAudioFormatLinearPCM_def kAudioFormatFlagIsFloat_def
      kAudioFormatFlagIsPacked_def kAudioFormatFlagIsNonInterleaved_def kVirtualChannels_value kSampleRate_def)

lemma declared_ok:
  assumes "shows_declared ca device lxtool_parameters availableSampleRates lxtool_streams"
  shows "named ca device \<and> device_ok ca device"
proof -
  have "scope_ok ca device input_scope" for input_scope
  proof -
    have "map (\<lambda>stream. property 40 (ca_formats ca stream)) (streams_of ca device input_scope)
      = [Some (sp_format (streamParameters input_scope))]"
      using assms by (cases input_scope) (simp_all add: shows_declared_def lxtool_streams_def, simp_all add: streamParameters_def)
    then show ?thesis using declared_format by (auto simp: scope_ok_def)
  qed
  then show ?thesis using assms
    by (simp add: shows_declared_def named_def device_ok_def lxtool_parameters_def kDeviceUID_def availableSampleRates_def kSampleRate_def)
qed

text \<open>The device that the driver declares is what the check looks for: once Core Audio shows it, and no other
  device uses its identifier, the check succeeds.\<close>

theorem driver_passes_check:
  assumes "device \<in> set (devices_of ca)" "\<forall>d \<in> set (devices_of ca). d \<noteq> device \<longrightarrow> \<not> named ca d"
    and "shows_declared ca device lxtool_parameters availableSampleRates lxtool_streams"
  shows "check_exit (inspectDevice ca) = 0"
proof -
  have "List.find (named ca) devices = Some device"
    if "device \<in> set devices" "\<forall>d \<in> set devices. d \<noteq> device \<longrightarrow> \<not> named ca d" for devices
    using that declared_ok [OF assms(3)] by (induction devices) auto
  then have "List.find (named ca) (devices_of ca) = Some device" using assms(1,2) by blast
  then show ?thesis using declared_ok [OF assms(3)] match_valid by (simp add: inspect_device check_exit_def)
qed

text \<open>Two devices, the second being the driver's.\<close>

definition demo_audio :: core_audio where
  "demo_audio = \<lparr> ca_devices = ((True, 8), (True, [41, 42])),
     ca_answers = (\<lambda>device. \<lparr> da_uid = (True, 8, Some (if device = 42 then kDeviceUID else ''built-in'')),
       da_name = (True, 8, Some ''AES Bridge''), da_sampleRate = (True, 8, Fin 48000),
       da_availableRates = ((True, 16), (True, availableSampleRates)),
       da_streams = (\<lambda>input_scope. ((True, 4), (True, [if input_scope then 1 else 2]))) \<rparr>),
     ca_formats = (\<lambda>stream. (True, 40, sp_format (streamParameters (stream = 1)))) \<rparr>"

lemma kDeviceUID_short: "length kDeviceUID < 256" "takeWhile (\<lambda>c. c \<noteq> CHR 0x00) kDeviceUID = kDeviceUID"
  by (simp_all add: kDeviceUID_def)

lemma declared_direction [simp]: "sp_input (streamParameters d) = d"
  by (simp add: streamParameters_def)

lemma demo_shows: "shows_declared demo_audio 42 lxtool_parameters availableSampleRates lxtool_streams"
  using kDeviceUID_short
  by (auto simp: shows_declared_def demo_audio_def textProperty_def property_def propertyList_def rates_of_def streams_of_def
      lxtool_parameters_def lxtool_streams_def kDeviceUID_def kSampleRate_def availableSampleRates_def)

theorem driver_passes_check_witness: "check_exit (inspectDevice demo_audio) = 0"
proof (rule driver_passes_check [OF _ _ demo_shows])
  show "42 \<in> set (devices_of demo_audio)" by (simp add: devices_of_def demo_audio_def propertyList_def)
  show "\<forall>d \<in> set (devices_of demo_audio). d \<noteq> 42 \<longrightarrow> \<not> named demo_audio d"
    by (simp add: devices_of_def demo_audio_def propertyList_def named_def textProperty_def property_def kDeviceUID_def)
qed


section \<open>Waiting and reporting\<close>

interpretation check: polling "check_loop system clock deadline"
    "\<lambda>i. ds_visible (inspectDevice (system i)) \<or> deadline \<le> clock i" "\<lambda>i. inspectDevice (system i)" for system clock deadline
  by unfold_locales (subst check_loop.simps, simp add: Let_def)

text \<open>The check ends after at most four rounds per second it is told to wait, and one more, with what it saw in
  its last round: the first one that showed the device, or one past the deadline.\<close>

theorem check_terminates:
  assumes "\<forall>i. clock (i + 1) \<ge> clock i + 250000000" "now \<le> clock 0" "waitSeconds argv = Some wait"
  shows "\<exists>k \<le> 4 * unat wait. check_main show_double system clock now argv
      = Some (check_exit (inspectDevice (system k)), check_text show_double argv (inspectDevice (system k)))
    \<and> (\<forall>j < k. \<not> ds_visible (inspectDevice (system j)))
    \<and> (\<not> ds_visible (inspectDevice (system k)) \<longrightarrow> now + int (unat wait) * 1000000000 \<le> clock k)"
proof -
  have "now + int (unat wait) * 1000000000 \<le> clock (4 * unat wait)"
    using clock_after [OF assms(1), of "4 * unat wait"] assms(2) by simp
  then have "ds_visible (inspectDevice (system (4 * unat wait))) \<or> now + int (unat wait) * 1000000000 \<le> clock (4 * unat wait)" ..
  from check.ends [of system "4 * unat wait" _ clock, OF this] show ?thesis
    using assms(3) by (auto simp: check_main_def)
qed

theorem check_terminates_witness:
  "\<exists>k \<le> (4 :: nat). check_main (\<lambda>_. ''48000'') (\<lambda>_. demo_audio) (\<lambda>i. int i * 250000000) 0 [''check'', ''--wait'', ''1'']
     = Some (check_exit (inspectDevice demo_audio), check_text (\<lambda>_. ''48000'') [''check'', ''--wait'', ''1''] (inspectDevice demo_audio))"
proof -
  have wait: "waitSeconds [''check'', ''--wait'', ''1''] = Some 1"
    by (simp add: waitSeconds_def valueAfter_def stoull_def split_sign_def is_space_def is_digit_def decval_def digit_val_def)
  show ?thesis using check_terminates [OF _ _ wait, of "\<lambda>i. int i * 250000000" 0 "\<lambda>_. ''48000''" "\<lambda>_. demo_audio"] by auto
qed

text \<open>The JSON of a successful check, whose rate prints as a whole number, is read back as the device that was
  looked for.\<close>

theorem check_json_valid:
  assumes "ds_valid (inspectDevice ca)" "show_double (ds_sampleRate (inspectDevice ca)) = to_string rate"
  shows "json_read (check_json show_double (inspectDevice ca)) = Some (JObject
    [(''visible'', JBool True), (''valid'', JBool True), (''name'', JString ''AES Bridge''), (''uid'', JString kDeviceUID),
     (''sampleRate'', JNumber (int rate)), (''inputChannels'', JNumber 64), (''outputChannels'', JNumber 64)])"
proof (rule json_read_tokens)
  have digits: "to_string 64 = int_text 64" by (simp add: int_text_def)
  have word: "json_lex (''true'' @ s) = map_option (\<lambda>ts. Word ''true'' # ts) (json_lex s)" if "\<not> is_word (hd s)" for s
    using lex_word [of "''true''" s] that by (simp add: is_word_def)
  show "json_lex (check_json show_double (inspectDevice ca)) = Some (json_tokens (JObject
    [(''visible'', JBool True), (''valid'', JBool True), (''name'', JString ''AES Bridge''), (''uid'', JString kDeviceUID),
     (''sampleRate'', JNumber (int rate)), (''inputChannels'', JNumber 64), (''outputChannels'', JNumber 64)]))"
    using assms valid_fields [OF assms(1)] word
    by (simp add: check_json_def kDeviceUID_def lex_pieces is_blank_def)
qed

theorem check_json_valid_witness:
  "\<exists>v. json_read (check_json (\<lambda>_. to_string 48000) (inspectDevice demo_audio)) = Some v"
proof -
  have "device_ok demo_audio 42" using declared_ok [OF demo_shows] by simp
  moreover have "List.find (named demo_audio) (devices_of demo_audio) = Some 42"
    using declared_ok [OF demo_shows]
    by (simp add: devices_of_def demo_audio_def propertyList_def named_def textProperty_def property_def kDeviceUID_def)
  ultimately have "ds_valid (inspectDevice demo_audio)" using match_valid by (simp add: inspect_device)
  from check_json_valid [OF this, of "\<lambda>_. to_string 48000" 48000] show ?thesis by simp
qed

text \<open>But the name of the device goes into the JSON unescaped: a quote in it leaves a text that is no JSON.\<close>

lemma check_json_unescaped:
  "json_read (check_json (\<lambda>_. ''48000'') (empty_snapshot\<lparr>ds_visible := True, ds_uid := kDeviceUID, ds_name := ''AES \"B\" 2''\<rparr>)) = None"
  by code_simp

end
