(* ===== verification/Directory_Seqlock.thy ===== *)
theory Directory_Seqlock
  imports Session_Directory
begin

text \<open>
  A reader of Sources/Core/SessionDirectory.cpp running against the writing thread. A history
  gives the slot at every instant, one store of the writer at a time; the reader's loads happen
  at instants of the history in program order. The order of the reader's loads is an assumption
  of this theory (the relaxed loads of \<open>snapshotSlot\<close> are only ordered by the acquire load
  before them); see the last section for what happens without it.
\<close>

section \<open>Version counters\<close>

text \<open>A value guarded by a counter: it changes only while the counter is odd, and the counter
  advances by one at a time.\<close>

locale version_counter =
  fixes revision :: "'s \<Rightarrow> u32" and change :: "'s \<Rightarrow> 's \<Rightarrow> bool"
  assumes advance: "change s s' \<Longrightarrow> revision s' = revision s \<or> revision s' = revision s + 1"
    and guarded: "change s s' \<Longrightarrow> revision s AND 1 = 0 \<Longrightarrow> revision s' = revision s \<Longrightarrow> s' = s"
begin

lemma counted:
  assumes "\<And>t. change (hist t) (hist (Suc t))"
  shows "\<exists>c \<le> n. revision (hist (t0 + n)) = revision (hist t0) + of_nat c
    \<and> (c = 0 \<longrightarrow> revision (hist t0) AND 1 = 0 \<longrightarrow> (\<forall>i \<le> n. hist (t0 + i) = hist t0))"
proof (induction n)
  case 0
  then show ?case by (intro exI [of _ 0]) simp
next
  case (Suc n)
  then obtain c where c: "c \<le> n" "revision (hist (t0 + n)) = revision (hist t0) + of_nat c"
    "c = 0 \<longrightarrow> revision (hist t0) AND 1 = 0 \<longrightarrow> (\<forall>i \<le> n. hist (t0 + i) = hist t0)" by blast
  have step: "change (hist (t0 + n)) (hist (t0 + Suc n))" using assms by simp
  from advance [OF step] show ?case
  proof
    assume same: "revision (hist (t0 + Suc n)) = revision (hist (t0 + n))"
    have "\<forall>i \<le> Suc n. hist (t0 + i) = hist t0" if "c = 0" "revision (hist t0) AND 1 = 0"
    proof -
      from that c(3) have below: "\<forall>i \<le> n. hist (t0 + i) = hist t0" by blast
      then have "hist (t0 + n) = hist t0" by simp
      with guarded [OF step] same that have "hist (t0 + Suc n) = hist t0" by simp
      with below show ?thesis by (auto simp: le_Suc_eq)
    qed
    with c same show ?thesis by (intro exI [of _ c]) auto
  next
    assume "revision (hist (t0 + Suc n)) = revision (hist (t0 + n)) + 1"
    with c show ?thesis by (intro exI [of _ "Suc c"]) (simp add: add.assoc)
  qed
qed

text \<open>A reader that sees the same even value twice, less than a whole turn of the counter apart,
  has looked at an unchanging value in between.\<close>

lemma stable_window:
  assumes "\<And>t. change (hist t) (hist (Suc t))" "t0 \<le> t1" "t1 - t0 < 2 ^ 32"
    and "revision (hist t0) AND 1 = 0" "revision (hist t1) = revision (hist t0)"
    and "t0 \<le> t" "t \<le> t1"
  shows "hist t = hist t0"
proof -
  obtain c where c: "c \<le> t1 - t0" "revision (hist t1) = revision (hist t0) + of_nat c"
    "c = 0 \<longrightarrow> (\<forall>i \<le> t1 - t0. hist (t0 + i) = hist t0)"
    using counted [of hist "t1 - t0" t0] assms(1,2,4) by auto
  have "(of_nat c :: u32) = 0" using c(2) assms(5) by simp
  moreover have "unat (of_nat c :: u32) = c"
    using c(1) assms(3) by (simp add: unat_of_nat)
  ultimately have "c = 0" by simp
  with c(3) assms(6,7) show ?thesis
    by (metis diff_le_mono le_add_diff_inverse)
qed

end

section \<open>The stores of the writer\<close>

text \<open>One store at a time, in program order.\<close>

definition text_stores :: "(nat \<Rightarrow> char \<Rightarrow> session_slot \<Rightarrow> session_slot) \<Rightarrow> nat \<Rightarrow> string \<Rightarrow>
    (session_slot \<Rightarrow> session_slot) list" where
  "text_stores put capacity source = map (\<lambda>i. put i (storeText capacity source ! i)) [0..<capacity]"

definition begin_stores :: "(session_slot \<Rightarrow> session_slot) list" where
  "begin_stores = [\<lambda>sl. sl\<lparr>sl_revision := sl_revision sl + 1\<rparr>, \<lambda>sl. sl\<lparr>sl_active := False\<rparr>]"

definition end_stores :: "bool \<Rightarrow> (session_slot \<Rightarrow> session_slot) list" where
  "end_stores active = [\<lambda>sl. sl\<lparr>sl_active := active\<rparr>, \<lambda>sl. sl\<lparr>sl_revision := sl_revision sl + 1\<rparr>]"

definition session_stores :: "u16 \<Rightarrow> session_description \<Rightarrow> u64 \<Rightarrow> (session_slot \<Rightarrow> session_slot) list" where
  "session_stores messageHash session now =
     [\<lambda>sl. sl\<lparr>sl_messageHash := messageHash\<rparr>, \<lambda>sl. sl\<lparr>sl_port := sd_port session\<rparr>,
      \<lambda>sl. sl\<lparr>sl_channels := sd_channels session\<rparr>, \<lambda>sl. sl\<lparr>sl_sampleRate := sd_sampleRate session\<rparr>,
      \<lambda>sl. sl\<lparr>sl_framesPerPacket := sd_framesPerPacket session\<rparr>,
      \<lambda>sl. sl\<lparr>sl_payloadType := sd_payloadType session\<rparr>,
      \<lambda>sl. sl\<lparr>sl_ptpDomain := sd_ptpDomain session\<rparr>, \<lambda>sl. sl\<lparr>sl_lastSeen := now\<rparr>]
     @ text_stores (\<lambda>i c sl. sl\<lparr>sl_name := (sl_name sl)[i := c]\<rparr>) kSessionNameCapacity (sd_name session)
     @ text_stores (\<lambda>i c sl. sl\<lparr>sl_originAddress := (sl_originAddress sl)[i := c]\<rparr>)
         kIPv4TextCapacity (sd_originAddress session)
     @ text_stores (\<lambda>i c sl. sl\<lparr>sl_sourceAddress := (sl_sourceAddress sl)[i := c]\<rparr>)
         kIPv4TextCapacity (sd_sourceAddress session)
     @ text_stores (\<lambda>i c sl. sl\<lparr>sl_multicastAddress := (sl_multicastAddress sl)[i := c]\<rparr>)
         kIPv4TextCapacity (sd_multicastAddress session)"

abbreviation run_stores :: "(session_slot \<Rightarrow> session_slot) list \<Rightarrow> session_slot \<Rightarrow> session_slot" where
  "run_stores \<equiv> fold (\<lambda>f. f)"

definition sized :: "session_slot \<Rightarrow> bool" where
  "sized sl \<longleftrightarrow> length (sl_name sl) = kSessionNameCapacity \<and> length (sl_originAddress sl) = kIPv4TextCapacity
     \<and> length (sl_sourceAddress sl) = kIPv4TextCapacity \<and> length (sl_multicastAddress sl) = kIPv4TextCapacity"

text \<open>What one instant can do to a slot: nothing, open a write, store while a write is open, or
  close it.\<close>

inductive slot_change :: "session_slot \<Rightarrow> session_slot \<Rightarrow> bool" where
  idle: "slot_change sl sl"
| opens: "sl_revision sl AND 1 = 0 \<Longrightarrow> slot_change sl (sl\<lparr>sl_revision := sl_revision sl + 1\<rparr>)"
| stores: "sl_revision sl AND 1 \<noteq> 0 \<Longrightarrow> sl_revision sl' = sl_revision sl \<Longrightarrow> (sized sl \<longrightarrow> sized sl') \<Longrightarrow>
    slot_change sl sl'"
| closes: "sl_revision sl AND 1 \<noteq> 0 \<Longrightarrow> slot_change sl (sl\<lparr>sl_revision := sl_revision sl + 1\<rparr>)"

inductive_cases slot_changeE: "slot_change sl sl'"

interpretation slot_version: version_counter sl_revision slot_change
  by unfold_locales (auto elim: slot_changeE)

lemma slot_change_sized: "slot_change sl sl' \<Longrightarrow> sized sl \<Longrightarrow> sized sl'"
  by (erule slot_changeE) (auto simp: sized_def)

lemma history_sized:
  "(\<And>t. slot_change (hist t) (hist (Suc t))) \<Longrightarrow> sized (hist 0) \<Longrightarrow> sized (hist t)"
  by (induction t) (auto intro: slot_change_sized)

section \<open>Every write is such a history\<close>

lemma fold_update_all:
  "length xs = length ys \<Longrightarrow> fold (\<lambda>i xs. xs[i := ys ! i]) [0..<length ys] xs = ys"
proof (rule nth_equalityI)
  assume len: "length xs = length ys"
  then show "length (fold (\<lambda>i xs. xs[i := ys ! i]) [0..<length ys] xs) = length ys" by simp
  fix i
  assume "i < length (fold (\<lambda>i xs. xs[i := ys ! i]) [0..<length ys] xs)"
  then show "fold (\<lambda>i xs. xs[i := ys ! i]) [0..<length ys] xs ! i = ys ! i"
    using len nth_fold_update [of id "[0..<length ys]" i xs "\<lambda>i. ys ! i"] by simp
qed

text \<open>Storing a text cell by cell, for any field of the record.\<close>

lemma run_text_stores:
  assumes "\<And>i c sl. put i c sl = upd ((get sl)[i := c]) sl"
    and "\<And>x sl. get (upd x sl) = x" "\<And>x y sl. upd y (upd x sl) = upd y sl" "\<And>sl. upd (get sl) sl = sl"
    and "length (get sl) = capacity" "0 < capacity"
  shows "run_stores (text_stores put capacity source) sl = upd (storeText capacity source) sl"
proof -
  have "run_stores (map (\<lambda>i. put i (ys ! i)) is) sl = upd (fold (\<lambda>i xs. xs[i := ys ! i]) is (get sl)) sl" for ys "is"
  proof (induction "is" arbitrary: sl)
    case Nil
    then show ?case using assms(4) by simp
  next
    case (Cons i "is")
    then show ?case by (simp add: assms(1-3))
  qed
  then show ?thesis
    using fold_update_all [of "get sl" "storeText capacity source"] assms(5,6)
    by (simp add: text_stores_def)
qed

lemma run_session_stores:
  assumes "sized sl"
  shows "run_stores (session_stores h session now) sl = store_session sl h session now"
proof -
  have pos: "0 < kSessionNameCapacity" "0 < kIPv4TextCapacity"
    by (simp_all add: kSessionNameCapacity_def kIPv4TextCapacity_def)
  have "run_stores (text_stores (\<lambda>i c sl. sl\<lparr>sl_name := (sl_name sl)[i := c]\<rparr>) kSessionNameCapacity s) x
      = x\<lparr>sl_name := storeText kSessionNameCapacity s\<rparr>" if "length (sl_name x) = kSessionNameCapacity" for s x
    using that pos by (intro run_text_stores [where get = sl_name and upd = "\<lambda>v sl. sl\<lparr>sl_name := v\<rparr>"]) simp_all
  moreover have "run_stores (text_stores (\<lambda>i c sl. sl\<lparr>sl_originAddress := (sl_originAddress sl)[i := c]\<rparr>) kIPv4TextCapacity s) x
      = x\<lparr>sl_originAddress := storeText kIPv4TextCapacity s\<rparr>" if "length (sl_originAddress x) = kIPv4TextCapacity" for s x
    using that pos
    by (intro run_text_stores [where get = sl_originAddress and upd = "\<lambda>v sl. sl\<lparr>sl_originAddress := v\<rparr>"]) simp_all
  moreover have "run_stores (text_stores (\<lambda>i c sl. sl\<lparr>sl_sourceAddress := (sl_sourceAddress sl)[i := c]\<rparr>) kIPv4TextCapacity s) x
      = x\<lparr>sl_sourceAddress := storeText kIPv4TextCapacity s\<rparr>" if "length (sl_sourceAddress x) = kIPv4TextCapacity" for s x
    using that pos
    by (intro run_text_stores [where get = sl_sourceAddress and upd = "\<lambda>v sl. sl\<lparr>sl_sourceAddress := v\<rparr>"]) simp_all
  moreover have "run_stores (text_stores (\<lambda>i c sl. sl\<lparr>sl_multicastAddress := (sl_multicastAddress sl)[i := c]\<rparr>) kIPv4TextCapacity s) x
      = x\<lparr>sl_multicastAddress := storeText kIPv4TextCapacity s\<rparr>" if "length (sl_multicastAddress x) = kIPv4TextCapacity" for s x
    using that pos
    by (intro run_text_stores [where get = sl_multicastAddress and upd = "\<lambda>v sl. sl\<lparr>sl_multicastAddress := v\<rparr>"]) simp_all
  ultimately show ?thesis
    using assms by (simp add: session_stores_def store_session_def sized_def)
qed

text \<open>A list of stores none of which touches the revision or the sizes.\<close>

definition quiet :: "(session_slot \<Rightarrow> session_slot) \<Rightarrow> bool" where
  "quiet f \<longleftrightarrow> (\<forall>sl. sl_revision (f sl) = sl_revision sl \<and> (sized sl \<longrightarrow> sized (f sl)))"

lemma session_stores_quiet: "f \<in> set (session_stores h session now) \<Longrightarrow> quiet f"
  by (auto simp: session_stores_def text_stores_def quiet_def sized_def)

text \<open>The states a list of stores passes through.\<close>

fun states :: "(session_slot \<Rightarrow> session_slot) list \<Rightarrow> session_slot \<Rightarrow> session_slot list" where
  "states [] sl = [sl]"
| "states (f # fs) sl = sl # states fs (f sl)"

fun chain :: "session_slot list \<Rightarrow> bool" where
  "chain (a # b # rest) \<longleftrightarrow> slot_change a b \<and> chain (b # rest)"
| "chain _ \<longleftrightarrow> True"

lemma states_Cons: "\<exists>rest. states fs sl = sl # rest"
  by (cases fs) auto

lemma chain_states_Cons: "chain (states (f # fs) sl) \<longleftrightarrow> slot_change sl (f sl) \<and> chain (states fs (f sl))"
  using states_Cons [of fs "f sl"] by auto

lemma chain_states_append:
  "chain (states fs sl) \<Longrightarrow> chain (states gs (run_stores fs sl)) \<Longrightarrow> chain (states (fs @ gs) sl)"
  by (induction fs arbitrary: sl) (simp_all add: chain_states_Cons del: states.simps(2))

lemma last_states: "last (states fs sl) = run_stores fs sl"
proof (induction fs arbitrary: sl)
  case (Cons f fs)
  then show ?case using states_Cons [of fs "f sl"] by auto
qed simp

lemma quiet_chain:
  "sl_revision sl AND 1 \<noteq> 0 \<Longrightarrow> (\<And>f. f \<in> set fs \<Longrightarrow> quiet f) \<Longrightarrow> chain (states fs sl)
   \<and> sl_revision (run_stores fs sl) = sl_revision sl"
proof (induction fs arbitrary: sl)
  case (Cons f fs)
  then have "quiet f" by simp
  then have "slot_change sl (f sl)" "sl_revision (f sl) = sl_revision sl"
    using Cons.prems(1) by (auto simp: quiet_def intro: slot_change.stores)
  with Cons show ?case by (simp add: chain_states_Cons del: states.simps(2))
qed simp

lemma odd_after_even: "(r :: u32) AND 1 = 0 \<Longrightarrow> (r + 1) AND 1 \<noteq> 0"
  by (simp add: and_one_eq even_iff_mod_2_eq_zero [symmetric])

lemma write_chain:
  assumes "sl_revision sl AND 1 = 0" "\<And>f. f \<in> set fs \<Longrightarrow> quiet f"
  shows "chain (states (begin_stores @ fs @ end_stores active) sl)"
    and "last (states (begin_stores @ fs @ end_stores active) sl)
      = endWrite (run_stores fs (beginWrite sl)) active"
proof -
  let ?body = "[\<lambda>sl. sl\<lparr>sl_active := False\<rparr>] @ fs @ [\<lambda>sl. sl\<lparr>sl_active := active\<rparr>]"
  let ?sl = "sl\<lparr>sl_revision := sl_revision sl + 1\<rparr>"
  have odd: "sl_revision ?sl AND 1 \<noteq> 0" using odd_after_even [OF assms(1)] by simp
  have "quiet f" if "f \<in> set ?body" for f
    using that assms(2) by (auto simp: quiet_def sized_def)
  with quiet_chain [OF odd, of ?body]
  have body: "chain (states ?body ?sl)" "sl_revision (run_stores ?body ?sl) = sl_revision ?sl"
    by blast+
  have last: "chain (states [\<lambda>sl. sl\<lparr>sl_revision := sl_revision sl + 1\<rparr>] (run_stores ?body ?sl))"
  proof -
    have "sl_revision (run_stores ?body ?sl) AND 1 \<noteq> 0" unfolding body(2) by (rule odd)
    from slot_change.closes [OF this] show ?thesis unfolding chain_states_Cons by simp
  qed
  have "chain (states ((\<lambda>sl. sl\<lparr>sl_revision := sl_revision sl + 1\<rparr>) #
      (?body @ [\<lambda>sl. sl\<lparr>sl_revision := sl_revision sl + 1\<rparr>])) sl)"
    unfolding chain_states_Cons
    using slot_change.opens [OF assms(1)] chain_states_append [OF body(1) last] by blast
  then show "chain (states (begin_stores @ fs @ end_stores active) sl)"
    by (simp add: begin_stores_def end_stores_def)
  show "last (states (begin_stores @ fs @ end_stores active) sl)
      = endWrite (run_stores fs (beginWrite sl)) active"
    unfolding last_states by (simp add: begin_stores_def end_stores_def beginWrite_def endWrite_def)
qed

section \<open>The reader\<close>

lemma loadText_next: "k \<le> snd (loadText obs k i n)"
proof (induction n arbitrary: k i)
  case (Suc n)
  show ?case using Suc [of "k + 1" "i + 1"] by (simp add: Let_def case_prod_unfold)
qed simp

lemma loadText_cong:
  "(\<And>j. k \<le> j \<Longrightarrow> j < snd (loadText obs k i n) \<Longrightarrow> obs j = cells) \<Longrightarrow>
   loadText obs k i n = loadText (\<lambda>_. cells) k i n"
proof (induction n arbitrary: k i)
  case 0
  then show ?case by simp
next
  case (Suc n)
  have "k < snd (loadText obs k i (Suc n))"
    using loadText_next [of "k + 1" obs "i + 1" n] by (simp add: Let_def case_prod_unfold)
  then have "obs k = cells" using Suc.prems by blast
  moreover have "loadText obs (k + 1) (i + 1) n = loadText (\<lambda>_. cells) (k + 1) (i + 1) n"
    if "cells ! i \<noteq> CHR 0x00"
    using that \<open>obs k = cells\<close> by (intro Suc.IH Suc.prems) (simp_all add: Let_def case_prod_unfold)
  ultimately show ?case by (simp add: Let_def)
qed

text \<open>The number of the load that reads the revision again, and the facts of a successful attempt.\<close>

lemma snapshot_attempt_window:
  assumes "snapshot_attempt obs k = (Some s, k')"
  shows "k + 10 \<le> k' \<and> sl_revision (obs k) AND 1 = 0 \<and> sl_revision (obs (k' - 2)) = sl_revision (obs k)
    \<and> sl_active (obs (k + 1))"
proof -
  define a where "a = loadText (\<lambda>t. sl_name (obs t)) (k + 3) 0 kSessionNameCapacity"
  define b where "b = loadText (\<lambda>t. sl_originAddress (obs t)) (snd a) 0 kIPv4TextCapacity"
  define c where "c = loadText (\<lambda>t. sl_sourceAddress (obs t)) (snd b) 0 kIPv4TextCapacity"
  define d where "d = loadText (\<lambda>t. sl_multicastAddress (obs t)) (snd c) 0 kIPv4TextCapacity"
  have "k + 3 \<le> snd a" "snd a \<le> snd b" "snd b \<le> snd c" "snd c \<le> snd d"
    unfolding a_def b_def c_def d_def by (rule loadText_next)+
  moreover have main: "k' = snd d + 9 \<and> sl_revision (obs k) AND 1 = 0
      \<and> sl_revision (obs (snd d + 7)) = sl_revision (obs k) \<and> sl_active (obs (k + 1))"
    using assms
    by (auto simp: snapshot_attempt_def Let_def case_prod_unfold a_def b_def c_def d_def split: if_splits)
  moreover have idx: "k' - 2 = snd d + 7" using main by simp
  ultimately show ?thesis unfolding idx by linarith
qed

lemma snapshot_attempt_stable:
  assumes some: "snapshot_attempt obs k = (Some s, k')"
    and same: "\<And>j. k \<le> j \<Longrightarrow> j \<le> k' - 2 \<Longrightarrow> obs j = sl"
    and wf: "slot_wf sl"
  shows "s = slot_snapshot sl"
proof -
  define a where "a = loadText (\<lambda>t. sl_name (obs t)) (k + 3) 0 kSessionNameCapacity"
  define b where "b = loadText (\<lambda>t. sl_originAddress (obs t)) (snd a) 0 kIPv4TextCapacity"
  define c where "c = loadText (\<lambda>t. sl_sourceAddress (obs t)) (snd b) 0 kIPv4TextCapacity"
  define d where "d = loadText (\<lambda>t. sl_multicastAddress (obs t)) (snd c) 0 kIPv4TextCapacity"
  have le: "k + 3 \<le> snd a" "snd a \<le> snd b" "snd b \<le> snd c" "snd c \<le> snd d"
    unfolding a_def b_def c_def d_def by (rule loadText_next)+
  have k': "k' = snd d + 9" and s: "s = \<lparr> sn_messageHash = sl_messageHash (obs (k + 2)), sn_name = fst a,
      sn_originAddress = fst b, sn_sourceAddress = fst c, sn_multicastAddress = fst d,
      sn_port = sl_port (obs (snd d)), sn_channels = sl_channels (obs (snd d + 1)),
      sn_sampleRate = sl_sampleRate (obs (snd d + 2)),
      sn_framesPerPacket = sl_framesPerPacket (obs (snd d + 3)),
      sn_payloadType = sl_payloadType (obs (snd d + 4)), sn_ptpDomain = sl_ptpDomain (obs (snd d + 5)),
      sn_lastSeen = sl_lastSeen (obs (snd d + 6)) \<rparr>"
    using some
    by (auto simp: snapshot_attempt_def Let_def case_prod_unfold a_def b_def c_def d_def split: if_splits)
  have obs: "obs j = sl" if "k \<le> j" "j \<le> snd d + 7" for j
    using same that k' by simp
  have "a = loadText (\<lambda>_. sl_name sl) (k + 3) 0 kSessionNameCapacity"
    unfolding a_def by (rule loadText_cong) (use le obs in \<open>simp add: a_def\<close>)
  moreover have "b = loadText (\<lambda>_. sl_originAddress sl) (snd a) 0 kIPv4TextCapacity"
    unfolding b_def by (rule loadText_cong) (use le obs in \<open>simp add: b_def\<close>)
  moreover have "c = loadText (\<lambda>_. sl_sourceAddress sl) (snd b) 0 kIPv4TextCapacity"
    unfolding c_def by (rule loadText_cong) (use le obs in \<open>simp add: c_def\<close>)
  moreover have "d = loadText (\<lambda>_. sl_multicastAddress sl) (snd c) 0 kIPv4TextCapacity"
    unfolding d_def by (rule loadText_cong) (use le obs in \<open>simp add: d_def\<close>)
  ultimately have "fst a = text_of (sl_name sl)" "fst b = text_of (sl_originAddress sl)"
    "fst c = text_of (sl_sourceAddress sl)" "fst d = text_of (sl_multicastAddress sl)"
    using wf by (simp_all add: loadText_const slot_wf_def)
  with s obs le show ?thesis by (simp add: slot_snapshot_def)
qed

text \<open>C7: A snapshot is never torn: if the reader's loads happen in program order while the writer
  stores byte by byte, an attempt that returns an entry returns the one the slot held, complete
  and readable, at an instant of the attempt (unless the revision turned over completely).\<close>

theorem snapshot_never_torn:
  assumes "\<And>t. slot_change (hist t) (hist (Suc t))" "sized (hist 0)" "mono \<tau>"
    and "snapshot_attempt (\<lambda>j. hist (\<tau> j)) k = (Some s, k')" "\<tau> k' - \<tau> k < 2 ^ 32"
  shows "\<exists>t. \<tau> k \<le> t \<and> t \<le> \<tau> k' \<and> sl_revision (hist t) AND 1 = 0 \<and> sl_active (hist t)
    \<and> s = slot_snapshot (hist t)"
proof -
  let ?sl = "hist (\<tau> k)"
  note win = snapshot_attempt_window [OF assms(4)]
  have order: "\<tau> k \<le> \<tau> (k' - 2)" "\<tau> (k' - 2) \<le> \<tau> k'"
    using win assms(3) by (auto simp: mono_def)
  have same: "hist (\<tau> j) = ?sl" if "k \<le> j" "j \<le> k' - 2" for j
  proof (rule slot_version.stable_window [where ?t1.0 = "\<tau> (k' - 2)"])
    show "\<tau> k \<le> \<tau> j" "\<tau> j \<le> \<tau> (k' - 2)" using that assms(3) by (auto simp: mono_def)
  qed (use assms(1,5) order win in auto)
  have "slot_wf ?sl"
    using history_sized [OF assms(1,2), of "\<tau> k"] win by (simp add: slot_wf_def sized_def)
  then have "s = slot_snapshot ?sl"
    using snapshot_attempt_stable [OF assms(4), of ?sl] same by blast
  moreover have "sl_active ?sl"
  proof -
    have "k + 1 \<le> k' - 2" using win by linarith
    then have "hist (\<tau> (k + 1)) = ?sl" by (intro same) simp_all
    with win show ?thesis by simp
  qed
  ultimately show ?thesis
    using win order by (intro exI [of _ "\<tau> k"]) auto
qed

text \<open>The reader that looks while a second description of the same session is being stored, before
  the first store of the writer.\<close>

definition stored_slot_example :: session_slot where
  "stored_slot_example = endWrite (store_session (beginWrite new_slot) 7 sample_session 1000) True"

lemma stored_slot_example_wf: "slot_wf stored_slot_example" "sized stored_slot_example"
  "sl_active stored_slot_example"
  using stored_slot(1) [of new_slot 7 sample_session 1000]
  by (simp_all add: stored_slot_example_def slot_wf_def sized_def new_slot_def endWrite_def)

lemma history_example:
  "slot_change (if t < 1000 then stored_slot_example else beginning)
     (if Suc t < 1000 then stored_slot_example else beginning)"
  if "beginning = stored_slot_example\<lparr>sl_revision := sl_revision stored_slot_example + 1\<rparr>"
  using that stored_slot_example_wf
  by (auto simp: slot_wf_def intro: slot_change.idle slot_change.opens)

theorem snapshot_never_torn_witness:
  "\<exists>t. sl_revision (if t < 1000 then stored_slot_example
        else stored_slot_example\<lparr>sl_revision := sl_revision stored_slot_example + 1\<rparr>) AND 1 = 0
     \<and> snapshot_of 7 sample_session 1000 = slot_snapshot (if t < (1000 :: nat) then stored_slot_example
        else stored_slot_example\<lparr>sl_revision := sl_revision stored_slot_example + 1\<rparr>)"
proof -
  let ?h = "\<lambda>t :: nat. if t < 1000 then stored_slot_example
    else stored_slot_example\<lparr>sl_revision := sl_revision stored_slot_example + 1\<rparr>"
  let ?tau = "\<lambda>j :: nat. min j 999"
  have obs: "(\<lambda>j. ?h (?tau j)) = (\<lambda>_. stored_slot_example)" by (rule ext) simp
  have "slot_wf new_slot" by (simp add: slot_wf_def new_slot_def)
  then have "own_view stored_slot_example = Some (snapshot_of 7 sample_session 1000)"
    unfolding stored_slot_example_def by (rule stored_slot(2))
  then have "fst (snapshot_attempt (\<lambda>_. stored_slot_example) 0) = Some (snapshot_of 7 sample_session 1000)"
    using snapshot_attempt_const [OF stored_slot_example_wf(1), of 0] own_view_eq [OF stored_slot_example_wf(1)]
      stored_slot_example_wf(3) by simp
  then obtain k' where "snapshot_attempt (\<lambda>j. ?h (?tau j)) 0 = (Some (snapshot_of 7 sample_session 1000), k')"
    unfolding obs by (cases "snapshot_attempt (\<lambda>_. stored_slot_example) 0") auto
  moreover have "mono ?tau" by (auto simp: mono_def)
  moreover have "sized (?h 0)" using stored_slot_example_wf(2) by simp
  moreover have "slot_change (?h t) (?h (Suc t))" for t by (rule history_example [OF refl])
  moreover have "?tau k' - ?tau 0 < 2 ^ 32" by simp
  ultimately show ?thesis
    using snapshot_never_torn [of ?h ?tau 0 "snapshot_of 7 sample_session 1000" k'] by blast
qed

text \<open>Each of the directory's writes is such a history: the stores of an upsert into an even slot,
  taken one at a time, are changes a reader can be exposed to, and together they are the write
  of the sequential model.\<close>

theorem upsert_stores_are_a_write:
  assumes "slot_wf sl"
  shows "chain (states (begin_stores @ session_stores h session now @ end_stores True) sl)
    \<and> last (states (begin_stores @ session_stores h session now @ end_stores True) sl)
        = endWrite (store_session (beginWrite sl) h session now) True"
proof -
  have "sized (beginWrite sl)" using assms by (simp add: slot_wf_def sized_def beginWrite_def)
  then show ?thesis
    using write_chain [of sl "session_stores h session now" True] session_stores_quiet assms
    by (simp add: slot_wf_def run_session_stores)
qed

theorem upsert_stores_are_a_write_witness:
  "last (states (begin_stores @ session_stores 7 sample_session 1000 @ end_stores True) new_slot)
     = stored_slot_example"
proof -
  have "slot_wf new_slot" by (simp add: slot_wf_def new_slot_def)
  from upsert_stores_are_a_write [OF this, of 7 sample_session 1000] show ?thesis
    by (simp add: stored_slot_example_def)
qed

section \<open>The order of the loads is needed\<close>

text \<open>A write that changes the port and the channel count of a slot, in five instants.\<close>

definition small_write :: "session_slot \<Rightarrow> u16 \<Rightarrow> u16 \<Rightarrow> nat \<Rightarrow> session_slot" where
  "small_write sl p c t =
     (if t = 0 then sl
      else if t = 1 then sl\<lparr>sl_revision := sl_revision sl + 1\<rparr>
      else if t = 2 then sl\<lparr>sl_port := p, sl_channels := c, sl_revision := sl_revision sl + 1\<rparr>
      else sl\<lparr>sl_port := p, sl_channels := c, sl_revision := sl_revision sl + 1 + 1\<rparr>)"

lemma small_write_history:
  assumes "slot_wf sl"
  shows "slot_change (small_write sl p c t) (small_write sl p c (Suc t))"
proof -
  have even: "sl_revision sl AND 1 = 0" using assms by (simp add: slot_wf_def)
  note odd = odd_after_even [OF even]
  consider "t = 0" | "t = 1" | "t = 2" | "t > 2" by linarith
  then show ?thesis
  proof cases
    case 1
    then show ?thesis using even by (simp add: small_write_def slot_change.opens)
  next
    case 2
    then show ?thesis using odd by (auto simp: small_write_def sized_def intro: slot_change.stores)
  next
    case 3
    then show ?thesis
      using odd slot_change.closes [of "small_write sl p c 2"] by (simp add: small_write_def add.commute)
  next
    case 4
    then show ?thesis by (simp add: small_write_def slot_change.idle)
  qed
qed

text \<open>If one of the relaxed field loads takes effect after the second load of the revision, which
  an acquire load does not forbid, the reader accepts an entry that the slot never held: the
  port of the new description with the channel count of the old one.\<close>

theorem reordered_loads_tear:
  assumes "slot_wf sl" "sl_active sl" "p \<noteq> sl_port sl" "c \<noteq> sl_channels sl"
  shows "\<exists>\<tau> s k'. snapshot_attempt (\<lambda>j. small_write sl p c (\<tau> j)) 0 = (Some s, k')
    \<and> sn_port s = p \<and> sn_channels s = sl_channels sl
    \<and> (\<forall>t. s \<noteq> slot_snapshot (small_write sl p c t))"
proof -
  define k1 where "k1 = snd (loadText (\<lambda>_. sl_name sl) 3 0 kSessionNameCapacity)"
  define k2 where "k2 = snd (loadText (\<lambda>_. sl_originAddress sl) k1 0 kIPv4TextCapacity)"
  define k3 where "k3 = snd (loadText (\<lambda>_. sl_sourceAddress sl) k2 0 kIPv4TextCapacity)"
  define k4 where "k4 = snd (loadText (\<lambda>_. sl_multicastAddress sl) k3 0 kIPv4TextCapacity)"
  define obs where "obs = (\<lambda>j. small_write sl p c (if j = k4 then 3 else 0))"
  have "3 \<le> k4"
    unfolding k4_def k3_def k2_def k1_def by (meson loadText_next order_trans)
  have texts: "(\<lambda>t. sl_name (obs t)) = (\<lambda>_. sl_name sl)"
    "(\<lambda>t. sl_originAddress (obs t)) = (\<lambda>_. sl_originAddress sl)"
    "(\<lambda>t. sl_sourceAddress (obs t)) = (\<lambda>_. sl_sourceAddress sl)"
    "(\<lambda>t. sl_multicastAddress (obs t)) = (\<lambda>_. sl_multicastAddress sl)"
    by (auto simp: obs_def small_write_def)
  have obs: "obs j = sl" if "j \<noteq> k4" for j
    using that by (simp add: obs_def small_write_def)
  have port: "sl_port (obs k4) = p" by (simp add: obs_def small_write_def)
  have "\<exists>s. snapshot_attempt obs 0 = (Some s, k4 + 9) \<and> sn_port s = p \<and> sn_channels s = sl_channels sl"
    using assms(1,2) obs port \<open>3 \<le> k4\<close>
    by (simp add: snapshot_attempt_def Let_def case_prod_unfold texts k1_def [symmetric]
        k2_def [symmetric] k3_def [symmetric] k4_def [symmetric] slot_wf_def)
  then obtain s where s: "snapshot_attempt obs 0 = (Some s, k4 + 9)" "sn_port s = p"
    "sn_channels s = sl_channels sl" by blast
  have "s \<noteq> slot_snapshot (small_write sl p c t)" for t
  proof -
    have "sn_port (slot_snapshot (small_write sl p c t)) \<noteq> p
        \<or> sn_channels (slot_snapshot (small_write sl p c t)) = c"
      using assms(3) by (auto simp: small_write_def slot_snapshot_def)
    with assms(4) s show ?thesis by auto
  qed
  with s show ?thesis
    unfolding obs_def by (intro exI [of _ "\<lambda>j. if j = k4 then 3 else 0"] exI [of _ s] exI [of _ "k4 + 9"]) simp
qed

theorem reordered_loads_tear_witness:
  "\<exists>\<tau> s k'. snapshot_attempt (\<lambda>j. small_write stored_slot_example 6000 2 (\<tau> j)) 0 = (Some s, k')
     \<and> sn_port s = 6000 \<and> sn_channels s = 8"
proof -
  have "sl_port stored_slot_example = 5004" "sl_channels stored_slot_example = 8"
    by (simp_all add: stored_slot_example_def endWrite_def store_session_def sample_session_def
        default_session_def profile_defs)
  with reordered_loads_tear [OF stored_slot_example_wf(1,3), of 6000 2] show ?thesis
    by simp blast
qed

end
