(* ===== verification/PTP_Codec.thy ===== *)
theory PTP_Codec
  imports Cpp_Bytes Constants
begin

text \<open>
  Sources/Core/PTP.hpp and Sources/Core/PTP.cpp: PTPv2 messages and the end-to-end measurement.
  \<open>None\<close> is undefined behaviour: a read outside the datagram or a signed 64-bit overflow. The
  result of \<open>decode\<close> is the returned \<open>bool\<close>, the message argument after the call and the error
  text it stored.
\<close>

section \<open>Messages\<close>

datatype ptp_type = Sync | Delay_request | Follow_up | Delay_response | Announce

record ptp_port_identity =
  pid_clock :: bytes
  pid_port :: u16

record ptp_message =
  pm_type :: ptp_type
  pm_domain :: u8
  pm_twoStep :: bool
  pm_correctionScaledNanoseconds :: int
  pm_source :: ptp_port_identity
  pm_sequence :: u16
  pm_timestampNanoseconds :: "int option"
  pm_requestingPort :: "ptp_port_identity option"
  pm_grandmasterPriority1 :: u8
  pm_grandmasterClockClass :: u8
  pm_grandmasterClockAccuracy :: u8
  pm_grandmasterOffsetScaledLogVariance :: u16
  pm_grandmasterPriority2 :: u8
  pm_grandmasterIdentity :: bytes
  pm_stepsRemoved :: u16

definition zero_identity :: ptp_port_identity where
  "zero_identity = \<lparr> pid_clock = replicate 8 0, pid_port = 0 \<rparr>"

definition empty_ptp_message :: ptp_message where
  "empty_ptp_message = \<lparr> pm_type = Sync, pm_domain = 0, pm_twoStep = False,
     pm_correctionScaledNanoseconds = 0, pm_source = zero_identity, pm_sequence = 0,
     pm_timestampNanoseconds = None, pm_requestingPort = None, pm_grandmasterPriority1 = 255,
     pm_grandmasterClockClass = 255, pm_grandmasterClockAccuracy = 255,
     pm_grandmasterOffsetScaledLogVariance = 65535, pm_grandmasterPriority2 = 255,
     pm_grandmasterIdentity = replicate 8 0, pm_stepsRemoved = 65535 \<rparr>"

datatype ptp_error = Bad_header_or_version | Bad_size_or_domain

definition kHeaderBytes :: nat where "kHeaderBytes = 34"
definition kTimestampBytes :: nat where "kTimestampBytes = 10"

definition raw_type :: "ptp_type \<Rightarrow> u8" where
  "raw_type t = (case t of Sync \<Rightarrow> 0 | Delay_request \<Rightarrow> 1 | Follow_up \<Rightarrow> 8 | Delay_response \<Rightarrow> 9
     | Announce \<Rightarrow> 0xb)"

definition type_of_raw :: "u8 \<Rightarrow> ptp_type option" where
  "type_of_raw r = (if r = 0 then Some Sync else if r = 1 then Some Delay_request
     else if r = 8 then Some Follow_up else if r = 9 then Some Delay_response
     else if r = 0xb then Some Announce else None)"

section \<open>Decoding\<close>

definition getTimestamp :: "bytes \<Rightarrow> nat \<Rightarrow> int option option" where
  "getTimestamp bs off = do {
     high \<leftarrow> get16 bs off;
     low \<leftarrow> get32 bs (off + 2);
     let seconds = (push_bit 32 (ucast high) OR ucast low :: u64);
     nanos \<leftarrow> get32 bs (off + 6);
     if nanos \<ge> 1000000000 \<or> uint seconds > cdiv int64_max 1000000000 then Some None
     else do {
       product \<leftarrow> chk64 (uint seconds * 1000000000);
       sum \<leftarrow> chk64 (product + uint nanos);
       Some (Some sum)
     }
   }"

definition getPortIdentity :: "bytes \<Rightarrow> nat \<Rightarrow> ptp_port_identity option" where
  "getPortIdentity bs off = do {
     clock \<leftarrow> range_of bs off (off + 8);
     port \<leftarrow> get16 bs (off + 8);
     Some \<lparr> pid_clock = clock, pid_port = port \<rparr>
   }"

definition scaledToNanoseconds :: "int \<Rightarrow> int" where
  "scaledToNanoseconds scaled = cdiv scaled 65536"

definition ptp_announce_fields :: "bytes \<Rightarrow> nat \<Rightarrow> ptp_message \<Rightarrow> (bool \<times> ptp_message) option" where
  "ptp_announce_fields bs len m =
     (if pm_type m \<noteq> Announce then Some (True, m)
      else if len < 64 then Some (False, m)
      else do {
        p1 \<leftarrow> rd bs 47; cls \<leftarrow> rd bs 48; acc \<leftarrow> rd bs 49; variance \<leftarrow> get16 bs 50; p2 \<leftarrow> rd bs 52;
        identity \<leftarrow> range_of bs 53 61; steps \<leftarrow> get16 bs 61;
        Some (True, m\<lparr>pm_grandmasterPriority1 := p1, pm_grandmasterClockClass := cls,
          pm_grandmasterClockAccuracy := acc, pm_grandmasterOffsetScaledLogVariance := variance,
          pm_grandmasterPriority2 := p2, pm_grandmasterIdentity := identity, pm_stepsRemoved := steps\<rparr>)
      })"

definition ptp_response_fields :: "bytes \<Rightarrow> nat \<Rightarrow> ptp_message \<Rightarrow> (bool \<times> ptp_message) option" where
  "ptp_response_fields bs len m =
     (if pm_type m \<noteq> Delay_response then ptp_announce_fields bs len m
      else if len < 54 then Some (False, m)
      else do {
        port \<leftarrow> getPortIdentity bs 44;
        ptp_announce_fields bs len (m\<lparr>pm_requestingPort := Some port\<rparr>)
      })"

definition ptp_timestamp_fields :: "bytes \<Rightarrow> nat \<Rightarrow> ptp_message \<Rightarrow> (bool \<times> ptp_message) option" where
  "ptp_timestamp_fields bs len m =
     (if pm_type m = Announce then ptp_response_fields bs len m
      else if len < kHeaderBytes + kTimestampBytes then Some (False, m)
      else do {
        t \<leftarrow> getTimestamp bs kHeaderBytes;
        let m' = m\<lparr>pm_timestampNanoseconds := t\<rparr>;
        if t = None then Some (False, m') else ptp_response_fields bs len m'
      })"

definition ptp_decode ::
    "bytes \<Rightarrow> u8 \<Rightarrow> ptp_message \<Rightarrow> (bool \<times> ptp_message \<times> ptp_error option) option" where
  "ptp_decode bs expectedDomain m =
     (if length bs < kHeaderBytes then Some (False, m, Some Bad_header_or_version)
      else do {
        b1 \<leftarrow> rd bs 1;
        if b1 AND 0x0f \<noteq> 2 then Some (False, m, Some Bad_header_or_version)
        else do {
          len16 \<leftarrow> get16 bs 2;
          let len = unat len16;
          if len < kHeaderBytes \<or> len > length bs then Some (False, m, Some Bad_size_or_domain)
          else do {
            b4 \<leftarrow> rd bs 4;
            if b4 \<noteq> expectedDomain then Some (False, m, Some Bad_size_or_domain)
            else do {
              b0 \<leftarrow> rd bs 0;
              case type_of_raw (b0 AND 0x0f) of
                None \<Rightarrow> Some (False, m, None)
              | Some t \<Rightarrow> do {
                  b6 \<leftarrow> rd bs 6; corr \<leftarrow> get64 bs 8; src \<leftarrow> getPortIdentity bs 20; sequence \<leftarrow> get16 bs 30;
                  (ok, m') \<leftarrow> ptp_timestamp_fields bs len
                    (empty_ptp_message\<lparr>pm_type := t, pm_domain := b4, pm_twoStep := b6 AND 0x02 \<noteq> 0,
                       pm_correctionScaledNanoseconds := sint corr, pm_source := src,
                       pm_sequence := sequence\<rparr>);
                  Some (ok, m', None)
                }
            }
          }
        }
      })"

section \<open>Encoding\<close>

text \<open>The arrays are zero-initialised and every field is stored once, so each encoder is the list
  of its fields; \<open>ns\<close> is the 64-bit timestamp argument.\<close>

definition putTimestamp :: "int \<Rightarrow> bytes" where
  "putTimestamp nanoseconds =
     (let ns = (if nanoseconds < 0 then 0 else nanoseconds);
          seconds = (word_of_int (cdiv ns 1000000000) :: u64)
      in put16 (ucast (drop_bit 32 seconds)) @ put32 (ucast seconds)
         @ put32 (word_of_int (cmod ns 1000000000)))"

definition putHeader :: "nat \<Rightarrow> ptp_type \<Rightarrow> ptp_port_identity \<Rightarrow> u16 \<Rightarrow> u8 \<Rightarrow> bool \<Rightarrow> int \<Rightarrow> bytes" where
  "putHeader sz type source sequence domain twoStep correction =
     [raw_type type, 0x02] @ put16 (of_nat sz) @ [domain, 0, if twoStep then 0x02 else 0, 0]
     @ put64 (word_of_int correction) @ [0, 0, 0, 0] @ pid_clock source @ put16 (pid_port source)
     @ put16 sequence
     @ [case type of Sync \<Rightarrow> 0 | Delay_request \<Rightarrow> 1 | Follow_up \<Rightarrow> 2 | Delay_response \<Rightarrow> 3 | Announce \<Rightarrow> 5, 0x7f]"

definition encodeTimestampMessage ::
    "ptp_type \<Rightarrow> ptp_port_identity \<Rightarrow> u16 \<Rightarrow> u8 \<Rightarrow> int \<Rightarrow> bool \<Rightarrow> int \<Rightarrow> bytes" where
  "encodeTimestampMessage type source sequence domain ns twoStep correction =
     putHeader 44 type source sequence domain twoStep correction @ putTimestamp ns"

definition encodeDelayRequest :: "ptp_port_identity \<Rightarrow> u16 \<Rightarrow> u8 \<Rightarrow> int \<Rightarrow> bytes" where
  "encodeDelayRequest source sequence domain ns =
     encodeTimestampMessage Delay_request source sequence domain ns False 0"

definition encodeDelayResponse ::
    "ptp_port_identity \<Rightarrow> ptp_port_identity \<Rightarrow> u16 \<Rightarrow> u8 \<Rightarrow> int \<Rightarrow> int \<Rightarrow> bytes" where
  "encodeDelayResponse source requestingPort sequence domain ns correction =
     putHeader 54 Delay_response source sequence domain False correction @ putTimestamp ns
     @ pid_clock requestingPort @ put16 (pid_port requestingPort)"

definition encodeAnnounce :: "ptp_port_identity \<Rightarrow> u16 \<Rightarrow> u8 \<Rightarrow> bytes" where
  "encodeAnnounce source sequence domain =
     putHeader 64 Announce source sequence domain False 0 @ replicate 13 0 @ [128, 248, 0xfe, 0, 0, 128]
     @ pid_clock source @ [0, 0, 0xa0]"

section \<open>Measurement\<close>

record ptp_measurement =
  me_offsetNanoseconds :: int
  me_meanPathDelayNanoseconds :: int

definition calculateE2E :: "int \<Rightarrow> int \<Rightarrow> int \<Rightarrow> int \<Rightarrow> int \<Rightarrow> int \<Rightarrow> ptp_measurement option option" where
  "calculateE2E syncOrigin syncIngress requestEgress requestReceipt syncCorrection delayCorrection = do {
     d1 \<leftarrow> chk64 (syncIngress - syncOrigin);
     down \<leftarrow> chk64 (d1 - scaledToNanoseconds syncCorrection);
     u1 \<leftarrow> chk64 (requestReceipt - requestEgress);
     up \<leftarrow> chk64 (u1 - scaledToNanoseconds delayCorrection);
     sum \<leftarrow> chk64 (down + up);
     difference \<leftarrow> chk64 (down - up);
     let delay = cdiv sum 2;
     let offset = cdiv difference 2;
     if delay < 0 then Some None
     else Some (Some \<lparr> me_offsetNanoseconds = offset, me_meanPathDelayNanoseconds = delay \<rparr>)
   }"

section \<open>Where decoding is undefined\<close>

definition raw_seconds :: "bytes \<Rightarrow> nat \<Rightarrow> u64" where
  "raw_seconds bs off = push_bit 32 (ucast (be16 (bs ! off) (bs ! Suc off)))
     OR ucast (be32 (bs ! (off + 2)) (bs ! (off + 3)) (bs ! (off + 4)) (bs ! (off + 5)))"

definition raw_nanos :: "bytes \<Rightarrow> nat \<Rightarrow> u32" where
  "raw_nanos bs off = be32 (bs ! (off + 6)) (bs ! (off + 7)) (bs ! (off + 8)) (bs ! (off + 9))"

lemma getTimestamp_in:
  assumes "off + 10 \<le> length bs"
  shows "getTimestamp bs off =
    (let s = uint (raw_seconds bs off); n = uint (raw_nanos bs off)
     in if n \<ge> 1000000000 \<or> s > 9223372036 then Some None
        else if s = 9223372036 \<and> n > 854775807 then None else Some (Some (s * 1000000000 + n)))"
proof -
  have max: "cdiv int64_max 1000000000 = 9223372036" by (simp add: cdiv_nonneg int64_max_def)
  have nanos: "raw_nanos bs off \<ge> 1000000000 \<longleftrightarrow> uint (raw_nanos bs off) \<ge> 1000000000"
    by (simp add: word_le_def)
  have reads: "get16 bs off = Some (be16 (bs ! off) (bs ! Suc off))"
    "get32 bs (off + 2) = Some (be32 (bs ! (off + 2)) (bs ! (off + 3)) (bs ! (off + 4)) (bs ! (off + 5)))"
    "get32 bs (off + 6) = Some (raw_nanos bs off)"
    using assms by (simp_all add: get16_in get32_in raw_nanos_def numeral_eq_Suc)
  define sec where "sec = uint (raw_seconds bs off)"
  define n where "n = uint (raw_nanos bs off)"
  have pos: "0 \<le> sec" "0 \<le> n" by (simp_all add: sec_def n_def)
  show ?thesis
    unfolding getTimestamp_def reads bind.bind_lunit Let_def raw_seconds_def [symmetric] nanos max
      sec_def [symmetric] n_def [symmetric]
    using pos by (auto simp: chk64_def in_int64_def int64_min_def int64_max_def)
qed

lemma getPortIdentity_in:
  "off + 10 \<le> length bs \<Longrightarrow> getPortIdentity bs off
     = Some \<lparr> pid_clock = take 8 (drop off bs), pid_port = be16 (bs ! (off + 8)) (bs ! (off + 9)) \<rparr>"
  by (simp add: getPortIdentity_def range_of_def get16_in numeral_eq_Suc)

lemma ptp_announce_fields_defined:
  "len \<le> length bs \<Longrightarrow> ptp_announce_fields bs len m \<noteq> None"
  by (auto simp: ptp_announce_fields_def rd_def get16_def range_of_def)

lemma ptp_response_fields_defined:
  "len \<le> length bs \<Longrightarrow> ptp_response_fields bs len m \<noteq> None"
  using ptp_announce_fields_defined
  by (auto simp: ptp_response_fields_def getPortIdentity_in)

text \<open>The datagrams whose timestamp passes the range check of \<open>getTimestamp\<close> and still overflows.\<close>

definition overflowing_timestamp :: "bytes \<Rightarrow> bool" where
  "overflowing_timestamp bs \<longleftrightarrow> raw_seconds bs 34 = 9223372036
     \<and> 854775807 < raw_nanos bs 34 \<and> raw_nanos bs 34 < 1000000000"

lemma ptp_timestamp_fields_None:
  assumes "len \<le> length bs"
  shows "ptp_timestamp_fields bs len m = None \<longleftrightarrow>
    pm_type m \<noteq> Announce \<and> 44 \<le> len \<and> overflowing_timestamp bs"
proof (cases "pm_type m = Announce \<or> len < 44")
  case True
  then show ?thesis
    using ptp_response_fields_defined [OF assms]
    by (auto simp: ptp_timestamp_fields_def kHeaderBytes_def kTimestampBytes_def)
next
  case False
  have over: "overflowing_timestamp bs \<longleftrightarrow> uint (raw_seconds bs 34) = 9223372036
      \<and> 854775807 < uint (raw_nanos bs 34) \<and> uint (raw_nanos bs 34) < 1000000000"
    by (simp add: overflowing_timestamp_def word_less_def word_uint_eq_iff)
  show ?thesis
    using False assms
    unfolding over
    by (auto simp: ptp_response_fields_defined [OF assms] ptp_timestamp_fields_def kHeaderBytes_def kTimestampBytes_def getTimestamp_in Let_def)
qed

lemma ptp_decode_header:
  assumes "34 \<le> length bs"
  shows "ptp_decode bs d m =
    (if bs ! 1 AND 0x0f \<noteq> 2 then Some (False, m, Some Bad_header_or_version)
     else let len = unat (be16 (bs ! 2) (bs ! 3)) in
       if len < 34 \<or> len > length bs \<or> bs ! 4 \<noteq> d then Some (False, m, Some Bad_size_or_domain)
       else case type_of_raw (bs ! 0 AND 0x0f) of
           None \<Rightarrow> Some (False, m, None)
         | Some t \<Rightarrow> do {
             (ok, m') \<leftarrow> ptp_timestamp_fields bs len
               (empty_ptp_message\<lparr>pm_type := t, pm_domain := bs ! 4, pm_twoStep := bs ! 6 AND 0x02 \<noteq> 0,
                  pm_correctionScaledNanoseconds := sint (be64 (take 8 (drop 8 bs))),
                  pm_source := \<lparr> pid_clock = take 8 (drop 20 bs), pid_port = be16 (bs ! 28) (bs ! 29) \<rparr>,
                  pm_sequence := be16 (bs ! 30) (bs ! 31)\<rparr>);
             Some (ok, m', None)
           })"
proof -
  have reads: "rd bs 0 = Some (bs ! 0)" "rd bs 1 = Some (bs ! 1)" "get16 bs 2 = Some (be16 (bs ! 2) (bs ! 3))"
    "rd bs 4 = Some (bs ! 4)" "rd bs 6 = Some (bs ! 6)" "get64 bs 8 = Some (be64 (take 8 (drop 8 bs)))"
    "getPortIdentity bs 20 = Some \<lparr> pid_clock = take 8 (drop 20 bs), pid_port = be16 (bs ! 28) (bs ! 29) \<rparr>"
    "get16 bs 30 = Some (be16 (bs ! 30) (bs ! 31))"
    using assms by (auto simp: rd_def get16_in get64_in getPortIdentity_in)
  have nine: "\<not> length bs < kHeaderBytes" using assms by (simp add: kHeaderBytes_def)
  show ?thesis
    unfolding ptp_decode_def reads bind.bind_lunit if_not_P [OF nine] Let_def kHeaderBytes_def
    using assms by (auto split: option.splits)
qed

lemma ptp_decode_None_iff:
  "ptp_decode bs d m = None \<longleftrightarrow>
     34 \<le> length bs \<and> bs ! 1 AND 0x0f = 2 \<and> 44 \<le> unat (be16 (bs ! 2) (bs ! 3))
     \<and> unat (be16 (bs ! 2) (bs ! 3)) \<le> length bs \<and> bs ! 4 = d
     \<and> bs ! 0 AND 0x0f \<in> {0, 1, 8, 9} \<and> overflowing_timestamp bs"
proof (cases "34 \<le> length bs")
  case True
  have types: "r \<in> {0, 1, 8, 9} \<longleftrightarrow> (\<exists>t. type_of_raw r = Some t \<and> t \<noteq> Announce)" for r
    by (auto simp: type_of_raw_def)
  show ?thesis
    unfolding ptp_decode_header [OF True] types
    using True ptp_timestamp_fields_None [of "unat (be16 (bs ! 2) (bs ! 3))" bs]
    by (auto simp: Let_def bind_None_iff split: option.splits prod.splits)
next
  case False
  then show ?thesis by (simp add: ptp_decode_def kHeaderBytes_def)
qed

text \<open>C37: On any datagram the decoder stays inside it, and the only undefined case is one signed
  overflow: a timestamp of exactly 9223372036 seconds with more than 854775807 nanoseconds, which
  the range check lets through. For every other datagram the decoder is defined.\<close>

theorem ptp_decode_undefined_iff:
  "ptp_decode bs d m = None \<longleftrightarrow>
     34 \<le> length bs \<and> bs ! 1 AND 0x0f = 2 \<and> 44 \<le> unat (be16 (bs ! 2) (bs ! 3))
     \<and> unat (be16 (bs ! 2) (bs ! 3)) \<le> length bs \<and> bs ! 4 = d
     \<and> bs ! 0 AND 0x0f \<in> {0, 1, 8, 9} \<and> overflowing_timestamp bs"
  by (rule ptp_decode_None_iff)

section \<open>Round trips\<close>

lemma seconds_split:
  "push_bit 32 (ucast (ucast (drop_bit 32 s) :: u16)) OR ucast (ucast s :: u32) = take_bit 48 (s :: u64)"
proof (rule bit_word_eqI)
  fix n
  assume "n < LENGTH(64)"
  then consider "n < 32" | "32 \<le> n \<and> n < 48" | "48 \<le> n \<and> n < 64" by fastforce
  then show "bit (push_bit 32 (ucast (ucast (drop_bit 32 s) :: u16)) OR ucast (ucast s :: u32) :: u64) n
      = bit (take_bit 48 s) n"
    by cases (auto simp: bit_simps)
qed

lemma length_putTimestamp [simp]: "length (putTimestamp ns) = 10"
  by (simp add: putTimestamp_def Let_def)

lemma getTimestamp_putTimestamp:
  assumes "0 \<le> ns" "ns \<le> int64_max" "length xs = off"
  shows "getTimestamp (xs @ putTimestamp ns @ ys) off = Some (Some ns)"
proof -
  let ?s = "word_of_int (ns div 1000000000) :: u64"
  let ?n = "word_of_int (ns mod 1000000000) :: u32"
  let ?bs = "xs @ putTimestamp ns @ ys"
  have sbound: "0 \<le> ns div 1000000000" "ns div 1000000000 \<le> 9223372036"
    using assms(1,2) by (auto simp: int64_max_def)
  then have us: "uint ?s = ns div 1000000000" by (simp add: uint_word_of_int)
  have un: "uint ?n = ns mod 1000000000"
    by (simp add: uint_word_of_int)
  have bytes: "putTimestamp ns = put16 (ucast (drop_bit 32 ?s)) @ put32 (ucast ?s) @ put32 ?n"
    using assms(1) by (simp add: putTimestamp_def cdiv_nonneg cmod_nonneg Let_def)
  have "get16 ?bs off = Some (ucast (drop_bit 32 ?s))" "get32 ?bs (off + 2) = Some (ucast ?s)"
    "get32 ?bs (off + 6) = Some ?n"
    using assms(3) get16_put16 [of xs off "ucast (drop_bit 32 ?s)" "put32 (ucast ?s) @ put32 ?n @ ys"]
      get32_put32 [of "xs @ put16 (ucast (drop_bit 32 ?s))" "off + 2" "ucast ?s" "put32 ?n @ ys"]
      get32_put32 [of "xs @ put16 (ucast (drop_bit 32 ?s)) @ put32 (ucast ?s)" "off + 6" ?n ys]
    by (simp_all add: bytes)
  moreover have "raw_seconds ?bs off = ?s" "raw_nanos ?bs off = ?n"
  proof -
    have "take_bit 48 ?s = ?s"
      using us sbound by (simp add: word_uint_eq_iff unsigned_take_bit_eq take_bit_int_eq_self)
    then show "raw_seconds ?bs off = ?s"
      using calculation(1,2) assms(3) seconds_split [of ?s]
      by (simp add: raw_seconds_def get16_in get32_in numeral_eq_Suc)
    show "raw_nanos ?bs off = ?n"
      using calculation(3) assms(3) by (simp add: raw_nanos_def get32_in numeral_eq_Suc)
  qed
  moreover have "ns div 1000000000 * 1000000000 + ns mod 1000000000 = ns" by simp
  moreover have "\<not> (ns div 1000000000 = 9223372036 \<and> ns mod 1000000000 > 854775807)"
  proof
    assume "ns div 1000000000 = 9223372036 \<and> ns mod 1000000000 > 854775807"
    then have "ns > int64_max" using div_mult_mod_eq [of ns 1000000000] by (auto simp: int64_max_def)
    with assms(2) show False by simp
  qed
  moreover have "ns mod 1000000000 < 1000000000" by simp
  ultimately show ?thesis
    using assms(3) us un sbound by (simp add: getTimestamp_in Let_def)
qed

lemma length_8_expand: "length xs = 8 \<Longrightarrow> \<exists>a b c d e f g h. xs = [a, b, c, d, e, f, g, h]"
  by (auto simp: numeral_eq_Suc length_Suc_conv)

lemma raw_type_cases: "raw_type t AND 0x0f = raw_type t" "type_of_raw (raw_type t) = Some t"
  by (cases t; simp add: raw_type_def type_of_raw_def)+

definition header_message :: "ptp_type \<Rightarrow> ptp_port_identity \<Rightarrow> u16 \<Rightarrow> u8 \<Rightarrow> bool \<Rightarrow> int \<Rightarrow> ptp_message" where
  "header_message t source sequence domain twoStep correction =
     empty_ptp_message\<lparr>pm_type := t, pm_domain := domain, pm_twoStep := twoStep,
       pm_correctionScaledNanoseconds := correction, pm_source := source, pm_sequence := sequence\<rparr>"

lemma length_putHeader: "length (pid_clock source) = 8 \<Longrightarrow> length (putHeader sz t source q d two corr) = 34"
  by (simp add: putHeader_def)

lemma ptp_decode_wire:
  assumes "length (pid_clock source) = 8" "sz = 34 + length rest" "sz < 65536" "in_int64 corr"
  shows "ptp_decode (putHeader sz t source q d two corr @ rest) d m = do {
    (ok, m') \<leftarrow> ptp_timestamp_fields (putHeader sz t source q d two corr @ rest) sz
      (header_message t source q d two corr);
    Some (ok, m', None) }"
proof -
  let ?bs = "putHeader sz t source q d two corr @ rest"
  obtain c0 c1 c2 c3 c4 c5 c6 c7 where clock: "pid_clock source = [c0, c1, c2, c3, c4, c5, c6, c7]"
    using length_8_expand [OF assms(1)] by blast
  obtain k0 k1 k2 k3 k4 k5 k6 k7 where corr: "put64 (word_of_int corr) = [k0, k1, k2, k3, k4, k5, k6, k7]"
    using length_8_expand [OF length_put64] by blast
  have len: "34 \<le> length ?bs" "length ?bs = sz" using assms(1,2) by (simp_all add: length_putHeader)
  have two: "(if two then 0x02 else 0 :: u8) AND 0x02 \<noteq> 0 \<longleftrightarrow> two" by simp
  have fields: "?bs ! 0 = raw_type t" "?bs ! 1 = 2" "be16 (?bs ! 2) (?bs ! 3) = of_nat sz" "?bs ! 4 = d"
    "?bs ! 6 = (if two then 0x02 else 0)" "take 8 (drop 8 ?bs) = put64 (word_of_int corr)"
    "take 8 (drop 20 ?bs) = pid_clock source" "be16 (?bs ! 28) (?bs ! 29) = pid_port source"
    "be16 (?bs ! 30) (?bs ! 31) = q"
    by (simp_all add: putHeader_def clock corr put16_def)
  have "sint (be64 (put64 (word_of_int corr))) = corr"
    using assms(4) by (simp add: in_int64_def int64_min_def int64_max_def int_word_sint)
  moreover have "unat (of_nat sz :: u16) = sz" using assms(3) by (simp add: unat_of_nat)
  moreover have src: "\<lparr> pid_clock = pid_clock source, pid_port = pid_port source \<rparr> = source" by simp
  ultimately show ?thesis
    unfolding ptp_decode_header [OF len(1)] fields raw_type_cases header_message_def two src
    using len by (simp add: raw_type_cases)
qed

lemma ptp_decode_timestamp_message:
  assumes "length (pid_clock source) = 8" "t \<in> {Sync, Delay_request, Follow_up}"
    "in_int64 ns" "in_int64 correction"
  shows "ptp_decode (encodeTimestampMessage t source q d ns two correction) d m =
    Some (True, (header_message t source q d two correction)\<lparr>pm_timestampNanoseconds := Some (max 0 ns)\<rparr>, None)"
proof -
  let ?h = "putHeader 44 t source q d two correction"
  have "putTimestamp ns = putTimestamp (max 0 ns)" by (simp add: putTimestamp_def max_def)
  moreover have "getTimestamp (?h @ putTimestamp (max 0 ns) @ []) 34 = Some (Some (max 0 ns))"
    using assms(3) length_putHeader [OF assms(1)]
    by (intro getTimestamp_putTimestamp) (auto simp: in_int64_def int64_max_def)
  moreover have "ptp_decode (?h @ putTimestamp ns) d m = do {
      (ok, m') \<leftarrow> ptp_timestamp_fields (?h @ putTimestamp ns) 44 (header_message t source q d two correction);
      Some (ok, m', None) }"
    using assms by (intro ptp_decode_wire) simp_all
  ultimately show ?thesis
    using assms(2)
    by (auto simp: encodeTimestampMessage_def ptp_timestamp_fields_def ptp_response_fields_def
        ptp_announce_fields_def header_message_def empty_ptp_message_def kHeaderBytes_def kTimestampBytes_def)
qed

text \<open>A sync, delay request or follow-up message decodes, in its domain, to exactly the fields it
  was encoded from, for every representable time and correction; a negative time is sent as
  zero.\<close>

theorem ptp_timestamp_roundtrip:
  assumes "length (pid_clock source) = 8" "t \<in> {Sync, Delay_request, Follow_up}"
    "in_int64 ns" "in_int64 correction"
  shows "ptp_decode (encodeTimestampMessage t source q d ns two correction) d m =
    Some (True, (header_message t source q d two correction)\<lparr>pm_timestampNanoseconds := Some (max 0 ns)\<rparr>, None)"
  using assms by (rule ptp_decode_timestamp_message)

definition sample_identity :: ptp_port_identity where
  "sample_identity = \<lparr> pid_clock = [2, 0, 94, 16, 0, 0, 0, 7], pid_port = 1 \<rparr>"

theorem ptp_timestamp_roundtrip_witness:
  "ptp_decode (encodeTimestampMessage Sync sample_identity 42 0 1700000000123456789 True (- 65536)) 0 empty_ptp_message
   = Some (True, (header_message Sync sample_identity 42 0 True (- 65536))
       \<lparr>pm_timestampNanoseconds := Some 1700000000123456789\<rparr>, None)"
  using ptp_timestamp_roundtrip [of sample_identity Sync 1700000000123456789 "- 65536" 42 0 True empty_ptp_message]
  by (simp add: sample_identity_def in_int64_def int64_min_def int64_max_def)

lemma ptp_decode_response:
  assumes "length (pid_clock source) = 8" "length (pid_clock requester) = 8"
    "0 \<le> ns" "in_int64 ns" "in_int64 correction"
  shows "ptp_decode (encodeDelayResponse source requester q d ns correction) d m =
      Some (True, (header_message Delay_response source q d False correction)
        \<lparr>pm_timestampNanoseconds := Some ns, pm_requestingPort := Some requester\<rparr>, None)"
proof -
  let ?h = "putHeader 54 Delay_response source q d False correction"
  let ?port = "pid_clock requester @ put16 (pid_port requester)"
  let ?bs = "?h @ putTimestamp ns @ ?port"
  have len: "length ?h = 34" by (rule length_putHeader [OF assms(1)])
  have time: "getTimestamp ?bs 34 = Some (Some ns)"
    using assms(3,4) len by (intro getTimestamp_putTimestamp) (auto simp: in_int64_def)
  have "getPortIdentity ?bs 44 = Some requester"
  proof -
    have "get16 ((?h @ putTimestamp ns @ pid_clock requester) @ put16 (pid_port requester) @ []) 52
        = Some (pid_port requester)"
      using len assms(2) by (intro get16_put16) simp
    then show ?thesis
      using len assms(2) by (simp add: getPortIdentity_def range_of_def)
  qed
  moreover have "ptp_decode ?bs d m = do {
      (ok, m') \<leftarrow> ptp_timestamp_fields ?bs 54 (header_message Delay_response source q d False correction);
      Some (ok, m', None) }"
    using assms by (intro ptp_decode_wire) simp_all
  ultimately show ?thesis
    using time
    by (simp add: encodeDelayResponse_def ptp_timestamp_fields_def ptp_response_fields_def
        ptp_announce_fields_def header_message_def empty_ptp_message_def kHeaderBytes_def kTimestampBytes_def)
qed

lemma ptp_decode_announce:
  assumes "length (pid_clock source) = 8"
  shows "ptp_decode (encodeAnnounce source q d) d m =
      Some (True, (header_message Announce source q d False 0)
        \<lparr>pm_grandmasterPriority1 := 128, pm_grandmasterClockClass := 248, pm_grandmasterClockAccuracy := 0xfe,
          pm_grandmasterOffsetScaledLogVariance := 0, pm_grandmasterPriority2 := 128,
          pm_grandmasterIdentity := pid_clock source, pm_stepsRemoved := 0\<rparr>, None)"
proof -
  let ?h = "putHeader 64 Announce source q d False 0"
  let ?body = "replicate 13 0 @ [128, 248, 0xfe, 0, 0, 128] @ pid_clock source @ [0, 0, 0xa0]"
  let ?bs = "?h @ ?body"
  have len: "length ?h = 34" by (rule length_putHeader [OF assms])
  have reads: "rd ?bs 47 = Some 128" "rd ?bs 48 = Some 248" "rd ?bs 49 = Some 0xfe" "get16 ?bs 50 = Some 0"
    "rd ?bs 52 = Some 128" "range_of ?bs 53 61 = Some (pid_clock source)" "get16 ?bs 61 = Some 0"
    using len assms
    by (simp_all add: rd_append get16_def range_of_def be16_def)
  have "ptp_decode ?bs d m = do {
      (ok, m') \<leftarrow> ptp_timestamp_fields ?bs 64 (header_message Announce source q d False 0);
      Some (ok, m', None) }"
    using assms by (intro ptp_decode_wire) (simp_all add: in_int64_def int64_min_def int64_max_def)
  with reads show ?thesis
    by (simp add: encodeAnnounce_def ptp_timestamp_fields_def ptp_response_fields_def
        ptp_announce_fields_def header_message_def empty_ptp_message_def)
qed

text \<open>Delay responses carry the requesting port back to the client, and announces the fields of the
  software grandmaster, through the codec.\<close>

theorem ptp_response_announce_roundtrip:
  assumes "length (pid_clock source) = 8" "length (pid_clock requester) = 8"
    "0 \<le> ns" "in_int64 ns" "in_int64 correction"
  shows "ptp_decode (encodeDelayResponse source requester q d ns correction) d m =
      Some (True, (header_message Delay_response source q d False correction)
        \<lparr>pm_timestampNanoseconds := Some ns, pm_requestingPort := Some requester\<rparr>, None)
    \<and> ptp_decode (encodeAnnounce source q d) d m =
      Some (True, (header_message Announce source q d False 0)
        \<lparr>pm_grandmasterPriority1 := 128, pm_grandmasterClockClass := 248, pm_grandmasterClockAccuracy := 0xfe,
          pm_grandmasterOffsetScaledLogVariance := 0, pm_grandmasterPriority2 := 128,
          pm_grandmasterIdentity := pid_clock source, pm_stepsRemoved := 0\<rparr>, None)"
  using assms by (intro conjI ptp_decode_response ptp_decode_announce)

theorem ptp_response_announce_roundtrip_witness:
  "ptp_decode (encodeDelayResponse sample_identity sample_identity 3 0 77 0) 0 empty_ptp_message
   = Some (True, (header_message Delay_response sample_identity 3 0 False 0)
       \<lparr>pm_timestampNanoseconds := Some 77, pm_requestingPort := Some sample_identity\<rparr>, None)"
  using ptp_response_announce_roundtrip [of sample_identity sample_identity 77 0 3 0 empty_ptp_message]
  by (simp add: sample_identity_def in_int64_def int64_min_def int64_max_def)

text \<open>The codec of the delay requests the client sends.\<close>

definition delay_request_decode :: "u8 \<Rightarrow> bytes \<Rightarrow> (ptp_port_identity \<times> u16 \<times> int) option" where
  "delay_request_decode d bs = (case ptp_decode bs d empty_ptp_message of
     Some (True, m, _) \<Rightarrow> (case pm_timestampNanoseconds m of
         Some ns \<Rightarrow> if pm_type m = Delay_request then Some (pm_source m, pm_sequence m, ns) else None
       | None \<Rightarrow> None)
   | _ \<Rightarrow> None)"

interpretation delay_request: wire_codec
    "\<lambda>(source, q, ns). encodeDelayRequest source q kPTPDomain ns" "delay_request_decode kPTPDomain"
    "\<lambda>(source, q, ns). length (pid_clock source) = 8 \<and> 0 \<le> ns \<and> in_int64 ns"
  by unfold_locales
    (auto simp: encodeDelayRequest_def delay_request_decode_def ptp_decode_timestamp_message
      header_message_def in_int64_def int64_min_def int64_max_def)

section \<open>The end-to-end measurement\<close>

lemma cdiv_two_mult [simp]: "cdiv (2 * x) 2 = x"
  by (cases x rule: linorder_cases [of _ 0]) (simp_all add: cdiv_def abs_mult sgn_mult)

lemma chk64_bound: "\<bar>x\<bar> \<le> 9223372036854775807 \<Longrightarrow> chk64 x = Some x"
  by (simp add: chk64_def in_int64_abs int64_max_def)

lemma scaled_bound: "in_int64 c \<Longrightarrow> \<bar>scaledToNanoseconds c\<bar> \<le> 140737488355328"
  using cdiv_abs [of 65536 c]
  by (auto simp: scaledToNanoseconds_def in_int64_def int64_min_def int64_max_def abs_le_iff
      intro!: order.trans [OF _ zdiv_mono1 [of "\<bar>c\<bar>" 9223372036854775808 65536]])

text \<open>For a clock that runs \<open>off\<close> nanoseconds ahead of the master and a path that takes \<open>down\<close> and
  \<open>up\<close> nanoseconds after the corrections, the measurement is the true offset and delay, wrong
  only by half of the path's asymmetry; it exists whenever the path takes time, and no
  intermediate result overflows while times and offset stay below \<open>2 ^ 60\<close> (about 36 years from the
  epoch of the difference).\<close>

theorem ptp_measurement_accuracy:
  assumes "\<bar>off\<bar> \<le> 2 ^ 60" "0 \<le> down" "0 \<le> up" "down \<le> 2 ^ 60" "up \<le> 2 ^ 60"
    "in_int64 c1" "in_int64 c2"
  shows "\<exists>m. calculateE2E origin (origin + scaledToNanoseconds c1 + down + off)
      egress (egress + scaledToNanoseconds c2 + up - off) c1 c2 = Some (Some m)
    \<and> me_offsetNanoseconds m = cdiv (2 * off + (down - up)) 2
    \<and> me_meanPathDelayNanoseconds m = (down + up) div 2
    \<and> 2 * \<bar>me_offsetNanoseconds m - off\<bar> \<le> \<bar>down - up\<bar> + 1
    \<and> (down = up \<longrightarrow> me_offsetNanoseconds m = off \<and> me_meanPathDelayNanoseconds m = down)"
proof -
  let ?s1 = "scaledToNanoseconds c1"
  let ?s2 = "scaledToNanoseconds c2"
  have b: "\<bar>off\<bar> \<le> 1152921504606846976" "down \<le> 1152921504606846976" "up \<le> 1152921504606846976"
    "\<bar>?s1\<bar> \<le> 140737488355328" "\<bar>?s2\<bar> \<le> 140737488355328"
    using assms scaled_bound [of c1] scaled_bound [of c2] by simp_all
  have e1: "origin + ?s1 + down + off - origin = ?s1 + down + off"
    and e2: "?s1 + down + off - ?s1 = down + off"
    and e3: "egress + ?s2 + up - off - egress = ?s2 + up - off"
    and e4: "?s2 + up - off - ?s2 = up - off"
    and e5: "down + off + (up - off) = down + up"
    and e6: "down + off - (up - off) = 2 * off + (down - up)" by simp_all
  have steps: "chk64 (?s1 + down + off) = Some (?s1 + down + off)" "chk64 (down + off) = Some (down + off)"
    "chk64 (?s2 + up - off) = Some (?s2 + up - off)" "chk64 (up - off) = Some (up - off)"
    "chk64 (down + up) = Some (down + up)"
    "chk64 (2 * off + (down - up)) = Some (2 * off + (down - up))"
    using b assms(2,3) by (intro chk64_bound; linarith)+
  have delay: "cdiv (down + up) 2 = (down + up) div 2" "0 \<le> (down + up) div 2"
    using assms(2,3) by (simp_all add: cdiv_nonneg)
  have run: "calculateE2E origin (origin + ?s1 + down + off) egress (egress + ?s2 + up - off) c1 c2
    = Some (Some \<lparr> me_offsetNanoseconds = cdiv (2 * off + (down - up)) 2,
        me_meanPathDelayNanoseconds = (down + up) div 2 \<rparr>)"
    unfolding calculateE2E_def e1 e2 e3 e4 e5 e6 steps bind.bind_lunit Let_def delay(1)
    using delay(2) by simp
  have "2 * \<bar>cdiv (2 * off + d) 2 - off\<bar> \<le> \<bar>d\<bar> + 1" for d
    unfolding cdiv_def by (cases "2 * off + d" "0 :: int" rule: linorder_cases) (auto simp: abs_if)
  with run show ?thesis by auto
qed

theorem ptp_measurement_accuracy_witness:
  "\<exists>m. calculateE2E 1000 4500 9000 6500 0 0 = Some (Some m)
     \<and> me_offsetNanoseconds m = 3000 \<and> me_meanPathDelayNanoseconds m = 500"
  using ptp_measurement_accuracy [of 3000 500 500 0 0 1000 9000]
  by (auto simp: in_int64_def int64_min_def int64_max_def scaledToNanoseconds_def cdiv_def)

text \<open>A grandmaster whose clock is far from the host's makes the measurement overflow although
  both of its timestamps are representable: with a master near the end of the range and the host
  in 2023 the difference of the two legs is no 64-bit integer.\<close>

theorem ptp_measurement_overflow:
  "\<exists>origin receipt. in_int64 origin \<and> in_int64 receipt \<and>
     calculateE2E origin 1700000000000000000 1700000000000000000 receipt 0 0 = None"
  by (intro exI [of _ 9200000000000000000])
    (simp add: calculateE2E_def chk64_def in_int64_def int64_min_def int64_max_def
      scaledToNanoseconds_def cdiv_def)

text \<open>The undefined timestamp exists: 9223372036 seconds and 999999999 nanoseconds.\<close>

definition overflowing_sync :: bytes where
  "overflowing_sync = putHeader 44 Sync sample_identity 1 0 False 0
     @ [0, 2, 0x25, 0xc1, 0x7d, 0x04, 0x3b, 0x9a, 0xc9, 0xff]"

lemma overflowing_sync_undefined: "ptp_decode overflowing_sync 0 m = None"
proof -
  have zero: "put64 0 = [0, 0, 0, 0, 0, 0, 0, 0]" by code_simp
  have bytes: "overflowing_sync = [0, 2, 0, 44, 0, 0, 0, 0, 0, 0, 0, 0, 0, 0, 0, 0, 0, 0, 0, 0,
      2, 0, 94, 16, 0, 0, 0, 7, 0, 1, 0, 1, 0, 0x7f, 0, 2, 0x25, 0xc1, 0x7d, 0x04, 0x3b, 0x9a, 0xc9, 0xff]"
    by (simp add: overflowing_sync_def putHeader_def sample_identity_def put16_def zero raw_type_def)
  show ?thesis
    unfolding ptp_decode_None_iff
    by (simp add: bytes overflowing_timestamp_def raw_seconds_def raw_nanos_def be16_def be32_def)
qed

end
