(* ===== verification/PTP_Client.thy ===== *)
theory PTP_Client
  imports PTP_Codec "HOL-Library.List_Lexorder" "HOL-Library.Product_Lexorder"
begin

text \<open>
  Sources/Engine/PTPClient.cpp: the PTPv2 slave. The local variables of \<open>PTPClient::loop\<close> and the
  fields of the shared block it writes are one record; the clocks, the sockets' results and the
  configuration are arguments of the steps. Times are nanoseconds, 0 standing for the default
  \<open>time_point\<close>. \<open>None\<close> is a signed 64-bit overflow.
\<close>

section \<open>Ranks of announces\<close>

type_synonym rank_key = "u8 \<times> u8 \<times> u8 \<times> u16 \<times> u8 \<times> bytes \<times> u16 \<times> bytes \<times> u16"

datatype announce_rank = Announce_Rank (rank_key: rank_key)

definition announceRank :: "ptp_message \<Rightarrow> announce_rank" where
  "announceRank m = Announce_Rank (pm_grandmasterPriority1 m, pm_grandmasterClockClass m,
     pm_grandmasterClockAccuracy m, pm_grandmasterOffsetScaledLogVariance m,
     pm_grandmasterPriority2 m, pm_grandmasterIdentity m, pm_stepsRemoved m,
     pid_clock (pm_source m), pid_port (pm_source m))"

text \<open>\<open>std::tuple\<close> and \<open>std::array\<close> compare lexicographically.\<close>

instantiation announce_rank :: linorder
begin

definition less_eq_announce_rank :: "announce_rank \<Rightarrow> announce_rank \<Rightarrow> bool" where
  "less_eq_announce_rank a b \<longleftrightarrow> rank_key a \<le> rank_key b"

definition less_announce_rank :: "announce_rank \<Rightarrow> announce_rank \<Rightarrow> bool" where
  "less_announce_rank a b \<longleftrightarrow> rank_key a < rank_key b"

instance
  by standard (auto simp: less_eq_announce_rank_def less_announce_rank_def announce_rank.expand)

end

section \<open>The state\<close>

record sync_sample =
  ss_source :: ptp_port_identity
  ss_sequence :: u16
  ss_ingressNanoseconds :: int
  ss_originNanoseconds :: "int option"
  ss_correctionScaledNanoseconds :: int
  ss_receivedAt :: int

record ptp_config =
  pc_domain :: u8
  pc_localIdentity :: ptp_port_identity

record ptp_client =
  pt_master :: "ptp_port_identity option"
  pt_masterRank :: "announce_rank option"
  pt_lastAnnounce :: int
  pt_lastSync :: int
  pt_sync :: "sync_sample option"
  pt_delaySequence :: u16
  pt_pendingDelaySequence :: "u16 option"
  pt_pendingDelayEgress :: int
  pt_nextDelayRequest :: int
  pt_filteredOffset :: "int option"
  pt_stableMeasurements :: u32
  pt_lastValidMeasurement :: int
  pt_ptpLocked :: bool
  pt_ptpOffsetNanoseconds :: int
  pt_ptpMeanPathDelayNanoseconds :: int
  pt_ptpMessages :: u64
  pt_ptpErrors :: u64

definition ptp_error_counted :: "ptp_client \<Rightarrow> ptp_client" where
  "ptp_error_counted st = st\<lparr>pt_ptpErrors := pt_ptpErrors st + 1\<rparr>"

text \<open>The state when the loop starts; the block's counters are kept.\<close>

definition ptp_loop_entry :: "int \<Rightarrow> ptp_client \<Rightarrow> ptp_client" where
  "ptp_loop_entry now st = st\<lparr>pt_master := None, pt_masterRank := None, pt_lastAnnounce := 0,
     pt_lastSync := 0, pt_sync := None, pt_delaySequence := 0, pt_pendingDelaySequence := None,
     pt_pendingDelayEgress := 0, pt_nextDelayRequest := now, pt_filteredOffset := None,
     pt_stableMeasurements := 0, pt_lastValidMeasurement := 0\<rparr>"

text \<open>The writes to the block that several places share.\<close>

definition ptp_clear_measurement :: "ptp_client \<Rightarrow> ptp_client" where
  "ptp_clear_measurement st = st\<lparr>pt_ptpLocked := False, pt_ptpOffsetNanoseconds := 0,
     pt_ptpMeanPathDelayNanoseconds := 0\<rparr>"

section \<open>\<open>process\<close>\<close>

definition ptp_announce_step :: "ptp_message \<Rightarrow> int \<Rightarrow> ptp_client \<Rightarrow> ptp_client" where
  "ptp_announce_step m now st =
     (let rank = announceRank m;
          masterExpired = (pt_lastAnnounce st \<noteq> 0 \<and> now - pt_lastAnnounce st \<ge> 3000000000);
          select = (pt_master st = None \<or> masterExpired \<or> Some (pm_source m) = pt_master st
            \<or> (case pt_masterRank st of None \<Rightarrow> True | Some mr \<Rightarrow> rank < mr))
      in if \<not> select then st
         else
           let st' = (if pt_master st = Some (pm_source m) then st
                 else st\<lparr>pt_master := Some (pm_source m), pt_sync := None,
                   pt_stableMeasurements := 0, pt_ptpLocked := False\<rparr>)
           in st'\<lparr>pt_masterRank := Some rank, pt_lastAnnounce := now\<rparr>)"

definition ptp_measurement_step ::
    "ptp_measurement option \<Rightarrow> int \<Rightarrow> ptp_client \<Rightarrow> ptp_client option" where
  "ptp_measurement_step measurement now st =
     (case (case measurement of None \<Rightarrow> None
            | Some me \<Rightarrow> if me_meanPathDelayNanoseconds me > 20000000 then None else Some me) of
        None \<Rightarrow>
          Some (if pt_lastValidMeasurement st \<noteq> 0 \<and> now - pt_lastValidMeasurement st \<ge> 2000000000
            then ptp_clear_measurement (st\<lparr>pt_stableMeasurements := 0\<rparr>) else st)
      | Some me \<Rightarrow> do {
          st1 \<leftarrow> (case pt_filteredOffset st of
              None \<Rightarrow> Some (st\<lparr>pt_filteredOffset := Some (me_offsetNanoseconds me), pt_stableMeasurements := 1\<rparr>)
            | Some old \<Rightarrow> do {
                difference \<leftarrow> chk64 (me_offsetNanoseconds me - old);
                magnitude \<leftarrow> chk64 \<bar>difference\<bar>;
                if magnitude \<le> 2000000 then do {
                  filtered \<leftarrow> chk64 (old + cdiv difference 8);
                  Some (st\<lparr>pt_filteredOffset := Some filtered,
                    pt_stableMeasurements := pt_stableMeasurements st + 1\<rparr>)
                }
                else Some (st\<lparr>pt_filteredOffset := Some (me_offsetNanoseconds me), pt_stableMeasurements := 1\<rparr>)
              });
          let fresh = (now - pt_lastAnnounce st1 < 3000000000 \<and> now - pt_lastSync st1 < 2000000000);
          Some (st1\<lparr>pt_ptpOffsetNanoseconds := the (pt_filteredOffset st1),
            pt_ptpMeanPathDelayNanoseconds := me_meanPathDelayNanoseconds me,
            pt_lastValidMeasurement := now,
            pt_ptpLocked := fresh \<and> pt_stableMeasurements st1 \<ge> 4\<rparr>)
        })"

definition ptp_response_step :: "ptp_config \<Rightarrow> ptp_message \<Rightarrow> int \<Rightarrow> ptp_client \<Rightarrow> ptp_client option" where
  "ptp_response_step cfg m now st =
     (case (pm_timestampNanoseconds m, pm_requestingPort m, pt_pendingDelaySequence st, pt_sync st) of
        (Some receipt, Some requester, Some pending, Some sample) \<Rightarrow>
          (case ss_originNanoseconds sample of
             None \<Rightarrow> Some st
           | Some origin \<Rightarrow>
               if pm_type m \<noteq> Delay_response \<or> requester \<noteq> pc_localIdentity cfg \<or> pm_sequence m \<noteq> pending
               then Some st
               else do {
                 measurement \<leftarrow> calculateE2E origin (ss_ingressNanoseconds sample)
                   (pt_pendingDelayEgress st) receipt (ss_correctionScaledNanoseconds sample)
                   (pm_correctionScaledNanoseconds m);
                 ptp_measurement_step measurement now (st\<lparr>pt_pendingDelaySequence := None\<rparr>)
               })
      | _ \<Rightarrow> Some st)"

definition ptp_message_step :: "ptp_config \<Rightarrow> ptp_message \<Rightarrow> int \<Rightarrow> int \<Rightarrow> ptp_client \<Rightarrow> ptp_client option" where
  "ptp_message_step cfg m ingress now st =
     (if pm_type m = Announce then Some (ptp_announce_step m now st)
      else if pt_master st \<noteq> Some (pm_source m) then Some st
      else if pm_type m = Sync \<and> pm_timestampNanoseconds m \<noteq> None then
        Some (st\<lparr>pt_sync := Some \<lparr> ss_source = pm_source m, ss_sequence = pm_sequence m,
            ss_ingressNanoseconds = ingress,
            ss_originNanoseconds = (if pm_twoStep m then None else pm_timestampNanoseconds m),
            ss_correctionScaledNanoseconds = pm_correctionScaledNanoseconds m, ss_receivedAt = now \<rparr>,
          pt_lastSync := now\<rparr>)
      else case pt_sync st of
          None \<Rightarrow> ptp_response_step cfg m now st
        | Some sample \<Rightarrow>
            if pm_type m = Follow_up \<and> pm_timestampNanoseconds m \<noteq> None
               \<and> ss_source sample = pm_source m \<and> ss_sequence sample = pm_sequence m
            then do {
              correction \<leftarrow> chk64 (ss_correctionScaledNanoseconds sample + pm_correctionScaledNanoseconds m);
              Some (st\<lparr>pt_sync := Some (sample\<lparr>ss_originNanoseconds := pm_timestampNanoseconds m,
                ss_correctionScaledNanoseconds := correction\<rparr>)\<rparr>)
            }
            else ptp_response_step cfg m now st)"

definition ptp_process :: "ptp_config \<Rightarrow> bytes \<Rightarrow> int \<Rightarrow> int \<Rightarrow> ptp_client \<Rightarrow> ptp_client option" where
  "ptp_process cfg bs ingress now st =
     (if length bs < kHeaderBytes then Some (ptp_error_counted st)
      else do {
        b1 \<leftarrow> rd bs 1; b4 \<leftarrow> rd bs 4;
        if b1 AND 0x0f \<noteq> 2 \<or> b4 \<noteq> pc_domain cfg then Some st
        else do {
          (ok, m, _) \<leftarrow> ptp_decode bs (pc_domain cfg) empty_ptp_message;
          if \<not> ok then Some (ptp_error_counted st)
          else ptp_message_step cfg m ingress now (st\<lparr>pt_ptpMessages := pt_ptpMessages st + 1\<rparr>)
        }
      })"

section \<open>The loop\<close>

datatype received = Datagram bytes | Nothing_received | Receive_error

definition ptp_receive_step :: "ptp_config \<Rightarrow> received \<Rightarrow> int \<Rightarrow> int \<Rightarrow> ptp_client \<Rightarrow> ptp_client option" where
  "ptp_receive_step cfg r ingress now st = (case r of
     Datagram bs \<Rightarrow> ptp_process cfg bs ingress now st
   | Nothing_received \<Rightarrow> Some st
   | Receive_error \<Rightarrow> Some (ptp_error_counted st))"

text \<open>The delay request; \<open>sent\<close> tells whether the socket took the whole message. The second
  component is what was sent.\<close>

definition ptp_request_step ::
    "ptp_config \<Rightarrow> int \<Rightarrow> int \<Rightarrow> bool \<Rightarrow> ptp_client \<Rightarrow> ptp_client \<times> bytes option" where
  "ptp_request_step cfg now wallNow sent st =
     (case pt_sync st of
        Some sample \<Rightarrow>
          if pt_master st \<noteq> None \<and> ss_originNanoseconds sample \<noteq> None \<and> now \<ge> pt_nextDelayRequest st then
            let q = pt_delaySequence st + 1;
                request = encodeDelayRequest (pc_localIdentity cfg) q (pc_domain cfg) wallNow;
                st1 = st\<lparr>pt_delaySequence := q, pt_pendingDelayEgress := wallNow\<rparr>;
                st2 = (if sent then st1\<lparr>pt_pendingDelaySequence := Some q\<rparr> else ptp_error_counted st1)
            in (st2\<lparr>pt_nextDelayRequest := now + 250000000\<rparr>, Some request)
          else (st, None)
      | None \<Rightarrow> (st, None))"

definition ptp_timeout_step :: "int \<Rightarrow> ptp_client \<Rightarrow> ptp_client" where
  "ptp_timeout_step now st =
     (if (pt_lastAnnounce st \<noteq> 0 \<and> now - pt_lastAnnounce st \<ge> 3000000000)
         \<or> (pt_lastSync st \<noteq> 0 \<and> now - pt_lastSync st \<ge> 2000000000)
      then ptp_clear_measurement (st\<lparr>pt_stableMeasurements := 0\<rparr>) else st)"

text \<open>What one iteration of the loop finds outside: the two receive results with the clocks read
  after them, the clocks of the periodic part and the result of the send.\<close>

record ptp_inputs =
  pin_event :: received
  pin_eventIngress :: int
  pin_eventNow :: int
  pin_general :: received
  pin_generalIngress :: int
  pin_generalNow :: int
  pin_now :: int
  pin_wallNow :: int
  pin_sent :: bool

definition ptp_iteration :: "ptp_config \<Rightarrow> ptp_inputs \<Rightarrow> ptp_client \<Rightarrow> ptp_client option" where
  "ptp_iteration cfg i st = do {
     st1 \<leftarrow> ptp_receive_step cfg (pin_event i) (pin_eventIngress i) (pin_eventNow i) st;
     st2 \<leftarrow> ptp_receive_step cfg (pin_general i) (pin_generalIngress i) (pin_generalNow i) st1;
     Some (ptp_timeout_step (pin_now i) (fst (ptp_request_step cfg (pin_now i) (pin_wallNow i) (pin_sent i) st2)))
   }"

text \<open>The whole \<open>while\<close> loop over the iterations' inputs, and what surrounds it: the sockets that
  cannot be opened, and the block's state when the loop ends.\<close>

fun ptp_run :: "ptp_config \<Rightarrow> ptp_inputs list \<Rightarrow> ptp_client \<Rightarrow> ptp_client option" where
  "ptp_run cfg [] st = Some st"
| "ptp_run cfg (i # is) st = do { st' \<leftarrow> ptp_iteration cfg i st; ptp_run cfg is st' }"

definition ptp_loop :: "bool \<Rightarrow> ptp_config \<Rightarrow> int \<Rightarrow> ptp_inputs list \<Rightarrow> ptp_client \<Rightarrow> ptp_client option" where
  "ptp_loop opened cfg now is st =
     (if \<not> opened then Some (ptp_error_counted st)
      else do { st' \<leftarrow> ptp_run cfg is (ptp_loop_entry now st); Some (ptp_clear_measurement st') })"

section \<open>Start and stop\<close>

definition identityFromAddress :: "string \<Rightarrow> ptp_port_identity" where
  "identityFromAddress address =
     (let hash = foldl (\<lambda>hash c. (hash XOR of_char c) * 1099511628211) (14695981039346656037 :: u64) address;
          clock = put64 hash
      in \<lparr> pid_clock = clock[0 := (clock ! 0 OR 0x02) AND 0xfe], pid_port = 1 \<rparr>)"

text \<open>\<open>start\<close> from the stopped or running client; \<open>thread_ok\<close> is whether the thread could be
  created. The triple is the returned value, the running flag, the configuration and the block.\<close>

definition ptp_start ::
    "string \<Rightarrow> bool \<Rightarrow> bool \<Rightarrow> ptp_config \<Rightarrow> ptp_client \<Rightarrow> bool \<times> bool \<times> ptp_config \<times> ptp_client" where
  "ptp_start interfaceAddress thread_ok running cfg st =
     (if running then (False, True, cfg, st)
      else if interfaceAddress = [] then (False, False, cfg, st)
      else
        let cfg' = (if pid_port (pc_localIdentity cfg) = 0
              then cfg\<lparr>pc_localIdentity := identityFromAddress interfaceAddress\<rparr> else cfg);
            st' = ptp_clear_measurement st
        in if thread_ok then (True, True, cfg', st') else (False, False, cfg', st'))"

definition ptp_stop :: "bool \<Rightarrow> bool \<Rightarrow> ptp_client \<Rightarrow> bool \<times> ptp_client" where
  "ptp_stop running hadThread st =
     (False, if running \<or> hadThread then st\<lparr>pt_ptpLocked := False\<rparr> else st)"

section \<open>Lock\<close>

text \<open>What holds between any two steps of the loop once the clocks have left zero: a lock stands on
  four stable measurements, a chosen master, and publishes the filtered offset.\<close>

definition ptp_inv :: "ptp_client \<Rightarrow> bool" where
  "ptp_inv st \<longleftrightarrow>
     (pt_master st \<noteq> None \<longrightarrow> pt_lastAnnounce st \<noteq> 0) \<and>
     (pt_sync st \<noteq> None \<longrightarrow> pt_lastSync st \<noteq> 0 \<and> pt_master st = Some (ss_source (the (pt_sync st)))) \<and>
     (pt_ptpLocked st \<longrightarrow> pt_sync st \<noteq> None \<and> 4 \<le> pt_stableMeasurements st
        \<and> pt_filteredOffset st = Some (pt_ptpOffsetNanoseconds st)
        \<and> 0 \<le> pt_ptpMeanPathDelayNanoseconds st \<and> pt_ptpMeanPathDelayNanoseconds st \<le> 20000000)"

text \<open>The measurements that can still be counted: one more while a request is unanswered.\<close>

definition stable_bound :: "ptp_client \<Rightarrow> nat" where
  "stable_bound st = unat (pt_stableMeasurements st) + (if pt_pendingDelaySequence st = None then 0 else 1)"

lemma unat_succ_le: "unat (w + 1 :: u32) \<le> unat w + 1"
  by (simp add: unat_word_ariths)

lemma calculateE2E_delay: "calculateE2E a b c d e f = Some (Some me) \<Longrightarrow> 0 \<le> me_meanPathDelayNanoseconds me"
  by (auto simp: calculateE2E_def Let_def bind_Some_iff split: if_splits)

lemma ptp_error_counted_inv [simp]:
  "ptp_inv (ptp_error_counted st) = ptp_inv st" "stable_bound (ptp_error_counted st) = stable_bound st"
  by (simp_all add: ptp_inv_def stable_bound_def ptp_error_counted_def)

lemma ptp_messages_inv [simp]:
  "ptp_inv (st\<lparr>pt_ptpMessages := n\<rparr>) = ptp_inv st" "stable_bound (st\<lparr>pt_ptpMessages := n\<rparr>) = stable_bound st"
  by (simp_all add: ptp_inv_def stable_bound_def)

lemma ptp_clear_inv:
  "ptp_inv st \<Longrightarrow> ptp_inv (ptp_clear_measurement (st\<lparr>pt_stableMeasurements := 0\<rparr>))
     \<and> stable_bound (ptp_clear_measurement (st\<lparr>pt_stableMeasurements := 0\<rparr>)) \<le> stable_bound st"
  by (simp add: ptp_inv_def stable_bound_def ptp_clear_measurement_def)

lemma ptp_announce_inv:
  assumes "ptp_inv st" "0 < now"
  shows "ptp_inv (ptp_announce_step m now st) \<and> stable_bound (ptp_announce_step m now st) \<le> stable_bound st"
  using assms by (auto simp: ptp_inv_def stable_bound_def ptp_announce_step_def Let_def)

text \<open>An accepted measurement: the filter's new value and the count of stable measurements.\<close>

lemma ptp_measurement_accepted:
  assumes "ptp_measurement_step (Some me) now st = Some st'" "me_meanPathDelayNanoseconds me \<le> 20000000"
  obtains f n where "n = 1 \<or> n = pt_stableMeasurements st + 1"
    "st' = st\<lparr>pt_filteredOffset := Some f, pt_stableMeasurements := n, pt_ptpOffsetNanoseconds := f,
       pt_ptpMeanPathDelayNanoseconds := me_meanPathDelayNanoseconds me, pt_lastValidMeasurement := now,
       pt_ptpLocked := (now - pt_lastAnnounce st < 3000000000 \<and> now - pt_lastSync st < 2000000000) \<and> n \<ge> 4\<rparr>"
proof -
  have small: "\<not> me_meanPathDelayNanoseconds me > 20000000" using assms(2) by simp
  note step = assms(1) [unfolded ptp_measurement_step_def option.case if_not_P [OF small] Let_def]
  show thesis
  proof (cases "pt_filteredOffset st")
    case None
    with step show thesis by (intro that [of 1 "me_offsetNanoseconds me"]) auto
  next
    case (Some old)
    let ?d = "me_offsetNanoseconds me - old"
    show thesis
    proof (cases "\<bar>?d\<bar> \<le> 2000000")
      case True
      with Some step show thesis
        by (intro that [of "pt_stableMeasurements st + 1" "old + cdiv ?d 8"])
          (auto simp: bind_Some_iff chk64_Some_iff)
    next
      case False
      with Some step show thesis
        by (intro that [of 1 "me_offsetNanoseconds me"]) (auto simp: bind_Some_iff chk64_Some_iff)
    qed
  qed
qed

lemma ptp_measurement_rejected:
  assumes "measurement = None \<or> me_meanPathDelayNanoseconds (the measurement) > 20000000"
  shows "ptp_measurement_step measurement now st =
    Some (if pt_lastValidMeasurement st \<noteq> 0 \<and> now - pt_lastValidMeasurement st \<ge> 2000000000
      then ptp_clear_measurement (st\<lparr>pt_stableMeasurements := 0\<rparr>) else st)"
  using assms by (cases measurement) (simp_all add: ptp_measurement_step_def)

lemma ptp_measurement_inv:
  assumes "ptp_inv st" "pt_sync st \<noteq> None" "ptp_measurement_step measurement now st = Some st'"
    and delay: "\<And>me. measurement = Some me \<Longrightarrow> 0 \<le> me_meanPathDelayNanoseconds me"
  shows "ptp_inv st' \<and> stable_bound st' \<le> stable_bound st + 1"
proof (cases "measurement = None \<or> me_meanPathDelayNanoseconds (the measurement) > 20000000")
  case True
  with assms(1,3) ptp_clear_inv [OF assms(1)] show ?thesis
    by (auto simp: ptp_measurement_rejected split: if_splits)
next
  case False
  then obtain me where me: "measurement = Some me" "me_meanPathDelayNanoseconds me \<le> 20000000"
    by (cases measurement) auto
  from assms(3) me(1) have step: "ptp_measurement_step (Some me) now st = Some st'" by simp
  obtain f n where n: "n = 1 \<or> n = pt_stableMeasurements st + 1" and
    st': "st' = st\<lparr>pt_filteredOffset := Some f, pt_stableMeasurements := n, pt_ptpOffsetNanoseconds := f,
       pt_ptpMeanPathDelayNanoseconds := me_meanPathDelayNanoseconds me, pt_lastValidMeasurement := now,
       pt_ptpLocked := (now - pt_lastAnnounce st < 3000000000 \<and> now - pt_lastSync st < 2000000000) \<and> n \<ge> 4\<rparr>"
    by (rule ptp_measurement_accepted [OF step me(2)])
  have "unat n \<le> unat (pt_stableMeasurements st) + 1"
    using n unat_succ_le [of "pt_stableMeasurements st"] by auto
  then show ?thesis
    using assms(1,2) me delay [OF me(1)] unfolding st' by (simp add: ptp_inv_def stable_bound_def)
qed

lemma ptp_response_step_cases:
  assumes "ptp_response_step cfg m now st = Some st'"
  obtains "st' = st"
  | sample q origin receipt measurement where "pt_sync st = Some sample" "pt_pendingDelaySequence st = Some q"
      "calculateE2E origin (ss_ingressNanoseconds sample) (pt_pendingDelayEgress st) receipt
         (ss_correctionScaledNanoseconds sample) (pm_correctionScaledNanoseconds m) = Some measurement"
      "ptp_measurement_step measurement now (st\<lparr>pt_pendingDelaySequence := None\<rparr>) = Some st'"
  using assms
  by (auto simp: ptp_response_step_def bind_Some_iff split: option.splits if_splits)

lemma ptp_response_inv:
  assumes "ptp_inv st" "ptp_response_step cfg m now st = Some st'"
  shows "ptp_inv st' \<and> stable_bound st' \<le> stable_bound st"
  using assms(2)
proof (cases rule: ptp_response_step_cases)
  case 1
  with assms show ?thesis by simp
next
  case (2 sample q origin receipt measurement)
  let ?st = "st\<lparr>pt_pendingDelaySequence := None\<rparr>"
  have inv: "ptp_inv ?st" using assms(1) by (simp add: ptp_inv_def)
  have "stable_bound ?st + 1 = stable_bound st" using 2 by (simp add: stable_bound_def)
  moreover have "0 \<le> me_meanPathDelayNanoseconds me" if "measurement = Some me" for me
    using 2(3) that calculateE2E_delay by simp
  ultimately show ?thesis
    using ptp_measurement_inv [OF inv _ 2(4)] 2(1) by simp
qed

lemma ptp_message_inv:
  assumes "ptp_inv st" "0 < now" "ptp_message_step cfg m ingress now st = Some st'"
  shows "ptp_inv st' \<and> stable_bound st' \<le> stable_bound st"
proof (cases "pm_type m = Announce")
  case True
  with assms ptp_announce_inv [OF assms(1,2), of m] show ?thesis by (auto simp: ptp_message_step_def)
next
  case not_announce: False
  show ?thesis
  proof (cases "pt_master st = Some (pm_source m)")
    case False
    with not_announce assms show ?thesis by (auto simp: ptp_message_step_def)
  next
    case master: True
    show ?thesis
    proof (cases "pm_type m = Sync \<and> pm_timestampNanoseconds m \<noteq> None")
      case True
      with not_announce master assms show ?thesis
        by (auto simp: ptp_message_step_def ptp_inv_def stable_bound_def)
    next
      case not_sync: False
      have "ptp_response_step cfg m now st = Some st' \<or> (\<exists>ss t c. pt_sync st = Some ss \<and>
          st' = st\<lparr>pt_sync := Some (ss\<lparr>ss_originNanoseconds := t, ss_correctionScaledNanoseconds := c\<rparr>)\<rparr>)"
      proof (cases "pt_sync st")
        case None
        with not_announce master not_sync assms(3) show ?thesis
          by (auto simp: ptp_message_step_def split: if_splits)
      next
        case (Some ss)
        with not_announce master not_sync assms(3) show ?thesis
          by (cases "pm_type m = Follow_up \<and> pm_timestampNanoseconds m \<noteq> None
              \<and> ss_source ss = pm_source m \<and> ss_sequence ss = pm_sequence m")
            (auto simp: ptp_message_step_def bind_Some_iff split: if_splits)
      qed
      then show ?thesis
      proof
        assume "ptp_response_step cfg m now st = Some st'"
        then show ?thesis by (rule ptp_response_inv [OF assms(1)])
      next
        assume "\<exists>ss t c. pt_sync st = Some ss \<and>
          st' = st\<lparr>pt_sync := Some (ss\<lparr>ss_originNanoseconds := t, ss_correctionScaledNanoseconds := c\<rparr>)\<rparr>"
        with assms(1) show ?thesis by (auto simp: ptp_inv_def stable_bound_def)
      qed
    qed
  qed
qed

lemma ptp_process_cases:
  assumes "ptp_process cfg bs ingress now st = Some st'"
  obtains "st' = st" | "st' = ptp_error_counted st"
  | m n where "ptp_message_step cfg m ingress now (st\<lparr>pt_ptpMessages := n\<rparr>) = Some st'"
proof (cases "length bs < kHeaderBytes")
  case True
  with assms that(2) show thesis by (simp add: ptp_process_def)
next
  case False
  then obtain b1 b4 where reads: "rd bs 1 = Some b1" "rd bs 4 = Some b4"
    by (simp add: rd_def kHeaderBytes_def)
  show thesis
  proof (cases "b1 AND 0x0f \<noteq> 2 \<or> b4 \<noteq> pc_domain cfg")
    case True
    with assms False reads that(1) show thesis by (auto simp: ptp_process_def)
  next
    case ours: False
    then obtain ok m e where "ptp_decode bs (pc_domain cfg) empty_ptp_message = Some (ok, m, e)"
      using assms False reads by (auto simp: ptp_process_def bind_Some_iff)
    with assms False reads ours that(2,3) show thesis
      by (cases ok) (auto simp: ptp_process_def)
  qed
qed

lemma ptp_receive_inv:
  assumes "ptp_inv st" "0 < now" "ptp_receive_step cfg r ingress now st = Some st'"
  shows "ptp_inv st' \<and> stable_bound st' \<le> stable_bound st"
proof (cases r)
  case (Datagram bs)
  with assms(3) have "ptp_process cfg bs ingress now st = Some st'" by (simp add: ptp_receive_step_def)
  then show ?thesis
  proof (cases rule: ptp_process_cases)
    case (3 m n)
    then show ?thesis using ptp_message_inv [of "st\<lparr>pt_ptpMessages := n\<rparr>" now cfg m ingress st'] assms by simp
  qed (use assms in simp_all)
qed (use assms in \<open>auto simp: ptp_receive_step_def\<close>)

lemma ptp_request_inv:
  assumes "ptp_inv st"
  shows "ptp_inv (fst (ptp_request_step cfg now wall sent st))
    \<and> stable_bound (fst (ptp_request_step cfg now wall sent st)) \<le> stable_bound st + 1"
  using assms
  by (auto simp: ptp_request_step_def ptp_inv_def stable_bound_def ptp_error_counted_def Let_def
      split: option.splits)

lemma ptp_timeout_inv:
  assumes "ptp_inv st"
  shows "ptp_inv (ptp_timeout_step now st) \<and> stable_bound (ptp_timeout_step now st) \<le> stable_bound st
    \<and> (pt_ptpLocked (ptp_timeout_step now st) \<longrightarrow>
         now - pt_lastAnnounce (ptp_timeout_step now st) < 3000000000
         \<and> now - pt_lastSync (ptp_timeout_step now st) < 2000000000)"
  using assms ptp_clear_inv [OF assms]
  by (auto simp: ptp_timeout_step_def ptp_inv_def) (auto simp: ptp_clear_measurement_def)

definition ptp_clocks_ok :: "ptp_inputs \<Rightarrow> bool" where
  "ptp_clocks_ok i \<longleftrightarrow> 0 < pin_eventNow i \<and> 0 < pin_generalNow i"

lemma ptp_iteration_inv:
  assumes "ptp_inv st" "ptp_clocks_ok i" "ptp_iteration cfg i st = Some st'"
  shows "ptp_inv st' \<and> stable_bound st' \<le> stable_bound st + 1
    \<and> (pt_ptpLocked st' \<longrightarrow> pin_now i - pt_lastAnnounce st' < 3000000000
         \<and> pin_now i - pt_lastSync st' < 2000000000)"
proof -
  obtain st1 st2 where
    r1: "ptp_receive_step cfg (pin_event i) (pin_eventIngress i) (pin_eventNow i) st = Some st1" and
    r2: "ptp_receive_step cfg (pin_general i) (pin_generalIngress i) (pin_generalNow i) st1 = Some st2" and
    st': "st' = ptp_timeout_step (pin_now i) (fst (ptp_request_step cfg (pin_now i) (pin_wallNow i) (pin_sent i) st2))"
    using assms(3) by (auto simp: ptp_iteration_def bind_Some_iff)
  have clocks: "0 < pin_eventNow i" "0 < pin_generalNow i" using assms(2) by (simp_all add: ptp_clocks_ok_def)
  note i1 = ptp_receive_inv [OF assms(1) clocks(1) r1]
  note i2 = ptp_receive_inv [OF conjunct1 [OF i1] clocks(2) r2]
  note i3 = ptp_request_inv [OF conjunct1 [OF i2], of cfg "pin_now i" "pin_wallNow i" "pin_sent i"]
  note i4 = ptp_timeout_inv [OF conjunct1 [OF i3], of "pin_now i"]
  from i1 i2 i3 i4 show ?thesis unfolding st' by auto
qed

lemma ptp_run_inv:
  assumes "ptp_inv st" "\<forall>i \<in> set is. ptp_clocks_ok i" "ptp_run cfg is st = Some st'"
  shows "ptp_inv st' \<and> stable_bound st' \<le> stable_bound st + length is
    \<and> (is \<noteq> [] \<longrightarrow> pt_ptpLocked st' \<longrightarrow> pin_now (last is) - pt_lastAnnounce st' < 3000000000
         \<and> pin_now (last is) - pt_lastSync st' < 2000000000)"
  using assms
proof (induction "is" arbitrary: st)
  case Nil
  then show ?case by simp
next
  case (Cons i "is")
  then obtain st1 where st1: "ptp_iteration cfg i st = Some st1" "ptp_run cfg is st1 = Some st'"
    by (auto simp: bind_Some_iff)
  have "ptp_clocks_ok i" using Cons.prems(2) by simp
  note step = ptp_iteration_inv [OF Cons.prems(1) this st1(1)]
  have "\<forall>i \<in> set is. ptp_clocks_ok i" using Cons.prems(2) by simp
  note IH = Cons.IH [OF conjunct1 [OF step] this st1(2)]
  show ?case
  proof (cases "is = []")
    case True
    with step st1(2) show ?thesis by auto
  next
    case False
    with step IH show ?thesis by auto
  qed
qed

lemma ptp_loop_entry_inv: "\<not> pt_ptpLocked st \<Longrightarrow> ptp_inv (ptp_loop_entry now st)"
  "stable_bound (ptp_loop_entry now st) = 0"
  by (simp_all add: ptp_loop_entry_def ptp_inv_def stable_bound_def)

text \<open>C13: After any number of loop iterations, with any datagrams from the network, the client reports a
  lock only with a synchronising master heard within the last three seconds and a sync within the
  last two, after at least four stable measurements (so not before four iterations), each with a
  path delay of at most 20 ms, and the offset it publishes is the filtered one.\<close>

theorem ptp_lock_is_earned:
  assumes "\<not> pt_ptpLocked st" "\<forall>i \<in> set is. ptp_clocks_ok i" "is \<noteq> []"
    and "ptp_run cfg is (ptp_loop_entry t0 st) = Some st'" "pt_ptpLocked st'"
  shows "4 \<le> unat (pt_stableMeasurements st') \<and> 4 \<le> length is
    \<and> (\<exists>sample. pt_sync st' = Some sample \<and> pt_master st' = Some (ss_source sample))
    \<and> pin_now (last is) - pt_lastAnnounce st' < 3000000000 \<and> pin_now (last is) - pt_lastSync st' < 2000000000
    \<and> pt_filteredOffset st' = Some (pt_ptpOffsetNanoseconds st')
    \<and> 0 \<le> pt_ptpMeanPathDelayNanoseconds st' \<and> pt_ptpMeanPathDelayNanoseconds st' \<le> 20000000"
proof -
  note run = ptp_run_inv [OF ptp_loop_entry_inv(1) [OF assms(1)] assms(2,4)]
  have inv: "ptp_inv st'" using run by blast
  have "4 \<le> unat (pt_stableMeasurements st')"
    using inv assms(5) by (simp add: ptp_inv_def word_le_nat_alt)
  moreover have "stable_bound st' \<le> length is" using run ptp_loop_entry_inv(2) by simp
  then have "unat (pt_stableMeasurements st') \<le> length is" by (simp add: stable_bound_def)
  ultimately show ?thesis
    using inv run assms(3,5) by (auto simp: ptp_inv_def)
qed

section \<open>A run that locks\<close>

lemma header_reads:
  "rd (putHeader sz t source q d two c @ rest) 1 = Some 2"
  "rd (putHeader sz t source q d two c @ rest) 4 = Some d"
  "\<not> length (putHeader sz t source q d two c @ rest) < kHeaderBytes" if "length (pid_clock source) = 8"
  using that by (simp_all add: putHeader_def put16_def kHeaderBytes_def)

lemma ptp_process_decoded:
  assumes "length (pid_clock source) = 8"
    "ptp_decode (putHeader sz t source q (pc_domain cfg) two c @ rest) (pc_domain cfg) empty_ptp_message
      = Some (True, m, e)"
  shows "ptp_process cfg (putHeader sz t source q (pc_domain cfg) two c @ rest) ingress now st
    = ptp_message_step cfg m ingress now (st\<lparr>pt_ptpMessages := pt_ptpMessages st + 1\<rparr>)"
  unfolding ptp_process_def if_not_P [OF header_reads(3) [OF assms(1)]] header_reads(1,2) [OF assms(1)] assms(2)
  by simp

lemma ptp_process_timestamp:
  assumes "length (pid_clock source) = 8" "t \<in> {Sync, Delay_request, Follow_up}" "in_int64 ns" "in_int64 c"
  shows "ptp_process cfg (encodeTimestampMessage t source q (pc_domain cfg) ns two c) ingress now st
    = ptp_message_step cfg ((header_message t source q (pc_domain cfg) two c)\<lparr>pm_timestampNanoseconds := Some (max 0 ns)\<rparr>)
        ingress now (st\<lparr>pt_ptpMessages := pt_ptpMessages st + 1\<rparr>)"
  using ptp_decode_timestamp_message [OF assms] unfolding encodeTimestampMessage_def
  by (rule ptp_process_decoded [OF assms(1)])

lemma ptp_process_response:
  assumes "length (pid_clock source) = 8" "length (pid_clock requester) = 8" "0 \<le> ns" "in_int64 ns" "in_int64 c"
  shows "ptp_process cfg (encodeDelayResponse source requester q (pc_domain cfg) ns c) ingress now st
    = ptp_message_step cfg ((header_message Delay_response source q (pc_domain cfg) False c)
        \<lparr>pm_timestampNanoseconds := Some ns, pm_requestingPort := Some requester\<rparr>)
        ingress now (st\<lparr>pt_ptpMessages := pt_ptpMessages st + 1\<rparr>)"
  using ptp_decode_response [OF assms] unfolding encodeDelayResponse_def
  by (rule ptp_process_decoded [OF assms(1)])

definition software_announce :: "ptp_port_identity \<Rightarrow> u16 \<Rightarrow> u8 \<Rightarrow> ptp_message" where
  "software_announce source q d = (header_message Announce source q d False 0)
     \<lparr>pm_grandmasterPriority1 := 128, pm_grandmasterClockClass := 248, pm_grandmasterClockAccuracy := 0xfe,
       pm_grandmasterOffsetScaledLogVariance := 0, pm_grandmasterPriority2 := 128,
       pm_grandmasterIdentity := pid_clock source, pm_stepsRemoved := 0\<rparr>"

lemma ptp_process_announce:
  assumes "length (pid_clock source) = 8"
  shows "ptp_process cfg (encodeAnnounce source q (pc_domain cfg)) ingress now st
    = Some (ptp_announce_step (software_announce source q (pc_domain cfg)) now
        (st\<lparr>pt_ptpMessages := pt_ptpMessages st + 1\<rparr>))"
proof -
  have "ptp_process cfg (encodeAnnounce source q (pc_domain cfg)) ingress now st
    = ptp_message_step cfg (software_announce source q (pc_domain cfg)) ingress now
        (st\<lparr>pt_ptpMessages := pt_ptpMessages st + 1\<rparr>)"
    using ptp_decode_announce [OF assms, of q "pc_domain cfg" empty_ptp_message]
    unfolding encodeAnnounce_def software_announce_def [symmetric]
    by (rule ptp_process_decoded [OF assms])
  then show ?thesis
    by (simp add: ptp_message_step_def software_announce_def header_message_def)
qed

text \<open>A master half a microsecond away: an announce, a one-step sync and four answered requests.\<close>

definition slave_identity :: ptp_port_identity where
  "slave_identity = \<lparr> pid_clock = [6, 0, 94, 16, 0, 0, 0, 9], pid_port = 1 \<rparr>"

definition lock_config :: ptp_config where
  "lock_config = \<lparr> pc_domain = 0, pc_localIdentity = slave_identity \<rparr>"

definition lock_input :: "received \<Rightarrow> int \<Rightarrow> int \<Rightarrow> ptp_inputs" where
  "lock_input r ingress now = \<lparr> pin_event = Nothing_received, pin_eventIngress = 0, pin_eventNow = now,
     pin_general = r, pin_generalIngress = ingress, pin_generalNow = now, pin_now = now,
     pin_wallNow = 2000000, pin_sent = True \<rparr>"

definition lock_response :: "u16 \<Rightarrow> received" where
  "lock_response q = Datagram (encodeDelayResponse sample_identity slave_identity q (pc_domain lock_config) 2000500 0)"

definition lock_inputs :: "ptp_inputs list" where
  "lock_inputs =
     [lock_input (Datagram (encodeAnnounce sample_identity 1 (pc_domain lock_config))) 0 1000000000,
      lock_input (Datagram (encodeTimestampMessage Sync sample_identity 9 (pc_domain lock_config) 1000000 False 0))
        1000500 1100000000,
      lock_input (lock_response 1) 0 1400000000, lock_input (lock_response 2) 0 1700000000,
      lock_input (lock_response 3) 0 2000000000, lock_input (lock_response 4) 0 2300000000]"

definition stopped_client :: ptp_client where
  "stopped_client = \<lparr> pt_master = None, pt_masterRank = None, pt_lastAnnounce = 0, pt_lastSync = 0,
     pt_sync = None, pt_delaySequence = 0, pt_pendingDelaySequence = None, pt_pendingDelayEgress = 0,
     pt_nextDelayRequest = 0, pt_filteredOffset = None, pt_stableMeasurements = 0,
     pt_lastValidMeasurement = 0, pt_ptpLocked = False, pt_ptpOffsetNanoseconds = 0,
     pt_ptpMeanPathDelayNanoseconds = 0, pt_ptpMessages = 0, pt_ptpErrors = 0 \<rparr>"

lemma sample_clocks: "length (pid_clock sample_identity) = 8" "length (pid_clock slave_identity) = 8"
  by (simp_all add: sample_identity_def slave_identity_def)

lemma lock_measurement:
  "calculateE2E 1000000 1000500 2000000 2000500 0 0 = Some (Some \<lparr> me_offsetNanoseconds = 0, me_meanPathDelayNanoseconds = 500 \<rparr>)"
  by (simp add: calculateE2E_def scaledToNanoseconds_def cdiv_def chk64_def in_int64_def int64_min_def int64_max_def)

lemma lock_iteration_response:
  assumes "pt_master st = Some sample_identity" "pt_pendingDelaySequence st = Some q"
    "pt_sync st = Some \<lparr> ss_source = sample_identity, ss_sequence = 9, ss_ingressNanoseconds = 1000500,
       ss_originNanoseconds = Some 1000000, ss_correctionScaledNanoseconds = 0, ss_receivedAt = t \<rparr>"
    "pt_pendingDelayEgress st = 2000000" "pt_filteredOffset st \<in> {None, Some 0}"
    "now - pt_lastAnnounce st < 3000000000" "now - pt_lastSync st < 2000000000"
    "pt_nextDelayRequest st \<le> now"
  shows "ptp_iteration lock_config (lock_input (lock_response q) 0 now) st = Some (st\<lparr>
    pt_ptpMessages := pt_ptpMessages st + 1, pt_filteredOffset := Some 0,
    pt_stableMeasurements := (if pt_filteredOffset st = None then 1 else pt_stableMeasurements st + 1),
    pt_ptpOffsetNanoseconds := 0, pt_ptpMeanPathDelayNanoseconds := 500, pt_lastValidMeasurement := now,
    pt_ptpLocked := (if pt_filteredOffset st = None then 1 else pt_stableMeasurements st + 1) \<ge> 4,
    pt_delaySequence := pt_delaySequence st + 1,
    pt_pendingDelaySequence := Some (pt_delaySequence st + 1), pt_nextDelayRequest := now + 250000000\<rparr>)"
proof -
  let ?n = "if pt_filteredOffset st = None then 1 else pt_stableMeasurements st + 1"
  have small: "in_int64 2000500" "in_int64 0" by (simp_all add: in_int64_def int64_min_def int64_max_def)
  have process: "ptp_process lock_config (encodeDelayResponse sample_identity slave_identity q (pc_domain lock_config) 2000500 0)
      0 now st = Some (st\<lparr>pt_ptpMessages := pt_ptpMessages st + 1, pt_pendingDelaySequence := None,
        pt_filteredOffset := Some 0, pt_stableMeasurements := ?n, pt_ptpOffsetNanoseconds := 0,
        pt_ptpMeanPathDelayNanoseconds := 500, pt_lastValidMeasurement := now,
        pt_ptpLocked := ?n \<ge> 4\<rparr>)"
    unfolding ptp_process_response [OF sample_clocks _ small, simplified]
    using assms
    by (auto simp: ptp_message_step_def ptp_response_step_def header_message_def lock_config_def
        lock_measurement ptp_measurement_step_def chk64_def in_int64_def int64_min_def int64_max_def cdiv_def)
  show ?thesis
    using assms
    by (auto simp: ptp_iteration_def lock_input_def lock_response_def ptp_receive_step_def process
        ptp_request_step_def ptp_timeout_step_def Let_def)
qed

lemma lock_run: "\<exists>st. ptp_run lock_config lock_inputs (ptp_loop_entry 0 stopped_client) = Some st \<and> pt_ptpLocked st"
proof -
  let ?st0 = "ptp_loop_entry 0 stopped_client"
  have small: "in_int64 1000000" "in_int64 0" by (simp_all add: in_int64_def int64_min_def int64_max_def)
  let ?ann = "lock_input (Datagram (encodeAnnounce sample_identity 1 (pc_domain lock_config))) 0 1000000000"
  let ?syn = "lock_input (Datagram (encodeTimestampMessage Sync sample_identity 9 (pc_domain lock_config) 1000000 False 0))
        1000500 1100000000"
  let ?st1 = "?st0\<lparr>pt_ptpMessages := 1, pt_master := Some sample_identity,
    pt_masterRank := Some (announceRank (software_announce sample_identity 1 (pc_domain lock_config))),
    pt_lastAnnounce := 1000000000\<rparr>"
  have i1: "ptp_iteration lock_config ?ann ?st0 = Some ?st1"
    by (simp add: ptp_iteration_def lock_input_def ptp_receive_step_def ptp_process_announce [OF sample_clocks(1)]
        ptp_announce_step_def software_announce_def header_message_def ptp_loop_entry_def stopped_client_def
        ptp_request_step_def ptp_timeout_step_def Let_def)
  let ?st2 = "?st1\<lparr>pt_ptpMessages := 2, pt_sync := Some \<lparr> ss_source = sample_identity, ss_sequence = 9,
      ss_ingressNanoseconds = 1000500, ss_originNanoseconds = Some 1000000,
      ss_correctionScaledNanoseconds = 0, ss_receivedAt = 1100000000 \<rparr>, pt_lastSync := 1100000000,
      pt_delaySequence := 1, pt_pendingDelayEgress := 2000000, pt_pendingDelaySequence := Some 1,
      pt_nextDelayRequest := 1350000000\<rparr>"
  have i2: "ptp_iteration lock_config ?syn ?st1 = Some ?st2"
    by (simp add: ptp_iteration_def lock_input_def ptp_receive_step_def
        ptp_process_timestamp [OF sample_clocks(1) _ small] ptp_message_step_def header_message_def
        empty_ptp_message_def ptp_loop_entry_def stopped_client_def ptp_request_step_def
        ptp_timeout_step_def Let_def)
  show ?thesis
    unfolding lock_inputs_def ptp_run.simps i1 i2 bind.bind_lunit
    by (simp add: lock_iteration_response ptp_loop_entry_def stopped_client_def)
qed

theorem ptp_lock_is_earned_witness:
  "\<exists>st. ptp_run lock_config lock_inputs (ptp_loop_entry 0 stopped_client) = Some st \<and> pt_ptpLocked st
     \<and> 4 \<le> unat (pt_stableMeasurements st)"
proof -
  obtain st where st: "ptp_run lock_config lock_inputs (ptp_loop_entry 0 stopped_client) = Some st" "pt_ptpLocked st"
    using lock_run by blast
  have "\<forall>i \<in> set lock_inputs. ptp_clocks_ok i" "lock_inputs \<noteq> []" "\<not> pt_ptpLocked stopped_client"
    by (simp_all add: lock_inputs_def lock_input_def ptp_clocks_ok_def stopped_client_def)
  with ptp_lock_is_earned [OF _ _ _ st] st show ?thesis by blast
qed

section \<open>The choice of the master\<close>

text \<open>The state of the selection when every announce so far came within the timeout.\<close>

definition best_so_far :: "ptp_message list \<Rightarrow> ptp_client \<Rightarrow> bool" where
  "best_so_far ms st \<longleftrightarrow>
     (if ms = [] then pt_master st = None
      else \<exists>m \<in> set ms. pt_master st = Some (pm_source m) \<and> pt_masterRank st = Some (announceRank m)
         \<and> (\<forall>m' \<in> set ms. announceRank m \<le> announceRank m'))"

lemma best_step:
  assumes "best_so_far ms st" "\<And>a b. a \<in> set (m # ms) \<Longrightarrow> b \<in> set (m # ms) \<Longrightarrow>
      pm_source a = pm_source b \<Longrightarrow> announceRank a = announceRank b"
    and "now - pt_lastAnnounce st < 3000000000"
  shows "best_so_far (ms @ [m]) (ptp_announce_step m now st)"
proof (cases "ms = []")
  case True
  with assms(1) show ?thesis by (simp add: best_so_far_def ptp_announce_step_def)
next
  case False
  with assms(1) obtain b where b: "b \<in> set ms" "pt_master st = Some (pm_source b)"
    "pt_masterRank st = Some (announceRank b)" "\<forall>m' \<in> set ms. announceRank b \<le> announceRank m'"
    by (auto simp: best_so_far_def)
  show ?thesis
  proof (cases "pm_source m = pm_source b \<or> announceRank m < announceRank b")
    case True
    then have le: "announceRank m \<le> announceRank b"
      using assms(2) [of m b] b(1) by auto
    have "pt_master (ptp_announce_step m now st) = Some (pm_source m)"
      "pt_masterRank (ptp_announce_step m now st) = Some (announceRank m)"
      using True b(2,3) by (auto simp: ptp_announce_step_def Let_def)
    with le b(4) show ?thesis
      unfolding best_so_far_def by (auto intro!: bexI [of _ m] dest: order.trans [OF le])
  next
    case False
    then have "ptp_announce_step m now st = st"
      using b(2,3) assms(3) by (auto simp: ptp_announce_step_def Let_def)
    moreover have "announceRank b \<le> announceRank m" using False by (simp add: not_less)
    ultimately show ?thesis using b unfolding best_so_far_def by (auto intro!: bexI [of _ b])
  qed
qed

lemma announce_time: "pt_lastAnnounce (ptp_announce_step m now st) \<in> {now, pt_lastAnnounce st}"
  by (auto simp: ptp_announce_step_def Let_def)

lemma best_fold:
  assumes "\<And>a b. a \<in> set (ms @ map fst anns) \<Longrightarrow> b \<in> set (ms @ map fst anns) \<Longrightarrow>
      pm_source a = pm_source b \<Longrightarrow> announceRank a = announceRank b"
    and "best_so_far ms st" "t0 < pt_lastAnnounce st"
    and "\<And>m now. (m, now) \<in> set anns \<Longrightarrow> t0 < now \<and> now < t0 + 3000000000"
  shows "best_so_far (ms @ map fst anns) (fold (\<lambda>(m, now). ptp_announce_step m now) anns st)"
  using assms
proof (induction anns arbitrary: ms st)
  case Nil
  then show ?case by simp
next
  case (Cons a anns)
  obtain m now where a: "a = (m, now)" by (cases a)
  have now: "t0 < now" "now < t0 + 3000000000" using Cons.prems(4) [of m now] a by auto
  have "best_so_far (ms @ [m]) (ptp_announce_step m now st)"
  proof (rule best_step [OF Cons.prems(2)])
    show "now - pt_lastAnnounce st < 3000000000" using now Cons.prems(3) by linarith
  qed (use Cons.prems(1) a in auto)
  moreover have "t0 < pt_lastAnnounce (ptp_announce_step m now st)"
    using announce_time [of m now st] now(1) Cons.prems(3) by auto
  moreover have "announceRank x = announceRank y"
    if "x \<in> set ((ms @ [m]) @ map fst anns)" "y \<in> set ((ms @ [m]) @ map fst anns)"
      "pm_source x = pm_source y" for x y
    by (rule Cons.prems(1)) (use that a in auto)
  moreover have "t0 < n \<and> n < t0 + 3000000000" if "(k, n) \<in> set anns" for k n
    using that by (intro Cons.prems(4) [of k]) simp
  ultimately have "best_so_far ((ms @ [m]) @ map fst anns)
      (fold (\<lambda>(m, now). ptp_announce_step m now) anns (ptp_announce_step m now st))"
    by (intro Cons.IH) blast+
  then show ?case by (simp add: a)
qed

text \<open>C38: Of the masters that announce themselves within three seconds, each with a constant rank, the
  client follows one with the smallest rank (priority, class, accuracy, variance, second
  priority, identity, distance, port), whatever the order of arrival.\<close>

theorem ptp_follows_best_master:
  assumes "pt_master st = None" "anns \<noteq> []"
    and "\<forall>a \<in> set anns. \<forall>b \<in> set anns.
      pm_source (fst a) = pm_source (fst b) \<longrightarrow> announceRank (fst a) = announceRank (fst b)"
    and "\<forall>a \<in> set anns. t0 < snd a \<and> snd a < t0 + 3000000000"
  shows "\<exists>best \<in> set anns. (\<forall>a \<in> set anns. announceRank (fst best) \<le> announceRank (fst a))
    \<and> pt_master (fold (\<lambda>(m, now). ptp_announce_step m now) anns st) = Some (pm_source (fst best))"
proof -
  obtain m now rest where anns: "anns = (m, now) # rest" using assms(2) by (cases anns) auto
  have "best_so_far [m] (ptp_announce_step m now st)"
    using assms(1) by (simp add: best_so_far_def ptp_announce_step_def)
  moreover have "pt_lastAnnounce (ptp_announce_step m now st) = now"
    using assms(1) by (simp add: ptp_announce_step_def Let_def)
  moreover have "t0 < now" using assms(4) by (simp add: anns)
  ultimately have "best_so_far ([m] @ map fst rest)
      (fold (\<lambda>(m, now). ptp_announce_step m now) rest (ptp_announce_step m now st))"
    using assms(3,4) by (intro best_fold) (auto simp: anns)
  then show ?thesis by (auto simp: best_so_far_def anns)
qed

theorem ptp_follows_best_master_witness:
  "pt_master (fold (\<lambda>(m, now). ptp_announce_step m now)
     [(software_announce sample_identity 1 0, 5), ((software_announce slave_identity 1 0)\<lparr>pm_grandmasterPriority1 := 1\<rparr>, 9)]
     stopped_client) = Some slave_identity"
proof -
  let ?a = "software_announce sample_identity 1 0"
  let ?b = "(software_announce slave_identity 1 0)\<lparr>pm_grandmasterPriority1 := 1\<rparr>"
  have src: "pm_source ?a = sample_identity" "pm_source ?b = slave_identity" "sample_identity \<noteq> slave_identity"
    by (simp_all add: software_announce_def header_message_def sample_identity_def slave_identity_def)
  have "announceRank ?b < announceRank ?a"
    by (simp add: announceRank_def less_announce_rank_def software_announce_def)
  then have "\<not> announceRank ?a \<le> announceRank ?b" by simp
  with ptp_follows_best_master [of stopped_client "[(?a, 5), (?b, 9)]" 0] src show ?thesis
    by (auto simp: stopped_client_def)
qed

section \<open>The offset filter\<close>

lemma cdiv8_between: "0 \<le> d \<Longrightarrow> 0 \<le> cdiv d 8 \<and> cdiv d 8 \<le> d" "d \<le> 0 \<Longrightarrow> d \<le> cdiv d 8 \<and> cdiv d 8 \<le> 0"
proof -
  show "0 \<le> cdiv d 8 \<and> cdiv d 8 \<le> d" if "0 \<le> d" for d :: int
    using that by (simp add: cdiv_nonneg) presburger
  from this [of "- d"] show "d \<le> 0 \<Longrightarrow> d \<le> cdiv d 8 \<and> cdiv d 8 \<le> 0"
    by (simp add: cdiv_minus)
qed

text \<open>An offset sample within 2 ms of the filter moves the published offset an eighth of the way
  towards it, never past it and never out of the 64-bit range; any other sample restarts the
  filter and drops the lock.\<close>

theorem ptp_filter_step:
  assumes "pt_filteredOffset st = Some old" "in_int64 old" "in_int64 (me_offsetNanoseconds me)"
    and "0 \<le> me_meanPathDelayNanoseconds me" "me_meanPathDelayNanoseconds me \<le> 20000000"
    and "in_int64 (me_offsetNanoseconds me - old)" "me_offsetNanoseconds me - old \<noteq> int64_min"
  shows "\<exists>st' f. ptp_measurement_step (Some me) now st = Some st' \<and> pt_filteredOffset st' = Some f
    \<and> pt_ptpOffsetNanoseconds st' = f \<and> in_int64 f
    \<and> min old (me_offsetNanoseconds me) \<le> f \<and> f \<le> max old (me_offsetNanoseconds me)
    \<and> (if \<bar>me_offsetNanoseconds me - old\<bar> \<le> 2000000
       then f = old + cdiv (me_offsetNanoseconds me - old) 8
         \<and> pt_stableMeasurements st' = pt_stableMeasurements st + 1
       else f = me_offsetNanoseconds me \<and> pt_stableMeasurements st' = 1 \<and> \<not> pt_ptpLocked st')"
proof -
  let ?d = "me_offsetNanoseconds me - old"
  have mag: "chk64 ?d = Some ?d" "chk64 \<bar>?d\<bar> = Some \<bar>?d\<bar>"
    using assms(6,7) by (auto simp: chk64_def in_int64_def int64_min_def int64_max_def)
  have between: "min old (me_offsetNanoseconds me) \<le> old + cdiv ?d 8" "old + cdiv ?d 8 \<le> max old (me_offsetNanoseconds me)"
    using cdiv8_between [of ?d] by (cases "0 \<le> ?d"; auto simp: min_def max_def)+
  then have f64: "in_int64 (old + cdiv ?d 8)"
    using assms(2,3) by (auto simp: in_int64_def min_def max_def split: if_splits)
  then have "chk64 (old + cdiv ?d 8) = Some (old + cdiv ?d 8)" by (simp add: chk64_def)
  moreover have "\<not> (4 :: u32) \<le> 1" by (simp add: word_le_nat_alt)
  ultimately show ?thesis
    using assms mag between f64 by (auto simp: ptp_measurement_step_def Let_def)
qed

theorem ptp_filter_step_witness:
  "\<exists>st' f. ptp_measurement_step (Some \<lparr> me_offsetNanoseconds = 900, me_meanPathDelayNanoseconds = 10 \<rparr>) 7
     (stopped_client\<lparr>pt_filteredOffset := Some 100\<rparr>) = Some st' \<and> pt_filteredOffset st' = Some f \<and> f = 200"
  using ptp_filter_step [of "stopped_client\<lparr>pt_filteredOffset := Some 100\<rparr>" 100
      "\<lparr> me_offsetNanoseconds = 900, me_meanPathDelayNanoseconds = 10 \<rparr>" 7]
  by (auto simp: in_int64_def int64_min_def int64_max_def cdiv_def)

section \<open>Follow-ups\<close>

text \<open>A follow-up is not consumed: a second copy of it (UDP may duplicate datagrams) adds its
  correction to the sync sample again, so the next measurement is computed with twice the
  correction, or with a signed overflow if the corrections are large enough.\<close>

theorem ptp_duplicate_follow_up:
  assumes "pt_master st = Some (pm_source m)" "pt_sync st = Some sample" "pm_type m = Follow_up"
    "pm_timestampNanoseconds m = Some t" "ss_source sample = pm_source m" "ss_sequence sample = pm_sequence m"
  shows "Option.bind (ptp_message_step cfg m i1 n1 st) (ptp_message_step cfg m i2 n2) =
    (let c = ss_correctionScaledNanoseconds sample; a = pm_correctionScaledNanoseconds m
     in if in_int64 (c + a) \<and> in_int64 (c + 2 * a)
        then Some (st\<lparr>pt_sync := Some (sample\<lparr>ss_originNanoseconds := Some t,
          ss_correctionScaledNanoseconds := c + 2 * a\<rparr>)\<rparr>)
        else None)"
  using assms by (simp add: ptp_message_step_def chk64_def Let_def ac_simps)

definition sample_follow_up :: ptp_message where
  "sample_follow_up = (header_message Follow_up sample_identity 9 0 False 65536)\<lparr>pm_timestampNanoseconds := Some 5\<rparr>"

definition waiting_sample :: sync_sample where
  "waiting_sample = \<lparr> ss_source = sample_identity, ss_sequence = 9, ss_ingressNanoseconds = 0,
     ss_originNanoseconds = None, ss_correctionScaledNanoseconds = 0, ss_receivedAt = 0 \<rparr>"

theorem ptp_duplicate_follow_up_witness:
  "Option.bind (ptp_message_step lock_config sample_follow_up 0 0
       (stopped_client\<lparr>pt_master := Some sample_identity, pt_sync := Some waiting_sample\<rparr>))
     (ptp_message_step lock_config sample_follow_up 0 0)
   = Some (stopped_client\<lparr>pt_master := Some sample_identity, pt_sync := Some (waiting_sample
       \<lparr>ss_originNanoseconds := Some 5, ss_correctionScaledNanoseconds := 131072\<rparr>)\<rparr>)"
  using ptp_duplicate_follow_up [of "stopped_client\<lparr>pt_master := Some sample_identity, pt_sync := Some waiting_sample\<rparr>"
      sample_follow_up waiting_sample 5 lock_config 0 0 0 0]
  by (simp add: sample_follow_up_def waiting_sample_def header_message_def
      in_int64_def int64_min_def int64_max_def)

section \<open>The client's identity\<close>

lemma identityFromAddress_shape:
  "length (pid_clock (identityFromAddress a)) = 8 \<and> pid_port (identityFromAddress a) = 1
   \<and> \<not> bit (pid_clock (identityFromAddress a) ! 0) 0 \<and> bit (pid_clock (identityFromAddress a) ! 0) 1"
proof -
  have "\<not> bit ((x OR 0x02) AND 0xfe :: u8) 0" "bit ((x OR 0x02) AND 0xfe :: u8) 1" for x
    by (simp_all add: bit_simps bit_numeral_rec)
  then show ?thesis by (simp add: identityFromAddress_def Let_def)
qed

end
