(* ===== verification/PTP_Thread.thy ===== *)
theory PTP_Thread
  imports PTP_Client Engine_State
begin

text \<open>
  The thread of Sources/Engine/PTPClient.cpp on the shared block: \<open>PTPClient::loop\<close> with its control point,
  reading and writing the block's PTP fields, and the range of what it publishes there. The steps
  themselves are those of PTP_Client.
\<close>

section \<open>The thread\<close>

text \<open>The client's fields that live in the block: loaded before a step, stored after it. No other thread
  writes them while this one runs.\<close>

definition ptp_loaded :: "shared_block \<Rightarrow> ptp_client \<Rightarrow> ptp_client" where
  "ptp_loaded b st = st\<lparr>pt_ptpLocked := bk_ptpLocked b,
     pt_ptpOffsetNanoseconds := st_ptpOffsetNanoseconds (bk_statistics b),
     pt_ptpMeanPathDelayNanoseconds := st_ptpMeanPathDelayNanoseconds (bk_statistics b),
     pt_ptpMessages := st_ptpMessages (bk_statistics b), pt_ptpErrors := st_ptpErrors (bk_statistics b)\<rparr>"

definition ptp_stored :: "ptp_client \<Rightarrow> shared_block \<Rightarrow> shared_block" where
  "ptp_stored st b = b\<lparr>bk_ptpLocked := pt_ptpLocked st, bk_statistics := (bk_statistics b)
     \<lparr>st_ptpOffsetNanoseconds := pt_ptpOffsetNanoseconds st,
      st_ptpMeanPathDelayNanoseconds := pt_ptpMeanPathDelayNanoseconds st,
      st_ptpMessages := pt_ptpMessages st, st_ptpErrors := pt_ptpErrors st\<rparr>\<rparr>"

text \<open>The configuration that \<open>LiveEngine::start\<close> and \<open>PTPClient::start\<close> give the client.\<close>

definition engine_ptp_config :: "live_engine_config \<Rightarrow> ptp_config" where
  "engine_ptp_config c = \<lparr> pc_domain = kPTPDomain, pc_localIdentity = identityFromAddress (lc_interfaceAddress c) \<rparr>"

datatype ptp_pc = Ptp_open | Ptp_listen | Ptp_ended

definition ptp_thread ::
    "ptp_config \<Rightarrow> bool \<Rightarrow> bool \<Rightarrow> int \<Rightarrow> ptp_inputs \<Rightarrow> shared_block \<Rightarrow> ptp_pc \<times> ptp_client
      \<Rightarrow> (shared_block \<times> ptp_pc \<times> ptp_client) option" where
  "ptp_thread cfg running opened now inputs b t = (case t of (pc, st) \<Rightarrow>
     (let publish = (\<lambda>pc' st'. (ptp_stored st' b, pc', st')); client = ptp_loaded b st
      in case pc of
        Ptp_open \<Rightarrow> Some (if opened then publish Ptp_listen (ptp_loop_entry now client)
          else publish Ptp_ended (ptp_error_counted client))
      | Ptp_listen \<Rightarrow>
          if \<not> running then Some (publish Ptp_ended (ptp_clear_measurement client))
          else map_option (publish Ptp_listen) (ptp_iteration cfg inputs client)
      | Ptp_ended \<Rightarrow> Some (b, Ptp_ended, st)))"

section \<open>The range of the published offset\<close>

definition offset_limit :: int where "offset_limit = 2 ^ 62"

definition offset_bounded :: "ptp_client \<Rightarrow> bool" where
  "offset_bounded st \<longleftrightarrow> \<bar>pt_ptpOffsetNanoseconds st\<bar> \<le> offset_limit
     \<and> (\<forall>f. pt_filteredOffset st = Some f \<longrightarrow> \<bar>f\<bar> \<le> offset_limit)"

lemma calculateE2E_offset:
  "calculateE2E a b c d e f = Some (Some me) \<Longrightarrow> \<bar>me_offsetNanoseconds me\<bar> \<le> offset_limit"
  by (auto simp: calculateE2E_def Let_def bind_Some_iff chk64_def in_int64_def int64_min_def int64_max_def offset_limit_def
      cdiv_abs split: if_splits)

text \<open>The filter's step lands between the old value and the sample.\<close>

lemma filter_bounded:
  assumes "\<bar>old\<bar> \<le> limit" "\<bar>sample\<bar> \<le> limit"
  shows "\<bar>old + cdiv (sample - old) 8\<bar> \<le> limit"
proof (cases "old \<le> sample")
  case True
  then have "0 \<le> cdiv (sample - old) 8" "cdiv (sample - old) 8 \<le> sample - old"
    using cdiv8_between(1) [of "sample - old"] by simp_all
  with assms show ?thesis by linarith
next
  case False
  then have "sample - old \<le> cdiv (sample - old) 8" "cdiv (sample - old) 8 \<le> 0"
    using cdiv8_between(2) [of "sample - old"] by simp_all
  with assms show ?thesis by linarith
qed

lemma clear_bounded: "offset_bounded st \<Longrightarrow> offset_bounded (ptp_clear_measurement st)"
  by (simp add: offset_bounded_def ptp_clear_measurement_def offset_limit_def)

lemma measurement_bounded:
  assumes "offset_bounded st" "ptp_measurement_step measurement now st = Some st'"
    and "\<And>me. measurement = Some me \<Longrightarrow> \<bar>me_offsetNanoseconds me\<bar> \<le> offset_limit"
  shows "offset_bounded st'"
proof (cases "measurement = None \<or> me_meanPathDelayNanoseconds (the measurement) > 20000000")
  case True
  with assms(1,2) clear_bounded [of "st\<lparr>pt_stableMeasurements := 0\<rparr>"] show ?thesis
    by (auto simp: ptp_measurement_rejected offset_bounded_def split: if_splits)
next
  case False
  then obtain me where me: "measurement = Some me" "me_meanPathDelayNanoseconds me \<le> 20000000"
    by (cases measurement) auto
  note sample = assms(3) [OF me(1)]
  show ?thesis
  proof (cases "pt_filteredOffset st")
    case None
    with me sample assms(2) show ?thesis
      by (auto simp: ptp_measurement_step_def Let_def offset_bounded_def)
  next
    case (Some old)
    with assms(1) have "\<bar>old\<bar> \<le> offset_limit" by (simp add: offset_bounded_def)
    with me sample Some assms(2) filter_bounded [of old offset_limit "me_offsetNanoseconds me"] show ?thesis
      by (auto simp: ptp_measurement_step_def Let_def offset_bounded_def bind_Some_iff chk64_def split: if_splits)
  qed
qed

lemma message_bounded:
  assumes "offset_bounded st" "ptp_message_step cfg m ingress now st = Some st'"
  shows "offset_bounded st'"
proof -
  have response: "offset_bounded st'" if "ptp_response_step cfg m now st = Some st'"
    using that
  proof (cases rule: ptp_response_step_cases)
    case (2 sample q origin receipt measurement)
    have "offset_bounded (st\<lparr>pt_pendingDelaySequence := None\<rparr>)" using assms(1) by (simp add: offset_bounded_def)
    then show ?thesis
    proof (rule measurement_bounded [OF _ 2(4)])
      show "\<bar>me_offsetNanoseconds me\<bar> \<le> offset_limit" if "measurement = Some me" for me
        using 2(3) that calculateE2E_offset by simp
    qed
  qed (use assms(1) in simp)
  have "ptp_response_step cfg m now st = Some st'
      \<or> pt_ptpOffsetNanoseconds st' = pt_ptpOffsetNanoseconds st \<and> pt_filteredOffset st' = pt_filteredOffset st"
    using assms(2)
    by (auto simp: ptp_message_step_def ptp_announce_step_def Let_def bind_Some_iff split: if_splits option.splits)
  with response assms(1) show ?thesis by (auto simp: offset_bounded_def)
qed

lemma receive_bounded:
  assumes "offset_bounded st" "ptp_receive_step cfg r ingress now st = Some st'"
  shows "offset_bounded st'"
proof (cases r)
  case (Datagram bs)
  with assms(2) have "ptp_process cfg bs ingress now st = Some st'" by (simp add: ptp_receive_step_def)
  then show ?thesis
  proof (cases rule: ptp_process_cases)
    case (3 m n)
    have "offset_bounded (st\<lparr>pt_ptpMessages := n\<rparr>)" using assms(1) by (simp add: offset_bounded_def)
    from message_bounded [OF this 3] show ?thesis .
  qed (use assms(1) in \<open>simp_all add: offset_bounded_def ptp_error_counted_def\<close>)
qed (use assms in \<open>auto simp: ptp_receive_step_def offset_bounded_def ptp_error_counted_def\<close>)

lemma iteration_bounded:
  assumes "offset_bounded st" "ptp_iteration cfg i st = Some st'"
  shows "offset_bounded st'"
proof -
  obtain st1 st2 where
    r1: "ptp_receive_step cfg (pin_event i) (pin_eventIngress i) (pin_eventNow i) st = Some st1" and
    r2: "ptp_receive_step cfg (pin_general i) (pin_generalIngress i) (pin_generalNow i) st1 = Some st2" and
    st': "st' = ptp_timeout_step (pin_now i) (fst (ptp_request_step cfg (pin_now i) (pin_wallNow i) (pin_sent i) st2))"
    using assms(2) by (auto simp: ptp_iteration_def bind_Some_iff)
  have "offset_bounded st2" by (rule receive_bounded [OF receive_bounded [OF assms(1) r1] r2])
  then have "offset_bounded (fst (ptp_request_step cfg (pin_now i) (pin_wallNow i) (pin_sent i) st2))"
    by (auto simp: ptp_request_step_def offset_bounded_def ptp_error_counted_def Let_def split: option.splits)
  then show ?thesis unfolding st'
    by (auto simp: ptp_timeout_step_def offset_bounded_def ptp_clear_measurement_def offset_limit_def)
qed

section \<open>What the thread publishes\<close>

text \<open>The part of the block that the thread's invariant speaks about: only this thread changes it.\<close>

definition ptp_view :: "shared_block \<Rightarrow> bool \<times> int \<times> int" where
  "ptp_view b = (bk_ptpLocked b, st_ptpOffsetNanoseconds (bk_statistics b), st_ptpMeanPathDelayNanoseconds (bk_statistics b))"

definition ptp_ok :: "shared_block \<Rightarrow> ptp_pc \<times> ptp_client \<Rightarrow> bool" where
  "ptp_ok b t \<longleftrightarrow> (if fst t = Ptp_listen
     then ptp_inv (ptp_loaded b (snd t)) \<and> offset_bounded (ptp_loaded b (snd t))
     else \<not> bk_ptpLocked b \<and> st_ptpOffsetNanoseconds (bk_statistics b) = 0)"

lemma ptp_ok_offset: "ptp_ok b t \<Longrightarrow> \<bar>st_ptpOffsetNanoseconds (bk_statistics b)\<bar> \<le> offset_limit"
  by (auto simp: ptp_ok_def offset_bounded_def ptp_loaded_def offset_limit_def split: if_splits)

lemma ptp_ok_lock:
  "ptp_ok b (pc, st) \<Longrightarrow> bk_ptpLocked b \<Longrightarrow> pc = Ptp_listen \<and> 4 \<le> pt_stableMeasurements st
    \<and> pt_filteredOffset st = Some (st_ptpOffsetNanoseconds (bk_statistics b))"
  by (auto simp: ptp_ok_def ptp_inv_def ptp_loaded_def split: if_splits)

lemma ptp_ok_view: "ptp_view b' = ptp_view b \<Longrightarrow> ptp_ok b' t = ptp_ok b t"
  by (simp add: ptp_view_def ptp_ok_def ptp_inv_def offset_bounded_def ptp_loaded_def)

lemma ptp_loaded_stored: "ptp_loaded (ptp_stored st b) st = st"
  by (simp add: ptp_loaded_def ptp_stored_def)

lemma ptp_thread_effect:
  assumes "ptp_ok b t" "ptp_clocks_ok inputs" "ptp_thread cfg running opened now inputs b t = Some (b', pc', st')"
  shows "ptp_ok b' (pc', st') \<and> (b' = b \<or> b' = ptp_stored st' b)
    \<and> (\<not> running \<longrightarrow> fst t \<noteq> Ptp_open \<longrightarrow> pc' = Ptp_ended)"
proof -
  obtain pc st where t: "t = (pc, st)" by fastforce
  show ?thesis
  proof (cases pc)
    case Ptp_open
    have "\<not> pt_ptpLocked (ptp_loaded b st)" "pt_ptpOffsetNanoseconds (ptp_loaded b st) = 0"
      using assms(1) t Ptp_open by (simp_all add: ptp_ok_def ptp_loaded_def)
    moreover from this have "ptp_inv (ptp_loop_entry now (ptp_loaded b st))" "offset_bounded (ptp_loop_entry now (ptp_loaded b st))"
      by (simp_all add: ptp_loop_entry_inv(1)) (simp add: offset_bounded_def ptp_loop_entry_def offset_limit_def)
    moreover have "if opened then b' = ptp_stored st' b \<and> pc' = Ptp_listen \<and> st' = ptp_loop_entry now (ptp_loaded b st)
        else b' = ptp_stored st' b \<and> pc' = Ptp_ended \<and> st' = ptp_error_counted (ptp_loaded b st)"
      using assms(3) t Ptp_open by (auto simp: ptp_thread_def Let_def split: if_splits)
    ultimately show ?thesis using t Ptp_open
      by (cases opened) (simp_all add: ptp_ok_def ptp_loaded_stored, simp add: ptp_stored_def ptp_error_counted_def)
  next
    case Ptp_ended
    then show ?thesis using assms(1,3) t by (auto simp: ptp_thread_def Let_def)
  next
    case Ptp_listen
    with assms(1) t have ok: "ptp_inv (ptp_loaded b st)" "offset_bounded (ptp_loaded b st)" by (simp_all add: ptp_ok_def)
    show ?thesis
    proof (cases running)
      case True
      with assms(3) t Ptp_listen have it: "ptp_iteration cfg inputs (ptp_loaded b st) = Some st'" "pc' = Ptp_listen"
        "b' = ptp_stored st' b" by (auto simp: ptp_thread_def Let_def)
      have "ptp_inv st'" using ptp_iteration_inv [OF ok(1) assms(2) it(1)] by blast
      moreover have "offset_bounded st'" by (rule iteration_bounded [OF ok(2) it(1)])
      ultimately show ?thesis using it(2,3) True by (simp add: ptp_ok_def ptp_loaded_stored)
    next
      case False
      with assms(3) t Ptp_listen show ?thesis
        by (auto simp: ptp_thread_def Let_def ptp_ok_def ptp_stored_def ptp_clear_measurement_def)
    qed
  qed
qed

end
