(* ===== verification/Engine_Threads.thy ===== *)
theory Engine_Threads
  imports Engine_Options Driver_IO PTP_Thread
begin

text \<open>
  The threads of a running engine together: the loops of \<open>receiveLoop\<close>, \<open>consumeLoop\<close>, \<open>transmitLoop\<close> and
  \<open>sapDiscoveryLoop\<close> of Sources/Engine/LiveEngine.cpp around the iterations of the other theories, each
  with its control point, in any order with one another, with the PTP client's thread, with the driver's
  handlers and with requests to stop. A step of a thread runs from one test of \<open>running_\<close> to the next and
  is taken as a whole (finer: Ring_Interleaving, Jitter_Interleaving, Directory_Seqlock; a stop while they run:
  Engine_Stop). The outer \<open>option\<close> is undefined behaviour.
\<close>

section \<open>The loops\<close>

text \<open>Where a thread tests \<open>running_\<close> next: before opening its socket, inside its inner loop, or nowhere.\<close>

datatype rx_pc = Rx_open | Rx_listen | Rx_ended

definition receive_thread ::
    "nat \<Rightarrow> bool \<Rightarrow> int \<Rightarrow> reception \<Rightarrow> live_engine \<Rightarrow> rx_pc \<times> receive_state
      \<Rightarrow> (live_engine \<times> rx_pc \<times> receive_state) option" where
  "receive_thread bank opened now received e t = (case t of (pc, l) \<Rightarrow>
     (case pc of
        Rx_open \<Rightarrow>
          if \<not> en_running e then Some (e, Rx_ended, l)
          else if \<not> opened then (case receive_open_failed bank e l of (_, e', l') \<Rightarrow> Some (e', Rx_open, l'))
          else (case receive_opened bank e l of (e', l') \<Rightarrow> Some (e', Rx_listen, l'))
      | Rx_listen \<Rightarrow>
          if \<not> en_running e then (case receive_closed bank e l of (_, e', l') \<Rightarrow> Some (e', Rx_open, l'))
          else (case received of
              Timed_out \<Rightarrow> Some (receive_timeout bank now e l, Rx_listen, l)
            | Failed \<Rightarrow> (case receive_closed bank e l of (_, e', l') \<Rightarrow> Some (e', Rx_open, l'))
            | Received bs \<Rightarrow> map_option (\<lambda>(e', l'). (e', Rx_listen, l')) (receive_datagram bank now bs e l))
      | Rx_ended \<Rightarrow> Some (e, Rx_ended, l)))"

text \<open>The consuming thread's state: whether it is in its loop, and the deadline \<open>next\<close>.\<close>

definition consume_thread ::
    "nat \<Rightarrow> int \<Rightarrow> int \<Rightarrow> live_engine \<Rightarrow> bool \<times> int \<Rightarrow> (live_engine \<times> bool \<times> int) option" where
  "consume_thread bank now now2 e t = (case t of (going, deadline) \<Rightarrow>
     if \<not> going \<or> \<not> en_running e then Some (e, False, deadline)
     else map_option (\<lambda>e'. (e', True, consume_next (en_consumeEpoch e) now now2 deadline))
            (consume_iteration bank (consume_reset bank e)))"

text \<open>The transmitting thread also waits until every stream has joined the epoch; a stop during this wait
  leaves the function without the \<open>setTxActive(false)\<close> of the other ways out. The first component of the
  result is what was handed to the socket.\<close>

datatype tx_pc = Tx_open | Tx_wait | Tx_send | Tx_ended

definition transmit_thread ::
    "int \<Rightarrow> nat \<Rightarrow> bool \<Rightarrow> int \<Rightarrow> int \<Rightarrow> int \<Rightarrow> bool \<Rightarrow> live_engine \<Rightarrow> tx_pc \<times> transmit_state
      \<Rightarrow> (bytes \<times> live_engine \<times> tx_pc \<times> transmit_state) option" where
  "transmit_thread z bank opened now now2 systemNow sent e t = (case t of (pc, l) \<Rightarrow>
     (case pc of
        Tx_open \<Rightarrow>
          if \<not> en_running e then Some ([], e, Tx_ended, l)
          else if \<not> opened then (case transmit_open_failed bank e l of (_, e', l') \<Rightarrow> Some ([], e', Tx_open, l'))
          else (case transmit_opened bank now systemNow e l of (e', l') \<Rightarrow> Some ([], e', Tx_wait, l'))
      | Tx_wait \<Rightarrow>
          if en_running e \<and> \<not> en_transmitEpochReady e then Some ([], e, Tx_wait, l)
          else if \<not> en_running e then Some ([], e, Tx_ended, l)
          else Some ([], e, Tx_send, l\<lparr>tx_next := nextDeadline (en_transmitEpoch e) now\<rparr>)
      | Tx_send \<Rightarrow>
          if \<not> en_running e then (case transmit_closed bank e l of (_, e', l') \<Rightarrow> Some ([], e', Tx_open, l'))
          else (case transmit_iteration z bank now now2 sent e l of
              None \<Rightarrow> None
            | Some (goes_on, wire, e1, l1) \<Rightarrow>
                if goes_on then Some (wire, e1, Tx_send, l1)
                else (case transmit_closed bank e1 l1 of (_, e', l') \<Rightarrow> Some (wire, e', Tx_open, l')))
      | Tx_ended \<Rightarrow> Some ([], e, Tx_ended, l)))"

datatype sap_pc = Sap_open | Sap_listen | Sap_ended

definition discovery_thread ::
    "bool \<Rightarrow> u64 \<Rightarrow> reception \<Rightarrow> live_engine \<Rightarrow> sap_pc \<times> reconnect_policy
      \<Rightarrow> (live_engine \<times> sap_pc \<times> reconnect_policy) option" where
  "discovery_thread opened now received e t = (case t of (pc, reconnect) \<Rightarrow>
     (let closed = (\<lambda>b. case discovery_closed (en_running e) reconnect b of
            (_, reconnect', b') \<Rightarrow> (e\<lparr>en_block := b'\<rparr>, Sap_open, reconnect'))
      in case pc of
        Sap_open \<Rightarrow>
          if \<not> en_running e then Some (e, Sap_ended, reconnect)
          else (case discovery_open opened reconnect (en_block e) of
            (_, reconnect', b') \<Rightarrow> Some (e\<lparr>en_block := b'\<rparr>, if opened then Sap_listen else Sap_open, reconnect'))
      | Sap_listen \<Rightarrow>
          if \<not> en_running e then Some (closed (en_block e))
          else (case discovery_iteration (en_config e) now received (en_block e) of
              None \<Rightarrow> None
            | Some (goes_on, b) \<Rightarrow>
                Some (if goes_on then (e\<lparr>en_block := b\<rparr>, Sap_listen, reconnect) else closed b))
      | Sap_ended \<Rightarrow> Some (e, Sap_ended, reconnect)))"

section \<open>The engine with its threads\<close>

record engine_threads =
  et_engine :: live_engine
  et_receive :: "nat \<Rightarrow> rx_pc \<times> receive_state"
  et_consume :: "nat \<Rightarrow> bool \<times> int"
  et_transmit :: "nat \<Rightarrow> tx_pc \<times> transmit_state"
  et_discovery :: "sap_pc \<times> reconnect_policy"
  et_ptpRunning :: bool
  et_ptp :: "ptp_pc \<times> ptp_client"
  et_sent :: "(nat \<times> bytes) list"

text \<open>The client's locals before its loop sets them.\<close>

definition new_ptp_client :: ptp_client where
  "new_ptp_client = \<lparr> pt_master = None, pt_masterRank = None, pt_lastAnnounce = 0, pt_lastSync = 0, pt_sync = None,
     pt_delaySequence = 0, pt_pendingDelaySequence = None, pt_pendingDelayEgress = 0, pt_nextDelayRequest = 0,
     pt_filteredOffset = None, pt_stableMeasurements = 0, pt_lastValidMeasurement = 0, pt_ptpLocked = False,
     pt_ptpOffsetNanoseconds = 0, pt_ptpMeanPathDelayNanoseconds = 0, pt_ptpMessages = 0, pt_ptpErrors = 0 \<rparr>"

definition threads_of :: "live_engine \<Rightarrow> engine_threads" where
  "threads_of e = \<lparr> et_engine = e, et_receive = (\<lambda>_. (Rx_open, new_receive)),
     et_consume = (\<lambda>_. (True, en_consumeEpoch e)),
     et_transmit = (\<lambda>bank. (Tx_open, new_transmit (en_config e) bank)),
     et_discovery = (Sap_open, new_reconnect), et_ptpRunning = True,
     et_ptp = (Ptp_open, ptp_loaded (en_block e) new_ptp_client), et_sent = [] \<rparr>"

text \<open>A turn of one of the threads with what the system answers during it, a call of one of the driver's
  handlers, or the \<open>running_.exchange(false)\<close> of the engine or of its PTP client.\<close>

datatype thread_event =
    Receive_turn nat bool int reception
  | Consume_turn nat int int
  | Transmit_turn nat bool int int int bool
  | Discovery_turn bool u64 reception
  | Driver_records "f32 list" nat
  | Driver_plays "f32 list" nat
  | Ptp_turn bool int ptp_inputs
  | Stop_requested
  | Ptp_stop_requested

fun event_step :: "int \<Rightarrow> thread_event \<Rightarrow> engine_threads \<Rightarrow> engine_threads option" where
  "event_step z (Receive_turn bank opened now received) s =
     map_option (\<lambda>(e, t). s\<lparr>et_engine := e, et_receive := (et_receive s)(bank := t)\<rparr>)
       (receive_thread bank opened now received (et_engine s) (et_receive s bank))"
| "event_step z (Consume_turn bank now now2) s =
     map_option (\<lambda>(e, t). s\<lparr>et_engine := e, et_consume := (et_consume s)(bank := t)\<rparr>)
       (consume_thread bank now now2 (et_engine s) (et_consume s bank))"
| "event_step z (Transmit_turn bank opened now now2 systemNow sent) s =
     map_option (\<lambda>(wire, e, t). s\<lparr>et_engine := e, et_transmit := (et_transmit s)(bank := t),
         et_sent := et_sent s @ (if wire = [] then [] else [(bank, wire)])\<rparr>)
       (transmit_thread z bank opened now now2 systemNow sent (et_engine s) (et_transmit s bank))"
| "event_step z (Discovery_turn opened now received) s =
     map_option (\<lambda>(e, t). s\<lparr>et_engine := e, et_discovery := t\<rparr>)
       (discovery_thread opened now received (et_engine s) (et_discovery s))"
| "event_step z (Driver_records out bytesCount) s =
     (case on_read_client_input (Some (en_block (et_engine s))) (Some out) bytesCount of
        Some (_, Some b) \<Rightarrow> Some (s\<lparr>et_engine := (et_engine s)\<lparr>en_block := b\<rparr>\<rparr>) | _ \<Rightarrow> None)"
| "event_step z (Driver_plays frames bytesCount) s =
     (case on_write_mixed_output (Some (en_block (et_engine s))) (Some frames) bytesCount of
        Some (Some b) \<Rightarrow> Some (s\<lparr>et_engine := (et_engine s)\<lparr>en_block := b\<rparr>\<rparr>) | _ \<Rightarrow> None)"
| "event_step z (Ptp_turn opened now inputs) s =
     map_option (\<lambda>(b, t). s\<lparr>et_engine := (et_engine s)\<lparr>en_block := b\<rparr>, et_ptp := t\<rparr>)
       (ptp_thread (engine_ptp_config (en_config (et_engine s))) (et_ptpRunning s) opened now inputs
         (en_block (et_engine s)) (et_ptp s))"
| "event_step z Stop_requested s = Some (s\<lparr>et_engine := (et_engine s)\<lparr>en_running := False\<rparr>\<rparr>)"
| "event_step z Ptp_stop_requested s = Some (s\<lparr>et_ptpRunning := False\<rparr>)"

text \<open>What the system guarantees of its answers: the clocks do not run backwards within a turn, are not
  negative and stay in range (18 years of uptime, the year 2079), \<open>sleep_until\<close> does not return before its
  deadline, and Core Audio's buffers hold the bytes it says. The PTP client's own arithmetic is taken to be
  defined; which datagrams make it overflow is the subject of PTP_Codec and PTP_Client.\<close>

definition steady_limit :: int where "steady_limit = 2 ^ 59"
definition system_limit :: int where "system_limit = 3 * 2 ^ 60"

fun event_ok :: "engine_threads \<Rightarrow> thread_event \<Rightarrow> bool" where
  "event_ok s (Receive_turn bank opened now received) \<longleftrightarrow> bank < length (en_streams (et_engine s))"
| "event_ok s (Consume_turn bank now now2) \<longleftrightarrow> bank < length (en_streams (et_engine s))"
| "event_ok s (Transmit_turn bank opened now now2 systemNow sent) \<longleftrightarrow> bank < length (en_streams (et_engine s))
     \<and> 0 \<le> now \<and> now \<le> now2 \<and> now2 \<le> steady_limit \<and> 0 \<le> systemNow \<and> systemNow \<le> system_limit
     \<and> (fst (et_transmit s bank) = Tx_send \<longrightarrow> tx_next (snd (et_transmit s bank)) \<le> now)"
| "event_ok s (Discovery_turn opened now received) \<longleftrightarrow> True"
| "event_ok s (Driver_records out bytesCount) \<longleftrightarrow> length out = bytesCount div 4"
| "event_ok s (Driver_plays frames bytesCount) \<longleftrightarrow> length frames = bytesCount div 4"
| "event_ok s (Ptp_turn opened now inputs) \<longleftrightarrow> ptp_clocks_ok inputs \<and> ptp_iteration
     (engine_ptp_config (en_config (et_engine s))) inputs (ptp_loaded (en_block (et_engine s)) (snd (et_ptp s))) \<noteq> None"
| "event_ok s Stop_requested \<longleftrightarrow> True"
| "event_ok s Ptp_stop_requested \<longleftrightarrow> True"

inductive thread_trace :: "int \<Rightarrow> engine_threads \<Rightarrow> thread_event list \<Rightarrow> engine_threads \<Rightarrow> bool" for z where
  trace_nil: "thread_trace z s [] s"
| trace_step: "event_ok s event \<Longrightarrow> event_step z event s = Some s1 \<Longrightarrow> thread_trace z s1 events s2
    \<Longrightarrow> thread_trace z s (event # events) s2"

inductive_simps trace_simps: "thread_trace z s [] s'" "thread_trace z s (event # events) s'"

section \<open>What the threads leave alone\<close>

lemma field_update_same: "f y = f (xs ! i) \<Longrightarrow> f (xs[i := y] ! j) = f (xs ! j)"
  by (cases "i < length xs"; cases "j = i") (simp_all add: list_update_beyond)

lemma map_update_same: "f y = f (xs ! i) \<Longrightarrow> map f (xs[i := y]) = map f xs"
  by (rule nth_equalityI) (simp_all add: field_update_same)

text \<open>Everything of an engine that the invariants beside \<open>engine_wf\<close> speak about, apart from the activity
  of its streams.\<close>

definition shared_view where
  "shared_view e = (en_config e, en_running e, map rt_txEpochJoined (en_streams e), en_transmitReadyCount e,
     en_transmitEpochReady e, en_transmitEpoch e, en_transmitSystemEpochNanoseconds e,
     ptp_view (en_block e))"

abbreviation rx_flag :: "live_engine \<Rightarrow> nat \<Rightarrow> bool" where "rx_flag e i \<equiv> rt_rxActive (en_streams e ! i)"
abbreviation tx_flag :: "live_engine \<Rightarrow> nat \<Rightarrow> bool" where "tx_flag e i \<equiv> rt_txActive (en_streams e ! i)"

named_theorems frame_simps \<open>what an operation of a thread leaves of the engine\<close>

lemma setRxActive_frame [frame_simps]:
  assumes "bank < length (en_streams e)"
  shows "shared_view (setRxActive bank a e) = shared_view e"
    "rx_flag (setRxActive bank a e) i = (if i = bank then a else rx_flag e i)"
    "tx_flag (setRxActive bank a e) i = tx_flag e i"
  using assms
  by (auto simp: setRxActive_def Let_def shared_view_def ptp_view_def on_stream_def on_block_def map_update_same field_update_same)

lemma setTxActive_frame [frame_simps]:
  assumes "bank < length (en_streams e)"
  shows "shared_view (setTxActive bank a e) = shared_view e"
    "tx_flag (setTxActive bank a e) i = (if i = bank then a else tx_flag e i)"
    "rx_flag (setTxActive bank a e) i = rx_flag e i"
    "bk_discoveredSessions (en_block (setTxActive bank a e)) = bk_discoveredSessions (en_block e)"
    "bk_networkToCoreAudio (en_block (setTxActive bank a e)) = bk_networkToCoreAudio (en_block e)"
    "bk_coreAudioToNetwork (en_block (setTxActive bank a e)) = bk_coreAudioToNetwork (en_block e)"
  using assms
  by (auto simp: setTxActive_def Let_def shared_view_def ptp_view_def on_stream_def on_block_def map_update_same field_update_same)

lemma on_stream_frame [frame_simps]:
  "rt_txEpochJoined (f (en_streams e ! bank)) = rt_txEpochJoined (en_streams e ! bank)
    \<Longrightarrow> shared_view (on_stream bank f e) = shared_view e"
  "rt_rxActive (f (en_streams e ! bank)) = rt_rxActive (en_streams e ! bank) \<Longrightarrow> rx_flag (on_stream bank f e) i = rx_flag e i"
  "rt_txActive (f (en_streams e ! bank)) = rt_txActive (en_streams e ! bank) \<Longrightarrow> tx_flag (on_stream bank f e) i = tx_flag e i"
  by (simp_all add: shared_view_def on_stream_def map_update_same field_update_same)

lemma ptp_view_count [frame_simps]:
  "ptp_view (count_one st_reconnects_update b) = ptp_view b" "ptp_view (count_one st_malformedPackets_update b) = ptp_view b"
  "ptp_view (count_one st_rxPackets_update b) = ptp_view b" "ptp_view (count_one st_ringOverruns_update b) = ptp_view b"
  "ptp_view (count_one st_packetsLost_update b) = ptp_view b"
  by (simp_all add: ptp_view_def)

lemma on_block_frame [frame_simps]:
  "ptp_view (g (en_block e)) = ptp_view (en_block e) \<Longrightarrow> shared_view (on_block g e) = shared_view e"
  by (simp add: shared_view_def on_block_def)

lemma wf_setTxActive:
  assumes "engine_wf e" "bank < length (en_streams e)"
  shows "engine_wf (setTxActive bank active e)"
proof -
  have "runtime_ok (en_streams (setTxActive bank active e) ! i)" if "i < length (en_streams e)" for i
  proof -
    have "rt_jitter (en_streams (setTxActive bank active e) ! i) = rt_jitter (en_streams e ! i)"
      by (simp add: setTxActive_def Let_def on_block_def field_update_same)
    then show ?thesis using runtime_at [OF assms(1) that] by (simp add: runtime_ok_def)
  qed
  then have "\<forall>r \<in> set (en_streams (setTxActive bank active e)). runtime_ok r"
    by (simp add: all_set_conv_all_nth)
  with assms setTxActive_inv [OF _ assms(2), of active] show ?thesis
    by (simp add: engine_wf_def frame_simps)
qed

section \<open>The invariant\<close>

definition clocks_ok :: "live_engine \<Rightarrow> bool" where
  "clocks_ok e \<longleftrightarrow> \<bar>st_ptpOffsetNanoseconds (bk_statistics (en_block e))\<bar> \<le> offset_limit
     \<and> (en_transmitEpochReady e \<longrightarrow> 0 \<le> en_transmitEpoch e \<and> en_transmitEpoch e \<le> steady_limit + 50000000
          \<and> 0 \<le> en_transmitSystemEpochNanoseconds e \<and> en_transmitSystemEpochNanoseconds e \<le> system_limit + 50000000)"

definition core_ok :: "live_engine \<Rightarrow> bool" where
  "core_ok e \<longleftrightarrow> engine_wf e \<and> epoch_inv e \<and> clocks_ok e \<and> slots_ok (bk_discoveredSessions (en_block e))"

text \<open>What a step of the threads of the given streams may do to the engine.\<close>

definition shifts :: "nat set \<Rightarrow> nat set \<Rightarrow> live_engine \<Rightarrow> live_engine \<Rightarrow> bool" where
  "shifts rxs txs e e' \<longleftrightarrow> core_ok e' \<and> en_config e' = en_config e \<and> length (en_streams e') = length (en_streams e)
     \<and> en_running e' = en_running e
     \<and> (\<forall>i. i \<notin> rxs \<longrightarrow> rx_flag e' i = rx_flag e i) \<and> (\<forall>i. i \<notin> txs \<longrightarrow> tx_flag e' i = tx_flag e i)
     \<and> (\<forall>i < length (en_streams e). i \<notin> txs \<longrightarrow>
          rt_txEpochJoined (en_streams e' ! i) = rt_txEpochJoined (en_streams e ! i))
     \<and> (\<forall>i < length (en_streams e). rt_txEpochJoined (en_streams e ! i) \<longrightarrow> rt_txEpochJoined (en_streams e' ! i))
     \<and> (en_transmitEpochReady e \<longrightarrow> en_transmitEpochReady e' \<and> en_transmitEpoch e' = en_transmitEpoch e)"

definition moves :: "nat set \<Rightarrow> nat set \<Rightarrow> live_engine \<Rightarrow> live_engine \<Rightarrow> bool" where
  "moves rxs txs e e' \<longleftrightarrow> shifts rxs txs e e' \<and> ptp_view (en_block e') = ptp_view (en_block e)"

lemmas moves_defs = moves_def shifts_def

lemma shared_view_eqD:
  assumes "shared_view e' = shared_view e"
  shows "en_config e' = en_config e" "en_running e' = en_running e" "length (en_streams e') = length (en_streams e)"
    "en_transmitEpochReady e' = en_transmitEpochReady e" "en_transmitEpoch e' = en_transmitEpoch e"
    "en_transmitSystemEpochNanoseconds e' = en_transmitSystemEpochNanoseconds e"
    "ptp_view (en_block e') = ptp_view (en_block e)"
    "epoch_inv e' = epoch_inv e" "clocks_ok e' = clocks_ok e"
    "i < length (en_streams e) \<Longrightarrow> rt_txEpochJoined (en_streams e' ! i) = rt_txEpochJoined (en_streams e ! i)"
proof -
  have j: "map rt_txEpochJoined (en_streams e') = map rt_txEpochJoined (en_streams e)"
    using assms by (simp add: shared_view_def)
  note c = joined_cong [OF j]
  show "length (en_streams e') = length (en_streams e)" by (rule c)
  show "i < length (en_streams e) \<Longrightarrow> rt_txEpochJoined (en_streams e' ! i) = rt_txEpochJoined (en_streams e ! i)"
    using arg_cong [OF j, of "\<lambda>xs. xs ! i"] c(1) by simp
  show "epoch_inv e' = epoch_inv e"
    using assms c unfolding epoch_inv_def all_joined_iff by (simp add: shared_view_def)
qed (use assms in \<open>simp_all add: shared_view_def clocks_ok_def ptp_view_def\<close>)

lemma moves_plain:
  assumes "core_ok e" "engine_wf e'" "shared_view e' = shared_view e"
    "slots_ok (bk_discoveredSessions (en_block e'))"
    "\<And>i. i \<notin> rxs \<Longrightarrow> rx_flag e' i = rx_flag e i" "\<And>i. i \<notin> txs \<Longrightarrow> tx_flag e' i = tx_flag e i"
  shows "moves rxs txs e e'"
  using assms shared_view_eqD [OF assms(3)] by (simp add: moves_defs core_ok_def)

lemma core_okD:
  "core_ok e \<Longrightarrow> engine_wf e" "core_ok e \<Longrightarrow> epoch_inv e" "core_ok e \<Longrightarrow> clocks_ok e"
  "core_ok e \<Longrightarrow> slots_ok (bk_discoveredSessions (en_block e))"
  by (simp_all add: core_ok_def)

section \<open>Receiving and consuming\<close>

lemma datagram_moves:
  assumes "core_ok e" "bank < length (en_streams e)"
  shows "\<exists>e' l'. receive_datagram bank now bs e l = Some (e', l') \<and> moves {bank} {} e e'"
proof -
  obtain e' l' where r: "receive_datagram bank now bs e l = Some (e', l')" "engine_wf e'"
    using datagram_effect [OF core_okD(1) [OF assms(1)] assms(2), of now bs l] by blast
  then have "shared_view e' = shared_view e \<and> bk_discoveredSessions (en_block e') = bk_discoveredSessions (en_block e)
    \<and> (\<forall>i. i \<noteq> bank \<longrightarrow> rx_flag e' i = rx_flag e i) \<and> (\<forall>i. tx_flag e' i = tx_flag e i)"
    using assms(2)
    by (auto simp: receive_datagram_def Let_def frame_simps field_update_same split: bind_splits if_splits prod.splits)
  then show ?thesis using r assms(1) by (auto intro!: moves_plain simp: core_ok_def)
qed

definition rx_ok :: "live_engine \<Rightarrow> nat \<Rightarrow> rx_pc \<Rightarrow> bool" where
  "rx_ok e i pc \<longleftrightarrow> pc = Rx_listen \<or> \<not> rx_flag e i"

lemma moves_same: "core_ok e \<Longrightarrow> moves rxs txs e e"
  by (simp add: moves_defs)

lemma inactive_moves:
  assumes "core_ok e" "bank < length (en_streams e)"
  shows "moves {bank} {} e (setRxActive bank a e)"
    "moves {bank} {} e (on_block (count_one st_reconnects_update) (setRxActive bank a e))"
  using assms wf_setRxActive [OF core_okD(1) [OF assms(1)] assms(2), of a]
  by (auto intro!: moves_plain simp: frame_simps wf_count core_okD)

lemma receive_thread_effect:
  assumes "core_ok e" "bank < length (en_streams e)" "rx_ok e bank pc"
  shows "\<exists>e' pc' l'. receive_thread bank opened now received e (pc, l) = Some (e', pc', l')
    \<and> moves {bank} {} e e' \<and> rx_ok e' bank pc'
    \<and> (\<not> en_running e \<longrightarrow> pc' = (if pc = Rx_listen then Rx_open else Rx_ended))"
proof (cases pc)
  case Rx_open
  then show ?thesis
    using assms inactive_moves [OF assms(1,2), of False] moves_same [OF assms(1)]
    by (simp add: receive_thread_def receive_open_failed_def receive_opened_def Let_def rx_ok_def frame_simps
        split: prod.splits)
next
  case Rx_ended
  then show ?thesis using assms moves_same [OF assms(1)] by (simp add: receive_thread_def rx_ok_def)
next
  case Rx_listen
  have closed: "\<exists>d e' l'. receive_closed bank e l = (d, e', l') \<and> moves {bank} {} e e' \<and> \<not> rx_flag e' bank"
    using inactive_moves [OF assms(1,2), of False] assms(2)
    by (simp add: receive_closed_def Let_def frame_simps split: prod.splits)
  show ?thesis
  proof (cases "en_running e")
    case False
    with closed Rx_listen show ?thesis by (auto simp: receive_thread_def rx_ok_def)
  next
    case True
    show ?thesis
    proof (cases received)
      case (Received bs)
      obtain e' l' where "receive_datagram bank now bs e l = Some (e', l')" "moves {bank} {} e e'"
        using datagram_moves [OF assms(1,2)] by blast
      with True Received Rx_listen show ?thesis by (simp add: receive_thread_def rx_ok_def)
    next
      case Timed_out
      with True Rx_listen inactive_moves(1) [OF assms(1,2), of False] moves_same [OF assms(1)] show ?thesis
        by (simp add: receive_thread_def receive_timeout_def rx_ok_def)
    next
      case Failed
      with True Rx_listen closed show ?thesis by (auto simp: receive_thread_def rx_ok_def)
    qed
  qed
qed

lemma consume_thread_effect:
  assumes "core_ok e" "bank < length (en_streams e)"
  shows "\<exists>e' going' deadline'. consume_thread bank now now2 e (going, deadline) = Some (e', going', deadline')
    \<and> moves {} {} e e' \<and> (\<not> en_running e \<longrightarrow> \<not> going')"
proof (cases "going \<and> en_running e")
  case True
  let ?e = "consume_reset bank e"
  have reset: "engine_wf ?e" "bank < length (en_streams ?e)"
    using consume_reset_wf [OF core_okD(1) [OF assms(1)] assms(2)] assms(2) by (simp_all add: consume_reset_def)
  obtain e' where e': "consume_iteration bank ?e = Some e'" "engine_wf e'"
    using consume_iteration_safe [OF reset] by blast
  obtain packet lost j where c: "jitter_consume (replicate kJitterMaxPayload 0) (rt_jitter (en_streams ?e ! bank)) = (packet, lost, j)"
    by (cases "jitter_consume (replicate kJitterMaxPayload 0) (rt_jitter (en_streams ?e ! bank))") auto
  let ?e1 = "on_stream bank (\<lambda>r. r\<lparr>rt_jitter := j\<rparr>) ?e"
  have same: "shared_view ?e1 = shared_view e" "bk_discoveredSessions (en_block ?e1) = bk_discoveredSessions (en_block e)"
    "rx_flag ?e1 i = rx_flag e i" "tx_flag ?e1 i = tx_flag e i" for i
    by (simp_all add: frame_simps consume_reset_def field_update_same del: on_stream_select(4))
  have played: "shared_view e2 = shared_view ?e1 \<and> bk_discoveredSessions (en_block e2) = bk_discoveredSessions (en_block ?e1)
      \<and> en_streams e2 = en_streams ?e1" if "play_payload bank payload ?e1 = Some e2" for payload e2
  proof (cases "length payload = payloadBytesForChannels (unat (lc_channelsPerStream (en_config ?e1)))")
    case True
    have "\<exists>j'. j' = j \<and> jitter_inv j'" using jitter_consume_inv [OF runtime_at [OF reset]] c by (metis snd_conv)
    then have "engine_wf ?e1" using wf_jitter [OF reset] by blast
    moreover have "bank < length (en_streams ?e1)" using reset(2) by simp
    ultimately obtain e3 where "play_payload bank payload ?e1 = Some e3" "en_streams e3 = en_streams ?e1"
      "same_but_playback (en_block ?e1) (en_block e3)"
      using play_payload_effect [OF _ _ True] by blast
    moreover have "en_config e2 = en_config ?e1 \<and> en_running e2 = en_running ?e1
        \<and> en_transmitReadyCount e2 = en_transmitReadyCount ?e1 \<and> en_transmitEpochReady e2 = en_transmitEpochReady ?e1
        \<and> en_transmitEpoch e2 = en_transmitEpoch ?e1
        \<and> en_transmitSystemEpochNanoseconds e2 = en_transmitSystemEpochNanoseconds ?e1"
      using that by (auto simp: play_payload_def Let_def on_block_def split: prod.splits if_splits)
    ultimately show ?thesis using that by (auto simp: shared_view_def ptp_view_def same_but_playback_def)
  next
    case False
    then have "play_payload bank payload ?e1 = Some (on_block (count_one st_malformedPackets_update) ?e1)"
      by (simp add: play_payload_def case_prod_unfold Let_def)
    then show ?thesis using that by (auto simp: frame_simps)
  qed
  have "shared_view e' = shared_view ?e1 \<and> bk_discoveredSessions (en_block e') = bk_discoveredSessions (en_block ?e1)
      \<and> en_streams e' = en_streams ?e1"
  proof (cases packet)
    case None
    then have "e' = (if lost then on_block (count_one st_packetsLost_update) ?e1 else ?e1)"
      using e'(1) by (simp add: consume_iteration_def c Let_def)
    then show ?thesis by (simp add: frame_simps)
  next
    case (Some q)
    then have "play_payload bank (snd q) ?e1 = Some e'"
      using e'(1) by (simp add: consume_iteration_def c Let_def split: prod.splits)
    then show ?thesis by (rule played)
  qed
  then have "moves {} {} e e'"
    using same e'(2) assms(1) by (intro moves_plain) (simp_all add: core_okD)
  with True e'(1) show ?thesis by (auto simp: consume_thread_def)
next
  case False
  then show ?thesis using moves_same [OF assms(1)] by (auto simp: consume_thread_def)
qed

section \<open>Transmitting\<close>

definition tx_ok :: "live_engine \<Rightarrow> nat \<Rightarrow> tx_pc \<times> transmit_state \<Rightarrow> bool" where
  "tx_ok e i t \<longleftrightarrow> transmit_wf (en_config e) (snd t)
     \<and> (case fst t of
          Tx_open \<Rightarrow> \<not> tx_flag e i
        | Tx_wait \<Rightarrow> tx_flag e i \<and> rt_txEpochJoined (en_streams e ! i)
        | Tx_send \<Rightarrow> tx_flag e i \<and> en_transmitEpochReady e \<and> en_transmitEpoch e \<le> tx_next (snd t)
        | Tx_ended \<Rightarrow> True)"

lemma nextDeadline_bounds:
  assumes "epoch \<le> limit + 50000000" "now \<le> limit"
  shows "epoch \<le> nextDeadline epoch now" "nextDeadline epoch now \<le> limit + 50000000"
proof -
  have "(now - epoch) div 1000000 * 1000000 \<le> now - epoch" if "epoch \<le> now"
    using div_mult_mod_eq [of "now - epoch" 1000000] pos_mod_sign [of 1000000 "now - epoch"] by linarith
  moreover have "0 \<le> (now - epoch) div 1000000" if "epoch \<le> now" using that by simp
  ultimately show "epoch \<le> nextDeadline epoch now" "nextDeadline epoch now \<le> limit + 50000000"
    using assms by (auto simp: nextDeadline_def cdiv_nonneg not_less)
qed

text \<open>An iteration with the clocks in range: defined, and it touches only the rings it reads from and
  two counters.\<close>

lemma transmit_iteration_effect:
  assumes "engine_wf e" "bank < length (en_streams e)" "transmit_wf (en_config e) l" "clocks_ok e"
    and "en_transmitEpochReady e" "en_transmitEpoch e \<le> tx_next l" "tx_next l \<le> now" "now2 \<le> steady_limit" "now \<le> now2"
  shows "\<exists>goes_on wire b l'. transmit_iteration z bank now now2 sent e l = Some (goes_on, wire, e\<lparr>en_block := b\<rparr>, l')
    \<and> engine_wf (e\<lparr>en_block := b\<rparr>) \<and> transmit_wf (en_config e) l'
    \<and> bk_discoveredSessions b = bk_discoveredSessions (en_block e)
    \<and> ptp_view b = ptp_view (en_block e)
    \<and> en_transmitEpoch e \<le> tx_next l'"
proof -
  let ?c = "en_config e" and ?b = "en_block e"
  let ?k = "unat (lc_channelsPerStream ?c)"
  have c: "routing_ok ?c" "lc_coreAudioStartChannel ?c \<le> 64" "bank < unat (lc_streamCount ?c)"
    "rings_ok (bk_coreAudioToNetwork ?b)"
    using assms(1,2) by (simp_all add: engine_wf_def)
  have k: "0 < ?k" "?k \<le> 8" using routing_bounds [OF c(1)] by simp_all
  have l: "length (tx_channel l) = kFramesPerPacket" "kFramesPerPacket * ?k \<le> length (tx_interleaved l)"
    using assms(3) k by (simp_all add: transmit_wf_def profile_defs)
  obtain channel il underrun rings where cap: "capture_channels ?c bank [0..<?k] (tx_channel l) (tx_interleaved l) False ?b
        = Some (channel, il, underrun, ?b\<lparr>bk_coreAudioToNetwork := rings\<rparr>)"
    "length channel = kFramesPerPacket" "length il = length (tx_interleaved l)" "rings_ok rings"
    using capture_effect [OF c(1-3) _ _ c(4) l, of "[0..<?k]" False] by auto
  define payload where "payload = concat (map pcm_bytes (map (to_pcm z) (take (kFramesPerPacket * ?k) il)))"
  have len: "length payload = payloadBytesForChannels ?k"
    unfolding payload_def length_l24_concat using cap(3) l(2)
    by (simp add: payloadBytesForChannels_def profile_defs)
  have enc: "snd (l24_encode z (take (kFramesPerPacket * ?k) il) (pkt_payload (tx_packet l))) = payload"
    using assms(3) cap(3) l(2) unfolding payload_def
    by (subst l24_encode_ok) (simp_all add: transmit_wf_def payloadBytesForChannels_def profile_defs)
  define b1 where "b1 = (if underrun \<and> bk_ioRunning (?b\<lparr>bk_coreAudioToNetwork := rings\<rparr>)
    then count_one st_outputUnderruns_update (?b\<lparr>bk_coreAudioToNetwork := rings\<rparr>) else ?b\<lparr>bk_coreAudioToNetwork := rings\<rparr>)"
  have b1: "bk_ptpLocked b1 = bk_ptpLocked ?b" "st_ptpOffsetNanoseconds (bk_statistics b1) = st_ptpOffsetNanoseconds (bk_statistics ?b)"
    "bk_coreAudioToNetwork b1 = rings" "bk_networkToCoreAudio b1 = bk_networkToCoreAudio ?b"
    "bk_rxActive b1 = bk_rxActive ?b" "bk_txActive b1 = bk_txActive ?b" "bk_discoveredSessions b1 = bk_discoveredSessions ?b"
    "ptp_view b1 = ptp_view ?b" "ptp_view (count_one st_txPackets_update b1) = ptp_view ?b"
    by (simp_all add: b1_def ptp_view_def)
  have clocks: "\<bar>st_ptpOffsetNanoseconds (bk_statistics ?b)\<bar> \<le> 2 ^ 62" "0 \<le> en_transmitEpoch e"
    "en_transmitEpoch e \<le> steady_limit + 50000000" "0 \<le> en_transmitSystemEpochNanoseconds e"
    "en_transmitSystemEpochNanoseconds e \<le> 3 * 2 ^ 60 + 50000000"
    using assms(4,5) by (simp_all add: clocks_ok_def offset_limit_def system_limit_def)
  have deadline: "en_transmitEpoch e \<le> tx_deadline e l now now2" "tx_deadline e l now now2 \<le> 2 ^ 59 + 50000000"
    using nextDeadline_bounds [OF clocks(3) assms(8)] assms(6-9) by (auto simp: steady_limit_def)
  have "0 \<le> tx_scheduled e l now now2" "tx_scheduled e l now now2 \<le> 3 * 2 ^ 60 + 2 ^ 59 + 100000000"
    using deadline clocks by linarith+
  then have times: "in_int64 (tx_scheduled e l now now2)" "in_int64 (tx_media_time e l now now2)"
    using clocks(1) by (auto simp: in_int64_def int64_min_def int64_max_def)
  define p where "p = (tx_packet l)\<lparr>pkt_payload := payload, pkt_sequence := pkt_sequence (tx_packet l) + 1,
    pkt_timestamp := rtpTimestampForNanoseconds (tx_media_time e l now now2)\<rparr>"
  have room: "12 + length (pkt_payload p) \<le> length (tx_wire l)"
    using assms(3) supported_payload_le [OF routing_bounds(5) [OF c(1)]]
    by (simp add: p_def len transmit_wf_def kFixedHeaderBytes_def)
  obtain encoded wire n where wire: "rtp_encode p (tx_wire l) = Some (encoded, wire, n)" "length wire = length (tx_wire l)"
    using rtp_encode_ok [OF _ room] rtp_encode_refused [of p "tx_wire l"] room by (cases "pkt_payloadType p \<le> 127") force+
  define l1 where "l1 = l\<lparr>tx_packet := p, tx_interleaved := il, tx_channel := channel, tx_wire := wire,
    tx_next := tx_deadline e l now now2\<rparr>"
  have run: "transmit_iteration z bank now now2 sent e l =
     (if \<not> encoded then Some (False, [], e\<lparr>en_block := b1\<rparr>, l1)
      else if \<not> sent then Some (False, take n wire, e\<lparr>en_block := b1\<rparr>, l1)
      else Some (True, take n wire, e\<lparr>en_block := count_one st_txPackets_update b1\<rparr>,
             l1\<lparr>tx_next := tx_deadline e l now now2 + 1000000\<rparr>))"
    using times wire
    unfolding transmit_iteration_def Let_def cap(1) Option.bind.simps prod.case b1_def [symmetric] enc b1(1,2) l1_def
    by (cases encoded; cases sent) (simp_all add: chk64_def p_def [symmetric] split del: if_split)
  have wf: "engine_wf (e\<lparr>en_block := b\<rparr>)" if "b = b1 \<or> b = count_one st_txPackets_update b1" for b
    using wf_on_block [OF assms(1), of "\<lambda>_. b"] that assms(1) cap(4) b1
    by (auto simp: on_block_def engine_wf_def)
  have l1: "transmit_wf ?c l1" "transmit_wf ?c (l1\<lparr>tx_next := d\<rparr>)" "tx_next l1 = tx_deadline e l now now2" for d
    using assms(3) cap(2,3) wire(2) len by (simp_all add: transmit_wf_def l1_def p_def)
  show ?thesis
  proof (cases "encoded \<and> sent")
    case True
    have "en_transmitEpoch e \<le> tx_deadline e l now now2 + 1000000" using deadline(1) by linarith
    with True run wf l1 b1(7,9) show ?thesis
      by (intro exI [of _ True] exI [of _ "take n wire"] exI [of _ "count_one st_txPackets_update b1"]
          exI [of _ "l1\<lparr>tx_next := tx_deadline e l now now2 + 1000000\<rparr>"]) (simp split del: if_split)
  next
    case False
    have "transmit_iteration z bank now now2 sent e l = Some (False, if encoded then take n wire else [], e\<lparr>en_block := b1\<rparr>, l1)"
      using False run by (cases encoded; cases sent) simp_all
    with wf l1 b1(7,8) deadline(1) show ?thesis
      by (intro exI [of _ False] exI [of _ "if encoded then take n wire else []"] exI [of _ b1] exI [of _ l1])
        (simp split del: if_split)
  qed
qed

lemma on_stream_epoch [simp]:
  "en_transmitReadyCount (on_stream bank f e) = en_transmitReadyCount e"
  "en_transmitEpochReady (on_stream bank f e) = en_transmitEpochReady e"
  "en_transmitEpoch (on_stream bank f e) = en_transmitEpoch e"
  "en_transmitSystemEpochNanoseconds (on_stream bank f e) = en_transmitSystemEpochNanoseconds e"
  by (simp_all add: on_stream_def)

lemma wf_epoch_fields [simp]:
  "engine_wf (e\<lparr>en_transmitReadyCount := n\<rparr>) = engine_wf e" "engine_wf (e\<lparr>en_transmitEpochReady := r\<rparr>) = engine_wf e"
  "engine_wf (e\<lparr>en_transmitEpoch := t\<rparr>) = engine_wf e" "engine_wf (e\<lparr>en_transmitSystemEpochNanoseconds := u\<rparr>) = engine_wf e"
  "engine_wf (e\<lparr>en_running := g\<rparr>) = engine_wf e"
  by (simp_all add: engine_wf_def activity_inv_def)

lemma transmit_wf_fields [simp]:
  "transmit_wf c (l\<lparr>tx_reconnect := r\<rparr>) = transmit_wf c l" "transmit_wf c (l\<lparr>tx_next := d\<rparr>) = transmit_wf c l"
  by (simp_all add: transmit_wf_def)

text \<open>The engine after a transmitter opened, by whether its stream joins the epoch and is the last one.\<close>

lemma transmit_opened_engine:
  assumes "bank < length (en_streams e)"
  defines "e1 \<equiv> setTxActive bank True e"
  defines "e2 \<equiv> on_stream bank (\<lambda>r. r\<lparr>rt_txEpochJoined := True\<rparr>) e1"
  shows "fst (transmit_opened bank steady system e l) \<in> {e1, e2\<lparr>en_transmitReadyCount := en_transmitReadyCount e + 1\<rparr>,
    e2\<lparr>en_transmitReadyCount := en_transmitReadyCount e + 1, en_transmitEpoch := steady + 50000000,
       en_transmitSystemEpochNanoseconds := system + 50000000, en_transmitEpochReady := True\<rparr>}"
  using assms(1) by (simp add: transmit_opened_def Let_def e1_def e2_def on_stream_def)

lemma opened_moves:
  fixes l :: transmit_state
  assumes "core_ok e" "bank < length (en_streams e)"
    and "0 \<le> steady" "steady \<le> steady_limit" "0 \<le> system" "system \<le> system_limit"
  defines "e' \<equiv> fst (transmit_opened bank steady system e l)"
  shows "moves {} {bank} e e'" "tx_flag e' bank" "rt_txEpochJoined (en_streams e' ! bank)"
proof -
  let ?e1 = "setTxActive bank True e"
  let ?e2 = "on_stream bank (\<lambda>r. r\<lparr>rt_txEpochJoined := True\<rparr>) ?e1"
  note t = transmit_opened_epoch [OF core_okD(2) [OF assms(1)] assms(2), of steady system l, folded e'_def]
  note sv = shared_view_eqD [OF setTxActive_frame(1) [OF assms(2), of True]]
  have cases: "e' = ?e1 \<or> e' = ?e2\<lparr>en_transmitReadyCount := en_transmitReadyCount e + 1\<rparr>
      \<or> e' = ?e2\<lparr>en_transmitReadyCount := en_transmitReadyCount e + 1, en_transmitEpoch := steady + 50000000,
         en_transmitSystemEpochNanoseconds := system + 50000000, en_transmitEpochReady := True\<rparr>"
    using transmit_opened_engine [OF assms(2), of steady system l] by (simp add: e'_def)
  have wf1: "engine_wf ?e1" by (rule wf_setTxActive [OF core_okD(1) [OF assms(1)] assms(2)])
  have wf2: "engine_wf ?e2"
    using runtime_at [OF wf1, of bank] assms(2) by (intro wf_on_stream [OF wf1]) (simp_all add: runtime_ok_def)
  from cases wf1 wf2 have wf: "engine_wf e'" by auto
  have clocks: "clocks_ok e'"
    using cases sv core_okD(3) [OF assms(1)] assms(3-6) by (auto simp: clocks_ok_def)
  have frame: "en_config e' = en_config e" "en_running e' = en_running e" "rx_flag e' i = rx_flag e i"
    "tx_flag e' i = (if i = bank then True else tx_flag e i)"
    "bk_discoveredSessions (en_block e') = bk_discoveredSessions (en_block e)"
    "i \<noteq> bank \<Longrightarrow> i < length (en_streams e) \<Longrightarrow> rt_txEpochJoined (en_streams e' ! i) = rt_txEpochJoined (en_streams e ! i)" for i
    using cases assms(2) sv(10) by (auto simp: frame_simps field_update_same nth_list_update split: if_splits)
  have mono: "rt_txEpochJoined (en_streams e ! i) \<Longrightarrow> i < length (en_streams e) \<Longrightarrow> rt_txEpochJoined (en_streams e' ! i)" for i
    using frame(6) [of i] t(3) by (cases "i = bank") simp_all
  have "ptp_view (en_block e') = ptp_view (en_block e)" using cases sv(7) by auto
  then show "moves {} {bank} e e'"
    unfolding moves_defs core_ok_def using wf clocks frame t mono core_okD(4) [OF assms(1)] by simp
  show "tx_flag e' bank" "rt_txEpochJoined (en_streams e' ! bank)" using frame(4) t(3) by auto
qed

lemma tx_inactive_moves:
  assumes "core_ok e" "bank < length (en_streams e)"
  shows "moves {} {bank} e (setTxActive bank a e)"
    "moves {} {bank} e (on_block (count_one st_reconnects_update) (setTxActive bank a e))"
  using assms wf_setTxActive [OF core_okD(1) [OF assms(1)] assms(2), of a]
  by (auto intro!: moves_plain simp: frame_simps wf_count core_okD)

lemma moves_trans:
  assumes "moves rxs txs e e1" "moves rxs txs e1 e2"
  shows "moves rxs txs e e2"
  using assms unfolding moves_defs by auto

lemma transmit_thread_effect:
  assumes "core_ok e" "bank < length (en_streams e)" "tx_ok e bank (pc, l)"
    and "0 \<le> now" "now \<le> now2" "now2 \<le> steady_limit" "0 \<le> systemNow" "systemNow \<le> system_limit"
    and "pc = Tx_send \<longrightarrow> tx_next l \<le> now"
  shows "\<exists>wire e' pc' l'. transmit_thread z bank opened now now2 systemNow sent e (pc, l) = Some (wire, e', pc', l')
    \<and> moves {} {bank} e e' \<and> tx_ok e' bank (pc', l') \<and> (wire \<noteq> [] \<longrightarrow> en_transmitEpochReady e)
    \<and> (\<not> en_running e \<longrightarrow> pc' = (if pc = Tx_send then Tx_open else Tx_ended))
    \<and> (\<not> opened \<longrightarrow> rt_txEpochJoined (en_streams e' ! bank) = rt_txEpochJoined (en_streams e ! bank))"
proof -
  note core = core_okD [OF assms(1)]
  have wf: "transmit_wf (en_config e) l" using assms(3) by (simp add: tx_ok_def)
  note off = tx_inactive_moves [OF assms(1,2), of False]
  have joined: "rt_txEpochJoined (en_streams (setTxActive bank False e) ! bank) = rt_txEpochJoined (en_streams e ! bank)"
    using shared_view_eqD(10) [OF setTxActive_frame(1) [OF assms(2)] assms(2)] .
  show ?thesis
  proof (cases pc)
    case Tx_open
    show ?thesis
    proof (cases "en_running e \<and> opened")
      case True
      note m = opened_moves [OF assms(1,2,4) _ assms(7,8), of l]
      have now: "now \<le> steady_limit" using assms(5,6) by simp
      obtain e' l' where o: "transmit_opened bank now systemNow e l = (e', l')" by fastforce
      then have l': "l' = l\<lparr>tx_reconnect := connected (tx_reconnect l)\<rparr>" by (simp add: transmit_opened_def Let_def)
      from o m [OF now] have m': "moves {} {bank} e e'" "tx_flag e' bank" "rt_txEpochJoined (en_streams e' ! bank)"
        by simp_all
      then have "en_config e' = en_config e" by (simp add: moves_defs)
      with m' True Tx_open wf show ?thesis by (simp add: transmit_thread_def tx_ok_def o l')
    next
      case False
      show ?thesis
      proof (cases "en_running e")
        case False
        with Tx_open wf moves_same [OF assms(1)] show ?thesis by (simp add: transmit_thread_def tx_ok_def)
      next
        case running: True
        with False have "\<not> opened" by simp
        with running Tx_open have step: "transmit_thread z bank opened now now2 systemNow sent e (pc, l)
            = Some ([], on_block (count_one st_reconnects_update) (setTxActive bank False e), Tx_open,
                l\<lparr>tx_reconnect := snd (nextDelay (tx_reconnect l))\<rparr>)"
          by (simp add: transmit_thread_def transmit_open_failed_def Let_def case_prod_unfold)
        show ?thesis unfolding step using wf off(2) joined assms(2) running
          by (simp add: tx_ok_def frame_simps)
      qed
    qed
  next
    case Tx_wait
    have "en_transmitEpoch e \<le> nextDeadline (en_transmitEpoch e) now" if "en_transmitEpochReady e"
      using core(3) that assms(5,6) by (intro nextDeadline_bounds(1) [of _ steady_limit]) (simp_all add: clocks_ok_def)
    with Tx_wait wf assms(3) moves_same [OF assms(1)] show ?thesis
      by (simp add: transmit_thread_def tx_ok_def)
  next
    case Tx_ended
    with wf moves_same [OF assms(1)] show ?thesis by (simp add: transmit_thread_def tx_ok_def)
  next
    case Tx_send
    have closed: "\<exists>d e2 l2. transmit_closed bank e1 l1 = (d, e2, l2) \<and> moves {} {bank} e e2 \<and> tx_ok e2 bank (Tx_open, l2)
        \<and> rt_txEpochJoined (en_streams e2 ! bank) = rt_txEpochJoined (en_streams e ! bank)"
      if "moves {} {bank} e e1" "transmit_wf (en_config e) l1" "en_streams e1 = en_streams e" for e1 l1
    proof -
      have e1: "core_ok e1" "bank < length (en_streams e1)" "en_config e1 = en_config e"
        using that assms(2) by (simp_all add: moves_defs)
      note off1 = tx_inactive_moves [OF e1(1,2), of False]
      have "rt_txEpochJoined (en_streams (setTxActive bank False e1) ! bank) = rt_txEpochJoined (en_streams e1 ! bank)"
        using shared_view_eqD(10) [OF setTxActive_frame(1) [OF e1(2)] e1(2)] .
      then show ?thesis
        using moves_trans [OF that(1) off1(1)] moves_trans [OF that(1) off1(2)] that(2,3) e1
        by (auto simp: transmit_closed_def Let_def tx_ok_def frame_simps split: prod.splits)
    qed
    show ?thesis
    proof (cases "en_running e")
      case False
      with closed [OF moves_same [OF assms(1)] wf] Tx_send show ?thesis by (auto simp: transmit_thread_def)
    next
      case True
      have pre: "en_transmitEpochReady e" "en_transmitEpoch e \<le> tx_next l" "tx_next l \<le> now"
        using assms(3,9) Tx_send by (simp_all add: tx_ok_def)
      obtain goes_on wire b l1 where it: "transmit_iteration z bank now now2 sent e l = Some (goes_on, wire, e\<lparr>en_block := b\<rparr>, l1)"
        "engine_wf (e\<lparr>en_block := b\<rparr>)" "transmit_wf (en_config e) l1"
        "bk_discoveredSessions b = bk_discoveredSessions (en_block e)"
        "ptp_view b = ptp_view (en_block e)"
        "en_transmitEpoch e \<le> tx_next l1"
        using transmit_iteration_effect [OF core(1) assms(2) wf core(3) pre assms(6,5)] by blast
      have m: "moves {} {bank} e (e\<lparr>en_block := b\<rparr>)"
        by (rule moves_plain [OF assms(1) it(2)]) (simp_all add: shared_view_def it core)
      show ?thesis
      proof (cases goes_on)
        case goes: True
        have "tx_flag e bank" using assms(3) Tx_send by (simp add: tx_ok_def)
        with goes True Tx_send it m pre show ?thesis by (simp add: transmit_thread_def tx_ok_def)
      next
        case False
        obtain d e2 l2 where "transmit_closed bank (e\<lparr>en_block := b\<rparr>) l1 = (d, e2, l2)" "moves {} {bank} e e2"
          "tx_ok e2 bank (Tx_open, l2)" "rt_txEpochJoined (en_streams e2 ! bank) = rt_txEpochJoined (en_streams e ! bank)"
          using closed [OF m it(3)] by auto
        with False True Tx_send it(1) pre show ?thesis by (simp add: transmit_thread_def)
      qed
    qed
  qed
qed

section \<open>Discovery and the driver\<close>

lemma discovery_message_frame:
  assumes "discovery_message c now bs b = Some b'"
  shows "\<exists>slots malformed. b' = b\<lparr>bk_discoveredSessions := slots,
    bk_statistics := (bk_statistics b)\<lparr>st_sapMalformedPackets := malformed\<rparr>\<rparr>"
proof -
  have malformed: "\<exists>slots malformed. count_one st_sapMalformedPackets_update b = b\<lparr>bk_discoveredSessions := slots,
      bk_statistics := (bk_statistics b)\<lparr>st_sapMalformedPackets := malformed\<rparr>\<rparr>"
    by (intro exI [of _ "bk_discoveredSessions b"] exI [of _ "st_sapMalformedPackets (bk_statistics b) + 1"])
      (simp add: count_one_def)
  have entry: "\<exists>slots malformed. b\<lparr>bk_discoveredSessions := s\<rparr> = b\<lparr>bk_discoveredSessions := slots,
      bk_statistics := (bk_statistics b)\<lparr>st_sapMalformedPackets := malformed\<rparr>\<rparr>" for s
    by (intro exI [of _ s] exI [of _ "st_sapMalformedPackets (bk_statistics b)"]) simp
  have same: "\<exists>slots malformed. b = b\<lparr>bk_discoveredSessions := slots,
      bk_statistics := (bk_statistics b)\<lparr>st_sapMalformedPackets := malformed\<rparr>\<rparr>"
    using entry [of "bk_discoveredSessions b"] by simp
  have "b' = count_one st_sapMalformedPackets_update b \<or> b' = b \<or> (\<exists>s. b' = b\<lparr>bk_discoveredSessions := s\<rparr>)"
    using assms by (auto simp: discovery_message_def split: bind_splits if_splits prod.splits sum.splits)
  then show ?thesis using malformed entry same by auto
qed

text \<open>A block that differs in its sessions and in counters only.\<close>

definition same_audio :: "shared_block \<Rightarrow> shared_block \<Rightarrow> bool" where
  "same_audio b b' \<longleftrightarrow> bk_rxActive b' = bk_rxActive b \<and> bk_txActive b' = bk_txActive b
     \<and> ptp_view b' = ptp_view b"

lemmas same_audio_defs = same_audio_def ptp_view_def

lemma block_moves:
  assumes "core_ok e" "same_audio (en_block e) b" "rings_ok (bk_networkToCoreAudio b)" "rings_ok (bk_coreAudioToNetwork b)"
    "slots_ok (bk_discoveredSessions b)"
  shows "moves {} {} e (e\<lparr>en_block := b\<rparr>)"
proof (rule moves_plain [OF assms(1)])
  show "engine_wf (e\<lparr>en_block := b\<rparr>)"
    using wf_on_block [OF core_okD(1) [OF assms(1)], of "\<lambda>_. b"] assms(2-4) by (simp add: on_block_def same_audio_defs)
  show "shared_view (e\<lparr>en_block := b\<rparr>) = shared_view e" using assms(2) by (simp add: shared_view_def same_audio_defs)
qed (use assms(5) in simp_all)

lemma rings_of_wf:
  "core_ok e \<Longrightarrow> rings_ok (bk_networkToCoreAudio (en_block e)) \<and> rings_ok (bk_coreAudioToNetwork (en_block e))"
  by (simp add: core_ok_def engine_wf_def)

lemma discovery_thread_effect:
  assumes "core_ok e"
  shows "\<exists>e' pc' r'. discovery_thread opened now received e (pc, r) = Some (e', pc', r') \<and> moves {} {} e e'
    \<and> (\<not> en_running e \<longrightarrow> pc' = (if pc = Sap_listen then Sap_open else Sap_ended))"
proof -
  have counted: "moves {} {} e (e\<lparr>en_block := if q then count_one st_reconnects_update b else b\<rparr>)"
    if "same_audio (en_block e) b" "rings_ok (bk_networkToCoreAudio b)" "rings_ok (bk_coreAudioToNetwork b)"
      "slots_ok (bk_discoveredSessions b)" for q b
    using that by (intro block_moves [OF assms]) (simp_all add: same_audio_defs)
  have here: "same_audio (en_block e) (en_block e)" by (simp add: same_audio_defs)
  note still = counted [OF here _ _ core_okD(4) [OF assms]]
  have closed: "\<exists>e' r'. (case discovery_closed (en_running e) r b of (_, r', b') \<Rightarrow> (e\<lparr>en_block := b'\<rparr>, Sap_open, r'))
      = (e', Sap_open, r') \<and> moves {} {} e e'"
    if "same_audio (en_block e) b" "rings_ok (bk_networkToCoreAudio b)" "rings_ok (bk_coreAudioToNetwork b)"
      "slots_ok (bk_discoveredSessions b)" for b
    using counted [OF that, of "en_running e"] by (auto simp: discovery_closed_def split: prod.splits)
  show ?thesis
  proof (cases pc)
    case Sap_open
    then show ?thesis
      using still [of "\<not> opened"] rings_of_wf [OF assms] moves_same [OF assms]
      by (auto simp: discovery_thread_def discovery_open_def Let_def split: prod.splits)
  next
    case Sap_ended
    then show ?thesis using moves_same [OF assms] by (simp add: discovery_thread_def)
  next
    case Sap_listen
    show ?thesis
    proof (cases "en_running e")
      case False
      with Sap_listen closed [OF here] rings_of_wf [OF assms] core_okD(4) [OF assms] show ?thesis
        by (auto simp: discovery_thread_def Let_def)
    next
      case True
      let ?b1 = "(en_block e)\<lparr>bk_discoveredSessions :=
        dir_expire (bk_discoveredSessions (en_block e)) (oldest_allowed (en_config e) now)\<rparr>"
      have b1: "slots_ok (bk_discoveredSessions ?b1)" using expire_any(1) [OF core_okD(4) [OF assms]] by simp
      have "\<exists>goes_on b. discovery_iteration (en_config e) now received (en_block e) = Some (goes_on, b)
        \<and> same_audio (en_block e) b \<and> rings_ok (bk_networkToCoreAudio b) \<and> rings_ok (bk_coreAudioToNetwork b)
        \<and> slots_ok (bk_discoveredSessions b)"
      proof (cases received)
        case (Received bs)
        obtain b' where b': "discovery_message (en_config e) now bs ?b1 = Some b'" "slots_ok (bk_discoveredSessions b')"
          using discovery_message_effect [OF b1] by blast
        with discovery_message_frame [OF b'(1)] Received rings_of_wf [OF assms] show ?thesis
          by (auto simp: discovery_iteration_def Let_def same_audio_defs)
      qed (use b1 rings_of_wf [OF assms] in \<open>auto simp: discovery_iteration_def same_audio_defs\<close>)
      then obtain goes_on b where it: "discovery_iteration (en_config e) now received (en_block e) = Some (goes_on, b)"
        and b: "same_audio (en_block e) b" "rings_ok (bk_networkToCoreAudio b)" "rings_ok (bk_coreAudioToNetwork b)"
        "slots_ok (bk_discoveredSessions b)" by blast
      show ?thesis using True Sap_listen it closed [OF b] counted [OF b, of False]
        by (auto simp: discovery_thread_def Let_def)
    qed
  qed
qed

lemma driver_read_channels_frame:
  "driver_read_channels chs channel out underrun b = Some (out', underrun', b')
    \<Longrightarrow> \<exists>rings. b' = b\<lparr>bk_networkToCoreAudio := rings\<rparr>"
proof (induction chs channel out underrun b rule: driver_read_channels.induct)
  case (1 channel out underrun b)
  then show ?case by (auto intro: exI [of _ "bk_networkToCoreAudio b"])
qed (auto simp: Let_def split: option.splits prod.splits if_splits)

lemma driver_read_frame:
  assumes "on_read_client_input (Some b) (Some out) bytesCount = Some (out', Some b')"
  shows "\<exists>rings underruns. b' = b\<lparr>bk_networkToCoreAudio := rings,
    bk_statistics := (bk_statistics b)\<lparr>st_inputUnderruns := underruns\<rparr>\<rparr>"
proof -
  have counted: "\<exists>rings underruns. (if u then count_one st_inputUnderruns_update (b\<lparr>bk_networkToCoreAudio := rs\<rparr>)
        else b\<lparr>bk_networkToCoreAudio := rs\<rparr>)
      = b\<lparr>bk_networkToCoreAudio := rings, bk_statistics := (bk_statistics b)\<lparr>st_inputUnderruns := underruns\<rparr>\<rparr>" for u rs
    by (intro exI [of _ rs] exI [of _ "st_inputUnderruns (bk_statistics b) + (if u then 1 else 0)"]) (simp add: count_one_def)
  have same: "b = (if False then count_one st_inputUnderruns_update (b\<lparr>bk_networkToCoreAudio := bk_networkToCoreAudio b\<rparr>)
        else b\<lparr>bk_networkToCoreAudio := bk_networkToCoreAudio b\<rparr>)" by simp
  let ?run = "driver_read_channels [0..<kVirtualChannels] (replicate (bytesCount div kBytesPerFrame) (Fin 0)) out False b"
  show ?thesis
  proof (cases ?run)
    case None
    then have "b' = b" using assms by (simp add: on_read_client_input_def Let_def split: if_splits)
    with counted [of False] same show ?thesis by metis
  next
    case (Some r)
    obtain o1 u b1 where r: "r = (o1, u, b1)" by (cases r)
    obtain rs where b1: "b1 = b\<lparr>bk_networkToCoreAudio := rs\<rparr>" using driver_read_channels_frame Some r by blast
    have "b' = b \<or> b' = (if u then count_one st_inputUnderruns_update b1 else b1)"
      using assms Some r by (simp add: on_read_client_input_def Let_def split: if_splits)
    with b1 counted [of u rs] counted [of False] same show ?thesis by metis
  qed
qed

text \<open>A handler of the driver is defined on any block with well-formed rings and changes nothing but the rings it
  serves and one counter.\<close>

lemma driver_defined:
  assumes "rings_ok (bk_networkToCoreAudio b)" "rings_ok (bk_coreAudioToNetwork b)"
  shows "length out = bytesCount div 4 \<Longrightarrow>
      \<exists>o' rs n. on_read_client_input (Some b) (Some out) bytesCount = Some (o', Some (b\<lparr>bk_networkToCoreAudio := rs,
          bk_statistics := (bk_statistics b)\<lparr>st_inputUnderruns := n\<rparr>\<rparr>)) \<and> rings_ok rs"
    and "length frames = bytesCount div 4 \<Longrightarrow>
      \<exists>rs n. on_write_mixed_output (Some b) (Some frames) bytesCount = Some (Some (b\<lparr>bk_coreAudioToNetwork := rs,
          bk_statistics := (bk_statistics b)\<lparr>st_ringOverruns := n\<rparr>\<rparr>)) \<and> rings_ok rs"
proof -
  show "\<exists>o' rs n. on_read_client_input (Some b) (Some out) bytesCount = Some (o', Some (b\<lparr>bk_networkToCoreAudio := rs,
          bk_statistics := (bk_statistics b)\<lparr>st_inputUnderruns := n\<rparr>\<rparr>)) \<and> rings_ok rs"
    if len: "length out = bytesCount div 4"
  proof (cases "bk_engineRunning b \<and> 0 < bytesCount div 256 \<and> bytesCount div 256 \<le> 4096 \<and> bytesCount = bytesCount div 256 * 256")
    case True
    then obtain o' b' where b': "on_read_client_input (Some b) (Some out) bytesCount = Some (Some o', Some b')"
      "rings_ok (bk_networkToCoreAudio b')"
      using driver_records_running [of b out "bytesCount div 256"] assms len by fastforce
    from driver_read_frame [OF b'(1)] obtain rs n where
      b: "b' = b\<lparr>bk_networkToCoreAudio := rs, bk_statistics := (bk_statistics b)\<lparr>st_inputUnderruns := n\<rparr>\<rparr>" by blast
    have "rings_ok rs" using b'(2) by (simp add: b)
    with b'(1) show ?thesis unfolding b by blast
  next
    case False
    from driver_silences [OF this] show ?thesis
      by (intro exI [of _ "bk_networkToCoreAudio b"] exI [of _ "st_inputUnderruns (bk_statistics b)"] exI) (simp add: assms)
  qed
  show "\<exists>rs n. on_write_mixed_output (Some b) (Some frames) bytesCount = Some (Some (b\<lparr>bk_coreAudioToNetwork := rs,
          bk_statistics := (bk_statistics b)\<lparr>st_ringOverruns := n\<rparr>\<rparr>)) \<and> rings_ok rs"
    if len: "length frames = bytesCount div 4"
  proof (cases "bk_engineRunning b \<and> bytesCount div 256 \<le> 4096 \<and> bytesCount = bytesCount div 256 * 256")
    case True
    then obtain b' rs n where b': "on_write_mixed_output (Some b) (Some frames) bytesCount = Some (Some b')"
      "rings_ok (bk_coreAudioToNetwork b')" "b' = b\<lparr>bk_coreAudioToNetwork := rs, bk_statistics := (bk_statistics b)\<lparr>st_ringOverruns := n\<rparr>\<rparr>"
      using driver_plays_running [of b frames "bytesCount div 256"] assms len by fastforce
    have "rings_ok rs" using b'(2) by (simp add: b'(3))
    with b'(1) show ?thesis unfolding b'(3) by blast
  next
    case False
    from driver_drops [OF this] show ?thesis
      by (intro exI [of _ "bk_coreAudioToNetwork b"] exI [of _ "st_ringOverruns (bk_statistics b)"]) (simp add: assms)
  qed
qed

lemma driver_effect:
  assumes "core_ok e"
  shows "length out = bytesCount div 4 \<Longrightarrow>
      \<exists>o' b. on_read_client_input (Some (en_block e)) (Some out) bytesCount = Some (o', Some b) \<and> moves {} {} e (e\<lparr>en_block := b\<rparr>)"
    and "length frames = bytesCount div 4 \<Longrightarrow>
      \<exists>b. on_write_mixed_output (Some (en_block e)) (Some frames) bytesCount = Some (Some b) \<and> moves {} {} e (e\<lparr>en_block := b\<rparr>)"
proof -
  note rings = rings_of_wf [OF assms] core_okD(4) [OF assms]
  have moved: "moves {} {} e (e\<lparr>en_block := (en_block e)\<lparr>bk_networkToCoreAudio := rs, bk_statistics := (bk_statistics (en_block e))\<lparr>st_inputUnderruns := n\<rparr>\<rparr>\<rparr>)"
    "moves {} {} e (e\<lparr>en_block := (en_block e)\<lparr>bk_coreAudioToNetwork := rs, bk_statistics := (bk_statistics (en_block e))\<lparr>st_ringOverruns := n\<rparr>\<rparr>\<rparr>)"
    if "rings_ok rs" for rs n
    using that rings by (auto intro!: block_moves [OF assms] simp: same_audio_defs)
  show "\<exists>o' b. on_read_client_input (Some (en_block e)) (Some out) bytesCount = Some (o', Some b) \<and> moves {} {} e (e\<lparr>en_block := b\<rparr>)"
    if "length out = bytesCount div 4"
    using driver_defined(1) [OF conjunct1 conjunct2, OF rings(1,1) that] moved(1) by blast
  show "\<exists>b. on_write_mixed_output (Some (en_block e)) (Some frames) bytesCount = Some (Some b) \<and> moves {} {} e (e\<lparr>en_block := b\<rparr>)"
    if "length frames = bytesCount div 4"
    using driver_defined(2) [OF conjunct1 conjunct2, OF rings(1,1) that] moved(2) by blast
qed

end
