(* ===== verification/Driver_Device.thy ===== *)
theory Driver_Device
  imports Engine_Threads
begin

text \<open>
  The driver's device, \<open>LXToolDevice\<close> of Sources/Driver/LXToolDevice.cpp: how it finds the shared memory, hands the
  pointer to its handler of audio requests, and keeps \<open>ioRunning\<close>; and the factory of Sources/Driver/PlugInMain.cpp.
  A pointer to the block is the number of the mapping it points into, so that one which has outlived its
  mapping leads nowhere: using it is undefined, the outer \<open>None\<close>.
\<close>

section \<open>The device\<close>

text \<open>\<open>dd_mapping\<close> counts the attempts to map \<open>sharedMemory_\<close>, so that no two of its mappings have the same number; \<open>dd_handler\<close> is the handler's own pointer.\<close>

record driver_device =
  dd_memory :: shared_memory
  dd_mapping :: nat
  dd_bridge :: "nat option"
  dd_handler :: "nat option"

text \<open>What the system answers the three openings of \<open>openDriverSharedMemory\<close>.\<close>

type_synonym driver_answers = "memory_answers \<times> memory_answers \<times> memory_answers"

definition new_device :: driver_device where
  "new_device = \<lparr> dd_memory = new_memory, dd_mapping = 0, dd_bridge = None, dd_handler = None \<rparr>"

definition device_get :: "driver_device \<Rightarrow> nat option" where
  "device_get d = (if sm_block (dd_memory d) = None then None else Some (dd_mapping d))"

text \<open>What is behind a pointer: \<open>None\<close> if it dangles, \<open>Some None\<close> for the null pointer.\<close>

definition behind :: "nat option \<Rightarrow> driver_device \<Rightarrow> shared_block option option" where
  "behind pointer d = (case pointer of
     None \<Rightarrow> Some None
   | Some _ \<Rightarrow> if pointer = device_get d then Some (map_option snd (sm_block (dd_memory d))) else None)"

definition on_mapping :: "(shared_block \<Rightarrow> shared_block) \<Rightarrow> driver_device \<Rightarrow> driver_device" where
  "on_mapping f d = d\<lparr>dd_memory := (dd_memory d)\<lparr>sm_block := map_option (apsnd f) (sm_block (dd_memory d))\<rparr>\<rparr>"

definition device_open :: "int \<Rightarrow> driver_answers \<Rightarrow> driver_device \<Rightarrow> bool \<times> driver_device \<times> memory_call list" where
  "device_open block_bytes answers d = (case answers of (a1, a2, a3) \<Rightarrow>
     case driver_open_memory block_bytes a1 a2 a3 (dd_memory d) of (ok, m, calls) \<Rightarrow>
       (ok, d\<lparr>dd_memory := m, dd_mapping := dd_mapping d + 1\<rparr>, calls))"

definition device_initialize :: "int \<Rightarrow> driver_answers \<Rightarrow> driver_device \<Rightarrow> driver_device \<times> memory_call list" where
  "device_initialize block_bytes answers d =
     (let (ok, d1, calls) = device_open block_bytes answers d;
          d2 = (if ok then d1\<lparr>dd_bridge := device_get d1\<rparr> else d1)
      in (d2\<lparr>dd_handler := dd_bridge d2\<rparr>, calls))"

definition store_ioRunning :: "bool \<Rightarrow> driver_device \<Rightarrow> driver_device option" where
  "store_ioRunning v d = map_option (\<lambda>bridge. if bridge = None then d else on_mapping (\<lambda>b. b\<lparr>bk_ioRunning := v\<rparr>) d)
     (behind (dd_bridge d) d)"

definition StartIOImpl ::
    "int \<Rightarrow> driver_answers \<Rightarrow> nat \<Rightarrow> driver_device \<Rightarrow> (driver_device \<times> memory_call list) option" where
  "StartIOImpl block_bytes answers startCount d =
     (let (ok, d1, calls) = (if dd_bridge d = None then device_open block_bytes answers d else (False, d, []));
          d2 = (if ok then d1\<lparr>dd_bridge := device_get d1, dd_handler := device_get d1\<rparr> else d1)
      in map_option (\<lambda>d3. (d3, calls)) (if startCount = 0 then store_ioRunning True d2 else Some d2))"

definition StopIOImpl :: "nat \<Rightarrow> driver_device \<Rightarrow> driver_device option" where
  "StopIOImpl startCount d = (if startCount = 0 then store_ioRunning False d else Some d)"

text \<open>A request to the handler, with the pointer the handler has.\<close>

definition device_records ::
    "f32 list option \<Rightarrow> nat \<Rightarrow> driver_device \<Rightarrow> (f32 list option \<times> driver_device) option" where
  "device_records bytes bytesCount d = (case behind (dd_handler d) d of
     None \<Rightarrow> None
   | Some bridge \<Rightarrow> map_option (\<lambda>(out, bridge'). (out, case bridge' of None \<Rightarrow> d | Some b \<Rightarrow> on_mapping (\<lambda>_. b) d))
       (on_read_client_input bridge bytes bytesCount))"

definition device_plays :: "f32 list option \<Rightarrow> nat \<Rightarrow> driver_device \<Rightarrow> driver_device option" where
  "device_plays bytes bytesCount d = (case behind (dd_handler d) d of
     None \<Rightarrow> None
   | Some bridge \<Rightarrow> map_option (\<lambda>bridge'. case bridge' of None \<Rightarrow> d | Some b \<Rightarrow> on_mapping (\<lambda>_. b) d)
       (on_write_mixed_output bridge bytes bytesCount))"

section \<open>The plug-in\<close>

text \<open>Where the factory throws, if it does: before the device has been initialized or after. What has been made is
  destroyed again, and a device's destructor closes its memory.\<close>

datatype factory_throw = Before_initialize | After_initialize

definition AESBridgePlugInFactory ::
    "int \<Rightarrow> bool \<Rightarrow> factory_throw option \<Rightarrow> driver_answers \<Rightarrow> driver_device option \<times> memory_call list" where
  "AESBridgePlugInFactory block_bytes typeIsAudioServerPlugIn throws answers =
     (if \<not> typeIsAudioServerPlugIn then (None, [])
      else let (d, calls) = device_initialize block_bytes answers new_device
        in case throws of
             None \<Rightarrow> (Some d, calls)
           | Some Before_initialize \<Rightarrow> (None, [])
           | Some After_initialize \<Rightarrow> (None, calls @ snd (memory_close (dd_memory d))))"

section \<open>A device at work\<close>

text \<open>A client starts or stops IO, the handler is called, or another process changes the block's contents.\<close>

datatype device_event =
    Start_io driver_answers nat
  | Stop_io nat
  | Client_records "f32 list" nat
  | Clients_play "f32 list" nat
  | Others_change "shared_block \<Rightarrow> shared_block"

fun device_step :: "int \<Rightarrow> device_event \<Rightarrow> driver_device \<Rightarrow> (driver_device \<times> memory_call list) option" where
  "device_step block_bytes (Start_io answers startCount) d = StartIOImpl block_bytes answers startCount d"
| "device_step block_bytes (Stop_io startCount) d = map_option (\<lambda>d'. (d', [])) (StopIOImpl startCount d)"
| "device_step block_bytes (Client_records out bytesCount) d =
     map_option (\<lambda>(_, d'). (d', [])) (device_records (Some out) bytesCount d)"
| "device_step block_bytes (Clients_play frames bytesCount) d =
     map_option (\<lambda>d'. (d', [])) (device_plays (Some frames) bytesCount d)"
| "device_step block_bytes (Others_change f) d = Some (on_mapping f d, [])"

fun device_run :: "int \<Rightarrow> device_event list \<Rightarrow> driver_device \<Rightarrow> (driver_device \<times> memory_call list) option" where
  "device_run block_bytes [] d = Some (d, [])"
| "device_run block_bytes (event # events) d = (case device_step block_bytes event d of
     None \<Rightarrow> None
   | Some (d1, calls) \<Rightarrow> map_option (apsnd (append calls)) (device_run block_bytes events d1))"

text \<open>Any block has 64 rings each way, and Core Audio's buffers hold the bytes it says.\<close>

definition block_rings :: "shared_block \<Rightarrow> bool" where
  "block_rings b \<longleftrightarrow> rings_ok (bk_networkToCoreAudio b) \<and> rings_ok (bk_coreAudioToNetwork b)"

fun maps_block :: "driver_answers \<Rightarrow> bool" where
  "maps_block (a1, a2, a3) \<longleftrightarrow> (\<forall>a \<in> {a1, a2, a3}. \<forall>layout b. ma_mmap a = Some (layout, b) \<longrightarrow> block_rings b)"

fun device_event_ok :: "device_event \<Rightarrow> bool" where
  "device_event_ok (Start_io answers startCount) \<longleftrightarrow> maps_block answers"
| "device_event_ok (Stop_io startCount) \<longleftrightarrow> True"
| "device_event_ok (Client_records out bytesCount) \<longleftrightarrow> length out = bytesCount div 4"
| "device_event_ok (Clients_play frames bytesCount) \<longleftrightarrow> length frames = bytesCount div 4"
| "device_event_ok (Others_change f) \<longleftrightarrow> (\<forall>b. block_rings b \<longrightarrow> block_rings (f b))"

text \<open>The numbers the library passes: how many clients there are besides the one that starts or stops. \<open>None\<close> if a
  list of events does not follow this; \<open>io_busy\<close> if at least one client is there throughout. Only the driver
  writes \<open>ioRunning\<close>.\<close>

fun io_clients :: "nat \<Rightarrow> device_event list \<Rightarrow> nat option" where
  "io_clients n [] = Some n"
| "io_clients n (Start_io answers k # events) = (if k = n then io_clients (n + 1) events else None)"
| "io_clients n (Stop_io k # events) = (if n = k + 1 then io_clients k events else None)"
| "io_clients n (_ # events) = io_clients n events"

fun io_busy :: "nat \<Rightarrow> device_event list \<Rightarrow> bool" where
  "io_busy n [] \<longleftrightarrow> 0 < n"
| "io_busy n (Start_io answers k # events) \<longleftrightarrow> 0 < n \<and> k = n \<and> io_busy (n + 1) events"
| "io_busy n (Stop_io k # events) \<longleftrightarrow> n = k + 1 \<and> io_busy k events"
| "io_busy n (_ # events) \<longleftrightarrow> 0 < n \<and> io_busy n events"

fun keeps_ioRunning :: "device_event \<Rightarrow> bool" where
  "keeps_ioRunning (Others_change f) \<longleftrightarrow> (\<forall>b. bk_ioRunning (f b) = bk_ioRunning b)"
| "keeps_ioRunning _ \<longleftrightarrow> True"

fun starts_or_stops :: "device_event \<Rightarrow> bool" where
  "starts_or_stops (Start_io answers k) \<longleftrightarrow> True"
| "starts_or_stops (Stop_io k) \<longleftrightarrow> True"
| "starts_or_stops _ \<longleftrightarrow> False"

section \<open>The invariant\<close>

definition device_inv :: "driver_device \<Rightarrow> bool" where
  "device_inv d \<longleftrightarrow> dd_handler d = dd_bridge d \<and> dd_bridge d = device_get d
     \<and> (\<forall>layout b. sm_block (dd_memory d) = Some (layout, b) \<longrightarrow> block_rings b)"

definition device_block :: "driver_device \<Rightarrow> shared_block option" where
  "device_block d = map_option snd (sm_block (dd_memory d))"

lemma inv_behind:
  assumes "device_inv d"
  shows "behind (dd_bridge d) d = Some (device_block d)" "behind (dd_handler d) d = Some (device_block d)"
  using assms by (auto simp: device_inv_def behind_def device_block_def device_get_def split: option.splits)

lemma inv_attached: "device_inv d \<Longrightarrow> dd_bridge d = None \<longleftrightarrow> device_block d = None"
  by (auto simp: device_inv_def device_get_def device_block_def)

lemma on_mapping_select [simp]:
  "dd_mapping (on_mapping f d) = dd_mapping d" "dd_bridge (on_mapping f d) = dd_bridge d"
  "dd_handler (on_mapping f d) = dd_handler d" "device_get (on_mapping f d) = device_get d"
  "device_block (on_mapping f d) = map_option f (device_block d)"
  "memory_held (dd_memory (on_mapping f d)) = memory_held (dd_memory d)"
  by (simp_all add: on_mapping_def device_get_def device_block_def memory_held_def option.map_comp comp_def)

lemma inv_on_mapping:
  assumes "device_inv d" "\<And>b. device_block d = Some b \<Longrightarrow> block_rings b \<Longrightarrow> block_rings (f b)"
  shows "device_inv (on_mapping f d)"
  using assms by (auto simp: device_inv_def device_block_def on_mapping_def device_get_def)

lemma driver_open_block:
  assumes "driver_open_memory block_bytes a1 a2 a3 m = (ok, m', calls)" "maps_block (a1, a2, a3)"
  shows "if ok then \<exists>b. sm_block m' = Some (new_layout, b) \<and> block_rings b else sm_block m' = None"
proof -
  obtain ok1 m1 c1 where o1: "memory_open block_bytes False a1 m = (ok1, m1, c1)" by (metis prod_cases3)
  obtain ok2 i c2 where o2: "memory_open block_bytes True a2 new_memory = (ok2, i, c2)" by (metis prod_cases3)
  obtain ok3 m2 c3 where o3: "memory_open block_bytes False a3 m1 = (ok3, m2, c3)" by (metis prod_cases3)
  note e1 = memory_open_effect [OF o1] and e3 = memory_open_effect [OF o3]
  show ?thesis
    using assms(1) e1 e3 assms(2) by (cases ok1; cases ok2; cases ok3) (auto simp: driver_open_memory_def o1 o2 o3)
qed

text \<open>What an attempt to open leaves, and what it asks of the system.\<close>

lemma device_open_effect:
  assumes "device_open block_bytes answers d = (ok, d1, calls)" "maps_block answers"
  shows "(device_block d1 \<noteq> None \<longleftrightarrow> ok) \<and> (\<forall>layout b. sm_block (dd_memory d1) = Some (layout, b) \<longrightarrow> block_rings b)
    \<and> dd_bridge d1 = dd_bridge d \<and> dd_handler d1 = dd_handler d
    \<and> memory_balance calls (memory_held (dd_memory d)) = Some (memory_held (dd_memory d1))"
proof -
  obtain a1 a2 a3 where a: "answers = (a1, a2, a3)" by (cases answers)
  obtain ok' m cs where o: "driver_open_memory block_bytes a1 a2 a3 (dd_memory d) = (ok', m, cs)" by (metis prod_cases3)
  from driver_open_block [OF o] driver_balance [OF o] assms show ?thesis
    by (auto simp: a o device_open_def device_block_def split: if_splits)
qed

lemma initialize_effect:
  assumes "device_initialize block_bytes answers new_device = (d, calls)" "maps_block answers"
  shows "device_inv d \<and> memory_balance calls {#} = Some (memory_held (dd_memory d))"
proof -
  obtain ok d1 cs where o: "device_open block_bytes answers new_device = (ok, d1, cs)" by (metis prod_cases3)
  have new: "memory_held (dd_memory new_device) = {#}" "dd_bridge new_device = None" "dd_handler new_device = None"
    by (simp_all add: memory_held_def new_memory_def new_device_def)
  from device_open_effect [OF o assms(2)] assms(1) show ?thesis
    by (auto simp: o new device_initialize_def device_inv_def device_get_def device_block_def split: if_splits)
qed

lemma store_ioRunning_effect:
  assumes "device_inv d"
  shows "\<exists>d'. store_ioRunning v d = Some d' \<and> device_inv d' \<and> dd_bridge d' = dd_bridge d
    \<and> memory_held (dd_memory d') = memory_held (dd_memory d)
    \<and> device_block d' = map_option (\<lambda>b. b\<lparr>bk_ioRunning := v\<rparr>) (device_block d)"
proof (cases "device_block d")
  case None
  then show ?thesis using assms inv_behind [OF assms] by (simp add: store_ioRunning_def)
next
  case (Some b)
  have "device_inv (on_mapping (\<lambda>b. b\<lparr>bk_ioRunning := v\<rparr>) d)"
    by (rule inv_on_mapping [OF assms]) (simp add: block_rings_def)
  with Some show ?thesis using inv_behind [OF assms] by (simp add: store_ioRunning_def)
qed

lemma start_effect:
  assumes inv: "device_inv d" and answers: "maps_block answers"
  shows "\<exists>d' calls. StartIOImpl block_bytes answers startCount d = Some (d', calls) \<and> device_inv d'
    \<and> memory_balance calls (memory_held (dd_memory d)) = Some (memory_held (dd_memory d'))
    \<and> (dd_bridge d \<noteq> None \<longrightarrow> calls = [] \<and> dd_bridge d' = dd_bridge d
        \<and> device_block d' = (if startCount = 0 then map_option (\<lambda>b. b\<lparr>bk_ioRunning := True\<rparr>) (device_block d) else device_block d))
    \<and> (startCount = 0 \<longrightarrow> (\<forall>b. device_block d' = Some b \<longrightarrow> bk_ioRunning b))"
proof -
  obtain ok d1 calls where d1: "(if dd_bridge d = None then device_open block_bytes answers d else (False, d, [])) = (ok, d1, calls)"
    by (metis prod_cases3)
  define d2 where "d2 = (if ok then d1\<lparr>dd_bridge := device_get d1, dd_handler := device_get d1\<rparr> else d1)"
  have d2: "device_inv d2" "memory_balance calls (memory_held (dd_memory d)) = Some (memory_held (dd_memory d2))"
    "dd_bridge d \<noteq> None \<longrightarrow> calls = [] \<and> d2 = d"
  proof -
    have "device_inv d2 \<and> memory_balance calls (memory_held (dd_memory d)) = Some (memory_held (dd_memory d2))
      \<and> (dd_bridge d \<noteq> None \<longrightarrow> calls = [] \<and> d2 = d)"
    proof (cases "dd_bridge d")
      case None
      with d1 have "device_open block_bytes answers d = (ok, d1, calls)" by simp
      with device_open_effect [OF this answers] None inv show ?thesis
        by (auto simp: d2_def device_inv_def device_get_def device_block_def)
    next
      case (Some k)
      with d1 inv show ?thesis by (auto simp: d2_def)
    qed
    then show "device_inv d2" "memory_balance calls (memory_held (dd_memory d)) = Some (memory_held (dd_memory d2))"
      "dd_bridge d \<noteq> None \<longrightarrow> calls = [] \<and> d2 = d" by blast+
  qed
  have run: "StartIOImpl block_bytes answers startCount d
      = map_option (\<lambda>d3. (d3, calls)) (if startCount = 0 then store_ioRunning True d2 else Some d2)"
    by (simp add: StartIOImpl_def d1 d2_def Let_def)
  show ?thesis
  proof (cases "startCount = 0")
    case True
    from store_ioRunning_effect [OF d2(1), of True] True d2 run show ?thesis by auto
  next
    case False
    with d2 run show ?thesis by auto
  qed
qed


text \<open>The handler's requests, whether or not there is a block.\<close>

lemma records_effect:
  assumes inv: "device_inv d" and len: "length out = bytesCount div 4"
  shows "\<exists>out' d'. device_records (Some out) bytesCount d = Some (out', d') \<and> device_inv d' \<and> dd_bridge d' = dd_bridge d
    \<and> memory_held (dd_memory d') = memory_held (dd_memory d)
    \<and> map_option bk_ioRunning (device_block d') = map_option bk_ioRunning (device_block d)"
proof (cases "device_block d")
  case None
  then show ?thesis using inv inv_behind [OF inv]
    by (auto simp: device_records_def on_read_client_input_def Let_def)
next
  case (Some b)
  then have rings: "rings_ok (bk_networkToCoreAudio b)" "rings_ok (bk_coreAudioToNetwork b)"
    using inv by (auto simp: device_inv_def device_block_def block_rings_def)
  from driver_defined(1) [OF this len] obtain o' rs n where step: "on_read_client_input (Some b) (Some out) bytesCount = Some (o',
      Some (b\<lparr>bk_networkToCoreAudio := rs, bk_statistics := (bk_statistics b)\<lparr>st_inputUnderruns := n\<rparr>\<rparr>))" "rings_ok rs" by blast
  let ?d = "on_mapping (\<lambda>_. b\<lparr>bk_networkToCoreAudio := rs, bk_statistics := (bk_statistics b)\<lparr>st_inputUnderruns := n\<rparr>\<rparr>) d"
  have "device_inv ?d" by (rule inv_on_mapping [OF inv]) (simp add: block_rings_def step(2) rings)
  moreover have "device_records (Some out) bytesCount d = Some (o', ?d)"
    using step(1) Some inv_behind [OF inv] by (simp add: device_records_def)
  ultimately show ?thesis using Some by simp
qed

lemma plays_effect:
  assumes inv: "device_inv d" and len: "length frames = bytesCount div 4"
  shows "\<exists>d'. device_plays (Some frames) bytesCount d = Some d' \<and> device_inv d' \<and> dd_bridge d' = dd_bridge d
    \<and> memory_held (dd_memory d') = memory_held (dd_memory d)
    \<and> map_option bk_ioRunning (device_block d') = map_option bk_ioRunning (device_block d)"
proof (cases "device_block d")
  case None
  then show ?thesis using inv inv_behind [OF inv]
    by (auto simp: device_plays_def on_write_mixed_output_def write_output_def)
next
  case (Some b)
  then have rings: "rings_ok (bk_networkToCoreAudio b)" "rings_ok (bk_coreAudioToNetwork b)"
    using inv by (auto simp: device_inv_def device_block_def block_rings_def)
  from driver_defined(2) [OF this len] obtain rs n where step: "on_write_mixed_output (Some b) (Some frames) bytesCount = Some (
      Some (b\<lparr>bk_coreAudioToNetwork := rs, bk_statistics := (bk_statistics b)\<lparr>st_ringOverruns := n\<rparr>\<rparr>))" "rings_ok rs" by blast
  let ?d = "on_mapping (\<lambda>_. b\<lparr>bk_coreAudioToNetwork := rs, bk_statistics := (bk_statistics b)\<lparr>st_ringOverruns := n\<rparr>\<rparr>) d"
  have "device_inv ?d" by (rule inv_on_mapping [OF inv]) (simp add: block_rings_def step(2) rings)
  moreover have "device_plays (Some frames) bytesCount d = Some ?d"
    using step(1) Some inv_behind [OF inv] by (simp add: device_plays_def)
  ultimately show ?thesis using Some by simp
qed

text \<open>What an event does to \<open>ioRunning\<close> once there is a block.\<close>

fun io_flag :: "device_event \<Rightarrow> bool \<Rightarrow> bool" where
  "io_flag (Start_io answers k) v \<longleftrightarrow> k = 0 \<or> v"
| "io_flag (Stop_io k) v \<longleftrightarrow> k \<noteq> 0 \<and> v"
| "io_flag _ v \<longleftrightarrow> v"

lemma io_flag_kept:
  "io_flag (Client_records out bytesCount) = id" "io_flag (Clients_play frames bytesCount) = id" "io_flag (Others_change f) = id"
  by (simp_all add: fun_eq_iff)

definition device_flag :: "driver_device \<Rightarrow> bool option" where
  "device_flag d = map_option bk_ioRunning (device_block d)"

lemma device_step_effect:
  assumes inv: "device_inv d" and ok: "device_event_ok event"
  shows "\<exists>d' calls. device_step block_bytes event d = Some (d', calls) \<and> device_inv d'
    \<and> memory_balance calls (memory_held (dd_memory d)) = Some (memory_held (dd_memory d'))
    \<and> (dd_bridge d \<noteq> None \<longrightarrow> calls = [] \<and> dd_bridge d' = dd_bridge d
        \<and> (keeps_ioRunning event \<longrightarrow> device_flag d' = map_option (io_flag event) (device_flag d)))"
proof (cases event)
  case (Start_io answers startCount)
  with ok start_effect [OF inv, of answers block_bytes startCount] obtain d' calls where
    "StartIOImpl block_bytes answers startCount d = Some (d', calls)" "device_inv d'"
    "memory_balance calls (memory_held (dd_memory d)) = Some (memory_held (dd_memory d'))"
    "dd_bridge d \<noteq> None \<longrightarrow> calls = [] \<and> dd_bridge d' = dd_bridge d
        \<and> device_block d' = (if startCount = 0 then map_option (\<lambda>b. b\<lparr>bk_ioRunning := True\<rparr>) (device_block d) else device_block d)"
    by auto
  with Start_io show ?thesis by (auto simp: device_flag_def option.map_comp comp_def)
next
  case (Stop_io startCount)
  with store_ioRunning_effect [OF inv, of False] inv show ?thesis
    by (cases "startCount = 0") (auto simp: StopIOImpl_def device_flag_def option.map_comp comp_def)
next
  case (Client_records out bytesCount)
  with records_effect [OF inv, of out bytesCount] ok show ?thesis by (auto simp: device_flag_def io_flag_kept option.map_id)
next
  case (Clients_play frames bytesCount)
  with plays_effect [OF inv, of frames bytesCount] ok show ?thesis by (auto simp: device_flag_def io_flag_kept option.map_id)
next
  case (Others_change f)
  with inv_on_mapping [OF inv, of f] ok show ?thesis by (auto simp: device_flag_def option.map_comp comp_def)
qed

lemma device_run_effect:
  assumes "device_inv d" "list_all device_event_ok events"
  shows "\<exists>d' calls. device_run block_bytes events d = Some (d', calls) \<and> device_inv d'
    \<and> memory_balance calls (memory_held (dd_memory d)) = Some (memory_held (dd_memory d'))
    \<and> (dd_bridge d \<noteq> None \<longrightarrow> calls = [] \<and> dd_bridge d' = dd_bridge d
        \<and> (list_all keeps_ioRunning events \<longrightarrow> device_flag d' = map_option (fold io_flag events) (device_flag d)))"
  using assms
proof (induction events arbitrary: d)
  case (Cons event events)
  obtain d1 c1 where d1: "device_step block_bytes event d = Some (d1, c1)" "device_inv d1"
    "memory_balance c1 (memory_held (dd_memory d)) = Some (memory_held (dd_memory d1))"
    "dd_bridge d \<noteq> None \<longrightarrow> c1 = [] \<and> dd_bridge d1 = dd_bridge d \<and> (keeps_ioRunning event \<longrightarrow>
       device_flag d1 = map_option (io_flag event) (device_flag d))"
    using device_step_effect [OF Cons.prems(1), of event block_bytes] Cons.prems(2) by auto
  have "list_all device_event_ok events" using Cons.prems(2) by simp
  from Cons.IH [OF d1(2) this] obtain d2 c2 where d2: "device_run block_bytes events d1 = Some (d2, c2)" "device_inv d2"
    "memory_balance c2 (memory_held (dd_memory d1)) = Some (memory_held (dd_memory d2))"
    "dd_bridge d1 \<noteq> None \<longrightarrow> c2 = [] \<and> dd_bridge d2 = dd_bridge d1 \<and> (list_all keeps_ioRunning events \<longrightarrow>
       device_flag d2 = map_option (fold io_flag events) (device_flag d1))"
    by (elim exE conjE) (rule that)
  with d1 show ?case by (cases "device_flag d") auto
qed (simp add: option.map_id)

section \<open>What holds of the driver\<close>

lemma factory_made:
  assumes "AESBridgePlugInFactory block_bytes typeIsAudioServerPlugIn throws answers = (made, calls)" "maps_block answers"
  shows "case made of
      None \<Rightarrow> memory_balance calls {#} = Some {#}
    | Some d \<Rightarrow> device_inv d \<and> memory_balance calls {#} = Some (memory_held (dd_memory d))"
proof -
  obtain d cs where d: "device_initialize block_bytes answers new_device = (d, cs)" by fastforce
  obtain m ds where m: "memory_close (dd_memory d) = (m, ds)" by fastforce
  have "memory_held m = {#}" using m by (auto simp: memory_close_def memory_held_def)
  with initialize_effect [OF d assms(2)] close_balance [OF m, of "{#}"] assms(1) show ?thesis
    by (auto simp: AESBridgePlugInFactory_def d m split: if_splits option.splits factory_throw.splits)
qed

text \<open>C16: The driver never follows a dangling pointer and loses nothing: whatever the factory's opening of the shared
  memory came to, and whatever clients, Core Audio and the other processes do, the handler's pointer is always
  the device's, and is null or leads into the mapping that the device holds; every descriptor, lock and mapping is
  accounted for; and a device that has found its block makes no system call any more, so that no audio request
  and no start can lose it.\<close>

theorem driver_attachment:
  assumes "AESBridgePlugInFactory block_bytes True None answers = (Some d0, opening)" "maps_block answers"
    and "list_all device_event_ok events"
  shows "\<exists>d calls. device_run block_bytes events d0 = Some (d, calls)
    \<and> dd_handler d = dd_bridge d \<and> dd_bridge d = device_get d
    \<and> memory_balance (opening @ calls) {#} = Some (memory_held (dd_memory d))
    \<and> (dd_bridge d0 \<noteq> None \<longrightarrow> calls = [] \<and> dd_bridge d = dd_bridge d0)"
proof -
  have made: "device_inv d0" "memory_balance opening {#} = Some (memory_held (dd_memory d0))"
    using factory_made [OF assms(1,2)] by simp_all
  from device_run_effect [OF made(1) assms(3), of block_bytes] made show ?thesis by (auto simp: device_inv_def)
qed

lemma flags_of_clients:
  assumes "io_clients m events = Some n" "0 < m \<longrightarrow> v"
  shows "(0 < n \<longrightarrow> fold io_flag events v) \<and> (list_ex starts_or_stops events \<or> (0 < m \<longleftrightarrow> v) \<longrightarrow> fold io_flag events v \<longrightarrow> 0 < n)"
  using assms
proof (induction events arbitrary: m v)
  case (Cons event events)
  then show ?case
  proof (cases event)
    case (Start_io answers k)
    with Cons.IH [of "k + 1" True] Cons.prems show ?thesis by (cases "k = m") auto
  next
    case (Stop_io k)
    with Cons.IH [of k "k \<noteq> 0 \<and> v"] Cons.prems show ?thesis by (cases "m = k + 1") auto
  next
    case (Client_records out bytesCount)
    with Cons.IH [OF _ Cons.prems(2)] Cons.prems(1) show ?thesis by simp
  next
    case (Clients_play frames bytesCount)
    with Cons.IH [OF _ Cons.prems(2)] Cons.prems(1) show ?thesis by simp
  next
    case (Others_change f)
    with Cons.IH [OF _ Cons.prems(2)] Cons.prems(1) show ?thesis by simp
  qed
qed simp

text \<open>C28: A device that has found its block when it was made keeps \<open>ioRunning\<close> true to its clients: as soon as one
  has started or stopped, the flag says whether there is any.\<close>

theorem io_running_truthful:
  assumes "AESBridgePlugInFactory block_bytes True None answers = (Some d0, opening)" "maps_block answers" "dd_bridge d0 \<noteq> None"
    and "list_all device_event_ok events" "list_all keeps_ioRunning events"
    and "io_clients 0 events = Some n" "list_ex starts_or_stops events"
  shows "\<exists>d b. device_run block_bytes events d0 = Some (d, []) \<and> device_block d = Some b \<and> (bk_ioRunning b \<longleftrightarrow> 0 < n)"
proof -
  have inv: "device_inv d0" using factory_made [OF assms(1,2)] by simp
  then obtain b0 where b0: "device_block d0 = Some b0" using inv_attached assms(3) by (cases "device_block d0") auto
  with device_run_effect [OF inv assms(4), of block_bytes] assms(3,5) obtain d b where
    "device_run block_bytes events d0 = Some (d, [])" "device_block d = Some b" "bk_ioRunning b = fold io_flag events (bk_ioRunning b0)"
    by (auto simp: device_flag_def)
  with flags_of_clients [OF assms(6), of "bk_ioRunning b0"] assms(7) show ?thesis by auto
qed

lemma busy_positive: "io_busy n events \<Longrightarrow> 0 < n"
  by (induction n events rule: io_busy.induct) simp_all

lemma busy_flag: "io_busy n events \<Longrightarrow> fold io_flag events v = v"
proof (induction events arbitrary: n)
  case (Cons event events)
  show ?case
  proof (cases event)
    case (Stop_io k)
    with Cons.prems have "io_busy k events" by simp
    with busy_positive [OF this] Cons.IH [OF this] Stop_io show ?thesis by simp
  next
    case (Start_io answers k)
    with Cons.prems have "io_busy (n + 1) events" "0 < k" by simp_all
    with Cons.IH Start_io show ?thesis by simp
  qed (use Cons in auto)
qed simp

text \<open>C34: A device that finds its block late misses its clients: if the block could not be opened until some client was
  running, then \<open>ioRunning\<close> stays as it was found, however many clients start and record, until the last of them
  has stopped.\<close>

theorem late_attach_unseen:
  assumes "device_inv d" "dd_bridge d = None" "maps_block answers" "0 < k"
    and "StartIOImpl block_bytes answers k d = Some (d1, calls)" "device_block d1 = Some b1"
    and "list_all device_event_ok events" "list_all keeps_ioRunning events" "io_busy (k + 1) events"
  shows "\<exists>d2 b2. device_run block_bytes events d1 = Some (d2, []) \<and> device_block d2 = Some b2
    \<and> (\<exists>m. driver_open_memory block_bytes (fst answers) (fst (snd answers)) (snd (snd answers)) (dd_memory d) = (True, m, calls)
         \<and> sm_block m = Some (new_layout, b1))
    \<and> bk_ioRunning b2 = bk_ioRunning b1"
proof -
  obtain a1 a2 a3 where a: "answers = (a1, a2, a3)" by (cases answers)
  obtain ok m cs where o: "driver_open_memory block_bytes a1 a2 a3 (dd_memory d) = (ok, m, cs)" by (metis prod_cases3)
  have opened: "ok" "sm_block m = Some (new_layout, b1)" "cs = calls"
    using assms(2,4-6) driver_open_block [OF o] assms(3)
    by (auto simp: StartIOImpl_def device_open_def a o device_block_def split: if_splits)
  obtain d' calls' where "StartIOImpl block_bytes answers k d = Some (d', calls')" "device_inv d'"
    using start_effect [OF assms(1,3)] by blast
  with assms(5) have inv: "device_inv d1" by simp
  then have "dd_bridge d1 \<noteq> None" using inv_attached assms(6) by auto
  with device_run_effect [OF inv assms(7), of block_bytes] assms(6,8) obtain d2 b2 where
    "device_run block_bytes events d1 = Some (d2, [])" "device_block d2 = Some b2" "bk_ioRunning b2 = fold io_flag events (bk_ioRunning b1)"
    by (auto simp: device_flag_def)
  with opened o busy_flag [OF assms(9)] a show ?thesis by auto
qed

section \<open>Witnesses\<close>

text \<open>The file is there, or cannot be opened.\<close>

definition found_file :: memory_answers where
  "found_file = \<lparr> ma_open = 3, ma_fstat = True, ma_size = 4205760, ma_mode = 438, ma_flock = True, ma_fchmod = True,
     ma_ftruncate = True, ma_mmap = Some (new_layout, new_block), ma_errno = 0 \<rparr>"

definition no_file :: memory_answers where
  "no_file = found_file\<lparr>ma_open := -1, ma_errno := 2\<rparr>"

lemma new_block_rings: "block_rings new_block"
  by (simp add: block_rings_def new_block_def rings_ok_def new_ring_inv)

lemma answers_map: "maps_block (found_file, found_file, found_file)" "maps_block (no_file, no_file, no_file)"
  using new_block_rings by (simp_all add: found_file_def no_file_def)

lemma found_open:
  "sm_block m = None \<Longrightarrow> sm_descriptor m < 0 \<Longrightarrow> driver_open_memory 4205760 found_file a2 a3 m
    = (True, m\<lparr>sm_lastError := Errno 0, sm_descriptor := 3, sm_block := Some (new_layout, new_block)\<rparr>,
       [Sys_open False 3, Sys_fstat, Sys_mmap True])"
  by (simp add: driver_open_memory_def memory_open_def memory_close_def found_file_def placed_def valid_layout_iff Let_def)

lemma no_open:
  "driver_open_memory 4205760 no_file no_file a3 new_memory = (False, new_memory\<lparr>sm_lastError := Errno 2\<rparr>, [Sys_open False (-1), Sys_open True (-1)])"
  by (simp add: driver_open_memory_def memory_open_def memory_close_def no_file_def found_file_def new_memory_def owner_setup_def Let_def)

definition attached_device :: driver_device where
  "attached_device = \<lparr> dd_memory = new_memory\<lparr>sm_descriptor := 3, sm_block := Some (new_layout, new_block)\<rparr>,
     dd_mapping = 1, dd_bridge = Some 1, dd_handler = Some 1 \<rparr>"

lemma factory_found:
  "AESBridgePlugInFactory 4205760 True None (found_file, found_file, found_file)
    = (Some attached_device, [Sys_open False 3, Sys_fstat, Sys_mmap True])"
proof -
  have "sm_block (dd_memory new_device) = None" "sm_descriptor (dd_memory new_device) < 0"
    by (simp_all add: new_device_def new_memory_def)
  from found_open [OF this] show ?thesis
    by (simp add: AESBridgePlugInFactory_def device_initialize_def device_open_def new_device_def device_get_def attached_device_def new_memory_def)
qed

theorem driver_attachment_witness:
  "\<exists>d calls. device_run 4205760 [Client_records [] 0, Start_io (no_file, no_file, no_file) 0, Stop_io 0] attached_device = Some (d, calls)
    \<and> dd_bridge d = device_get d \<and> calls = []"
  using driver_attachment [OF factory_found answers_map(1), of "[Client_records [] 0, Start_io (no_file, no_file, no_file) 0, Stop_io 0]"]
    answers_map(2) by (auto simp: attached_device_def)

theorem io_running_truthful_witness:
  "\<exists>d b. device_run 4205760 [Start_io (no_file, no_file, no_file) 0, Start_io (no_file, no_file, no_file) 1, Stop_io 1] attached_device
      = Some (d, []) \<and> device_block d = Some b \<and> bk_ioRunning b"
  using io_running_truthful [OF factory_found answers_map(1), of "[Start_io (no_file, no_file, no_file) 0, Start_io (no_file, no_file, no_file) 1, Stop_io 1]" 1]
    answers_map(2) by (auto simp: attached_device_def)

text \<open>A device whose first client started before the file could be opened.\<close>

definition waiting_device :: driver_device where
  "waiting_device = new_device\<lparr>dd_memory := new_memory\<lparr>sm_lastError := Errno 2\<rparr>, dd_mapping := 2\<rparr>"

theorem late_attach_unseen_witness:
  "\<exists>d1 d2 b2. AESBridgePlugInFactory 4205760 True None (no_file, no_file, no_file) = (Some d1, [Sys_open False (-1), Sys_open True (-1)])
    \<and> device_run 4205760 [Start_io (no_file, no_file, no_file) 0] d1 = Some (waiting_device, [Sys_open False (-1), Sys_open True (-1)])
    \<and> device_run 4205760 [Start_io (found_file, found_file, found_file) 1, Start_io (no_file, no_file, no_file) 2, Stop_io 2] waiting_device
        = Some (d2, [Sys_open False 3, Sys_fstat, Sys_mmap True])
    \<and> device_block d2 = Some b2 \<and> \<not> bk_ioRunning b2"
proof -
  let ?d1 = "new_device\<lparr>dd_memory := new_memory\<lparr>sm_lastError := Errno 2\<rparr>, dd_mapping := 1\<rparr>"
  have same: "driver_open_memory 4205760 no_file no_file a3 (new_memory\<lparr>sm_lastError := Errno 2\<rparr>)
      = (False, new_memory\<lparr>sm_lastError := Errno 2\<rparr>, [Sys_open False (-1), Sys_open True (-1)])" for a3
    by (simp add: driver_open_memory_def memory_open_def memory_close_def no_file_def found_file_def new_memory_def owner_setup_def Let_def)
  have made: "AESBridgePlugInFactory 4205760 True None (no_file, no_file, no_file) = (Some ?d1, [Sys_open False (-1), Sys_open True (-1)])"
    by (simp add: AESBridgePlugInFactory_def device_initialize_def device_open_def new_device_def no_open)
  have first: "device_run 4205760 [Start_io (no_file, no_file, no_file) 0] ?d1 = Some (waiting_device, [Sys_open False (-1), Sys_open True (-1)])"
    by (simp add: StartIOImpl_def device_open_def new_device_def same store_ioRunning_def behind_def waiting_device_def)
  let ?d = "waiting_device\<lparr>dd_memory := new_memory\<lparr>sm_descriptor := 3, sm_block := Some (new_layout, new_block)\<rparr>, dd_mapping := 3,
      dd_bridge := Some 3, dd_handler := Some 3\<rparr>"
  have start: "StartIOImpl 4205760 (found_file, found_file, found_file) 1 waiting_device = Some (?d, [Sys_open False 3, Sys_fstat, Sys_mmap True])"
    by (simp add: StartIOImpl_def device_open_def waiting_device_def new_device_def new_memory_def found_open device_get_def)
  have inv: "device_inv waiting_device" "dd_bridge waiting_device = None" "device_block ?d = Some new_block"
    by (simp_all add: waiting_device_def new_device_def device_inv_def device_get_def new_memory_def device_block_def)
  obtain d2 b2 where d2: "device_run 4205760 [Start_io (no_file, no_file, no_file) 2, Stop_io 2] ?d = Some (d2, [])"
      "device_block d2 = Some b2" "bk_ioRunning b2 = bk_ioRunning new_block"
    using late_attach_unseen [OF inv(1,2) answers_map(1) _ start inv(3), of "[Start_io (no_file, no_file, no_file) 2, Stop_io 2]"]
      answers_map(2) by (auto simp: numeral_2_eq_2)
  have "\<not> bk_ioRunning b2" by (simp add: d2(3) new_block_def)
  moreover have "device_run 4205760 [Start_io (found_file, found_file, found_file) 1, Start_io (no_file, no_file, no_file) 2, Stop_io 2] waiting_device
      = Some (d2, [Sys_open False 3, Sys_fstat, Sys_mmap True])"
    using start d2(1) by (simp only: device_run.simps(2) [of _ "Start_io _ 1"] device_step.simps) simp
  ultimately show ?thesis using made first d2(2) by blast
qed

end
