(* ===== verification/Network_Interfaces.thy ===== *)
theory Network_Interfaces
  imports Engine_Lifecycle
begin

text \<open>
  The IPv4 interfaces of the host, as Sources/Core/NetworkInterfacesUnix.cpp reads them through
  \<open>getifaddrs\<close> and Sources/Platform/Windows/NetworkInterfacesWindows.cpp through \<open>GetAdaptersAddresses\<close>,
  and the address the engine's start takes from them. What the operating system answers is an argument;
  addresses are numbers in host byte order.
\<close>

section \<open>The code\<close>

record network_interface =
  ni_name :: string
  ni_address :: string
  ni_loopback :: bool

text \<open>An entry of the list of \<open>getifaddrs\<close>: its socket address, if any, with the address family.\<close>

datatype family = AF_INET | AF_other

record ifaddr =
  ifa_name :: string
  ifa_addr :: "(family \<times> u32) option"
  ifa_flags :: u32

definition kIFF_LOOPBACK :: u32 where "kIFF_LOOPBACK = 8"

fun unix_interfaces :: "(u32 \<Rightarrow> string option) \<Rightarrow> ifaddr list \<Rightarrow> network_interface list" where
  "unix_interfaces inet_ntop [] = []"
| "unix_interfaces inet_ntop (item # items) = (case ifa_addr item of
     Some (AF_INET, address) \<Rightarrow> (case inet_ntop address of
         Some addr \<Rightarrow> \<lparr> ni_name = ifa_name item, ni_address = addr,
           ni_loopback = (ifa_flags item AND kIFF_LOOPBACK \<noteq> 0) \<rparr> # unix_interfaces inet_ntop items
       | None \<Rightarrow> unix_interfaces inet_ntop items)
   | _ \<Rightarrow> unix_interfaces inet_ntop items)"

text \<open>\<open>None\<close> is a failed \<open>getifaddrs\<close>.\<close>

definition unix_listInterfaces :: "(u32 \<Rightarrow> string option) \<Rightarrow> ifaddr list option \<Rightarrow> network_interface list" where
  "unix_listInterfaces inet_ntop head = (case head of None \<Rightarrow> [] | Some items \<Rightarrow> unix_interfaces inet_ntop items)"

fun ipv4AddressForInterface :: "string \<Rightarrow> network_interface list \<Rightarrow> string" where
  "ipv4AddressForInterface name [] = []"
| "ipv4AddressForInterface name (interface # rest) =
     (if ni_name interface = name then ni_address interface else ipv4AddressForInterface name rest)"

text \<open>\<open>listInterfaces\<close> of Sources/Engine/EngineMain.cpp.\<close>

definition list_interfaces_text :: "network_interface list \<Rightarrow> string" where
  "list_interfaces_text interfaces = concat (map (\<lambda>interface.
     if \<not> ni_loopback interface then ni_name interface @ [CHR 0x09] @ ni_address interface @ [CHR 0x0A] else []) interfaces)"

section \<open>Windows\<close>

text \<open>A null-terminated wide string, or a null pointer; \<open>required\<close> and \<open>converted\<close> are what the two calls of
  \<open>WideCharToMultiByte\<close> yield for its characters.\<close>

type_synonym wide = "u16 list"

definition utf8 :: "(wide \<Rightarrow> int) \<Rightarrow> (wide \<Rightarrow> string option) \<Rightarrow> wide option \<Rightarrow> string" where
  "utf8 required converted wide_text = (case wide_text of
     None \<Rightarrow> []
   | Some ws \<Rightarrow>
       let characters = takeWhile (\<lambda>w. w \<noteq> 0) ws
       in if characters = [] then []
          else if required characters \<le> 0 then []
          else (case converted characters of None \<Rightarrow> [] | Some s \<Rightarrow> s))"

record adapter =
  ad_up :: bool
  ad_friendlyName :: "wide option"
  ad_adapterName :: "string option"
  ad_unicast :: "(family \<times> u32) option list"
  ad_loopback :: bool

definition ERROR_BUFFER_OVERFLOW :: int where "ERROR_BUFFER_OVERFLOW = 111"

definition adapter_name :: "(wide option \<Rightarrow> string) \<Rightarrow> adapter \<Rightarrow> string" where
  "adapter_name utf8_text adapter =
     (let name = utf8_text (ad_friendlyName adapter)
      in if name = [] then (case ad_adapterName adapter of Some n \<Rightarrow> n | None \<Rightarrow> name) else name)"

fun unicast_interfaces :: "string \<Rightarrow> bool \<Rightarrow> (family \<times> u32) option list \<Rightarrow> network_interface list" where
  "unicast_interfaces name loopback [] = []"
| "unicast_interfaces name loopback (unicast # rest) = (case unicast of
     Some (AF_INET, v) \<Rightarrow> \<lparr> ni_name = name,
       ni_address = ipv4_toString [ucast (drop_bit 24 v), ucast (drop_bit 16 v), ucast (drop_bit 8 v), ucast v],
       ni_loopback = loopback \<rparr> # unicast_interfaces name loopback rest
   | _ \<Rightarrow> unicast_interfaces name loopback rest)"

fun adapter_interfaces :: "(wide option \<Rightarrow> string) \<Rightarrow> adapter list \<Rightarrow> network_interface list" where
  "adapter_interfaces utf8_text [] = []"
| "adapter_interfaces utf8_text (adapter # adapters) =
     (if \<not> ad_up adapter then adapter_interfaces utf8_text adapters
      else unicast_interfaces (adapter_name utf8_text adapter) (ad_loopback adapter) (ad_unicast adapter)
        @ adapter_interfaces utf8_text adapters)"

text \<open>\<open>query size\<close> is one call of \<open>GetAdaptersAddresses\<close> with a buffer of \<open>size\<close> bytes: its result, the size it
  asks for and the adapters it stored; the second call sees the system later and is another argument.\<close>

definition windows_listInterfaces ::
    "(wide option \<Rightarrow> string) \<Rightarrow> (nat \<Rightarrow> int \<times> nat \<times> adapter list) \<Rightarrow> (nat \<Rightarrow> int \<times> nat \<times> adapter list)
      \<Rightarrow> network_interface list" where
  "windows_listInterfaces utf8_text query query_again =
     (let (result, size, adapters) = query 16384;
          (result', size', adapters') = (if result = ERROR_BUFFER_OVERFLOW then query_again size else (result, size, adapters))
      in if result' \<noteq> 0 then [] else adapter_interfaces utf8_text adapters')"

section \<open>Looking an interface up\<close>

lemma lookup_address:
  "ipv4AddressForInterface name is = (case List.find (\<lambda>i. ni_name i = name) is of Some i \<Rightarrow> ni_address i | None \<Rightarrow> [])"
  by (induction "is") simp_all

text \<open>The documented result of \<open>inet_ntop\<close> for IPv4: it has room and prints the dotted quad.\<close>

definition prints_quads :: "(u32 \<Rightarrow> string option) \<Rightarrow> bool" where
  "prints_quads inet_ntop \<longleftrightarrow> (\<forall>v. inet_ntop v = Some (ipv4_toString (address_octets v)))"

lemma unix_interfaces_quads:
  assumes "prints_quads inet_ntop"
  shows "unix_interfaces inet_ntop items = concat (map (\<lambda>item. case ifa_addr item of
      Some (AF_INET, v) \<Rightarrow> [\<lparr> ni_name = ifa_name item, ni_address = ipv4_toString (address_octets v),
        ni_loopback = (ifa_flags item AND kIFF_LOOPBACK \<noteq> 0) \<rparr>] | _ \<Rightarrow> []) items)"
  using assms by (induction items) (auto simp: prints_quads_def split: option.splits family.splits)

text \<open>Every entry has a valid address.\<close>

lemma unix_addresses:
  assumes "prints_quads inet_ntop" "i \<in> set (unix_listInterfaces inet_ntop head)"
  shows "\<exists>v. ni_address i = ipv4_toString (address_octets v)"
  using assms(2)
  by (auto simp: unix_listInterfaces_def unix_interfaces_quads [OF assms(1)] split: option.splits family.splits)

lemma unicast_addresses:
  "i \<in> set (unicast_interfaces name loopback us) \<Longrightarrow> ni_name i = name \<and> (\<exists>v. ni_address i = ipv4_toString (address_octets v))"
proof (induction us)
  case (Cons a us)
  show ?case
  proof (cases a)
    case (Some entry)
    then show ?thesis using Cons by (cases entry; cases "fst entry") (auto simp: address_octets_def)
  qed (use Cons in simp)
qed simp

lemma adapter_addresses: "i \<in> set (adapter_interfaces u as) \<Longrightarrow> \<exists>v. ni_address i = ipv4_toString (address_octets v)"
  by (induction as) (auto dest: unicast_addresses split: if_splits)

lemma windows_addresses:
  "i \<in> set (windows_listInterfaces u q q') \<Longrightarrow> \<exists>v. ni_address i = ipv4_toString (address_octets v)"
  by (auto simp: windows_listInterfaces_def Let_def split: prod.splits if_splits dest: adapter_addresses)

text \<open>What the lookup needs of either platform's list.\<close>

locale interface_list =
  fixes interfaces :: "'w \<Rightarrow> network_interface list"
  assumes addresses: "i \<in> set (interfaces w) \<Longrightarrow> \<exists>v. ni_address i = ipv4_toString (address_octets v)"
begin

lemma lookup_cases:
  "(ipv4AddressForInterface name (interfaces w) = [] \<longleftrightarrow> (\<forall>i \<in> set (interfaces w). ni_name i \<noteq> name))
    \<and> (ipv4AddressForInterface name (interfaces w) \<noteq> [] \<longrightarrow> validIPv4 (ipv4AddressForInterface name (interfaces w)) False)"
proof (cases "List.find (\<lambda>i. ni_name i = name) (interfaces w)")
  case None
  then have "\<forall>i \<in> set (interfaces w). ni_name i \<noteq> name" by (simp add: find_None_iff)
  then show ?thesis using None by (simp add: lookup_address)
next
  case (Some i)
  then have i: "i \<in> set (interfaces w)" "ni_name i = name" by (auto simp: find_Some_iff)
  then obtain v where v: "ni_address i = ipv4_toString (address_octets v)" using addresses by blast
  then have "ni_address i \<noteq> []" "validIPv4 (ni_address i) False"
    using toString_nonempty parse_toString [OF length_octets] by (simp_all add: validIPv4_def)
  then show ?thesis using Some i by (auto simp: lookup_address)
qed

end

interpretation unix: interface_list "unix_listInterfaces (\<lambda>v. Some (ipv4_toString (address_octets v)))"
  by unfold_locales (rule unix_addresses, simp_all add: prints_quads_def)

interpretation windows: interface_list "\<lambda>(utf8_text, query, query_again). windows_listInterfaces utf8_text query query_again"
  by unfold_locales (auto dest: windows_addresses)

section \<open>The two platforms agree\<close>

text \<open>A host's interfaces that are up: a name, its IPv4 addresses and whether it is a loopback device; and the
  answers the two systems give for it. Unix lists an entry per address, with others of other families.\<close>

type_synonym host = "(string \<times> u32 list \<times> bool) list"

definition unix_answer :: "host \<Rightarrow> ifaddr list" where
  "unix_answer h = concat (map (\<lambda>(name, addresses, loopback).
     \<lparr> ifa_name = name, ifa_addr = Some (AF_other, 0), ifa_flags = 0 \<rparr>
     # map (\<lambda>v. \<lparr> ifa_name = name, ifa_addr = Some (AF_INET, v), ifa_flags = (if loopback then 0x49 else 0x1043) \<rparr>)
         addresses) h)"

definition windows_answer :: "(string \<Rightarrow> wide) \<Rightarrow> host \<Rightarrow> adapter list" where
  "windows_answer friendly h = map (\<lambda>(name, addresses, loopback). \<lparr> ad_up = True, ad_friendlyName = Some (friendly name),
     ad_adapterName = None, ad_unicast = map (\<lambda>v. Some (AF_INET, v)) addresses, ad_loopback = loopback \<rparr>) h"

lemma unicast_all:
  "unicast_interfaces name loopback (map (\<lambda>v. Some (AF_INET, v)) vs)
     = map (\<lambda>v. \<lparr> ni_name = name, ni_address = ipv4_toString (address_octets v), ni_loopback = loopback \<rparr>) vs"
  by (induction vs) (simp_all add: address_octets_def)

definition host_interfaces :: "host \<Rightarrow> network_interface list" where
  "host_interfaces h = concat (map (\<lambda>(name, addresses, loopback).
     map (\<lambda>v. \<lparr> ni_name = name, ni_address = ipv4_toString (address_octets v), ni_loopback = loopback \<rparr>) addresses) h)"

lemma unix_host:
  assumes "prints_quads inet_ntop"
  shows "unix_interfaces inet_ntop (unix_answer h) = host_interfaces h"
proof (induction h)
  case (Cons entry h)
  obtain name vs loopback where entry: "entry = (name, vs, loopback)" by (metis prod_cases3)
  have "concat (map (\<lambda>v. [f v]) vs) = map f vs" for f :: "u32 \<Rightarrow> network_interface" by (induction vs) simp_all
  with Cons show ?case
    by (simp add: unix_interfaces_quads [OF assms] unix_answer_def host_interfaces_def entry comp_def kIFF_LOOPBACK_def)
qed (simp add: unix_answer_def host_interfaces_def)

lemma windows_host:
  assumes "\<forall>(name, _) \<in> set h. u (Some (friendly name)) = name \<and> name \<noteq> []"
  shows "adapter_interfaces u (windows_answer friendly h) = host_interfaces h"
  using assms
  by (induction h) (auto simp: windows_answer_def host_interfaces_def unicast_all adapter_name_def Let_def)

lemma host_names: "(\<forall>i \<in> set (host_interfaces h). ni_name i \<noteq> name) \<longleftrightarrow> (\<forall>(n, vs, _) \<in> set h. n = name \<longrightarrow> vs = [])"
proof (induction h)
  case (Cons entry h)
  obtain n vs loopback where entry: "entry = (n, vs, loopback)" by (metis prod_cases3)
  have "set (host_interfaces (entry # h)) = (\<lambda>v. \<lparr> ni_name = n, ni_address = ipv4_toString (address_octets v), ni_loopback = loopback \<rparr>) ` set vs
    \<union> set (host_interfaces h)" by (simp add: host_interfaces_def entry)
  with Cons show ?case by (cases vs) (auto simp: entry)
qed (simp add: host_interfaces_def)



section \<open>The interface of an engine\<close>

lemma start_without_address:
  assumes "lc_interfaceAddress (en_config (eo_engine self)) = []" "\<not> en_running (eo_engine self)"
    "sa_interfaceIPv4 a (lc_interfaceName (en_config (eo_engine self))) = []"
  shows "engine_start n a self = (False, self)"
  using assms by (simp add: engine_start_def transport_ok_def Let_def split: prod.splits)

lemma start_with_address:
  assumes "lc_interfaceAddress (en_config (eo_engine self)) = []" "eo_ptp self = None"
    "engine_start n a self = (True, self')"
  shows "lc_interfaceAddress (en_config (eo_engine self')) = sa_interfaceIPv4 a (lc_interfaceName (en_config (eo_engine self)))
    \<and> (\<forall>p. eo_ptp self' = Some p \<longrightarrow> pe_interfaceAddress p = lc_interfaceAddress (en_config (eo_engine self')))"
  using assms
  by (auto simp: engine_start_def engine_services_def prepared_engine_def ptp_client_start_def ptp_endpoint_of_def Let_def
      split: prod.splits if_splits)

text \<open>An engine that is given an interface's name starts only if the host has an interface of that name with an
  IPv4 address, and then its streams, its announcements and its PTP client use one and the same valid address;
  otherwise the start is refused before the shared memory is touched.\<close>

theorem engine_interface:
  assumes "prints_quads inet_ntop" "lc_interfaceAddress (en_config (eo_engine self)) = []"
    "\<not> en_running (eo_engine self)" "lifecycle_inv self"
    "sa_interfaceIPv4 a = (\<lambda>name. ipv4AddressForInterface name (unix_listInterfaces inet_ntop (Some (unix_answer h))))"
  shows "case engine_start n a self of (ok, self') \<Rightarrow>
    ((\<forall>(name, vs, _) \<in> set h. name = lc_interfaceName (en_config (eo_engine self)) \<longrightarrow> vs = []) \<longrightarrow> \<not> ok \<and> self' = self)
    \<and> (ok \<longrightarrow> validIPv4 (lc_interfaceAddress (en_config (eo_engine self'))) False
        \<and> (\<forall>p. eo_ptp self' = Some p \<longrightarrow> pe_interfaceAddress p = lc_interfaceAddress (en_config (eo_engine self'))))"
proof -
  let ?name = "lc_interfaceName (en_config (eo_engine self))"
  have look: "sa_interfaceIPv4 a ?name = ipv4AddressForInterface ?name (host_interfaces h)"
    using unix_host [OF assms(1)] by (simp add: assms(5) unix_listInterfaces_def)
  have "host_interfaces h = unix_listInterfaces (\<lambda>v. Some (ipv4_toString (address_octets v))) (Some (unix_answer h))"
    using unix_host [of _ h] by (simp add: unix_listInterfaces_def prints_quads_def)
  then have found: "(ipv4AddressForInterface ?name (host_interfaces h) = [] \<longleftrightarrow> (\<forall>i \<in> set (host_interfaces h). ni_name i \<noteq> ?name))
    \<and> (ipv4AddressForInterface ?name (host_interfaces h) \<noteq> [] \<longrightarrow> validIPv4 (ipv4AddressForInterface ?name (host_interfaces h)) False)"
    using unix.lookup_cases by metis
  obtain ok self' where run: "engine_start n a self = (ok, self')" by fastforce
  have "self' = self \<and> \<not> ok" if "sa_interfaceIPv4 a ?name = []"
    using start_without_address [OF assms(2,3) that] run by simp
  moreover have "ok \<Longrightarrow> lc_interfaceAddress (en_config (eo_engine self')) = sa_interfaceIPv4 a ?name
    \<and> (\<forall>p. eo_ptp self' = Some p \<longrightarrow> pe_interfaceAddress p = lc_interfaceAddress (en_config (eo_engine self')))"
    using start_with_address [OF assms(2)] run assms(3,4) by (simp add: lifecycle_inv_def)
  ultimately show ?thesis using found host_names [of h ?name] by (auto simp: run look)
qed

theorem engine_interface_witness:
  "engine_start 4205760 ((demo_start (left_answers new_block))\<lparr>sa_interfaceIPv4 := \<lambda>name. ipv4AddressForInterface name
       (unix_listInterfaces (\<lambda>v. Some (ipv4_toString (address_octets v))) (Some (unix_answer [(''en0'', [0x0A000007], False)])))\<rparr>)
     (new_engine_object (default_config\<lparr>lc_interfaceName := ''en1'', lc_interfaceAddress := []\<rparr>))
   = (False, new_engine_object (default_config\<lparr>lc_interfaceName := ''en1'', lc_interfaceAddress := []\<rparr>))"
proof -
  let ?ntop = "\<lambda>v. Some (ipv4_toString (address_octets v))" and ?h = "[(''en0'', [0x0A000007 :: u32], False)]"
  let ?self = "new_engine_object (default_config\<lparr>lc_interfaceName := ''en1'', lc_interfaceAddress := []\<rparr>)"
  let ?a = "(demo_start (left_answers new_block))\<lparr>sa_interfaceIPv4 := \<lambda>name. ipv4AddressForInterface name (unix_listInterfaces ?ntop (Some (unix_answer ?h)))\<rparr>"
  have "prints_quads ?ntop" "lc_interfaceAddress (en_config (eo_engine ?self)) = []" "\<not> en_running (eo_engine ?self)"
    "lifecycle_inv ?self" by (simp_all add: prints_quads_def new_engine_object_def new_engine_def lifecycle_inv_def)
  from engine_interface [OF this, of ?a ?h 4205760] show ?thesis
    by (auto simp: new_engine_object_def new_engine_def split: prod.splits)
qed

end
