(* ===== verification/Engine_Program.thy ===== *)
theory Engine_Program
  imports Engine_Options Status_Report Network_Interfaces
begin

text \<open>
  \<open>main\<close> of Sources/Engine/EngineMain.cpp as a whole: what each command prints and returns, and the life of
  the engine from the command line to its end. What the system shows the program (the interfaces, the
  shared memory, the clock, signals, the parent process) is a record; what the threads do to the engine's
  state between two rounds of the main loop is arbitrary. The standard error stream is left out. Texts are
  the UTF-8 bytes of the source.
\<close>

section \<open>The code\<close>

text \<open>\<open>processIsAlive\<close>: \<open>killed\<close> is whether \<open>kill(pid, 0)\<close> succeeded. On Windows \<open>opened\<close> is whether the
  process could be opened and, if so, whether the wait timed out; the handle is closed again.\<close>

definition processIsAlive :: "u32 \<Rightarrow> bool \<Rightarrow> bool \<Rightarrow> bool" where
  "processIsAlive processId killed not_permitted = (if processId = 0 then True else killed \<or> not_permitted)"

datatype process_call = Open_process bool | Wait_for_process | Close_process

definition windows_processIsAlive :: "u32 \<Rightarrow> bool option \<Rightarrow> bool \<times> process_call list" where
  "windows_processIsAlive processId opened =
     (if processId = 0 then (True, [])
      else (case opened of
          None \<Rightarrow> (False, [Open_process False])
        | Some timed_out \<Rightarrow> (timed_out, [Open_process True, Wait_for_process, Close_process])))"

definition printStatus :: "shared_block \<Rightarrow> string" where
  "printStatus b = (let st = bk_statistics b in
     ''RX '' @ u64_text (st_rxPackets st) @ ''  TX '' @ u64_text (st_txPackets st)
     @ ''  pertes '' @ u64_text (st_packetsLost st)
     @ ''  erreurs '' @ u64_text (st_malformedPackets st + st_sapMalformedPackets st)
     @ ''  reconnexions '' @ u64_text (st_reconnects st)
     @ ''  PTP '' @ (if bk_ptpLocked b then ''VERROUILL'' @ [CHR 0xC3, CHR 0x89] else ''NON VERROUILL'' @ [CHR 0xC3, CHR 0x89])
     @ [CHR 0x0A])"

definition usage :: string where
  "usage =
     ''AES Bridge engine 0.2 (prototype '' @ [CHR 0xC3, CHR 0xA0] @ '' valider sur mat'' @ [CHR 0xC3, CHR 0xA9] @ ''riel)'' @ [CHR 0x0A] @
     ''  --list-interfaces'' @ [CHR 0x0A] @
     ''  --print-tx-sdp <adresse-ip-interface>'' @ [CHR 0x0A] @
     ''  --status'' @ [CHR 0x0A] @
     ''  --run --interface <nom> [--interface-address <IPv4>]'' @ [CHR 0x0A] @
     ''        [--profile raspberry|computer-a|computer-b]'' @ [CHR 0x0A] @
     ''        [--rx-group <IPv4>] [--rx-source <IPv4>] [--tx-group <IPv4>]'' @ [CHR 0x0A] @
     ''        [--rx-port <port>] [--tx-port <port>]'' @ [CHR 0x0A] @
     ''        [--stream-count <1..8>] [--port-stride <0..65535>]'' @ [CHR 0x0A] @
     ''        [--channels-per-stream <1|2|4|8>] [--core-audio-start-channel <1..64>]'' @ [CHR 0x0A] @
     ''        [--rx-payload-type <0..127>] [--tx-payload-type <0..127>]'' @ [CHR 0x0A] @
     ''        [--jitter-packets <2..63>] [--duration <secondes>] [--no-sap] [--no-ptp]'' @ [CHR 0x0A] @
     ''        [--parent-pid <pid-app-controle>]'' @ [CHR 0x0A]"

definition started_text :: "string \<Rightarrow> live_engine_config \<Rightarrow> string" where
  "started_text address c =
     ''AES Bridge d'' @ [CHR 0xC3, CHR 0xA9] @ ''marr'' @ [CHR 0xC3, CHR 0xA9] @ '' sur '' @ address
     @ '' '' @ [CHR 0xE2, CHR 0x80, CHR 0x94] @ '' '' @ u64_text (lc_streamCount c) @ '' flux, ''
     @ u64_text (lc_streamCount c * lc_channelsPerStream c) @ '' canaux''
     @ '' '' @ [CHR 0xE2, CHR 0x80, CHR 0x94] @ '' RX '' @ lc_rxAddress c @ '':'' @ to_string (unat (lc_rxPort c))
     @ '' '' @ [CHR 0xE2, CHR 0x80, CHR 0x94] @ '' TX '' @ lc_txAddress c @ '':'' @ to_string (unat (lc_txPort c)) @ [CHR 0x0A]"

text \<open>What the program meets. In round \<open>i\<close> of the loop: whether a signal came, the clock, the answers to
  \<open>kill\<close> and the state as the threads left it.\<close>

record program_world =
  pw_blockBytes :: int
  pw_interfaces :: "network_interface list"
  pw_memory :: memory_answers
  pw_owner :: "int \<times> bool \<times> bool"
  pw_start :: start_answers
  pw_now :: int
  pw_stop :: "nat \<Rightarrow> bool"
  pw_clock :: "nat \<Rightarrow> int"
  pw_kill :: "nat \<Rightarrow> bool \<times> bool"
  pw_threads :: "nat \<Rightarrow> live_engine"

record program_result =
  pr_exit :: int
  pr_out :: string
  pr_engine :: "engine_object option"

definition status_command :: "program_world \<Rightarrow> int \<times> string" where
  "status_command w =
     (let (opened, memory, _) = memory_open (pw_blockBytes w) False (pw_memory w) new_memory;
          (active, _) = (case pw_owner w of (descriptor, locked, would_block) \<Rightarrow> memory_ownerActive descriptor locked would_block)
      in case sm_block memory of
           Some (layout, b) \<Rightarrow>
             if \<not> opened \<or> \<not> active \<or> \<not> bk_engineRunning b then (2, []) else (0, printStatusJson layout b)
         | None \<Rightarrow> (2, []))"

text \<open>The deadline of line 259, in nanoseconds; the outer \<open>None\<close> is an exception, the inner one no deadline.\<close>

definition run_deadline :: "string list \<Rightarrow> int \<Rightarrow> int option option" where
  "run_deadline argv now = (case valueAfter argv ''--duration'' of
     None \<Rightarrow> Some None
   | Some duration \<Rightarrow> map_option (\<lambda>s. Some (now + int (unat s) * 1000000000)) (parseUnsigned duration 86400))"

definition engine_in_round :: "program_world \<Rightarrow> engine_object \<Rightarrow> nat \<Rightarrow> engine_object" where
  "engine_in_round w self i = lifecycle_step (pw_blockBytes w) (Threads (pw_threads w i)) self"

definition round_text :: "program_world \<Rightarrow> engine_object \<Rightarrow> nat \<Rightarrow> string" where
  "round_text w self i = (let now = engine_in_round w self i in
     if sm_block (eo_memory now) \<noteq> None then printStatus (en_block (eo_engine now)) else [])"

definition observed :: "program_world \<Rightarrow> u32 \<Rightarrow> nat \<Rightarrow> bool \<times> int \<times> bool" where
  "observed w parent i = (pw_stop w i, pw_clock w i, case pw_kill w i of (killed, eperm) \<Rightarrow> processIsAlive parent killed eperm)"

text \<open>Lines 251 to 281. The destructor stops the engine on every way out. \<open>None\<close> is a program that runs on.\<close>

definition engine_run :: "program_world \<Rightarrow> string list \<Rightarrow> live_engine_config \<Rightarrow> u32 \<Rightarrow> program_result option" where
  "engine_run w argv c parent =
     (let (started, self) = engine_start (pw_blockBytes w) (pw_start w) (new_engine_object c)
      in if \<not> started then Some \<lparr> pr_exit = 1, pr_out = [], pr_engine = Some (engine_stop self) \<rparr>
         else (case run_deadline argv (pw_now w) of
             None \<Rightarrow> Some \<lparr> pr_exit = 2, pr_out = [], pr_engine = Some (engine_stop (engine_in_round w self 0)) \<rparr>
           | Some deadline \<Rightarrow>
               map_option (\<lambda>k. \<lparr> pr_exit = 0,
                   pr_out = started_text (lc_interfaceAddress (en_config (eo_engine self))) c
                     @ concat (map (round_text w self) [0..<k]),
                   pr_engine = Some (engine_stop (engine_in_round w self k)) \<rparr>)
                 (wait_loop (observed w parent) deadline 0)))"

definition engine_main :: "program_world \<Rightarrow> string list \<Rightarrow> program_result option" where
  "engine_main w argv = (case engine_command argv of
     List_interfaces \<Rightarrow> Some \<lparr> pr_exit = 0, pr_out = list_interfaces_text (pw_interfaces w), pr_engine = None \<rparr>
   | Print_tx_sdp address \<Rightarrow> Some \<lparr> pr_exit = 0, pr_out = print_tx_sdp address, pr_engine = None \<rparr>
   | Status \<Rightarrow> (case status_command w of (code, shown_text) \<Rightarrow> Some \<lparr> pr_exit = code, pr_out = shown_text, pr_engine = None \<rparr>)
   | Usage code \<Rightarrow> Some \<lparr> pr_exit = code, pr_out = usage, pr_engine = None \<rparr>
   | Run \<Rightarrow> (case parse_options argv of
         None \<Rightarrow> Some \<lparr> pr_exit = 2, pr_out = [], pr_engine = None \<rparr>
       | Some (c, parent) \<Rightarrow> engine_run w argv c parent))"

section \<open>The handle of the parent process\<close>

lemma windows_process_closed:
  "(Open_process True \<in> set (snd (windows_processIsAlive p a))) = (Close_process \<in> set (snd (windows_processIsAlive p a)))"
  by (auto simp: windows_processIsAlive_def split: option.splits if_splits)

section \<open>The end of the program\<close>

text \<open>Nothing of the engine is left: no thread, no service, no flag in the block.\<close>

definition withdrawn :: "engine_object \<Rightarrow> bool" where
  "withdrawn self \<longleftrightarrow> \<not> en_running (eo_engine self) \<and> en_streams (eo_engine self) = [] \<and> \<not> eo_sapPublish self
     \<and> \<not> eo_sapDiscovery self \<and> eo_ptp self = None"

lemma stopped_withdrawn: "lifecycle_inv self \<Longrightarrow> withdrawn (engine_stop self)"
  by (auto simp: withdrawn_def lifecycle_inv_def engine_stop_def Let_def)

lemma round_inv: "lifecycle_inv self \<Longrightarrow> lifecycle_inv (engine_in_round w self i)"
  by (simp add: engine_in_round_def lifecycle_inv_def Let_def)

lemma round_running:
  "en_running (eo_engine (engine_in_round w self i)) = en_running (eo_engine self)"
  "eo_memory (engine_in_round w self i) = eo_memory self"
  by (simp_all add: engine_in_round_def Let_def)

lemma stopped_flags:
  assumes "lifecycle_inv self" "en_running (eo_engine self)"
  shows "let b = en_block (eo_engine (engine_stop self)) in
    \<not> bk_engineRunning b \<and> \<not> bk_rxActive b \<and> \<not> bk_txActive b \<and> bk_activeStreamCount b = 0"
  using assms by (auto simp: engine_stop_def lifecycle_inv_def Let_def)

lemma new_object_inv: "lifecycle_inv (new_engine_object c)"
  by (simp add: lifecycle_inv_def new_engine_object_def new_engine_def)

lemma run_result:
  assumes "engine_run w argv c parent = Some r"
  shows "\<exists>self ok self'. engine_start (pw_blockBytes w) (pw_start w) (new_engine_object c) = (ok, self)
    \<and> pr_engine r = Some self' \<and> withdrawn self'
    \<and> pr_exit r = (if \<not> ok then 1 else if run_deadline argv (pw_now w) = None then 2 else 0)
    \<and> (ok \<longrightarrow> (let b = en_block (eo_engine self') in
         \<not> bk_engineRunning b \<and> \<not> bk_rxActive b \<and> \<not> bk_txActive b \<and> bk_activeStreamCount b = 0))"
proof -
  obtain ok self where start: "engine_start (pw_blockBytes w) (pw_start w) (new_engine_object c) = (ok, self)"
    by fastforce
  note inv = engine_start_inv [OF new_object_inv start]
  have round: "withdrawn (engine_stop (engine_in_round w self i))" for i
    using inv round_inv stopped_withdrawn by blast
  have flags: "let b = en_block (eo_engine (engine_stop (engine_in_round w self i))) in
      \<not> bk_engineRunning b \<and> \<not> bk_rxActive b \<and> \<not> bk_txActive b \<and> bk_activeStreamCount b = 0" if ok for i
    using inv that by (intro stopped_flags round_inv) (simp_all add: round_running)
  show ?thesis
  proof (cases ok)
    case False
    then show ?thesis using assms start inv stopped_withdrawn by (auto simp: engine_run_def)
  next
    case True
    then show ?thesis using assms start round flags by (auto simp: engine_run_def split: option.splits)
  qed
qed


text \<open>The run of the witness: an engine on a block a stopped engine left, for one second.\<close>

definition demo_world :: program_world where
  "demo_world = \<lparr> pw_blockBytes = 4205760, pw_interfaces = [], pw_memory = left_answers new_block,
     pw_owner = (3, False, True), pw_start = demo_start (left_answers new_block), pw_now = 5,
     pw_stop = (\<lambda>_. False), pw_clock = (\<lambda>i. 5 + int i * 1000000000), pw_kill = (\<lambda>_. (False, False)),
     pw_threads = (\<lambda>_. new_engine default_config new_block) \<rparr>"

definition demo_arguments :: "string list" where
  "demo_arguments = [''engine'', ''--run'', ''--interface'', ''en0'', ''--duration'', ''1'']"

lemma demo_options: "parse_options demo_arguments = Some (default_config\<lparr>lc_interfaceName := ''en0''\<rparr>, 0)"
  by (simp add: demo_arguments_def parse_options_def apply_profile_def number_option_def valueAfter_def value_or_def
      hasOption_def Let_def default_config_def profile_defs supportedAES67ChannelCount_def)

lemma demo_command: "engine_command demo_arguments = Run"
  by (simp add: engine_command_def demo_arguments_def hasOption_def)

lemma demo_duration: "run_deadline demo_arguments 5 = Some (Some 1000000005)"
  by (simp add: run_deadline_def demo_arguments_def valueAfter_def parseUnsigned_def stoull_def split_sign_def is_space_def
      is_digit_def decval_def digit_val_def)

lemma demo_run_starts:
  "\<exists>self. engine_start 4205760 (demo_start (left_answers new_block))
     (new_engine_object (default_config\<lparr>lc_interfaceName := ''en0''\<rparr>)) = (True, self)"
proof -
  let ?c = "default_config\<lparr>lc_interfaceName := ''en0''\<rparr>"
  have "fst (memory_open 4205760 True (left_answers new_block) new_memory)"
    by (rule demo_opens) (simp_all add: left_answers_def sample_answers_def)
  then obtain mem calls where "memory_open 4205760 True (left_answers new_block) new_memory = (True, mem, calls)"
    by (metis prod.collapse)
  moreover have "?c\<lparr>lc_interfaceAddress := ipv4_toString [10, 0, 0, 7]\<rparr> = publisher\<lparr>lc_interfaceName := ''en0''\<rparr>"
    by (simp add: publisher_def)
  moreover have "routing_ok (publisher\<lparr>lc_interfaceName := ''en0''\<rparr>)" "transport_ok (publisher\<lparr>lc_interfaceName := ''en0''\<rparr>)"
    using demo_routing by (simp_all add: routing_ok_def transport_ok_def)
  moreover have "lc_interfaceAddress ?c = []" by (simp add: default_config_def)
  ultimately show ?thesis
    by (simp add: engine_start_def new_engine_object_def new_engine_def demo_start_def Let_def)
qed

section \<open>Termination\<close>

lemma run_ends:
  assumes "\<forall>i. pw_clock w (i + 1) \<ge> pw_clock w i + 1000000000" "pw_now w \<le> pw_clock w 0"
    and "(\<exists>duration. valueAfter argv ''--duration'' = Some duration) \<or> (\<exists>i. pw_stop w i)
      \<or> (\<exists>i. parent \<noteq> 0 \<and> pw_kill w i = (False, False))"
  shows "\<exists>r. engine_run w argv c parent = Some r"
proof -
  have ends: "\<exists>k. wait_loop (observed w parent) deadline 0 = Some k" if read: "run_deadline argv (pw_now w) = Some deadline" for deadline
  proof -
    have "\<exists>m. leaves (observed w parent) deadline m"
    proof (cases "valueAfter argv ''--duration''")
      case None
      with assms(3) obtain i where "pw_stop w i \<or> parent \<noteq> 0 \<and> pw_kill w i = (False, False)" by auto
      then show ?thesis by (intro exI [of _ i]) (auto simp: leaves_def observed_def processIsAlive_def)
    next
      case (Some duration)
      then obtain s :: u64 where "deadline = Some (pw_now w + int (unat s) * 1000000000)"
        using read by (auto simp: run_deadline_def)
      moreover have "pw_now w + int (unat s) * 1000000000 \<le> pw_clock w (unat s)"
        using clock_after [OF assms(1), of "unat s"] assms(2) by linarith
      ultimately show ?thesis by (intro exI [of _ "unat s"]) (simp add: leaves_def observed_def)
    qed
    with main_loop.ends show ?thesis by blast
  qed
  obtain started self where start: "engine_start (pw_blockBytes w) (pw_start w) (new_engine_object c) = (started, self)"
    by fastforce
  show ?thesis
  proof (cases "run_deadline argv (pw_now w)")
    case (Some deadline)
    with ends obtain k where "wait_loop (observed w parent) deadline 0 = Some k" by blast
    with Some start show ?thesis by (simp add: engine_run_def)
  qed (simp add: engine_run_def start)
qed

text \<open>C24: The program ends, whatever it is asked for, if each round of its loop takes at least the second it sleeps
  and it was given a duration, or some round sees a signal or a parent process that is gone.\<close>

theorem engine_main_ends:
  assumes "\<forall>i. pw_clock w (i + 1) \<ge> pw_clock w i + 1000000000" "pw_now w \<le> pw_clock w 0"
    and "(\<exists>duration. valueAfter argv ''--duration'' = Some duration) \<or> (\<exists>i. pw_stop w i)
      \<or> (\<exists>i c parent. parse_options argv = Some (c, parent) \<and> parent \<noteq> 0 \<and> pw_kill w i = (False, False))"
  shows "\<exists>r. engine_main w argv = Some r"
proof (cases "engine_command argv")
  case Run
  show ?thesis
  proof (cases "parse_options argv")
    case (Some cp)
    then obtain c parent where cp: "parse_options argv = Some (c, parent)" by (cases cp) simp
    have "(\<exists>duration. valueAfter argv ''--duration'' = Some duration) \<or> (\<exists>i. pw_stop w i)
      \<or> (\<exists>i. parent \<noteq> 0 \<and> pw_kill w i = (False, False))" using assms(3) cp by auto
    from run_ends [OF assms(1,2) this, of c] cp Run show ?thesis by (simp add: engine_main_def)
  qed (simp add: engine_main_def Run)
qed (simp_all add: engine_main_def split: prod.splits)

theorem engine_main_ends_witness: "\<exists>r. engine_main demo_world demo_arguments = Some r"
  by (rule engine_main_ends) (simp_all add: demo_world_def demo_arguments_def valueAfter_def)


section \<open>The other commands\<close>

lemma memory_open_kept:
  assumes "memory_open n False a new_memory = (ok, m, calls)"
  shows "sm_block m = (if ok then Some (the (ma_mmap a)) else None) \<and> (ok \<longrightarrow> (\<exists>b. ma_mmap a = Some (new_layout, b)))"
  using memory_open_effect [OF assms] by (auto split: if_splits)

text \<open>C25: The status command succeeds exactly if the block can be opened with the right layout, an owner holds its
  lock and the engine says that it runs; it then prints a JSON text that reads back as the block's state,
  and nothing otherwise. It never changes the block.\<close>

theorem status_command_exact:
  assumes "engine_command argv = Status" "pw_owner w = (descriptor, locked, would_block)"
  shows "\<exists>r. engine_main w argv = Some r \<and> pr_engine r = None
    \<and> (if \<exists>b. fst (memory_open (pw_blockBytes w) False (pw_memory w) new_memory)
             \<and> ma_mmap (pw_memory w) = Some (new_layout, b) \<and> bk_engineRunning b
             \<and> 0 \<le> descriptor \<and> \<not> locked \<and> would_block
       then pr_exit r = 0 \<and> (\<exists>b. ma_mmap (pw_memory w) = Some (new_layout, b)
         \<and> json_read (pr_out r) = Some (status_value new_layout b))
       else pr_exit r = 2 \<and> pr_out r = [])"
proof -
  obtain ok m calls where o: "memory_open (pw_blockBytes w) False (pw_memory w) new_memory = (ok, m, calls)"
    by (metis prod_cases3)
  have active: "fst (memory_ownerActive descriptor locked would_block) \<longleftrightarrow> 0 \<le> descriptor \<and> \<not> locked \<and> would_block"
    by (auto simp: memory_ownerActive_def Let_def)
  obtain act cs where ac: "memory_ownerActive descriptor locked would_block = (act, cs)" by fastforce
  show ?thesis
  proof (cases ok)
    case True
    then obtain b where "ma_mmap (pw_memory w) = Some (new_layout, b)" "sm_block m = Some (new_layout, b)"
      using memory_open_kept [OF o] by auto
    then show ?thesis using assms o True active ac json_read_tokens [OF lex_status [of new_layout b]]
      by (auto simp: engine_main_def status_command_def)
  next
    case False
    then have "sm_block m = None" using memory_open_kept [OF o] by simp
    then show ?thesis using assms o False by (simp add: engine_main_def status_command_def split: prod.splits)
  qed
qed

theorem status_command_exact_witness:
  "\<exists>r. engine_main (demo_world\<lparr>pw_owner := (- 1, False, False)\<rparr>) [''engine'', ''--status''] = Some r \<and> pr_exit r = 2 \<and> pr_out r = []"
proof -
  let ?w = "demo_world\<lparr>pw_owner := (- 1, False, False)\<rparr>"
  have "engine_command [''engine'', ''--status''] = Status" "pw_owner ?w = (- 1, False, False)"
    by (simp_all add: engine_command_def hasOption_def)
  from status_command_exact [OF this] show ?thesis by auto
qed

lemma receiver_group: "validIPv4 ''239.69.83.81'' True"
proof -
  have "''239.69.83.81'' = ipv4_toString [239, 69, 83, 81]" by code_simp
  then show ?thesis using parse_toString [of "[239, 69, 83, 81]"] by (simp add: validIPv4_def isMulticast_def)
qed

text \<open>The printed session of an address is one that every receiver of the profile reads and accepts.\<close>

theorem printed_session_accepted:
  assumes "validIPv4 address False"
  shows "\<exists>s. sdp_parse (print_tx_sdp address) = Inr s \<and> sd_originAddress s = address \<and> sd_sourceAddress s = address
    \<and> sd_name s = kMacSessionName \<and> validateLXToolProfile s = []"
proof -
  let ?s = "default_session\<lparr>sd_name := kMacSessionName, sd_originAddress := address,
     sd_sourceAddress := address, sd_multicastAddress := ''239.69.83.81''\<rparr>"
  obtain a where a: "ipv4_parse address = Some a" using assms by (auto simp: validIPv4_def split: option.splits)
  have "CHR '' '' \<notin> set address" "CHR 0x0A \<notin> set address"
    using ipv4_parse_chars [OF a] by (force simp: is_digit_def)+
  moreover have group: "validIPv4 ''239.69.83.81'' True" by (rule receiver_group)
  ultimately have "sd_wf ?s" by (simp add: sd_wf_def default_session_def profile_defs kMacSessionName_def)
  moreover have "validateLXToolProfile ?s = []" using group
    by (simp add: validateLXToolProfile_def default_session_def profile_defs supportedAES67ChannelCount_def payloadBytesForChannels_def)
  ultimately show ?thesis using sdp_parse_generate by (intro exI [of _ ?s]) (simp add: print_tx_sdp_def)
qed

theorem printed_session_accepted_witness:
  "\<exists>s. sdp_parse (print_tx_sdp ''10.0.0.7'') = Inr s \<and> validateLXToolProfile s = []"
proof -
  have "''10.0.0.7'' = ipv4_toString [10, 0, 0, 7]" by code_simp
  then have "validIPv4 ''10.0.0.7'' False" using parse_toString [of "[10, 0, 0, 7]"] by (simp add: validIPv4_def)
  from printed_session_accepted [OF this] show ?thesis by blast
qed

end
