(* ===== verification/Engine_Runs.thy ===== *)
theory Engine_Runs
  imports Engine_Threads
begin

text \<open>
  Runs of the engine with its threads: the invariant that every step of Engine_Threads keeps, from the
  engine that \<open>main\<close> configures and starts to the end of its threads after a stop, and what it says of
  the flags, the packets and the joins of Sources/Engine/LiveEngine.cpp.
\<close>

section \<open>All threads\<close>

definition threads_ok :: "engine_threads \<Rightarrow> bool" where
  "threads_ok s \<longleftrightarrow> core_ok (et_engine s)
     \<and> (\<forall>i < length (en_streams (et_engine s)).
          rx_ok (et_engine s) i (fst (et_receive s i)) \<and> tx_ok (et_engine s) i (et_transmit s i))
     \<and> (et_sent s \<noteq> [] \<longrightarrow> en_transmitEpochReady (et_engine s))
     \<and> ptp_ok (en_block (et_engine s)) (et_ptp s)"

text \<open>Whose turn an event is, and whose transmitter it opens.\<close>

fun receive_turn :: "nat \<Rightarrow> thread_event \<Rightarrow> bool" where
  "receive_turn i (Receive_turn bank opened now received) \<longleftrightarrow> bank = i" | "receive_turn i _ \<longleftrightarrow> False"

fun consume_turn :: "nat \<Rightarrow> thread_event \<Rightarrow> bool" where
  "consume_turn i (Consume_turn bank now now2) \<longleftrightarrow> bank = i" | "consume_turn i _ \<longleftrightarrow> False"

fun transmit_turn :: "nat \<Rightarrow> thread_event \<Rightarrow> bool" where
  "transmit_turn i (Transmit_turn bank opened now now2 systemNow sent) \<longleftrightarrow> bank = i" | "transmit_turn i _ \<longleftrightarrow> False"

fun discovery_turn :: "thread_event \<Rightarrow> bool" where
  "discovery_turn (Discovery_turn opened now received) \<longleftrightarrow> True" | "discovery_turn _ \<longleftrightarrow> False"

fun ptp_turn :: "thread_event \<Rightarrow> bool" where
  "ptp_turn (Ptp_turn opened now inputs) \<longleftrightarrow> True" | "ptp_turn _ \<longleftrightarrow> False"

fun opens_transmitter :: "nat \<Rightarrow> thread_event \<Rightarrow> bool" where
  "opens_transmitter i (Transmit_turn bank opened now now2 systemNow sent) \<longleftrightarrow> bank = i \<and> opened"
| "opens_transmitter i _ \<longleftrightarrow> False"

lemma rx_ok_moves: "shifts rxs txs e e' \<Longrightarrow> i \<notin> rxs \<Longrightarrow> rx_ok e i pc \<Longrightarrow> rx_ok e' i pc"
  by (simp add: shifts_def rx_ok_def)

lemma tx_ok_moves:
  assumes "shifts rxs txs e e'" "i \<notin> txs" "i < length (en_streams e)" "tx_ok e i t"
  shows "tx_ok e' i t"
  using assms unfolding shifts_def tx_ok_def by (cases "fst t") auto

lemma threads_shift:
  assumes "threads_ok s" "shifts rxs txs (et_engine s) (et_engine s')"
    and "\<And>i. i \<notin> rxs \<Longrightarrow> et_receive s' i = et_receive s i" "\<And>i. i \<in> rxs \<Longrightarrow> rx_ok (et_engine s') i (fst (et_receive s' i))"
    and "\<And>i. i \<notin> txs \<Longrightarrow> et_transmit s' i = et_transmit s i" "\<And>i. i \<in> txs \<Longrightarrow> tx_ok (et_engine s') i (et_transmit s' i)"
    and "et_sent s' \<noteq> [] \<longrightarrow> et_sent s \<noteq> [] \<or> en_transmitEpochReady (et_engine s)"
    and "ptp_ok (en_block (et_engine s')) (et_ptp s')"
  shows "threads_ok s'"
proof -
  have m: "core_ok (et_engine s')" "length (en_streams (et_engine s')) = length (en_streams (et_engine s))"
    "en_transmitEpochReady (et_engine s) \<longrightarrow> en_transmitEpochReady (et_engine s')"
    using assms(2) by (simp_all add: shifts_def)
  have "rx_ok (et_engine s') i (fst (et_receive s' i)) \<and> tx_ok (et_engine s') i (et_transmit s' i)"
    if i: "i < length (en_streams (et_engine s))" for i
  proof
    have ok: "rx_ok (et_engine s) i (fst (et_receive s i))" "tx_ok (et_engine s) i (et_transmit s i)"
      using assms(1) i by (simp_all add: threads_ok_def)
    show "rx_ok (et_engine s') i (fst (et_receive s' i))"
      using rx_ok_moves [OF assms(2) _ ok(1)] assms(3,4) by (cases "i \<in> rxs") simp_all
    show "tx_ok (et_engine s') i (et_transmit s' i)"
      using tx_ok_moves [OF assms(2) _ i ok(2)] assms(5,6) by (cases "i \<in> txs") simp_all
  qed
  with m assms(1,7,8) show ?thesis unfolding threads_ok_def by auto
qed

lemma threads_moves:
  assumes "threads_ok s" "moves rxs txs (et_engine s) (et_engine s')" "et_ptp s' = et_ptp s"
    and "\<And>i. i \<notin> rxs \<Longrightarrow> et_receive s' i = et_receive s i" "\<And>i. i \<in> rxs \<Longrightarrow> rx_ok (et_engine s') i (fst (et_receive s' i))"
    and "\<And>i. i \<notin> txs \<Longrightarrow> et_transmit s' i = et_transmit s i" "\<And>i. i \<in> txs \<Longrightarrow> tx_ok (et_engine s') i (et_transmit s' i)"
    and "et_sent s' \<noteq> [] \<longrightarrow> et_sent s \<noteq> [] \<or> en_transmitEpochReady (et_engine s)"
  shows "threads_ok s'"
proof -
  have shift: "shifts rxs txs (et_engine s) (et_engine s')"
    and view: "ptp_view (en_block (et_engine s')) = ptp_view (en_block (et_engine s))"
    using assms(2) by (simp_all add: moves_def)
  have "ptp_ok (en_block (et_engine s')) (et_ptp s')"
    unfolding ptp_ok_view [OF view] assms(3) using assms(1) by (simp add: threads_ok_def)
  from threads_shift [OF assms(1) shift assms(4-8) this] show ?thesis .
qed

lemma stop_ok:
  assumes "threads_ok s"
  shows "threads_ok (s\<lparr>et_engine := (et_engine s)\<lparr>en_running := False\<rparr>\<rparr>)"
proof -
  have "tx_ok (e\<lparr>en_running := False\<rparr>) i t = tx_ok e i t" for e i t
    unfolding tx_ok_def by (simp split: tx_pc.split)
  then show ?thesis using assms by (auto simp: threads_ok_def core_ok_def epoch_inv_def clocks_ok_def rx_ok_def)
qed

lemma ptp_shifts:
  assumes "core_ok e" "b' = en_block e \<or> b' = ptp_stored st (en_block e)"
    "\<bar>st_ptpOffsetNanoseconds (bk_statistics b')\<bar> \<le> offset_limit"
  shows "shifts {} {} e (e\<lparr>en_block := b'\<rparr>)"
proof -
  have same: "bk_rxActive b' = bk_rxActive (en_block e)" "bk_txActive b' = bk_txActive (en_block e)"
    "bk_networkToCoreAudio b' = bk_networkToCoreAudio (en_block e)"
    "bk_coreAudioToNetwork b' = bk_coreAudioToNetwork (en_block e)"
    "bk_discoveredSessions b' = bk_discoveredSessions (en_block e)"
    using assms(2) by (auto simp: ptp_stored_def)
  have "engine_wf (e\<lparr>en_block := b'\<rparr>)"
    using wf_on_block [OF core_okD(1) [OF assms(1)], of "\<lambda>_. b'"] rings_of_wf [OF assms(1)] same
    by (simp add: on_block_def)
  then show ?thesis
    using assms(1,3) same by (simp add: shifts_def core_ok_def epoch_inv_def clocks_ok_def)
qed

text \<open>One step: it is defined, keeps the invariant, and from a stopped engine every thread moves on
  towards its end.\<close>

definition advances :: "thread_event \<Rightarrow> engine_threads \<Rightarrow> engine_threads \<Rightarrow> bool" where
  "advances ev s s' \<longleftrightarrow>
     (\<forall>i. fst (et_receive s' i) = (if receive_turn i ev
        then if fst (et_receive s i) = Rx_listen then Rx_open else Rx_ended else fst (et_receive s i)))
   \<and> (\<forall>i. fst (et_consume s' i) \<longleftrightarrow> \<not> consume_turn i ev \<and> fst (et_consume s i))
   \<and> (\<forall>i. fst (et_transmit s' i) = (if transmit_turn i ev
        then if fst (et_transmit s i) = Tx_send then Tx_open else Tx_ended else fst (et_transmit s i)))
   \<and> fst (et_discovery s') = (if discovery_turn ev
        then if fst (et_discovery s) = Sap_listen then Sap_open else Sap_ended else fst (et_discovery s))"

definition ptp_left :: "ptp_pc \<Rightarrow> nat" where
  "ptp_left pc = (case pc of Ptp_open \<Rightarrow> 2 | Ptp_listen \<Rightarrow> 1 | Ptp_ended \<Rightarrow> 0)"

lemma ptp_left_le: "ptp_left pc \<le> 2"
  by (cases pc) (simp_all add: ptp_left_def)

definition ptp_advances :: "thread_event \<Rightarrow> engine_threads \<Rightarrow> engine_threads \<Rightarrow> bool" where
  "ptp_advances ev s s' \<longleftrightarrow> \<not> et_ptpRunning s'
     \<and> ptp_left (fst (et_ptp s')) \<le> ptp_left (fst (et_ptp s)) - (if ptp_turn ev then 1 else 0)"

lemma ptp_thread_left:
  assumes "ptp_thread cfg False opened now inputs b t = Some (b', t')"
  shows "ptp_left (fst t') \<le> ptp_left (fst t) - 1"
proof -
  obtain pc st where "t = (pc, st)" by fastforce
  with assms show ?thesis by (cases pc) (auto simp: ptp_thread_def Let_def ptp_left_def split: if_splits)
qed

lemma ptp_defined:
  assumes "ptp_iteration cfg inputs (ptp_loaded b (snd t)) \<noteq> None"
  shows "\<exists>b' pc' st'. ptp_thread cfg running opened now inputs b t = Some (b', pc', st')"
proof -
  obtain pc st where "t = (pc, st)" by fastforce
  with assms show ?thesis by (cases pc) (auto simp: ptp_thread_def Let_def)
qed

lemma event_step_effect:
  assumes "threads_ok s" "event_ok s ev"
  shows "\<exists>s'. event_step z ev s = Some s' \<and> threads_ok s'
    \<and> en_config (et_engine s') = en_config (et_engine s)
    \<and> length (en_streams (et_engine s')) = length (en_streams (et_engine s))
    \<and> (en_running (et_engine s') \<longleftrightarrow> en_running (et_engine s) \<and> ev \<noteq> Stop_requested)
    \<and> (\<forall>i < length (en_streams (et_engine s)). \<not> opens_transmitter i ev \<longrightarrow>
        rt_txEpochJoined (en_streams (et_engine s') ! i) = rt_txEpochJoined (en_streams (et_engine s) ! i))
    \<and> (\<not> en_running (et_engine s) \<longrightarrow> advances ev s s')
    \<and> (\<not> et_ptpRunning s \<longrightarrow> ptp_advances ev s s')"
proof -
  let ?e = "et_engine s"
  have core: "core_ok ?e" using assms(1) by (simp add: threads_ok_def)
  have plain: ?thesis if "event_step z ev s = Some s'" "moves {} {} ?e (et_engine s')" "et_receive s' = et_receive s"
    "et_transmit s' = et_transmit s" "et_sent s' = et_sent s" "\<not> en_running ?e \<Longrightarrow> advances ev s s'"
    "et_ptp s' = et_ptp s" "\<not> ptp_turn ev" "et_ptpRunning s' \<longrightarrow> et_ptpRunning s" "ev \<noteq> Stop_requested" for s'
  proof -
    have "threads_ok s'" using that by (intro threads_moves [OF assms(1) that(2)]) simp_all
    with that show ?thesis by (auto simp: moves_defs ptp_advances_def)
  qed
  show ?thesis
  proof (cases ev)
    case (Receive_turn bank opened now received)
    with assms have pre: "bank < length (en_streams ?e)" "rx_ok ?e bank (fst (et_receive s bank))"
      by (simp_all add: threads_ok_def)
    obtain pc l where t: "et_receive s bank = (pc, l)" by fastforce
    obtain e' pc' l' where r: "receive_thread bank opened now received ?e (pc, l) = Some (e', pc', l')"
      "moves {bank} {} ?e e'" "rx_ok e' bank pc'" "\<not> en_running ?e \<longrightarrow> pc' = (if pc = Rx_listen then Rx_open else Rx_ended)"
      using receive_thread_effect [OF core pre(1)] pre(2) t by (metis fst_conv)
    let ?s' = "s\<lparr>et_engine := e', et_receive := (et_receive s)(bank := (pc', l'))\<rparr>"
    have "threads_ok ?s'" using r by (intro threads_moves [OF assms(1), of "{bank}" "{}"]) auto
    moreover have "event_step z ev s = Some ?s'" using Receive_turn r(1) t by simp
    ultimately show ?thesis using r(2,4) Receive_turn t
      by (intro exI [of _ ?s']) (simp add: moves_defs advances_def ptp_advances_def)
  next
    case (Transmit_turn bank opened now now2 systemNow sent)
    obtain pc l where t: "et_transmit s bank = (pc, l)" by fastforce
    with Transmit_turn assms have pre: "bank < length (en_streams ?e)" "tx_ok ?e bank (pc, l)" "0 \<le> now" "now \<le> now2"
      "now2 \<le> steady_limit" "0 \<le> systemNow" "systemNow \<le> system_limit" "pc = Tx_send \<longrightarrow> tx_next l \<le> now"
      by (simp_all add: threads_ok_def) metis
    obtain wire e' pc' l' where r: "transmit_thread z bank opened now now2 systemNow sent ?e (pc, l) = Some (wire, e', pc', l')"
      "moves {} {bank} ?e e'" "tx_ok e' bank (pc', l')" "wire \<noteq> [] \<longrightarrow> en_transmitEpochReady ?e"
      "\<not> en_running ?e \<longrightarrow> pc' = (if pc = Tx_send then Tx_open else Tx_ended)"
      "\<not> opened \<longrightarrow> rt_txEpochJoined (en_streams e' ! bank) = rt_txEpochJoined (en_streams ?e ! bank)"
      using transmit_thread_effect [OF core pre] by blast
    let ?s' = "s\<lparr>et_engine := e', et_transmit := (et_transmit s)(bank := (pc', l')),
      et_sent := et_sent s @ (if wire = [] then [] else [(bank, wire)])\<rparr>"
    have "threads_ok ?s'" using r by (intro threads_moves [OF assms(1), of "{}" "{bank}"]) auto
    moreover have "event_step z ev s = Some ?s'" using Transmit_turn r(1) t by simp
    moreover have "rt_txEpochJoined (en_streams e' ! i) = rt_txEpochJoined (en_streams ?e ! i)"
      if "i < length (en_streams ?e)" "\<not> (bank = i \<and> opened)" for i
      using r(2,6) that by (cases "i = bank") (simp_all add: moves_defs)
    ultimately show ?thesis using r(2,5) Transmit_turn t
      by (intro exI [of _ ?s']) (simp add: moves_defs advances_def ptp_advances_def)
  next
    case (Consume_turn bank now now2)
    obtain going deadline where t: "et_consume s bank = (going, deadline)" by fastforce
    have "bank < length (en_streams ?e)" using Consume_turn assms(2) by simp
    from consume_thread_effect [OF core this] obtain e' going' deadline' where
      r: "consume_thread bank now now2 ?e (going, deadline) = Some (e', going', deadline')" "moves {} {} ?e e'"
      "\<not> en_running ?e \<longrightarrow> \<not> going'" by blast
    show ?thesis
      by (rule plain [of "s\<lparr>et_engine := e', et_consume := (et_consume s)(bank := (going', deadline'))\<rparr>"])
        (use Consume_turn t r in \<open>simp_all add: advances_def\<close>)
  next
    case (Discovery_turn opened now received)
    obtain pc r where t: "et_discovery s = (pc, r)" by fastforce
    from discovery_thread_effect [OF core] obtain e' pc' r' where
      r: "discovery_thread opened now received ?e (pc, r) = Some (e', pc', r')" "moves {} {} ?e e'"
      "\<not> en_running ?e \<longrightarrow> pc' = (if pc = Sap_listen then Sap_open else Sap_ended)" by blast
    show ?thesis
      by (rule plain [of "s\<lparr>et_engine := e', et_discovery := (pc', r')\<rparr>"])
        (use Discovery_turn t r in \<open>simp_all add: advances_def\<close>)
  next
    case (Driver_records out bytesCount)
    with driver_effect(1) [OF core, of out bytesCount] assms(2) obtain o' b where
      r: "on_read_client_input (Some (en_block ?e)) (Some out) bytesCount = Some (o', Some b)" "moves {} {} ?e (?e\<lparr>en_block := b\<rparr>)"
      by auto
    show ?thesis
      by (rule plain [of "s\<lparr>et_engine := ?e\<lparr>en_block := b\<rparr>\<rparr>"]) (use Driver_records r in \<open>simp_all add: advances_def\<close>)
  next
    case (Driver_plays frames bytesCount)
    with driver_effect(2) [OF core, of frames bytesCount] assms(2) obtain b where
      r: "on_write_mixed_output (Some (en_block ?e)) (Some frames) bytesCount = Some (Some b)" "moves {} {} ?e (?e\<lparr>en_block := b\<rparr>)"
      by auto
    show ?thesis
      by (rule plain [of "s\<lparr>et_engine := ?e\<lparr>en_block := b\<rparr>\<rparr>"]) (use Driver_plays r in \<open>simp_all add: advances_def\<close>)
  next
    case (Ptp_turn opened now inputs)
    let ?cfg = "engine_ptp_config (en_config ?e)"
    have pre: "ptp_ok (en_block ?e) (et_ptp s)" "ptp_clocks_ok inputs"
      "ptp_iteration ?cfg inputs (ptp_loaded (en_block ?e) (snd (et_ptp s))) \<noteq> None"
      using assms Ptp_turn by (simp_all add: threads_ok_def)
    obtain b pc st where r: "ptp_thread ?cfg (et_ptpRunning s) opened now inputs (en_block ?e) (et_ptp s) = Some (b, pc, st)"
      using ptp_defined [OF pre(3)] by blast
    note p = ptp_thread_effect [OF pre(1,2) r]
    let ?s' = "s\<lparr>et_engine := ?e\<lparr>en_block := b\<rparr>, et_ptp := (pc, st)\<rparr>"
    have shift: "shifts {} {} ?e (et_engine ?s')"
      using ptp_shifts [OF core, of b st] p ptp_ok_offset [OF conjunct1 [OF p]] by simp
    have "threads_ok ?s'" by (rule threads_shift [OF assms(1) shift]) (use p in auto)
    moreover have "ptp_advances ev s ?s'" if "\<not> et_ptpRunning s"
      using ptp_thread_left [of ?cfg opened now inputs "en_block ?e" "et_ptp s" b "(pc, st)"] r that Ptp_turn
      by (simp add: ptp_advances_def)
    ultimately show ?thesis using r shift Ptp_turn
      by (intro exI [of _ ?s']) (simp add: shifts_def advances_def)
  next
    case Stop_requested
    with stop_ok [OF assms(1)] show ?thesis by (auto simp: advances_def ptp_advances_def)
  next
    case Ptp_stop_requested
    with moves_same [OF core] show ?thesis
      by (intro plain [of "s\<lparr>et_ptpRunning := False\<rparr>"]) (simp_all add: advances_def)
  qed
qed

section \<open>Whole runs\<close>

lemma trace_effect:
  assumes "thread_trace z s events s'" "threads_ok s"
  shows "threads_ok s' \<and> en_config (et_engine s') = en_config (et_engine s)
    \<and> length (en_streams (et_engine s')) = length (en_streams (et_engine s))
    \<and> (en_running (et_engine s') \<longrightarrow> en_running (et_engine s))
    \<and> (\<forall>i < length (en_streams (et_engine s)). (\<forall>ev \<in> set events. \<not> opens_transmitter i ev) \<longrightarrow>
        rt_txEpochJoined (en_streams (et_engine s') ! i) = rt_txEpochJoined (en_streams (et_engine s) ! i))"
  using assms
proof induction
  case (trace_nil s)
  then show ?case by simp
next
  case (trace_step s ev s1 events s2)
  from event_step_effect [OF trace_step.prems trace_step.hyps(1), of z] trace_step.hyps(2)
  have s1: "threads_ok s1" "en_config (et_engine s1) = en_config (et_engine s)"
    "length (en_streams (et_engine s1)) = length (en_streams (et_engine s))"
    "en_running (et_engine s1) \<longrightarrow> en_running (et_engine s)"
    "\<forall>i < length (en_streams (et_engine s)). \<not> opens_transmitter i ev \<longrightarrow>
        rt_txEpochJoined (en_streams (et_engine s1) ! i) = rt_txEpochJoined (en_streams (et_engine s) ! i)"
    by auto
  with trace_step.IH [OF s1(1)] show ?case by simp
qed

text \<open>How many turns a thread still needs to end when the engine has been stopped.\<close>

definition rx_left :: "rx_pc \<Rightarrow> nat" where "rx_left pc = (case pc of Rx_listen \<Rightarrow> 2 | Rx_open \<Rightarrow> 1 | Rx_ended \<Rightarrow> 0)"
definition tx_left :: "tx_pc \<Rightarrow> nat" where
  "tx_left pc = (case pc of Tx_send \<Rightarrow> 2 | Tx_wait \<Rightarrow> 1 | Tx_open \<Rightarrow> 1 | Tx_ended \<Rightarrow> 0)"
definition sap_left :: "sap_pc \<Rightarrow> nat" where "sap_left pc = (case pc of Sap_listen \<Rightarrow> 2 | Sap_open \<Rightarrow> 1 | Sap_ended \<Rightarrow> 0)"

lemmas left_defs = rx_left_def tx_left_def sap_left_def

lemma left_bounds: "rx_left p \<le> 2" "tx_left q \<le> 2" "sap_left r \<le> 2"
  "rx_left p = 0 \<longleftrightarrow> p = Rx_ended" "tx_left q = 0 \<longleftrightarrow> q = Tx_ended" "sap_left r = 0 \<longleftrightarrow> r = Sap_ended"
  by (cases p; cases q; cases r; simp add: left_defs)+

lemma advances_left:
  assumes "advances ev s s'"
  shows "rx_left (fst (et_receive s' i)) = rx_left (fst (et_receive s i)) - (if receive_turn i ev then 1 else 0)"
    "tx_left (fst (et_transmit s' i)) = tx_left (fst (et_transmit s i)) - (if transmit_turn i ev then 1 else 0)"
    "fst (et_consume s' i) \<longleftrightarrow> fst (et_consume s i) \<and> \<not> consume_turn i ev"
    "sap_left (fst (et_discovery s')) = sap_left (fst (et_discovery s)) - (if discovery_turn ev then 1 else 0)"
proof -
  note a = assms [unfolded advances_def]
  show "rx_left (fst (et_receive s' i)) = rx_left (fst (et_receive s i)) - (if receive_turn i ev then 1 else 0)"
    using a by (cases "fst (et_receive s i)") (simp_all add: left_defs)
  show "tx_left (fst (et_transmit s' i)) = tx_left (fst (et_transmit s i)) - (if transmit_turn i ev then 1 else 0)"
    using a by (cases "fst (et_transmit s i)") (simp_all add: left_defs)
  show "fst (et_consume s' i) \<longleftrightarrow> fst (et_consume s i) \<and> \<not> consume_turn i ev" using a by auto
  show "sap_left (fst (et_discovery s')) = sap_left (fst (et_discovery s)) - (if discovery_turn ev then 1 else 0)"
    using a by (cases "fst (et_discovery s)") (simp_all add: left_defs)
qed

lemma stopped_trace:
  assumes "thread_trace z s events s'" "threads_ok s" "\<not> en_running (et_engine s)"
  shows "rx_left (fst (et_receive s' i)) = rx_left (fst (et_receive s i)) - length (filter (receive_turn i) events)
    \<and> tx_left (fst (et_transmit s' i)) = tx_left (fst (et_transmit s i)) - length (filter (transmit_turn i) events)
    \<and> (fst (et_consume s' i) \<longleftrightarrow> fst (et_consume s i) \<and> filter (consume_turn i) events = [])
    \<and> sap_left (fst (et_discovery s')) = sap_left (fst (et_discovery s)) - length (filter discovery_turn events)"
  using assms
proof induction
  case (trace_nil s)
  then show ?case by simp
next
  case (trace_step s ev s1 events s2)
  from event_step_effect [OF trace_step.prems(1) trace_step.hyps(1), of z] trace_step.hyps(2) trace_step.prems(2)
  have s1: "threads_ok s1" "\<not> en_running (et_engine s1)" "advances ev s s1" by auto
  from trace_step.IH [OF s1(1,2)] advances_left [OF s1(3)] show ?case by auto
qed

lemma stopped_ptp:
  assumes "thread_trace z s events s'" "threads_ok s" "\<not> et_ptpRunning s"
  shows "ptp_left (fst (et_ptp s')) \<le> ptp_left (fst (et_ptp s)) - length (filter ptp_turn events)"
  using assms
proof induction
  case (trace_nil s)
  then show ?case by simp
next
  case (trace_step s ev s1 events s2)
  from event_step_effect [OF trace_step.prems(1) trace_step.hyps(1), of z] trace_step.hyps(2) trace_step.prems(2)
  have s1: "threads_ok s1" "ptp_advances ev s s1" by auto
  then have "\<not> et_ptpRunning s1" "ptp_left (fst (et_ptp s1)) \<le> ptp_left (fst (et_ptp s)) - (if ptp_turn ev then 1 else 0)"
    by (simp_all add: ptp_advances_def)
  with trace_step.IH [OF s1(1)] show ?case by (auto split: if_splits)
qed

text \<open>The engine its threads begin with.\<close>

definition fresh_engine :: "live_engine \<Rightarrow> bool" where
  "fresh_engine e \<longleftrightarrow> core_ok e \<and> (\<forall>r \<in> set (en_streams e). \<not> rt_rxActive r \<and> \<not> rt_txActive r \<and> \<not> rt_txEpochJoined r)
     \<and> \<not> bk_ptpLocked (en_block e) \<and> st_ptpOffsetNanoseconds (bk_statistics (en_block e)) = 0"

lemma fresh_ok: "fresh_engine e \<Longrightarrow> threads_ok (threads_of e)"
  by (simp add: fresh_engine_def threads_ok_def threads_of_def rx_ok_def tx_ok_def new_transmit_wf ptp_ok_def)

definition stopped_block :: "shared_block \<Rightarrow> bool" where
  "stopped_block b \<longleftrightarrow> \<not> bk_rxActive b \<and> \<not> bk_txActive b \<and> rings_ok (bk_networkToCoreAudio b)
     \<and> rings_ok (bk_coreAudioToNetwork b) \<and> slots_ok (bk_discoveredSessions b)"

lemma prepared_fresh:
  fixes now :: int
  assumes "routing_ok config" "lc_coreAudioStartChannel config \<le> 64" "en_streams e = []" "stopped_block b"
  shows "fresh_engine (prepared_engine config now b (unat (lc_streamCount config)) e)"
proof -
  let ?p = "prepared_engine config now b (unat (lc_streamCount config)) e"
  have wf: "engine_wf ?p" "epoch_inv ?p" "bk_statistics (en_block ?p) = zero_statistics"
    "\<not> bk_ptpLocked (en_block ?p)"
    using prepared_ready [OF assms(1-3), of b now] assms(4) by (simp_all add: stopped_block_def)
  have "\<not> en_transmitEpochReady ?p" by (simp add: prepared_engine_def)
  with wf(3) have "clocks_ok ?p" by (simp add: clocks_ok_def zero_statistics_def offset_limit_def)
  moreover have "\<forall>r \<in> set (en_streams ?p). \<not> rt_rxActive r \<and> \<not> rt_txActive r \<and> \<not> rt_txEpochJoined r"
    using assms(3) by (simp add: prepared_engine_def new_runtime_def)
  moreover have "slots_ok (bk_discoveredSessions (en_block ?p))"
    using assms(4) by (simp add: stopped_block_def prepared_engine_def resetRuntimeState_def slots_ok_def slot_wf_def)
  ultimately show ?thesis
    using wf by (simp add: fresh_engine_def core_ok_def zero_statistics_def)
qed

lemma new_block_stopped: "stopped_block new_block"
  using new_block_clean sample_directory(1) by (simp add: stopped_block_def new_block_def slots_ok_def dir_inv_iff)

lemma started_fresh:
  assumes "engine_start n a self = (True, self')" "lifecycle_inv self"
    and "lc_coreAudioStartChannel (en_config (eo_engine self)) \<le> 64"
    and "\<forall>layout b. ma_mmap (sa_memory a) = Some (layout, b) \<longrightarrow> stopped_block b"
  shows "fresh_engine (eo_engine self')"
proof -
  obtain config b layout mem where c: "routing_ok config" "lc_coreAudioStartChannel config \<le> 64" "en_streams (eo_engine self) = []"
    and mem: "ma_mmap (sa_memory a) = Some (layout, mem)"
      "b = (if ma_size (sa_memory a) = n \<and> layout = new_layout then mem else new_block)"
    and e: "eo_engine self' = prepared_engine config (sa_steadyNow a) b (unat (lc_streamCount config)) (eo_engine self)"
    by (rule engine_start_prepared [OF assms(1-3)])
  have "stopped_block b" using mem assms(4) new_block_stopped by (auto split: if_splits)
  from prepared_fresh [OF c this] show ?thesis unfolding e .
qed

section \<open>What holds of every run\<close>

lemma receiving_stream:
  "activity_inv e \<Longrightarrow> bk_rxActive (en_block e) \<Longrightarrow> \<exists>i < length (en_streams e). rx_flag e i"
  "activity_inv e \<Longrightarrow> i < length (en_streams e) \<Longrightarrow> tx_flag e i \<Longrightarrow> bk_txActive (en_block e)"
  by (auto simp: activity_inv_def in_set_conv_nth) (use nth_mem in blast)+



text \<open>C33: One stream that never opens its transmitter keeps all streams of the engine silent: as long as the
  opening of one bank's socket fails, no stream sends a packet, however long the others wait with their
  sockets open and the activity flag set.\<close>

theorem one_stream_silences_all:
  assumes "fresh_engine e" "thread_trace z (threads_of e) events s" "i < length (en_streams e)"
    and "\<forall>event \<in> set events. \<not> opens_transmitter i event"
  shows "et_sent s = []"
proof -
  note t = trace_effect [OF assms(2) fresh_ok [OF assms(1)]]
  have "rt_txEpochJoined (en_streams (et_engine s) ! i) = rt_txEpochJoined (en_streams e ! i)"
    using t assms(3,4) by (simp add: threads_of_def)
  then have "\<not> rt_txEpochJoined (en_streams (et_engine s) ! i)" using assms(1,3) by (simp add: fresh_engine_def)
  moreover have "length (en_streams (et_engine s)) = length (en_streams e)" using t by (simp add: threads_of_def)
  ultimately have "\<not> (\<forall>r \<in> set (en_streams (et_engine s)). rt_txEpochJoined r)" using assms(3) nth_mem by metis
  moreover have "epoch_inv (et_engine s)" "et_sent s \<noteq> [] \<longrightarrow> en_transmitEpochReady (et_engine s)"
    using t by (simp_all add: threads_ok_def core_ok_def)
  ultimately show ?thesis by (auto simp: epoch_inv_def)
qed

text \<open>A stopped engine ends: after a request to stop, a receiving, transmitting or discovering thread has
  left its function after two turns of its own and a consuming one after one, whatever it was doing and
  whatever the others do, and the PTP client after two once it is stopped too, so that \<open>stop\<close> can join them
  all; then neither reception nor a PTP lock is shown.\<close>

theorem stopped_engine_ends:
  assumes "fresh_engine e" "thread_trace z (threads_of e) before s" "\<not> en_running (et_engine s)" "\<not> et_ptpRunning s"
    and "thread_trace z s events s'"
    and "\<forall>i < length (en_streams e). 2 \<le> length (filter (receive_turn i) events)
      \<and> 2 \<le> length (filter (transmit_turn i) events) \<and> 1 \<le> length (filter (consume_turn i) events)"
    and "2 \<le> length (filter discovery_turn events)" "2 \<le> length (filter ptp_turn events)"
  shows "(\<forall>i < length (en_streams e). fst (et_receive s' i) = Rx_ended \<and> fst (et_transmit s' i) = Tx_ended
        \<and> \<not> fst (et_consume s' i)) \<and> fst (et_discovery s') = Sap_ended \<and> fst (et_ptp s') = Ptp_ended
    \<and> \<not> bk_rxActive (en_block (et_engine s')) \<and> \<not> bk_ptpLocked (en_block (et_engine s'))"
proof -
  have ok: "threads_ok s" "length (en_streams (et_engine s)) = length (en_streams e)"
    using trace_effect [OF assms(2) fresh_ok [OF assms(1)]] by (simp_all add: threads_of_def)
  note st = stopped_trace [OF assms(5) ok(1) assms(3)]
  have ended: "fst (et_receive s' i) = Rx_ended \<and> fst (et_transmit s' i) = Tx_ended \<and> \<not> fst (et_consume s' i)"
    if "i < length (en_streams e)" for i
  proof -
    have turns: "2 \<le> length (filter (receive_turn i) events)" "2 \<le> length (filter (transmit_turn i) events)"
      "filter (consume_turn i) events \<noteq> []"
      using assms(6) that by auto
    have "rx_left (fst (et_receive s' i)) = 0" "tx_left (fst (et_transmit s' i)) = 0"
      using st [of i] turns(1,2) left_bounds(1) [of "fst (et_receive s i)"] left_bounds(2) [of "fst (et_transmit s i)"]
      by linarith+
    with st [of i] turns(3) show ?thesis by (simp add: left_bounds)
  qed
  have "sap_left (fst (et_discovery s')) = 0"
    using st assms(7) left_bounds(3) [of "fst (et_discovery s)"] by (metis diff_is_0_eq le_trans)
  moreover have "ptp_left (fst (et_ptp s')) = 0"
    using stopped_ptp [OF assms(5) ok(1) assms(4)] assms(8) ptp_left_le [of "fst (et_ptp s)"] by linarith
  then have ptp: "fst (et_ptp s') = Ptp_ended" by (simp add: ptp_left_def split: ptp_pc.splits)
  moreover have "ptp_ok (en_block (et_engine s')) (et_ptp s')"
    using trace_effect [OF assms(5) ok(1)] by (simp add: threads_ok_def)
  then have "\<not> bk_ptpLocked (en_block (et_engine s'))" using ptp by (simp add: ptp_ok_def)
  moreover have "\<not> bk_rxActive (en_block (et_engine s'))"
  proof
    assume active: "bk_rxActive (en_block (et_engine s'))"
    have s': "threads_ok s'" "length (en_streams (et_engine s')) = length (en_streams e)"
      using trace_effect [OF assms(5) ok(1)] ok(2) by simp_all
    then have "activity_inv (et_engine s')" by (simp add: threads_ok_def core_ok_def engine_wf_def)
    from receiving_stream(1) [OF this active] s'(2)
    obtain i where "i < length (en_streams e)" "rx_flag (et_engine s') i" by auto
    with s' ended show False by (auto simp: threads_ok_def rx_ok_def)
  qed
  ultimately show ?thesis using ended by (simp add: left_bounds)
qed

section \<open>Witnesses\<close>

definition duo_engine :: live_engine where
  "duo_engine = (new_engine (default_config\<lparr>lc_streamCount := 2\<rparr>) new_block)
     \<lparr>en_running := True, en_streams := [new_runtime 6, new_runtime 6]\<rparr>"

lemma duo_fresh: "fresh_engine duo_engine"
proof -
  have "engine_wf duo_engine"
    using new_block_clean
    by (simp add: duo_engine_def engine_wf_def routing_ok_def default_config_def new_engine_def new_runtime_ok
        activity_inv_def profile_defs supportedAES67ChannelCount_def) (simp add: new_runtime_def)
  moreover have "epoch_inv duo_engine"
    by (simp add: epoch_inv_def duo_engine_def new_engine_def default_config_def new_runtime_def profile_defs)
  moreover have "clocks_ok duo_engine"
    by (simp add: clocks_ok_def duo_engine_def new_engine_def new_block_def zero_statistics_def offset_limit_def)
  ultimately show ?thesis
    using new_block_stopped
    by (simp add: fresh_engine_def core_ok_def stopped_block_def) (simp add: duo_engine_def new_engine_def new_runtime_def new_block_def zero_statistics_def)
qed

lemma trace_possible:
  assumes "threads_ok s"
    and "\<forall>ev \<in> set events. \<forall>t. length (en_streams (et_engine t)) = length (en_streams (et_engine s)) \<longrightarrow> event_ok t ev"
  shows "\<exists>s'. thread_trace z s events s'"
  using assms
proof (induction events arbitrary: s)
  case Nil
  show ?case by (rule exI, rule trace_nil)
next
  case (Cons ev events)
  obtain s1 where s1: "event_step z ev s = Some s1" "threads_ok s1"
    "length (en_streams (et_engine s1)) = length (en_streams (et_engine s))"
    using event_step_effect [OF Cons.prems(1), of ev z] Cons.prems(2) by auto
  with Cons.IH [OF s1(2)] Cons.prems(2) obtain s' where "thread_trace z s1 events s'" by auto
  with s1(1) Cons.prems(2) show ?case by (auto intro: trace_step)
qed

text \<open>A turn of the PTP client in which nothing arrives.\<close>

definition quiet_inputs :: ptp_inputs where
  "quiet_inputs = \<lparr> pin_event = Nothing_received, pin_eventIngress = 1, pin_eventNow = 1, pin_general = Nothing_received,
     pin_generalIngress = 1, pin_generalNow = 1, pin_now = 1, pin_wallNow = 1, pin_sent = True \<rparr>"

lemma quiet_defined: "ptp_clocks_ok quiet_inputs" "\<exists>st'. ptp_iteration cfg quiet_inputs st = Some st'"
  by (simp_all add: quiet_inputs_def ptp_clocks_ok_def ptp_iteration_def ptp_receive_step_def)



lemma duo_waits:
  "\<exists>s. thread_trace 0 (threads_of duo_engine) [Transmit_turn 0 True 0 1 0 True, Transmit_turn 1 False 2 3 0 True,
      Transmit_turn 0 True 4 5 0 True] s \<and> bk_txActive (en_block (et_engine s))"
proof -
  note defs = threads_of_def transmit_thread_def transmit_opened_def transmit_open_failed_def setTxActive_def Let_def
    on_stream_def on_block_def duo_engine_def new_engine_def new_runtime_def default_config_def new_transmit_def
    steady_limit_def system_limit_def nextDelay_def
  show ?thesis
    by (simp add: trace_simps defs del: map_option_eq_Some)
qed

theorem one_stream_silences_all_witness:
  "\<exists>s. thread_trace 0 (threads_of duo_engine) [Transmit_turn 0 True 0 1 0 True, Transmit_turn 1 False 2 3 0 True,
      Transmit_turn 0 True 4 5 0 True] s \<and> bk_txActive (en_block (et_engine s)) \<and> et_sent s = []"
proof -
  obtain s where s: "thread_trace 0 (threads_of duo_engine) [Transmit_turn 0 True 0 1 0 True, Transmit_turn 1 False 2 3 0 True,
      Transmit_turn 0 True 4 5 0 True] s" "bk_txActive (en_block (et_engine s))"
    using duo_waits by blast
  moreover have "1 < length (en_streams duo_engine)" by (simp add: duo_engine_def)
  ultimately show ?thesis using one_stream_silences_all [OF duo_fresh s(1), of 1] by auto
qed

lemma demo_fresh: "fresh_engine demo_engine"
  using demo_wf new_block_stopped
  by (simp add: fresh_engine_def core_ok_def stopped_block_def)
    (simp add: demo_engine_def new_engine_def default_config_def new_runtime_def new_block_def zero_statistics_def
      offset_limit_def clocks_ok_def epoch_inv_def profile_defs)

theorem stopped_engine_ends_witness:
  "\<exists>s'. thread_trace 0 (threads_of demo_engine) [Stop_requested, Ptp_stop_requested, Receive_turn 0 True 0 Timed_out, Receive_turn 0 True 0 Timed_out,
      Consume_turn 0 0 0, Transmit_turn 0 True 0 0 0 True, Transmit_turn 0 True 0 0 0 True,
      Discovery_turn True 0 Timed_out, Discovery_turn True 0 Timed_out,
      Ptp_turn True 1 quiet_inputs, Ptp_turn True 1 quiet_inputs] s'
    \<and> fst (et_receive s' 0) = Rx_ended \<and> fst (et_transmit s' 0) = Tx_ended"
proof -
  let ?events = "[Receive_turn 0 True 0 Timed_out, Receive_turn 0 True 0 Timed_out,
      Consume_turn 0 0 0, Transmit_turn 0 True 0 0 0 True, Transmit_turn 0 True 0 0 0 True,
      Discovery_turn True 0 Timed_out, Discovery_turn True 0 Timed_out,
      Ptp_turn True 1 quiet_inputs, Ptp_turn True 1 quiet_inputs]"
  let ?s = "(threads_of demo_engine)\<lparr>et_engine := demo_engine\<lparr>en_running := False\<rparr>, et_ptpRunning := False\<rparr>"
  have one: "length (en_streams demo_engine) = 1" "en_streams demo_engine \<noteq> []" by (simp_all add: demo_engine_def)
  have stop: "thread_trace 0 (threads_of demo_engine) [Stop_requested, Ptp_stop_requested] ?s"
    by (simp add: trace_simps threads_of_def)
  have "\<exists>s'. thread_trace 0 ?s ?events s'"
    by (simp add: trace_simps threads_of_def one receive_thread_def transmit_thread_def consume_thread_def discovery_thread_def
        steady_limit_def system_limit_def Let_def ptp_thread_def quiet_defined del: map_option_eq_Some)
  then obtain s' where run: "thread_trace 0 ?s ?events s'" by blast
  have "fst (et_receive s' 0) = Rx_ended \<and> fst (et_transmit s' 0) = Tx_ended"
    using stopped_engine_ends [OF demo_fresh stop _ _ run] by (simp add: one)
  moreover have "thread_trace 0 (threads_of demo_engine) (Stop_requested # Ptp_stop_requested # ?events) s'"
    using run by (simp only: trace_simps) (simp add: threads_of_def)
  ultimately show ?thesis by blast
qed

end
