(* ===== verification/Engine_Stop.thy ===== *)
theory Engine_Stop
  imports Engine_Runs
begin

text \<open>
  \<open>LiveEngine::stop\<close> of Sources/Engine/LiveEngine.cpp while the engine's threads are still running: the store to
  \<open>running_\<close>, the joins one after the other, \<open>PTPClient::stop\<close>, the stores to the block and the end of the stream
  objects, each a step of its own among the turns of the threads of Engine_Threads; and \<open>sapPublishLoop\<close> as a
  thread with its control point. What Engine_Lifecycle takes as one step is shown to be the outcome.
\<close>

section \<open>The publishing thread\<close>

text \<open>Where the thread is: before its socket is opened, at the test of \<open>running_\<close> of its loop, or in its wait of
  fifty naps. A turn's first result is what it sends.\<close>

datatype publish_pc = Publish_open | Publish_round | Publish_wait nat | Publish_ended

definition announcements :: "live_engine_config \<Rightarrow> sap_message list" where
  "announcements c = map (bank_announcement c) [0..<unat (lc_streamCount c)]"

definition publish_thread :: "live_engine_config \<Rightarrow> bool \<Rightarrow> bool \<Rightarrow> publish_pc \<Rightarrow> bytes list \<times> publish_pc" where
  "publish_thread c running opened pc = (case pc of
     Publish_open \<Rightarrow> ([], if opened then Publish_round else Publish_ended)
   | Publish_round \<Rightarrow>
       if running then (map sap_encode (announcements c), Publish_wait 0)
       else (map (\<lambda>announcement. sap_encode (announcement\<lparr>sap_deletion := True\<rparr>)) (announcements c), Publish_ended)
   | Publish_wait i \<Rightarrow> ([], if i < 50 \<and> running then Publish_wait (i + 1) else Publish_round)
   | Publish_ended \<Rightarrow> ([], Publish_ended))"

section \<open>Stopping\<close>

text \<open>The next access of \<open>stop\<close>. A thread that was never created counts as one that has ended: it is not
  joinable.\<close>

datatype stop_pc =
    Stop_called
  | Join_receive nat
  | Join_consume nat
  | Join_transmit nat
  | Join_publish
  | Join_discovery
  | Ptp_stop
  | Join_ptp
  | Ptp_unlock
  | Stop_rxActive
  | Stop_txActive
  | Stop_streamCount
  | Stop_engineRunning
  | Stop_returned

record stopping_engine =
  se_threads :: engine_threads
  se_publish :: publish_pc
  se_announced :: "bytes list"
  se_ptpClient :: bool
  se_stop :: stop_pc

text \<open>A started engine: its threads are those that \<open>start\<close> created.\<close>

definition started_engine :: "engine_object \<Rightarrow> stopping_engine" where
  "started_engine self = (let e = eo_engine self in \<lparr>
     se_threads = (threads_of e)\<lparr>et_discovery := (if eo_sapDiscovery self then Sap_open else Sap_ended, new_reconnect),
       et_ptpRunning := eo_ptp self \<noteq> None,
       et_ptp := (if eo_ptp self \<noteq> None then Ptp_open else Ptp_ended, ptp_loaded (en_block e) new_ptp_client)\<rparr>,
     se_publish = (if eo_sapPublish self then Publish_open else Publish_ended), se_announced = [],
     se_ptpClient = (eo_ptp self \<noteq> None), se_stop = Stop_called \<rparr>)"

definition on_engine :: "(live_engine \<Rightarrow> live_engine) \<Rightarrow> stopping_engine \<Rightarrow> stopping_engine" where
  "on_engine f r = r\<lparr>se_threads := (se_threads r)\<lparr>et_engine := f (et_engine (se_threads r))\<rparr>\<rparr>"

text \<open>One access. A join of a thread that has not ended leaves everything as it is. The last access is the
  store to \<open>engineRunning\<close> with the end of the stream objects; that no thread is left to use them is shown below.\<close>

definition stop_turn :: "stopping_engine \<Rightarrow> stopping_engine" where
  "stop_turn r =
     (let s = se_threads r; e = et_engine s; goto = (\<lambda>pc r. r\<lparr>se_stop := pc\<rparr>);
          join = (\<lambda>ended pc. if ended then r\<lparr>se_stop := pc\<rparr> else r)
      in case se_stop r of
        Stop_called \<Rightarrow>
          if en_running e then goto (Join_receive 0) (on_engine (\<lambda>e. e\<lparr>en_running := False\<rparr>) r) else goto Stop_returned r
      | Join_receive i \<Rightarrow>
          if i < length (en_streams e) then join (fst (et_receive s i) = Rx_ended) (Join_consume i) else goto Join_publish r
      | Join_consume i \<Rightarrow> join (\<not> fst (et_consume s i)) (Join_transmit i)
      | Join_transmit i \<Rightarrow> join (fst (et_transmit s i) = Tx_ended) (Join_receive (i + 1))
      | Join_publish \<Rightarrow> join (se_publish r = Publish_ended) Join_discovery
      | Join_discovery \<Rightarrow> join (fst (et_discovery s) = Sap_ended) (if se_ptpClient r then Ptp_stop else Stop_rxActive)
      | Ptp_stop \<Rightarrow> goto Join_ptp (r\<lparr>se_threads := s\<lparr>et_ptpRunning := False\<rparr>\<rparr>)
      | Join_ptp \<Rightarrow> join (fst (et_ptp s) = Ptp_ended) Ptp_unlock
      | Ptp_unlock \<Rightarrow> goto Stop_rxActive ((on_engine (on_block (\<lambda>b. b\<lparr>bk_ptpLocked := False\<rparr>)) r)\<lparr>se_ptpClient := False\<rparr>)
      | Stop_rxActive \<Rightarrow> goto Stop_txActive (on_engine (on_block (\<lambda>b. b\<lparr>bk_rxActive := False\<rparr>)) r)
      | Stop_txActive \<Rightarrow> goto Stop_streamCount (on_engine (on_block (\<lambda>b. b\<lparr>bk_txActive := False\<rparr>)) r)
      | Stop_streamCount \<Rightarrow> goto Stop_engineRunning (on_engine (on_block (\<lambda>b. b\<lparr>bk_activeStreamCount := 0\<rparr>)) r)
      | Stop_engineRunning \<Rightarrow> goto Stop_returned (on_engine (on_block (\<lambda>b. b\<lparr>bk_engineRunning := False\<rparr>)) r)
      | Stop_returned \<Rightarrow> r)"

text \<open>The object that \<open>stop\<close> leaves behind when it has returned.\<close>

definition stopped_object :: "engine_object \<Rightarrow> stopping_engine \<Rightarrow> engine_object" where
  "stopped_object self r = self\<lparr>eo_engine := (et_engine (se_threads r))\<lparr>en_streams := []\<rparr>,
     eo_sapPublish := False, eo_sapDiscovery := False, eo_ptp := None\<rparr>"

datatype engine_turn = Thread_turn thread_event | Publish_turn bool | Stop_turn

fun turn_step :: "int \<Rightarrow> engine_turn \<Rightarrow> stopping_engine \<Rightarrow> stopping_engine option" where
  "turn_step z (Thread_turn event) r = map_option (\<lambda>s. r\<lparr>se_threads := s\<rparr>) (event_step z event (se_threads r))"
| "turn_step z (Publish_turn opened) r =
     (let e = et_engine (se_threads r); (sent, pc) = publish_thread (en_config e) (en_running e) opened (se_publish r)
      in Some (r\<lparr>se_publish := pc, se_announced := se_announced r @ sent\<rparr>))"
| "turn_step z Stop_turn r = Some (stop_turn r)"

fun turn_ok :: "stopping_engine \<Rightarrow> engine_turn \<Rightarrow> bool" where
  "turn_ok r (Thread_turn event) \<longleftrightarrow> event_ok (se_threads r) event \<and> event \<noteq> Stop_requested \<and> event \<noteq> Ptp_stop_requested"
| "turn_ok r _ \<longleftrightarrow> True"

inductive engine_trace :: "int \<Rightarrow> stopping_engine \<Rightarrow> engine_turn list \<Rightarrow> stopping_engine \<Rightarrow> bool" for z where
  turn_nil: "engine_trace z r [] r"
| turn_cons: "turn_ok r turn \<Longrightarrow> turn_step z turn r = Some r1 \<Longrightarrow> engine_trace z r1 turns r2
    \<Longrightarrow> engine_trace z r (turn # turns) r2"

inductive_simps engine_trace_simps: "engine_trace z r [] r'" "engine_trace z r (turn # turns) r'"

section \<open>What is sent\<close>

definition announced_ok :: "live_engine_config \<Rightarrow> publish_pc \<Rightarrow> bytes list \<Rightarrow> bool" where
  "announced_ok c pc sent \<longleftrightarrow> (case pc of
     Publish_open \<Rightarrow> sent = []
   | Publish_ended \<Rightarrow> \<exists>opened rounds. sent = sap_publish c opened rounds
   | _ \<Rightarrow> \<exists>rounds. sent = concat (replicate rounds (map sap_encode (announcements c))))"

lemma publish_announced:
  assumes "announced_ok c pc sent" "publish_thread c running opened pc = (now, pc')"
  shows "announced_ok c pc' (sent @ now)"
proof (cases pc)
  case Publish_open
  have "\<exists>rounds. [] = concat (replicate rounds (map sap_encode (announcements c)))" by (rule exI [of _ 0]) simp
  moreover have "\<exists>opened rounds. [] = sap_publish c opened rounds" by (rule exI [of _ False]) (simp add: sap_publish_def)
  ultimately show ?thesis
    using assms Publish_open by (cases opened) (auto simp: announced_ok_def publish_thread_def)
next
  case Publish_round
  with assms obtain rounds where sent: "sent = concat (replicate rounds (map sap_encode (announcements c)))"
    by (auto simp: announced_ok_def)
  show ?thesis
  proof (cases running)
    case True
    have "sent @ map sap_encode (announcements c) = concat (replicate (Suc rounds) (map sap_encode (announcements c)))"
      by (simp add: sent replicate_append_same [symmetric] del: replicate_Suc) (simp flip: replicate_append_same)
    with True Publish_round assms(2) show ?thesis
      by (auto simp: announced_ok_def publish_thread_def simp del: replicate_Suc)
  next
    case False
    with Publish_round assms(2) sent show ?thesis
      by (auto simp: announced_ok_def publish_thread_def sap_publish_def announcements_def Let_def intro!: exI [of _ True])
  qed
next
  case (Publish_wait i)
  with assms show ?thesis by (auto simp: announced_ok_def publish_thread_def)
next
  case Publish_ended
  with assms show ?thesis by (auto simp: announced_ok_def publish_thread_def)
qed

definition publish_left :: "publish_pc \<Rightarrow> nat" where
  "publish_left pc = (case pc of Publish_open \<Rightarrow> 2 | Publish_wait i \<Rightarrow> 2 | Publish_round \<Rightarrow> 1 | Publish_ended \<Rightarrow> 0)"

lemma publish_advances:
  "publish_left (snd (publish_thread c False opened pc)) \<le> publish_left pc - 1"
  by (cases pc) (simp_all add: publish_thread_def publish_left_def)

lemma publish_left_bounds: "publish_left pc \<le> 2" "publish_left pc = 0 \<longleftrightarrow> pc = Publish_ended"
  by (cases pc; simp add: publish_left_def)+

section \<open>The invariant\<close>

text \<open>The joins that have returned.\<close>

fun receive_joined :: "stop_pc \<Rightarrow> nat \<Rightarrow> bool" where
  "receive_joined Stop_called i \<longleftrightarrow> False"
| "receive_joined (Join_receive k) i \<longleftrightarrow> i < k"
| "receive_joined (Join_consume k) i \<longleftrightarrow> i \<le> k"
| "receive_joined (Join_transmit k) i \<longleftrightarrow> i \<le> k"
| "receive_joined _ i \<longleftrightarrow> True"

fun consume_joined :: "stop_pc \<Rightarrow> nat \<Rightarrow> bool" where
  "consume_joined Stop_called i \<longleftrightarrow> False"
| "consume_joined (Join_receive k) i \<longleftrightarrow> i < k"
| "consume_joined (Join_consume k) i \<longleftrightarrow> i < k"
| "consume_joined (Join_transmit k) i \<longleftrightarrow> i \<le> k"
| "consume_joined _ i \<longleftrightarrow> True"

fun transmit_joined :: "stop_pc \<Rightarrow> nat \<Rightarrow> bool" where
  "transmit_joined Stop_called i \<longleftrightarrow> False"
| "transmit_joined (Join_receive k) i \<longleftrightarrow> i < k"
| "transmit_joined (Join_consume k) i \<longleftrightarrow> i < k"
| "transmit_joined (Join_transmit k) i \<longleftrightarrow> i < k"
| "transmit_joined _ i \<longleftrightarrow> True"

fun publish_joined :: "stop_pc \<Rightarrow> bool" where
  "publish_joined Stop_called \<longleftrightarrow> False"
| "publish_joined (Join_receive k) \<longleftrightarrow> False"
| "publish_joined (Join_consume k) \<longleftrightarrow> False"
| "publish_joined (Join_transmit k) \<longleftrightarrow> False"
| "publish_joined Join_publish \<longleftrightarrow> False"
| "publish_joined _ \<longleftrightarrow> True"

definition discovery_joined :: "stop_pc \<Rightarrow> bool" where
  "discovery_joined pc \<longleftrightarrow> publish_joined pc \<and> pc \<noteq> Join_discovery"

definition ptp_joined :: "stop_pc \<Rightarrow> bool" where
  "ptp_joined pc \<longleftrightarrow> discovery_joined pc \<and> pc \<noteq> Ptp_stop \<and> pc \<noteq> Join_ptp"

fun flags_stored :: "stop_pc \<Rightarrow> bool" where
  "flags_stored Stop_streamCount \<longleftrightarrow> True"
| "flags_stored Stop_engineRunning \<longleftrightarrow> True"
| "flags_stored Stop_returned \<longleftrightarrow> True"
| "flags_stored _ \<longleftrightarrow> False"

definition joined_ok :: "stopping_engine \<Rightarrow> bool" where
  "joined_ok r \<longleftrightarrow> (let s = se_threads r; pc = se_stop r in
     (\<forall>i < length (en_streams (et_engine s)). (receive_joined pc i \<longrightarrow> fst (et_receive s i) = Rx_ended)
        \<and> (consume_joined pc i \<longrightarrow> \<not> fst (et_consume s i)) \<and> (transmit_joined pc i \<longrightarrow> fst (et_transmit s i) = Tx_ended))
     \<and> (publish_joined pc \<longrightarrow> se_publish r = Publish_ended)
     \<and> (discovery_joined pc \<longrightarrow> fst (et_discovery s) = Sap_ended)
     \<and> (ptp_joined pc \<longrightarrow> fst (et_ptp s) = Ptp_ended)
     \<and> (discovery_joined pc \<and> pc \<noteq> Ptp_stop \<longrightarrow> \<not> et_ptpRunning s)
     \<and> (\<not> se_ptpClient r \<longrightarrow> fst (et_ptp s) = Ptp_ended \<and> \<not> et_ptpRunning s)
     \<and> (\<forall>k. pc = Join_consume k \<or> pc = Join_transmit k \<longrightarrow> k < length (en_streams (et_engine s)))
     \<and> (\<forall>k. pc = Join_receive k \<longrightarrow> k \<le> length (en_streams (et_engine s))))"

definition flags_ok :: "stop_pc \<Rightarrow> shared_block \<Rightarrow> bool" where
  "flags_ok pc b \<longleftrightarrow> \<not> bk_ptpLocked b \<and> \<not> bk_rxActive b \<and> \<not> bk_txActive b
     \<and> rings_ok (bk_networkToCoreAudio b) \<and> rings_ok (bk_coreAudioToNetwork b)
     \<and> (pc \<noteq> Stop_streamCount \<longrightarrow> bk_activeStreamCount b = 0) \<and> (pc = Stop_returned \<longrightarrow> \<not> bk_engineRunning b)"

definition stop_inv :: "stopping_engine \<Rightarrow> bool" where
  "stop_inv r \<longleftrightarrow> (let s = se_threads r; e = et_engine s; pc = se_stop r in
     (en_running e \<longleftrightarrow> pc = Stop_called) \<and> joined_ok r
     \<and> announced_ok (en_config e) (se_publish r) (se_announced r)
     \<and> (if flags_stored pc then flags_ok pc (en_block e) else threads_ok s))"

lemma started_inv:
  assumes "fresh_engine (eo_engine self)" "en_running (eo_engine self)"
  shows "stop_inv (started_engine self)"
proof -
  have "threads_ok (threads_of (eo_engine self))" by (rule fresh_ok [OF assms(1)])
  then have "threads_ok (se_threads (started_engine self))"
    using assms(1) by (simp add: threads_ok_def started_engine_def Let_def threads_of_def ptp_ok_def fresh_engine_def)
  then show ?thesis
    using assms(2) by (auto simp: stop_inv_def joined_ok_def started_engine_def Let_def threads_of_def announced_ok_def
        discovery_joined_def ptp_joined_def sap_publish_def intro: exI [of _ False])
qed

section \<open>Turns\<close>

text \<open>How many turns the thread still needs that \<open>stop\<close> is joining, and whose turn is one of that thread.\<close>

definition join_left :: "stopping_engine \<Rightarrow> nat" where
  "join_left r = (let s = se_threads r in case se_stop r of
     Join_receive i \<Rightarrow> if i < length (en_streams (et_engine s)) then rx_left (fst (et_receive s i)) else 0
   | Join_consume i \<Rightarrow> if fst (et_consume s i) then 1 else 0
   | Join_transmit i \<Rightarrow> tx_left (fst (et_transmit s i))
   | Join_publish \<Rightarrow> publish_left (se_publish r)
   | Join_discovery \<Rightarrow> sap_left (fst (et_discovery s))
   | Join_ptp \<Rightarrow> ptp_left (fst (et_ptp s))
   | _ \<Rightarrow> 0)"

definition awaited :: "stop_pc \<Rightarrow> engine_turn \<Rightarrow> bool" where
  "awaited pc turn = (case turn of
     Thread_turn ev \<Rightarrow> (case pc of Join_receive i \<Rightarrow> receive_turn i ev | Join_consume i \<Rightarrow> consume_turn i ev
       | Join_transmit i \<Rightarrow> transmit_turn i ev | Join_discovery \<Rightarrow> discovery_turn ev | Join_ptp \<Rightarrow> ptp_turn ev | _ \<Rightarrow> False)
   | Publish_turn opened \<Rightarrow> pc = Join_publish
   | Stop_turn \<Rightarrow> False)"

lemma ptp_left_0: "ptp_left pc = 0 \<longleftrightarrow> pc = Ptp_ended"
  by (cases pc) (simp_all add: ptp_left_def)

lemma join_left_le: "join_left r \<le> 2"
  using left_bounds(1-3) ptp_left_le publish_left_bounds(1)
  by (cases "se_stop r") (auto simp: join_left_def Let_def)

lemma early_turn:
  assumes inv: "stop_inv r" "\<not> flags_stored (se_stop r)"
    and ev: "event_ok (se_threads r) ev" "ev \<noteq> Stop_requested" "ev \<noteq> Ptp_stop_requested"
  shows "\<exists>s'. event_step z ev (se_threads r) = Some s' \<and> stop_inv (r\<lparr>se_threads := s'\<rparr>)
    \<and> en_config (et_engine s') = en_config (et_engine (se_threads r))
    \<and> length (en_streams (et_engine s')) = length (en_streams (et_engine (se_threads r)))
    \<and> join_left (r\<lparr>se_threads := s'\<rparr>) \<le> join_left r
    \<and> (awaited (se_stop r) (Thread_turn ev) \<and> join_left r \<noteq> 0 \<longrightarrow> join_left (r\<lparr>se_threads := s'\<rparr>) < join_left r)"
proof -
  let ?s = "se_threads r" and ?pc = "se_stop r"
  have ok: "threads_ok ?s" "en_running (et_engine ?s) \<longleftrightarrow> ?pc = Stop_called" "joined_ok r"
    using inv by (simp_all add: stop_inv_def Let_def)
  from event_step_effect [OF ok(1) ev(1), of z] obtain s' where s': "event_step z ev ?s = Some s'" "threads_ok s'"
    "en_config (et_engine s') = en_config (et_engine ?s)" "length (en_streams (et_engine s')) = length (en_streams (et_engine ?s))"
    "en_running (et_engine s') \<longleftrightarrow> en_running (et_engine ?s)"
    "\<not> en_running (et_engine ?s) \<longrightarrow> advances ev ?s s'" "\<not> et_ptpRunning ?s \<longrightarrow> ptp_advances ev ?s s'"
    using ev(2) by auto
  let ?r = "r\<lparr>se_threads := s'\<rparr>"
  have ptp: "\<not> et_ptpRunning s' \<and> ptp_left (fst (et_ptp s')) \<le> ptp_left (fst (et_ptp ?s)) - (if ptp_turn ev then 1 else 0)"
    if "\<not> et_ptpRunning ?s" using s'(7) that by (simp add: ptp_advances_def)
  have "joined_ok ?r \<and> join_left ?r \<le> join_left r
      \<and> (awaited ?pc (Thread_turn ev) \<and> join_left r \<noteq> 0 \<longrightarrow> join_left ?r < join_left r)"
  proof (cases "?pc = Stop_called")
    case True
    have "fst (et_ptp s') = Ptp_ended \<and> \<not> et_ptpRunning s'" if "\<not> se_ptpClient r"
    proof -
      have "fst (et_ptp ?s) = Ptp_ended" "\<not> et_ptpRunning ?s" using ok(3) that by (simp_all add: joined_ok_def Let_def)
      with ptp ptp_left_0 show ?thesis by (metis diff_0_eq_0 le_zero_eq)
    qed
    then show ?thesis
      using True by (simp add: joined_ok_def Let_def join_left_def awaited_def discovery_joined_def ptp_joined_def)
  next
    case False
    then have "advances ev ?s s'" using s'(6) ok(2) by blast
    note a = advances_left [OF this]
    have ended: "fst (et_receive s' i) = Rx_ended" if "fst (et_receive ?s i) = Rx_ended" for i
      using a(1) [of i] that left_bounds(4) by (metis diff_0_eq_0)
    moreover have "fst (et_transmit s' i) = Tx_ended" if "fst (et_transmit ?s i) = Tx_ended" for i
      using a(2) [of i] that left_bounds(5) by (metis diff_0_eq_0)
    moreover have "fst (et_discovery s') = Sap_ended" if "fst (et_discovery ?s) = Sap_ended"
      using a(4) that left_bounds(6) by (metis diff_0_eq_0)
    moreover have "fst (et_ptp s') = Ptp_ended" if "\<not> et_ptpRunning ?s" "fst (et_ptp ?s) = Ptp_ended"
      using ptp that ptp_left_0 by (metis diff_0_eq_0 le_zero_eq)
    moreover have "\<not> fst (et_consume s' i)" if "\<not> fst (et_consume ?s i)" for i using a(3) [of i] that by simp
    moreover note own = ok(3) [unfolded joined_ok_def Let_def]
    moreover have "\<not> et_ptpRunning s'" if "\<not> et_ptpRunning ?s" using ptp that by blast
    ultimately have "joined_ok ?r"
      unfolding joined_ok_def Let_def using s'(4) by (intro conjI) (simp_all add: ptp_joined_def)
    moreover have "join_left ?r \<le> join_left r \<and> (awaited ?pc (Thread_turn ev) \<and> join_left r \<noteq> 0 \<longrightarrow> join_left ?r < join_left r)"
    proof (cases ?pc)
      case Join_ptp
      with ok(3) have "\<not> et_ptpRunning ?s" by (simp add: joined_ok_def Let_def discovery_joined_def)
      with ptp Join_ptp show ?thesis by (auto simp: join_left_def awaited_def)
    qed (use a s'(4) in \<open>auto simp: join_left_def awaited_def Let_def\<close>)
    ultimately show ?thesis by blast
  qed
  then show ?thesis using inv s' ok(2) by (intro exI [of _ s']) (simp add: stop_inv_def Let_def)
qed

text \<open>When the joins are over no thread is left.\<close>

definition threads_ended :: "stopping_engine \<Rightarrow> bool" where
  "threads_ended r \<longleftrightarrow> (let s = se_threads r in
     (\<forall>i < length (en_streams (et_engine s)). fst (et_receive s i) = Rx_ended \<and> \<not> fst (et_consume s i) \<and> fst (et_transmit s i) = Tx_ended)
     \<and> se_publish r = Publish_ended \<and> fst (et_discovery s) = Sap_ended \<and> fst (et_ptp s) = Ptp_ended)"

fun joins_over :: "stop_pc \<Rightarrow> bool" where
  "joins_over Stop_rxActive \<longleftrightarrow> True"
| "joins_over Stop_txActive \<longleftrightarrow> True"
| "joins_over pc \<longleftrightarrow> flags_stored pc"

lemma joined_ended: "joined_ok r \<Longrightarrow> joins_over (se_stop r) \<Longrightarrow> threads_ended r"
  by (cases "se_stop r") (simp_all add: joined_ok_def threads_ended_def Let_def discovery_joined_def ptp_joined_def)

fun driver_event :: "thread_event \<Rightarrow> bool" where
  "driver_event (Driver_records out bytesCount) \<longleftrightarrow> True"
| "driver_event (Driver_plays frames bytesCount) \<longleftrightarrow> True"
| "driver_event _ \<longleftrightarrow> False"

lemma ended_thread:
  "receive_thread bank opened now received e (Rx_ended, l) = Some (e, Rx_ended, l)"
  "consume_thread bank now now2 e (False, deadline) = Some (e, False, deadline)"
  "transmit_thread z bank opened now now2 systemNow sent e (Tx_ended, t) = Some ([], e, Tx_ended, t)"
  "discovery_thread opened sapNow received e (Sap_ended, reconnect) = Some (e, Sap_ended, reconnect)"
  "ptp_thread cfg running opened now inputs b (Ptp_ended, st) = Some (b, Ptp_ended, st)"
  by (simp_all add: receive_thread_def consume_thread_def transmit_thread_def discovery_thread_def ptp_thread_def Let_def)

lemma ended_turn:
  assumes "threads_ended r" "event_ok (se_threads r) ev" "\<not> driver_event ev" "ev \<noteq> Stop_requested" "ev \<noteq> Ptp_stop_requested"
  shows "event_step z ev (se_threads r) = Some (se_threads r)"
proof -
  let ?s = "se_threads r"
  note ended = assms(1) [unfolded threads_ended_def Let_def]
  have same: "?s\<lparr>et_engine := et_engine ?s, et_receive := et_receive ?s\<rparr> = ?s" "?s\<lparr>et_engine := et_engine ?s, et_consume := et_consume ?s\<rparr> = ?s"
    "?s\<lparr>et_engine := et_engine ?s, et_transmit := et_transmit ?s, et_sent := et_sent ?s\<rparr> = ?s"
    "?s\<lparr>et_engine := et_engine ?s, et_discovery := et_discovery ?s\<rparr> = ?s" "?s\<lparr>et_engine := et_engine ?s, et_ptp := et_ptp ?s\<rparr> = ?s"
    by simp_all
  show ?thesis
  proof (cases ev)
    case (Receive_turn bank opened now received)
    with assms(2) have "bank < length (en_streams (et_engine ?s))" by simp
    with ended obtain l where l: "et_receive ?s bank = (Rx_ended, l)" by (cases "et_receive ?s bank") auto
    then have "(et_receive ?s)(bank := (Rx_ended, l)) = et_receive ?s" by (simp add: fun_upd_idem)
    with Receive_turn l same(1) show ?thesis by (simp add: ended_thread)
  next
    case (Consume_turn bank now now2)
    with assms(2) have "bank < length (en_streams (et_engine ?s))" by simp
    with ended obtain l where l: "et_consume ?s bank = (False, l)" by (cases "et_consume ?s bank") auto
    then have "(et_consume ?s)(bank := (False, l)) = et_consume ?s" by (simp add: fun_upd_idem)
    with Consume_turn l same(2) show ?thesis by (simp add: ended_thread)
  next
    case (Transmit_turn bank opened now now2 systemNow sent)
    with assms(2) have "bank < length (en_streams (et_engine ?s))" by simp
    with ended obtain l where l: "et_transmit ?s bank = (Tx_ended, l)" by (cases "et_transmit ?s bank") auto
    then have "(et_transmit ?s)(bank := (Tx_ended, l)) = et_transmit ?s" by (simp add: fun_upd_idem)
    with Transmit_turn l same(3) show ?thesis by (simp add: ended_thread)
  next
    case (Discovery_turn opened now received)
    with ended obtain l where "et_discovery ?s = (Sap_ended, l)" by (cases "et_discovery ?s") auto
    with Discovery_turn same(4) show ?thesis by (simp add: ended_thread)
  next
    case (Ptp_turn opened now inputs)
    with ended obtain st where "et_ptp ?s = (Ptp_ended, st)" by (cases "et_ptp ?s") auto
    with Ptp_turn same(5) show ?thesis by (simp add: ended_thread)
  qed (use assms in simp_all)
qed

lemma late_turn:
  assumes inv: "stop_inv r" "flags_stored (se_stop r)"
    and ev: "event_ok (se_threads r) ev" "ev \<noteq> Stop_requested" "ev \<noteq> Ptp_stop_requested"
  shows "\<exists>s'. event_step z ev (se_threads r) = Some s' \<and> stop_inv (r\<lparr>se_threads := s'\<rparr>)
    \<and> en_config (et_engine s') = en_config (et_engine (se_threads r))
    \<and> length (en_streams (et_engine s')) = length (en_streams (et_engine (se_threads r)))"
proof -
  let ?s = "se_threads r" and ?b = "en_block (et_engine (se_threads r))"
  have ended: "threads_ended r"
    using inv by (intro joined_ended) (auto simp: stop_inv_def Let_def elim!: flags_stored.elims)
  have rings: "rings_ok (bk_networkToCoreAudio ?b)" "rings_ok (bk_coreAudioToNetwork ?b)"
    and flags: "flags_ok (se_stop r) ?b"
    using inv by (simp_all add: stop_inv_def flags_ok_def Let_def)
  have driven: ?thesis if "event_step z ev ?s = Some (?s\<lparr>et_engine := (et_engine ?s)\<lparr>en_block := b'\<rparr>\<rparr>)"
    "flags_ok (se_stop r) b'" for b'
    using that inv by (intro exI [of _ "?s\<lparr>et_engine := (et_engine ?s)\<lparr>en_block := b'\<rparr>\<rparr>"]) (simp add: stop_inv_def joined_ok_def Let_def)
  show ?thesis
  proof (cases "driver_event ev")
    case False
    from ended_turn [OF ended ev(1) this ev(2,3)] inv show ?thesis by auto
  next
    case True
    then show ?thesis
    proof (cases ev)
      case (Driver_records out bytesCount)
      with driver_defined(1) [OF rings, of out bytesCount] ev(1) obtain o' rs n where
        step: "on_read_client_input (Some ?b) (Some out) bytesCount = Some (o', Some (?b\<lparr>bk_networkToCoreAudio := rs,
          bk_statistics := (bk_statistics ?b)\<lparr>st_inputUnderruns := n\<rparr>\<rparr>))" "rings_ok rs" by auto
      show ?thesis
        by (rule driven [of "?b\<lparr>bk_networkToCoreAudio := rs, bk_statistics := (bk_statistics ?b)\<lparr>st_inputUnderruns := n\<rparr>\<rparr>"])
          (use Driver_records step flags in \<open>simp_all add: flags_ok_def\<close>)
    next
      case (Driver_plays frames bytesCount)
      with driver_defined(2) [OF rings, of frames bytesCount] ev(1) obtain rs n where
        step: "on_write_mixed_output (Some ?b) (Some frames) bytesCount = Some (Some (?b\<lparr>bk_coreAudioToNetwork := rs,
          bk_statistics := (bk_statistics ?b)\<lparr>st_ringOverruns := n\<rparr>\<rparr>))" "rings_ok rs" by auto
      show ?thesis
        by (rule driven [of "?b\<lparr>bk_coreAudioToNetwork := rs, bk_statistics := (bk_statistics ?b)\<lparr>st_ringOverruns := n\<rparr>\<rparr>"])
          (use Driver_plays step flags in \<open>simp_all add: flags_ok_def\<close>)
    qed simp_all
  qed
qed

text \<open>How many accesses \<open>stop\<close> has yet to make.\<close>

definition stop_rank :: "stopping_engine \<Rightarrow> nat" where
  "stop_rank r = (let n = length (en_streams (et_engine (se_threads r))) in case se_stop r of
     Stop_called \<Rightarrow> 3 * n + 12 | Join_receive i \<Rightarrow> 3 * (n - i) + 11 | Join_consume i \<Rightarrow> 3 * (n - i) + 10
   | Join_transmit i \<Rightarrow> 3 * (n - i) + 9 | Join_publish \<Rightarrow> 10 | Join_discovery \<Rightarrow> 9 | Ptp_stop \<Rightarrow> 8 | Join_ptp \<Rightarrow> 7
   | Ptp_unlock \<Rightarrow> 6 | Stop_rxActive \<Rightarrow> 5 | Stop_txActive \<Rightarrow> 4 | Stop_streamCount \<Rightarrow> 3 | Stop_engineRunning \<Rightarrow> 2
   | Stop_returned \<Rightarrow> 0)"

lemma stop_turn_rank:
  assumes "stop_inv r"
  shows "if se_stop r = Stop_returned \<or> join_left r \<noteq> 0 then stop_turn r = r else stop_rank (stop_turn r) < stop_rank r"
proof -
  have k: "se_stop r = Join_consume k \<or> se_stop r = Join_transmit k \<Longrightarrow> k < length (en_streams (et_engine (se_threads r)))" for k
    using assms by (auto simp: stop_inv_def joined_ok_def Let_def)
  have zeros: "rx_left Rx_ended = 0" "tx_left Tx_ended = 0" "sap_left Sap_ended = 0" "ptp_left Ptp_ended = 0" "publish_left Publish_ended = 0"
    by (simp_all add: left_defs ptp_left_def publish_left_def)
  show ?thesis
    using k left_bounds(4-6) ptp_left_0 publish_left_bounds(2)
    by (cases "se_stop r") (auto simp: zeros stop_turn_def Let_def stop_rank_def join_left_def on_engine_def on_block_def)
qed

lemma block_kept: "f (en_block e) = en_block e \<Longrightarrow> on_block f e = e"
  by (simp add: on_block_def)

lemma ended_flags:
  assumes "threads_ok (se_threads r)" "threads_ended r"
  shows "\<not> bk_rxActive (en_block (et_engine (se_threads r)))" "\<not> bk_ptpLocked (en_block (et_engine (se_threads r)))"
    "rings_ok (bk_networkToCoreAudio (en_block (et_engine (se_threads r))))"
    "rings_ok (bk_coreAudioToNetwork (en_block (et_engine (se_threads r))))"
proof -
  let ?s = "se_threads r"
  have core: "core_ok (et_engine ?s)" and ptp: "ptp_ok (en_block (et_engine ?s)) (et_ptp ?s)"
    using assms(1) by (simp_all add: threads_ok_def)
  then have act: "activity_inv (et_engine ?s)" by (simp add: core_ok_def engine_wf_def)
  have "\<not> rx_flag (et_engine ?s) i" if "i < length (en_streams (et_engine ?s))" for i
    using assms that by (auto simp: threads_ok_def rx_ok_def threads_ended_def Let_def)
  then show "\<not> bk_rxActive (en_block (et_engine ?s))" using receiving_stream(1) [OF act] by blast
  show "\<not> bk_ptpLocked (en_block (et_engine ?s))" using ptp assms(2) by (simp add: ptp_ok_def threads_ended_def Let_def)
  show "rings_ok (bk_networkToCoreAudio (en_block (et_engine ?s)))" "rings_ok (bk_coreAudioToNetwork (en_block (et_engine ?s)))"
    using rings_of_wf [OF core] by simp_all
qed

lemma stop_turn_inv:
  assumes inv: "stop_inv r"
  shows "stop_inv (stop_turn r) \<and> en_config (et_engine (se_threads (stop_turn r))) = en_config (et_engine (se_threads r))
    \<and> length (en_streams (et_engine (se_threads (stop_turn r)))) = length (en_streams (et_engine (se_threads r)))"
proof -
  let ?s = "se_threads r" and ?e = "et_engine (se_threads r)"
  note own = inv [unfolded stop_inv_def Let_def]
  note joins = stop_turn_def Let_def stop_inv_def joined_ok_def discovery_joined_def ptp_joined_def
  show ?thesis
  proof (cases "se_stop r")
    case Stop_called
    then show ?thesis using own stop_ok [of ?s] by (auto simp: joins on_engine_def)
  next
    case (Join_receive i)
    then show ?thesis using own by (auto simp: joins less_Suc_eq_le le_less)
  next
    case (Join_consume i)
    then show ?thesis using own by (auto simp: joins less_Suc_eq_le le_less)
  next
    case (Join_transmit i)
    then show ?thesis using own by (auto simp: joins less_Suc_eq_le le_less)
  next
    case Ptp_stop
    have "threads_ok (?s\<lparr>et_ptpRunning := False\<rparr>)" using own Ptp_stop by (simp add: threads_ok_def)
    with Ptp_stop show ?thesis using own by (auto simp: joins)
  next
    case Ptp_unlock
    then have "threads_ok ?s" "fst (et_ptp ?s) = Ptp_ended" using own by (simp_all add: joined_ok_def Let_def ptp_joined_def discovery_joined_def)
    then have "\<not> bk_ptpLocked (en_block ?e)" by (simp add: threads_ok_def ptp_ok_def)
    then have "on_block (\<lambda>b. b\<lparr>bk_ptpLocked := False\<rparr>) ?e = ?e" by (intro block_kept) simp
    with Ptp_unlock show ?thesis using own by (auto simp: joins on_engine_def)
  next
    case Stop_rxActive
    then have "\<not> bk_rxActive (en_block ?e)" using own by (intro ended_flags) (simp_all add: joined_ended)
    then have "on_block (\<lambda>b. b\<lparr>bk_rxActive := False\<rparr>) ?e = ?e" by (intro block_kept) simp
    with Stop_rxActive show ?thesis using own by (auto simp: joins on_engine_def)
  next
    case Stop_txActive
    then have "threads_ok ?s" "threads_ended r" using own by (simp_all add: joined_ended)
    from ended_flags [OF this] Stop_txActive show ?thesis
      using own by (auto simp: joins on_engine_def on_block_def flags_ok_def)
  qed (use own in \<open>auto simp: joins on_engine_def on_block_def flags_ok_def\<close>)
qed

text \<open>Any turn.\<close>

lemma turn_effect:
  assumes inv: "stop_inv r" and ok: "turn_ok r turn"
  shows "\<exists>r'. turn_step z turn r = Some r' \<and> stop_inv r'
    \<and> en_config (et_engine (se_threads r')) = en_config (et_engine (se_threads r))
    \<and> length (en_streams (et_engine (se_threads r'))) = length (en_streams (et_engine (se_threads r)))
    \<and> (if turn = Stop_turn
        then if se_stop r = Stop_returned \<or> join_left r \<noteq> 0 then r' = r else stop_rank r' < stop_rank r
        else se_stop r' = se_stop r \<and> join_left r' \<le> join_left r
          \<and> (awaited (se_stop r) turn \<and> join_left r \<noteq> 0 \<longrightarrow> join_left r' < join_left r))"
proof (cases turn)
  case Stop_turn
  then show ?thesis using stop_turn_inv [OF inv] stop_turn_rank [OF inv] by simp
next
  case (Thread_turn ev)
  with ok have ev: "event_ok (se_threads r) ev" "ev \<noteq> Stop_requested" "ev \<noteq> Ptp_stop_requested" by simp_all
  show ?thesis
  proof (cases "flags_stored (se_stop r)")
    case True
    then have "join_left (r\<lparr>se_threads := s'\<rparr>) = 0" "join_left r = 0" for s'
      by (cases "se_stop r"; simp add: join_left_def Let_def)+
    with late_turn [OF inv True ev, of z] Thread_turn show ?thesis by auto
  next
    case False
    from early_turn [OF inv False ev, of z] Thread_turn show ?thesis by auto
  qed
next
  case (Publish_turn opened)
  let ?e = "et_engine (se_threads r)"
  obtain sent pc where p: "publish_thread (en_config ?e) (en_running ?e) opened (se_publish r) = (sent, pc)" by fastforce
  note own = inv [unfolded stop_inv_def Let_def]
  let ?r = "r\<lparr>se_publish := pc, se_announced := se_announced r @ sent\<rparr>"
  have ended: "pc = Publish_ended" if "se_publish r = Publish_ended" using p that by (simp add: publish_thread_def)
  have "announced_ok (en_config ?e) pc (se_announced r @ sent)" using publish_announced [OF _ p] own by blast
  then have "stop_inv ?r" using own ended by (simp add: stop_inv_def joined_ok_def Let_def)
  moreover have "join_left ?r \<le> join_left r \<and> (awaited (se_stop r) turn \<and> join_left r \<noteq> 0 \<longrightarrow> join_left ?r < join_left r)"
  proof (cases "se_stop r = Join_publish")
    case True
    then have "\<not> en_running ?e" using own by simp
    with p publish_advances [of "en_config ?e" opened "se_publish r"] True Publish_turn show ?thesis
      by (auto simp: join_left_def)
  next
    case False
    then have "join_left ?r = join_left r" by (cases "se_stop r") (simp_all add: join_left_def)
    with False Publish_turn show ?thesis by (simp add: awaited_def)
  qed
  moreover have "turn_step z turn r = Some ?r" using Publish_turn p by (simp add: Let_def)
  ultimately show ?thesis using Publish_turn by (intro exI [of _ ?r]) simp
qed

lemma engine_trace_inv:
  assumes "engine_trace z r turns r'" "stop_inv r"
  shows "stop_inv r' \<and> en_config (et_engine (se_threads r')) = en_config (et_engine (se_threads r))
    \<and> length (en_streams (et_engine (se_threads r'))) = length (en_streams (et_engine (se_threads r)))"
  using assms
proof induction
  case (turn_cons r turn r1 turns r2)
  with turn_effect [OF turn_cons.prems turn_cons.hyps(1), of z] show ?case by (auto split: if_splits)
qed simp

section \<open>What holds of every stop\<close>

text \<open>A turn of one of the engine's own threads.\<close>

fun own_turn :: "engine_turn \<Rightarrow> bool" where
  "own_turn (Thread_turn ev) \<longleftrightarrow> \<not> driver_event ev"
| "own_turn (Publish_turn opened) \<longleftrightarrow> True"
| "own_turn Stop_turn \<longleftrightarrow> False"


text \<open>C11: The single step \<open>engine_stop\<close> is what \<open>stop\<close> comes to: when it has returned, the object is the one that
  \<open>engine_stop\<close> makes of the engine its threads left, every flag is withdrawn, and the publishing thread, if there
  was one and it had a socket, has followed its announcements with the deletion of every stream.\<close>

theorem stop_outcome:
  assumes "fresh_engine (eo_engine self)" "en_running (eo_engine self)" "sm_block (eo_memory self) \<noteq> None"
    and "engine_trace z (started_engine self) turns r" "se_stop r = Stop_returned"
  shows "stopped_object self r = engine_stop (self\<lparr>eo_engine := (et_engine (se_threads r))\<lparr>en_running := True\<rparr>\<rparr>)
    \<and> (\<exists>opened rounds. se_announced r = sap_publish (en_config (eo_engine self)) opened rounds)"
proof -
  have inv: "stop_inv r" and config: "en_config (et_engine (se_threads r)) = en_config (eo_engine self)"
    using engine_trace_inv [OF assms(4) started_inv [OF assms(1,2)]] by (simp_all add: started_engine_def threads_of_def Let_def)
  have flags: "flags_ok Stop_returned (en_block (et_engine (se_threads r)))" "\<not> en_running (et_engine (se_threads r))"
    "joined_ok r" "announced_ok (en_config (eo_engine self)) (se_publish r) (se_announced r)"
    using inv assms(5) config by (simp_all add: stop_inv_def Let_def)
  have "bk\<lparr>bk_ptpLocked := False\<rparr> = bk" "bk\<lparr>bk_rxActive := False, bk_txActive := False, bk_activeStreamCount := 0,
      bk_engineRunning := False\<rparr> = bk" if "flags_ok Stop_returned bk" for bk
    using that by (simp_all add: flags_ok_def)
  with flags(1,2) assms(3) have "stopped_object self r = engine_stop (self\<lparr>eo_engine := (et_engine (se_threads r))\<lparr>en_running := True\<rparr>\<rparr>)"
    by (simp add: stopped_object_def engine_stop_def Let_def)
  moreover have "threads_ended r" using flags(3) assms(5) by (intro joined_ended) simp_all
  with flags(4) have "\<exists>opened rounds. se_announced r = sap_publish (en_config (eo_engine self)) opened rounds"
    by (simp add: threads_ended_def Let_def announced_ok_def)
  ultimately show ?thesis by blast
qed

section \<open>A stop returns\<close>

text \<open>Turns among which every thread of an engine with \<open>n\<close> streams has one, and \<open>stop\<close> too.\<close>

definition complete_round :: "nat \<Rightarrow> engine_turn list \<Rightarrow> bool" where
  "complete_round n turns \<longleftrightarrow> (\<forall>i < n. (\<exists>ev. receive_turn i ev \<and> Thread_turn ev \<in> set turns)
       \<and> (\<exists>ev. consume_turn i ev \<and> Thread_turn ev \<in> set turns) \<and> (\<exists>ev. transmit_turn i ev \<and> Thread_turn ev \<in> set turns))
     \<and> (\<exists>ev. discovery_turn ev \<and> Thread_turn ev \<in> set turns) \<and> (\<exists>ev. ptp_turn ev \<and> Thread_turn ev \<in> set turns)
     \<and> (\<exists>opened. Publish_turn opened \<in> set turns) \<and> Stop_turn \<in> set turns"

definition stop_potential :: "stopping_engine \<Rightarrow> nat" where
  "stop_potential r = 3 * stop_rank r + join_left r"

lemma round_awaited:
  assumes "complete_round n turns" "stop_inv r" "length (en_streams (et_engine (se_threads r))) = n" "join_left r \<noteq> 0"
  shows "\<exists>turn \<in> set turns. awaited (se_stop r) turn"
proof -
  have "joined_ok r" using assms(2) by (simp add: stop_inv_def Let_def)
  then have "k < n" if "se_stop r = Join_consume k \<or> se_stop r = Join_transmit k" for k
    unfolding joined_ok_def Let_def assms(3) using that by blast
  moreover have "k < n" if "se_stop r = Join_receive k" for k
    using assms(3,4) that by (simp add: join_left_def Let_def split: if_splits)
  ultimately have k: "k < n" if "se_stop r = Join_receive k \<or> se_stop r = Join_consume k \<or> se_stop r = Join_transmit k" for k
    using that by blast
  have c: "i < n \<Longrightarrow> \<exists>ev. receive_turn i ev \<and> Thread_turn ev \<in> set turns" "i < n \<Longrightarrow> \<exists>ev. consume_turn i ev \<and> Thread_turn ev \<in> set turns"
    "i < n \<Longrightarrow> \<exists>ev. transmit_turn i ev \<and> Thread_turn ev \<in> set turns" "\<exists>ev. discovery_turn ev \<and> Thread_turn ev \<in> set turns"
    "\<exists>ev. ptp_turn ev \<and> Thread_turn ev \<in> set turns" "\<exists>opened. Publish_turn opened \<in> set turns" for i
    using assms(1) by (simp_all add: complete_round_def)
  have found: ?thesis if "\<exists>ev. P ev \<and> Thread_turn ev \<in> set turns" "\<And>ev. P ev \<Longrightarrow> awaited (se_stop r) (Thread_turn ev)" for P
    using that by blast
  show ?thesis
  proof (cases "se_stop r")
    case (Join_receive i)
    then show ?thesis using k by (intro found [OF c(1)]) (simp_all add: awaited_def)
  next
    case (Join_consume i)
    then show ?thesis using k by (intro found [OF c(2)]) (simp_all add: awaited_def)
  next
    case (Join_transmit i)
    then show ?thesis using k by (intro found [OF c(3)]) (simp_all add: awaited_def)
  next
    case Join_publish
    from c(6) obtain opened where "Publish_turn opened \<in> set turns" by blast
    with Join_publish show ?thesis by (intro bexI [of _ "Publish_turn opened"]) (simp_all add: awaited_def)
  next
    case Join_discovery
    then show ?thesis by (intro found [OF c(4)]) (simp_all add: awaited_def)
  next
    case Join_ptp
    then show ?thesis by (intro found [OF c(5)]) (simp_all add: awaited_def)
  qed (use assms(4) in \<open>simp_all add: join_left_def\<close>)
qed

lemma turn_potential:
  assumes "stop_inv r" "turn_ok r turn" "turn_step z turn r = Some r'"
  shows "stop_potential r' \<le> stop_potential r"
    and "stop_potential r' = stop_potential r \<Longrightarrow> se_stop r' = se_stop r \<and> join_left r' = join_left r
      \<and> (turn = Stop_turn \<longrightarrow> se_stop r = Stop_returned \<or> join_left r \<noteq> 0) \<and> (awaited (se_stop r) turn \<longrightarrow> join_left r = 0)"
proof -
  note e = turn_effect [OF assms(1,2), of z, unfolded assms(3) option.inject]
  have "stop_potential r' \<le> stop_potential r \<and> (stop_potential r' = stop_potential r \<longrightarrow> se_stop r' = se_stop r \<and> join_left r' = join_left r
      \<and> (turn = Stop_turn \<longrightarrow> se_stop r = Stop_returned \<or> join_left r \<noteq> 0) \<and> (awaited (se_stop r) turn \<longrightarrow> join_left r = 0))"
  proof (cases "turn = Stop_turn")
    case True
    then show ?thesis using e join_left_le [of r'] by (auto simp: stop_potential_def awaited_def split: if_splits)
  next
    case False
    then have same: "se_stop r' = se_stop r" "join_left r' \<le> join_left r"
      "awaited (se_stop r) turn \<and> join_left r \<noteq> 0 \<longrightarrow> join_left r' < join_left r"
      "length (en_streams (et_engine (se_threads r'))) = length (en_streams (et_engine (se_threads r)))"
      using e by auto
    then have "stop_rank r' = stop_rank r" by (simp add: stop_rank_def)
    with same False show ?thesis by (auto simp: stop_potential_def)
  qed
  then show "stop_potential r' \<le> stop_potential r"
    "stop_potential r' = stop_potential r \<Longrightarrow> se_stop r' = se_stop r \<and> join_left r' = join_left r
      \<and> (turn = Stop_turn \<longrightarrow> se_stop r = Stop_returned \<or> join_left r \<noteq> 0) \<and> (awaited (se_stop r) turn \<longrightarrow> join_left r = 0)"
    by blast+
qed

lemma trace_potential:
  assumes "engine_trace z r turns r'" "stop_inv r"
  shows "stop_potential r' \<le> stop_potential r \<and> (stop_potential r' = stop_potential r \<longrightarrow>
      se_stop r' = se_stop r \<and> join_left r' = join_left r
    \<and> (Stop_turn \<in> set turns \<longrightarrow> se_stop r = Stop_returned \<or> join_left r \<noteq> 0)
    \<and> (\<forall>turn \<in> set turns. awaited (se_stop r) turn \<longrightarrow> join_left r = 0))"
  using assms
proof induction
  case (turn_cons r turn r1 turns r2)
  have "stop_inv r1" using turn_effect [OF turn_cons.prems turn_cons.hyps(1), of z] turn_cons.hyps(2) by auto
  from turn_cons.IH [OF this] turn_potential [OF turn_cons.prems turn_cons.hyps(1,2)]
  show ?case by (cases "stop_potential r1 = stop_potential r") auto
qed simp

lemma round_progress:
  assumes "engine_trace z r turns r'" "stop_inv r" "complete_round (length (en_streams (et_engine (se_threads r)))) turns"
    and "se_stop r \<noteq> Stop_returned"
  shows "stop_potential r' < stop_potential r"
proof (rule ccontr)
  note t = trace_potential [OF assms(1,2)]
  assume "\<not> stop_potential r' < stop_potential r"
  with t have eq: "stop_potential r' = stop_potential r" by simp
  note stuck = mp [OF conjunct2 [OF t] eq]
  have "Stop_turn \<in> set turns" using assms(3) by (simp add: complete_round_def)
  with stuck assms(4) have left: "join_left r \<noteq> 0" by blast
  obtain turn where "turn \<in> set turns" "awaited (se_stop r) turn"
    using round_awaited [OF assms(3,2) refl left] by (elim bexE)
  with stuck left show False by auto
qed

lemma engine_trace_append:
  "engine_trace z r (turns @ turns') r' \<longleftrightarrow> (\<exists>r1. engine_trace z r turns r1 \<and> engine_trace z r1 turns' r')"
  by (induction turns arbitrary: r) (auto simp: engine_trace_simps)

lemma rounds_return:
  assumes "engine_trace z r (concat rounds) r'" "stop_inv r"
    and "\<forall>turns \<in> set rounds. complete_round (length (en_streams (et_engine (se_threads r)))) turns"
    and "stop_potential r \<le> length rounds"
  shows "se_stop r' = Stop_returned"
  using assms
proof (induction rounds arbitrary: r)
  case Nil
  then have "stop_potential r = 0" "r' = r" by (simp_all add: engine_trace_simps)
  then show ?case by (cases "se_stop r") (simp_all add: stop_potential_def stop_rank_def Let_def)
next
  case (Cons turns rounds)
  then obtain r1 where r1: "engine_trace z r turns r1" "engine_trace z r1 (concat rounds) r'"
    by (auto simp: engine_trace_append)
  note inv = engine_trace_inv [OF r1(1) Cons.prems(2)]
  show ?case
  proof (cases "se_stop r = Stop_returned")
    case True
    then have "join_left r = 0" "stop_potential r = 0" by (simp_all add: join_left_def stop_potential_def stop_rank_def)
    then have "stop_potential r1 = 0" using trace_potential [OF r1(1) Cons.prems(2)] by simp
    then show ?thesis using Cons.IH [OF r1(2)] inv Cons.prems(3) by simp
  next
    case False
    then have "stop_potential r1 < stop_potential r" using round_progress [OF r1(1) Cons.prems(2)] Cons.prems(3) by simp
    then show ?thesis using Cons.IH [OF r1(2)] inv Cons.prems(3,4) by simp
  qed
qed

text \<open>C9: A stop returns: once it is called on a running engine, \<open>9 n + 36\<close> rounds in which each thread of the \<open>n\<close>
  streams, the discovery, publishing and PTP threads and \<open>stop\<close> itself have a turn, in any order, are enough,
  whatever the threads were doing and whatever the system answers them.\<close>

theorem stop_returns:
  assumes "fresh_engine (eo_engine self)" "en_running (eo_engine self)"
    and "engine_trace z (started_engine self) before r" "engine_trace z r (concat rounds) r'"
    and "\<forall>turns \<in> set rounds. complete_round (length (en_streams (eo_engine self))) turns"
    and "9 * length (en_streams (eo_engine self)) + 36 \<le> length rounds"
  shows "se_stop r' = Stop_returned"
proof -
  have start: "stop_inv (started_engine self)" by (rule started_inv [OF assms(1,2)])
  have n: "length (en_streams (et_engine (se_threads r))) = length (en_streams (eo_engine self))" and inv: "stop_inv r"
    using engine_trace_inv [OF assms(3) start] by (simp_all add: started_engine_def threads_of_def Let_def)
  have "stop_potential r \<le> stop_potential (started_engine self)" using trace_potential [OF assms(3) start] by blast
  also have "stop_potential (started_engine self) = 9 * length (en_streams (eo_engine self)) + 36"
    by (simp add: stop_potential_def stop_rank_def join_left_def started_engine_def threads_of_def Let_def)
  finally show ?thesis using rounds_return [OF assms(4) inv] assms(5,6) n by simp
qed

section \<open>Witnesses\<close>

text \<open>A full engine with one stream, and rounds in which the system never answers.\<close>

definition running_object :: engine_object where
  "running_object = (new_engine_object default_config)\<lparr>eo_engine := demo_engine, eo_memory := new_memory\<lparr>sm_block := Some (new_layout, new_block)\<rparr>,
     eo_sapPublish := True, eo_sapDiscovery := True, eo_ptp := Some (ptp_endpoint_of default_config)\<rparr>"

definition idle_round :: "engine_turn list" where
  "idle_round = [Stop_turn, Publish_turn False, Thread_turn (Receive_turn 0 False 0 Timed_out), Thread_turn (Consume_turn 0 0 0),
     Thread_turn (Transmit_turn 0 False 0 0 0 True), Thread_turn (Discovery_turn False 0 Timed_out),
     Thread_turn (Ptp_turn False 1 quiet_inputs)]"

definition demo_stopping :: "stopping_engine \<Rightarrow> bool" where
  "demo_stopping r \<longleftrightarrow> stop_inv r \<and> length (en_streams (et_engine (se_threads r))) = 1
     \<and> fst (et_transmit (se_threads r) 0) \<noteq> Tx_send \<and> se_stop r \<noteq> Stop_called"

lemma idle_turn:
  assumes "demo_stopping r" "turn \<in> set idle_round"
  shows "turn_ok r turn \<and> (\<exists>r'. turn_step 0 turn r = Some r' \<and> demo_stopping r')"
proof -
  note d = assms(1) [unfolded demo_stopping_def]
  have ok: "turn_ok r turn"
    using assms(2) d quiet_defined by (auto simp: idle_round_def steady_limit_def system_limit_def)
  obtain r' where r': "turn_step 0 turn r = Some r'" "stop_inv r'" "length (en_streams (et_engine (se_threads r'))) = 1"
    "if turn = Stop_turn then r' = r \<or> stop_rank r' < stop_rank r else se_stop r' = se_stop r"
    using turn_effect [OF conjunct1 [OF d] ok, of 0] d by (auto split: if_splits)
  have off: "\<not> en_running (et_engine (se_threads r))" using d by (simp add: stop_inv_def Let_def)
  have pc: "se_stop r' \<noteq> Stop_called"
  proof (cases "turn = Stop_turn")
    case True
    with r'(1) d show ?thesis by (cases "se_stop r") (auto simp: stop_turn_def Let_def split: if_splits)
  qed (use r'(4) d in simp)
  have "fst (et_transmit (se_threads r') 0) \<noteq> Tx_send"
  proof (cases turn)
    case Stop_turn
    with r'(1) have "et_transmit (se_threads r') = et_transmit (se_threads r)"
      by (cases "se_stop r") (auto simp: stop_turn_def on_engine_def Let_def)
    with d show ?thesis by simp
  next
    case (Publish_turn opened)
    with r'(1) d show ?thesis by (auto simp: Let_def split: prod.splits)
  next
    case (Thread_turn ev)
    with assms(2) have "ev \<in> {Receive_turn 0 False 0 Timed_out, Consume_turn 0 0 0, Transmit_turn 0 False 0 0 0 True,
        Discovery_turn False 0 Timed_out, Ptp_turn False 1 quiet_inputs}" by (simp add: idle_round_def)
    with r'(1) d off Thread_turn show ?thesis
      by (cases "et_transmit (se_threads r) 0"; cases "fst (et_transmit (se_threads r) 0)") (auto simp: transmit_thread_def)
  qed
  with r' pc ok show ?thesis by (auto simp: demo_stopping_def)
qed

lemma idle_trace:
  assumes "demo_stopping r" "set turns \<subseteq> set idle_round"
  shows "\<exists>r'. engine_trace 0 r turns r'"
  using assms
proof (induction turns arbitrary: r)
  case Nil
  show ?case by (rule exI, rule turn_nil)
next
  case (Cons turn turns)
  from idle_turn [OF Cons.prems(1), of turn] Cons.prems(2)
  obtain r1 where r1: "turn_ok r turn" "turn_step 0 turn r = Some r1" "demo_stopping r1" by auto
  with Cons.IH [OF r1(3)] Cons.prems(2) obtain r' where "engine_trace 0 r1 turns r'" by auto
  with r1 show ?case by (auto intro: turn_cons)
qed

lemma running_object_facts:
  "fresh_engine (eo_engine running_object)" "en_running (eo_engine running_object)" "sm_block (eo_memory running_object) \<noteq> None"
  "length (en_streams (eo_engine running_object)) = 1"
  using demo_fresh by (simp_all add: running_object_def) (simp_all add: demo_engine_def)

lemma demo_stop_begins:
  "\<exists>r. engine_trace 0 (started_engine running_object) [Stop_turn] r \<and> demo_stopping r"
proof -
  let ?r = "stop_turn (started_engine running_object)"
  have trace: "engine_trace 0 (started_engine running_object) [Stop_turn] ?r" by (simp add: engine_trace_simps)
  have "stop_inv ?r" "length (en_streams (et_engine (se_threads ?r))) = 1"
    using engine_trace_inv [OF trace started_inv [OF running_object_facts(1,2)]] running_object_facts(4)
    by (simp_all add: started_engine_def threads_of_def Let_def)
  moreover have "se_stop ?r \<noteq> Stop_called" "fst (et_transmit (se_threads ?r) 0) \<noteq> Tx_send"
    using running_object_facts(2) by (simp_all add: stop_turn_def started_engine_def threads_of_def on_engine_def Let_def)
  ultimately show ?thesis using trace unfolding demo_stopping_def by blast
qed

lemma idle_complete: "complete_round (Suc 0) idle_round"
  by (auto simp: complete_round_def idle_round_def conj_disj_distribL ex_disj_distrib)


lemma idle_rounds:
  assumes "demo_stopping r"
  shows "\<exists>r'. engine_trace 0 r (concat (replicate 45 idle_round)) r'"
  by (rule idle_trace [OF assms]) auto

theorem stop_returns_witness:
  "\<exists>r. engine_trace 0 (started_engine running_object) ([Stop_turn] @ concat (replicate 45 idle_round)) r \<and> se_stop r = Stop_returned"
proof -
  from demo_stop_begins obtain r1 where r1: "engine_trace 0 (started_engine running_object) [Stop_turn] r1" "demo_stopping r1" by blast
  from idle_rounds [OF r1(2)] obtain r where r: "engine_trace 0 r1 (concat (replicate 45 idle_round)) r" by blast
  have "se_stop r = Stop_returned"
    by (rule stop_returns [OF running_object_facts(1,2) r1(1) r]) (simp_all add: running_object_facts(4) idle_complete)
  with r1(1) r show ?thesis unfolding engine_trace_append by blast
qed

theorem stop_outcome_witness:
  "\<exists>r. engine_trace 0 (started_engine running_object) ([Stop_turn] @ concat (replicate 45 idle_round)) r
    \<and> \<not> bk_engineRunning (en_block (eo_engine (stopped_object running_object r)))
    \<and> (\<exists>opened rounds. se_announced r = sap_publish (en_config demo_engine) opened rounds)"
proof -
  from demo_stop_begins obtain r1 where r1: "engine_trace 0 (started_engine running_object) [Stop_turn] r1" "demo_stopping r1" by blast
  from idle_rounds [OF r1(2)] obtain r where r: "engine_trace 0 r1 (concat (replicate 45 idle_round)) r" by blast
  have inv: "stop_inv r1" "length (en_streams (et_engine (se_threads r1))) = 1" using r1(2) by (simp_all add: demo_stopping_def)
  have "stop_potential r1 \<le> stop_potential (started_engine running_object)"
    using trace_potential [OF r1(1) started_inv [OF running_object_facts(1,2)]] by blast
  also have "\<dots> = 45" using running_object_facts(4)
    by (simp add: stop_potential_def stop_rank_def join_left_def started_engine_def threads_of_def Let_def)
  finally have returned: "se_stop r = Stop_returned"
    by (intro rounds_return [OF r inv(1)]) (simp_all add: inv(2) idle_complete)
  have trace: "engine_trace 0 (started_engine running_object) ([Stop_turn] @ concat (replicate 45 idle_round)) r"
    using r1(1) r unfolding engine_trace_append by blast
  note o = stop_outcome [OF running_object_facts(1-3) trace returned]
  have "\<not> bk_engineRunning (en_block (eo_engine (stopped_object running_object r)))"
    unfolding conjunct1 [OF o] using running_object_facts(3) by (simp add: engine_stop_def Let_def)
  moreover have "eo_engine running_object = demo_engine" by (simp add: running_object_def)
  ultimately show ?thesis using trace conjunct2 [OF o] by metis
qed

end
