(* ===== verification/Jitter_Interleaving.thy ===== *)
theory Jitter_Interleaving
  imports Jitter_Buffer "HOL-Library.Multiset" "HOL-Library.Sublist"
begin

text \<open>
  Sources/Core/JitterBuffer.hpp one memory access at a time, with the receiving and the consuming thread of
  a stream (\<open>receiveLoop\<close> and \<open>consumeLoop\<close> of Sources/Engine/LiveEngine.cpp) running at once: \<open>push\<close> on one
  side, \<open>reset\<close>, \<open>pop\<close> and \<open>skipMissing\<close> on the other, and the flag \<open>jitterResetRequested\<close> between them. A slot
  is claimed by the compare-exchange of its state; its fields are plain memory. The atomic accesses are
  taken in one order. How \<open>size_t\<close> wraps at \<open>buffered_\<close> is written out.
\<close>

section \<open>The code\<close>

definition size_add :: "nat \<Rightarrow> nat" where "size_add n = (n + 1) mod 2 ^ 64"
definition size_sub :: "nat \<Rightarrow> nat" where "size_sub n = (n + (2 ^ 64 - 1)) mod 2 ^ 64"

text \<open>Where the receiving thread is in \<open>push\<close>: which access comes next.\<close>

datatype pusher =
    Push_idle
  | Push_claim u16 bytes
  | Push_refused
  | Push_sequence u16 bytes
  | Push_length u16 bytes
  | Push_copy u16 bytes nat
  | Push_count u16
  | Push_started u16
  | Push_first u16
  | Push_setFirst u16
  | Push_level
  | Push_loadFirst
  | Push_setExpected u16
  | Push_start

text \<open>Where the consuming thread is in its period: in \<open>reset\<close>, \<open>pop\<close> or \<open>skipMissing\<close>.\<close>

datatype popper =
    Pop_idle
  | Reset_slots nat
  | Reset_buffered
  | Reset_lost
  | Reset_dropped
  | Reset_hasFirst
  | Reset_started
  | Pop_started
  | Pop_expected
  | Pop_claim u16
  | Pop_check u16
  | Pop_stale u16
  | Pop_staleCount
  | Pop_copy u16 nat bytes
  | Pop_count u16
  | Pop_advance u16
  | Failed_ready
  | Failed_level
  | Skip_started
  | Skip_load
  | Skip_store u16
  | Skip_lost

text \<open>The two lists record which packets \<open>push\<close> put into a slot and which \<open>pop\<close> took out; no step reads them.\<close>

record jitter_threads =
  jt_buffer :: jitter_buffer
  jt_resetRequested :: bool
  jt_push :: pusher
  jt_pop :: popper
  jt_accepted :: "(u16 \<times> bytes) list"
  jt_delivered :: "(u16 \<times> bytes) list"

definition new_jitter_threads :: "nat \<Rightarrow> jitter_threads" where
  "new_jitter_threads targetPackets = \<lparr> jt_buffer = new_jitter targetPackets, jt_resetRequested = False,
     jt_push = Push_idle, jt_pop = Pop_idle, jt_accepted = [], jt_delivered = [] \<rparr>"

definition on_jitter :: "(jitter_buffer \<Rightarrow> jitter_buffer) \<Rightarrow> jitter_threads \<Rightarrow> jitter_threads" where
  "on_jitter f s = s\<lparr>jt_buffer := f (jt_buffer s)\<rparr>"

definition on_slot :: "nat \<Rightarrow> (jitter_slot \<Rightarrow> jitter_slot) \<Rightarrow> jitter_threads \<Rightarrow> jitter_threads" where
  "on_slot i f s = on_jitter (\<lambda>j. j\<lparr>jb_slots := (jb_slots j)[i := f (jb_slots j ! i)]\<rparr>) s"

definition slot_of :: "jitter_threads \<Rightarrow> u16 \<Rightarrow> jitter_slot" where
  "slot_of s sequence = jb_slots (jt_buffer s) ! slot_index sequence"

definition slot_packet :: "jitter_slot \<Rightarrow> u16 \<times> bytes" where
  "slot_packet slot = (js_sequence slot, take (js_length slot) (js_payload slot))"

text \<open>What \<open>receiveLoop\<close> does when it is not in \<open>push\<close>: a packet arrives, which is pushed unless a reset is
  pending, or the loop asks for a reset.\<close>

datatype receiver_action = Packet u16 bytes | Ask_reset

fun push_step :: "receiver_action \<Rightarrow> jitter_threads \<Rightarrow> jitter_threads" where
  "push_step act s = (let j = jt_buffer s in case jt_push s of
     Push_idle \<Rightarrow> (case act of
         Packet q p \<Rightarrow> if jt_resetRequested s then s
           else s\<lparr>jt_push := if length p > kJitterMaxPayload then Push_refused else Push_claim q p\<rparr>
       | Ask_reset \<Rightarrow> s\<lparr>jt_resetRequested := True\<rparr>)
   | Push_claim q p \<Rightarrow>
       if js_state (slot_of s q) = Slot_empty
       then (on_slot (slot_index q) (\<lambda>slot. slot\<lparr>js_state := Slot_writing\<rparr>) s)\<lparr>jt_push := Push_sequence q p\<rparr>
       else s\<lparr>jt_push := Push_refused\<rparr>
   | Push_refused \<Rightarrow> (on_jitter (\<lambda>j. j\<lparr>jb_dropped := jb_dropped j + 1\<rparr>) s)\<lparr>jt_push := Push_idle\<rparr>
   | Push_sequence q p \<Rightarrow>
       (on_slot (slot_index q) (\<lambda>slot. slot\<lparr>js_sequence := q\<rparr>) s)\<lparr>jt_push := Push_length q p\<rparr>
   | Push_length q p \<Rightarrow>
       (on_slot (slot_index q) (\<lambda>slot. slot\<lparr>js_length := length p\<rparr>) s)\<lparr>jt_push := Push_copy q p 0\<rparr>
   | Push_copy q p i \<Rightarrow>
       if i < length p
       then (on_slot (slot_index q) (\<lambda>slot. slot\<lparr>js_payload := (js_payload slot)[i := p ! i]\<rparr>) s)\<lparr>jt_push := Push_copy q p (i + 1)\<rparr>
       else (on_slot (slot_index q) (\<lambda>slot. slot\<lparr>js_state := Slot_ready\<rparr>) s)
         \<lparr>jt_push := Push_count q, jt_accepted := jt_accepted s @ [(q, p)]\<rparr>
   | Push_count q \<Rightarrow> (on_jitter (\<lambda>j. j\<lparr>jb_buffered := size_add (jb_buffered j)\<rparr>) s)\<lparr>jt_push := Push_started q\<rparr>
   | Push_started q \<Rightarrow> s\<lparr>jt_push := if jb_started j then Push_idle else Push_first q\<rparr>
   | Push_first q \<Rightarrow>
       if jb_hasFirst j then s\<lparr>jt_push := Push_level\<rparr>
       else (on_jitter (\<lambda>j. j\<lparr>jb_hasFirst := True\<rparr>) s)\<lparr>jt_push := Push_setFirst q\<rparr>
   | Push_setFirst q \<Rightarrow> (on_jitter (\<lambda>j. j\<lparr>jb_firstSequence := q\<rparr>) s)\<lparr>jt_push := Push_level\<rparr>
   | Push_level \<Rightarrow> s\<lparr>jt_push := if jb_buffered j \<ge> jb_targetPackets j then Push_loadFirst else Push_idle\<rparr>
   | Push_loadFirst \<Rightarrow> s\<lparr>jt_push := Push_setExpected (jb_firstSequence j)\<rparr>
   | Push_setExpected f \<Rightarrow> (on_jitter (\<lambda>j. j\<lparr>jb_expectedSequence := f\<rparr>) s)\<lparr>jt_push := Push_start\<rparr>
   | Push_start \<Rightarrow> (on_jitter (\<lambda>j. j\<lparr>jb_started := True\<rparr>) s)\<lparr>jt_push := Push_idle\<rparr>)"

text \<open>A period of \<open>consumeLoop\<close>. Its destination is an array of \<open>kJitterMaxPayload\<close> bytes.\<close>

fun pop_step :: "jitter_threads \<Rightarrow> jitter_threads" where
  "pop_step s = (let j = jt_buffer s in case jt_pop s of
     Pop_idle \<Rightarrow> s\<lparr>jt_resetRequested := False, jt_pop := if jt_resetRequested s then Reset_slots 0 else Pop_started\<rparr>
   | Reset_slots i \<Rightarrow> (on_slot i (\<lambda>slot. slot\<lparr>js_state := Slot_empty\<rparr>) s)
       \<lparr>jt_pop := if i + 1 < kJitterSlots then Reset_slots (i + 1) else Reset_buffered\<rparr>
   | Reset_buffered \<Rightarrow> (on_jitter (\<lambda>j. j\<lparr>jb_buffered := 0\<rparr>) s)\<lparr>jt_pop := Reset_lost\<rparr>
   | Reset_lost \<Rightarrow> (on_jitter (\<lambda>j. j\<lparr>jb_lost := 0\<rparr>) s)\<lparr>jt_pop := Reset_dropped\<rparr>
   | Reset_dropped \<Rightarrow> (on_jitter (\<lambda>j. j\<lparr>jb_dropped := 0\<rparr>) s)\<lparr>jt_pop := Reset_hasFirst\<rparr>
   | Reset_hasFirst \<Rightarrow> (on_jitter (\<lambda>j. j\<lparr>jb_hasFirst := False\<rparr>) s)\<lparr>jt_pop := Reset_started\<rparr>
   | Reset_started \<Rightarrow> (on_jitter (\<lambda>j. j\<lparr>jb_started := False\<rparr>) s)\<lparr>jt_pop := Pop_started\<rparr>
   | Pop_started \<Rightarrow> s\<lparr>jt_pop := if jb_started j then Pop_expected else Failed_ready\<rparr>
   | Pop_expected \<Rightarrow> s\<lparr>jt_pop := Pop_claim (jb_expectedSequence j)\<rparr>
   | Pop_claim q \<Rightarrow>
       if js_state (slot_of s q) = Slot_ready
       then (on_slot (slot_index q) (\<lambda>slot. slot\<lparr>js_state := Slot_reading\<rparr>) s)\<lparr>jt_pop := Pop_check q\<rparr>
       else s\<lparr>jt_pop := Failed_ready\<rparr>
   | Pop_check q \<Rightarrow> s\<lparr>jt_pop :=
       if js_sequence (slot_of s q) \<noteq> q \<or> js_length (slot_of s q) > kJitterMaxPayload
       then Pop_stale q else Pop_copy q (js_length (slot_of s q)) []\<rparr>
   | Pop_stale q \<Rightarrow> (on_slot (slot_index q) (\<lambda>slot. slot\<lparr>js_state := Slot_empty\<rparr>) s)\<lparr>jt_pop := Pop_staleCount\<rparr>
   | Pop_staleCount \<Rightarrow> (on_jitter (\<lambda>j. j\<lparr>jb_buffered := size_sub (jb_buffered j)\<rparr>) s)\<lparr>jt_pop := Failed_ready\<rparr>
   | Pop_copy q n got \<Rightarrow>
       if length got < n
       then s\<lparr>jt_pop := Pop_copy q n (got @ [js_payload (slot_of s q) ! length got])\<rparr>
       else (on_slot (slot_index q) (\<lambda>slot. slot\<lparr>js_state := Slot_empty\<rparr>) s)
         \<lparr>jt_pop := Pop_count q, jt_delivered := jt_delivered s @ [(q, got)]\<rparr>
   | Pop_count q \<Rightarrow> (on_jitter (\<lambda>j. j\<lparr>jb_buffered := size_sub (jb_buffered j)\<rparr>) s)\<lparr>jt_pop := Pop_advance q\<rparr>
   | Pop_advance q \<Rightarrow> (on_jitter (\<lambda>j. j\<lparr>jb_expectedSequence := q + 1\<rparr>) s)\<lparr>jt_pop := Pop_idle\<rparr>
   | Failed_ready \<Rightarrow> s\<lparr>jt_pop := if jb_started j then Failed_level else Pop_idle\<rparr>
   | Failed_level \<Rightarrow> s\<lparr>jt_pop := if jb_buffered j > 0 then Skip_started else Pop_idle\<rparr>
   | Skip_started \<Rightarrow> s\<lparr>jt_pop := if jb_started j then Skip_load else Pop_idle\<rparr>
   | Skip_load \<Rightarrow> s\<lparr>jt_pop := Skip_store (jb_expectedSequence j)\<rparr>
   | Skip_store e \<Rightarrow> (on_jitter (\<lambda>j. j\<lparr>jb_expectedSequence := e + 1\<rparr>) s)\<lparr>jt_pop := Skip_lost\<rparr>
   | Skip_lost \<Rightarrow> (on_jitter (\<lambda>j. j\<lparr>jb_lost := jb_lost j + 1\<rparr>) s)\<lparr>jt_pop := Pop_idle\<rparr>)"

declare push_step.simps [simp del] pop_step.simps [simp del]

datatype jitter_turn = Receiver receiver_action | Consumer

fun jitter_move :: "jitter_turn \<Rightarrow> jitter_threads \<Rightarrow> jitter_threads" where
  "jitter_move (Receiver act) s = push_step act s"
| "jitter_move Consumer s = pop_step s"

fun jitter_run :: "jitter_turn list \<Rightarrow> jitter_threads \<Rightarrow> jitter_threads" where
  "jitter_run [] s = s"
| "jitter_run (m # ms) s = jitter_run ms (jitter_move m s)"

section \<open>The invariant\<close>

text \<open>The slot whose plain fields a thread may touch.\<close>

fun push_slot :: "pusher \<Rightarrow> nat option" where
  "push_slot (Push_sequence q p) = Some (slot_index q)"
| "push_slot (Push_length q p) = Some (slot_index q)"
| "push_slot (Push_copy q p i) = Some (slot_index q)"
| "push_slot _ = None"

fun pop_slot :: "popper \<Rightarrow> nat option" where
  "pop_slot (Pop_check q) = Some (slot_index q)"
| "pop_slot (Pop_stale q) = Some (slot_index q)"
| "pop_slot (Pop_copy q n got) = Some (slot_index q)"
| "pop_slot _ = None"

definition slot_shape :: "nat \<Rightarrow> jitter_slot \<Rightarrow> bool" where
  "slot_shape i slot \<longleftrightarrow> length (js_payload slot) = kJitterMaxPayload
     \<and> (js_state slot = Slot_ready \<or> js_state slot = Slot_reading \<longrightarrow>
          slot_index (js_sequence slot) = i \<and> js_length slot \<le> kJitterMaxPayload)"

definition slot_claim :: "nat \<Rightarrow> jitter_slot \<Rightarrow> pusher \<Rightarrow> popper \<Rightarrow> bool" where
  "slot_claim i slot pu po \<longleftrightarrow>
     (js_state slot = Slot_writing \<longrightarrow> push_slot pu = Some i)
     \<and> (push_slot pu = Some i \<longrightarrow> js_state slot = Slot_writing \<or> js_state slot = Slot_empty)
     \<and> (js_state slot = Slot_reading \<longleftrightarrow> pop_slot po = Some i)"

fun push_local :: "pusher \<Rightarrow> jitter_slot list \<Rightarrow> bool" where
  "push_local (Push_claim q p) slots \<longleftrightarrow> length p \<le> kJitterMaxPayload"
| "push_local (Push_sequence q p) slots \<longleftrightarrow> length p \<le> kJitterMaxPayload"
| "push_local (Push_length q p) slots \<longleftrightarrow> length p \<le> kJitterMaxPayload \<and> js_sequence (slots ! slot_index q) = q"
| "push_local (Push_copy q p i) slots \<longleftrightarrow> length p \<le> kJitterMaxPayload \<and> js_sequence (slots ! slot_index q) = q
     \<and> js_length (slots ! slot_index q) = length p \<and> i \<le> length p \<and> take i (js_payload (slots ! slot_index q)) = take i p"
| "push_local _ slots \<longleftrightarrow> True"

fun pop_local :: "popper \<Rightarrow> jitter_slot list \<Rightarrow> bool" where
  "pop_local (Reset_slots i) slots \<longleftrightarrow> i < kJitterSlots"
| "pop_local (Pop_copy q n got) slots \<longleftrightarrow> js_sequence (slots ! slot_index q) = q \<and> js_length (slots ! slot_index q) = n
     \<and> length got \<le> n \<and> got = take (length got) (js_payload (slots ! slot_index q))"
| "pop_local _ slots \<longleftrightarrow> True"

definition slot_held :: "jitter_slot \<Rightarrow> (u16 \<times> bytes) multiset" where
  "slot_held slot = (if js_state slot = Slot_ready \<or> js_state slot = Slot_reading then {#slot_packet slot#} else {#})"

definition packets_held :: "jitter_slot list \<Rightarrow> (u16 \<times> bytes) multiset" where
  "packets_held slots = sum_list (map slot_held slots)"

definition slots_inv :: "jitter_threads \<Rightarrow> bool" where
  "slots_inv s \<longleftrightarrow> (let slots = jb_slots (jt_buffer s) in
     length slots = kJitterSlots
     \<and> (\<forall>i < kJitterSlots. slot_shape i (slots ! i) \<and> slot_claim i (slots ! i) (jt_push s) (jt_pop s))
     \<and> push_local (jt_push s) slots \<and> pop_local (jt_pop s) slots
     \<and> mset (jt_delivered s) + packets_held slots \<subseteq># mset (jt_accepted s))"

lemma sum_list_map_update:
  fixes f :: "'a \<Rightarrow> 'b::comm_monoid_add"
  shows "i < length xs \<Longrightarrow> sum_list (map f (xs[i := y])) + f (xs ! i) = sum_list (map f xs) + f y"
proof (induction xs arbitrary: i)
  case (Cons x xs)
  then show ?case
  proof (cases i)
    case (Suc k)
    then have "sum_list (map f (xs[k := y])) + f (xs ! k) = sum_list (map f xs) + f y" using Cons by simp
    then show ?thesis using Suc by (simp add: add.assoc)
  qed (simp add: ac_simps)
qed simp

lemma held_update:
  "i < length slots \<Longrightarrow> packets_held (slots[i := y]) + slot_held (slots ! i) = packets_held slots + slot_held y"
  unfolding packets_held_def by (rule sum_list_map_update)

lemma held_update_same:
  "i < length slots \<Longrightarrow> slot_held y = slot_held (slots ! i) \<Longrightarrow> packets_held (slots[i := y]) = packets_held slots"
  using held_update [of i slots y] by simp

lemma held_update_less:
  "i < length slots \<Longrightarrow> slot_held y = {#} \<Longrightarrow> packets_held (slots[i := y]) \<subseteq># packets_held slots"
  using held_update [of i slots y] by (metis add.right_neutral mset_subset_eq_add_left)

lemma slots_invD:
  assumes "slots_inv s"
  shows "length (jb_slots (jt_buffer s)) = kJitterSlots"
    "i < kJitterSlots \<Longrightarrow> slot_shape i (jb_slots (jt_buffer s) ! i)"
    "i < kJitterSlots \<Longrightarrow> slot_claim i (jb_slots (jt_buffer s) ! i) (jt_push s) (jt_pop s)"
    "push_local (jt_push s) (jb_slots (jt_buffer s))" "pop_local (jt_pop s) (jb_slots (jt_buffer s))"
    "mset (jt_delivered s) + packets_held (jb_slots (jt_buffer s)) \<subseteq># mset (jt_accepted s)"
  using assms by (simp_all add: slots_inv_def Let_def)

lemma new_threads_inv: "slots_inv (new_jitter_threads n)"
proof -
  have "packets_held (replicate k new_jitter_slot) = {#}" for k
    by (induction k) (simp_all add: packets_held_def slot_held_def new_jitter_slot_def)
  then show ?thesis
    by (simp add: slots_inv_def new_jitter_threads_def new_jitter_def slot_shape_def slot_claim_def new_jitter_slot_def)
qed

text \<open>A step that changes one slot, the thread's own place and the two lists.\<close>

lemma slots_inv_update:
  assumes inv: "slots_inv s" and i: "i < kJitterSlots"
    and slots: "jb_slots (jt_buffer t) = (jb_slots (jt_buffer s))[i := y]"
    and y: "slot_shape i y" "slot_claim i y (jt_push t) (jt_pop t)"
    and claims: "\<And>k. k \<noteq> i \<Longrightarrow> push_slot (jt_push t) = Some k \<longleftrightarrow> push_slot (jt_push s) = Some k"
      "\<And>k. k \<noteq> i \<Longrightarrow> pop_slot (jt_pop t) = Some k \<longleftrightarrow> pop_slot (jt_pop s) = Some k"
    and locals: "push_local (jt_push t) (jb_slots (jt_buffer t))" "pop_local (jt_pop t) (jb_slots (jt_buffer t))"
    and account: "mset (jt_delivered t) + packets_held (jb_slots (jt_buffer t)) \<subseteq># mset (jt_accepted t)"
  shows "slots_inv t"
proof -
  have "slot_shape k (jb_slots (jt_buffer t) ! k) \<and> slot_claim k (jb_slots (jt_buffer t) ! k) (jt_push t) (jt_pop t)"
    if k: "k < kJitterSlots" for k
  proof (cases "k = i")
    case True
    then show ?thesis using y i slots_invD(1) [OF inv] by (simp add: slots)
  next
    case False
    then show ?thesis
      using slots_invD(2,3) [OF inv k] claims [OF False] by (simp add: slots slot_claim_def)
  qed
  then show ?thesis using locals account slots_invD(1) [OF inv] by (simp add: slots_inv_def slots Let_def)
qed

text \<open>A step that changes no slot.\<close>

lemma slots_inv_same:
  assumes "slots_inv s" "jb_slots (jt_buffer t) = jb_slots (jt_buffer s)"
    "push_slot (jt_push t) = push_slot (jt_push s)" "pop_slot (jt_pop t) = pop_slot (jt_pop s)"
    "push_local (jt_push t) (jb_slots (jt_buffer s))" "pop_local (jt_pop t) (jb_slots (jt_buffer s))"
    "jt_delivered t = jt_delivered s" "jt_accepted t = jt_accepted s"
  shows "slots_inv t"
  using assms by (simp add: slots_inv_def slot_claim_def Let_def)

lemmas thread_steps = push_step.simps pop_step.simps on_slot_def on_jitter_def slot_of_def Let_def

lemma local_other:
  "push_slot pu \<noteq> Some i \<Longrightarrow> push_local pu slots \<Longrightarrow> push_local pu (slots[i := y])"
  "pop_slot po \<noteq> Some i \<Longrightarrow> pop_local po slots \<Longrightarrow> pop_local po (slots[i := y])"
  by (cases pu; simp) (cases po; simp)

text \<open>The receiving thread's stores into the slot it has claimed.\<close>

lemma push_store_inv:
  assumes inv: "slots_inv s" and pu: "push_slot (jt_push s) = Some i" "push_slot pu' = Some i"
    and i: "i < kJitterSlots"
    and f: "js_state (f (jb_slots (jt_buffer s) ! i)) = js_state (jb_slots (jt_buffer s) ! i)"
      "length (js_payload (f (jb_slots (jt_buffer s) ! i))) = kJitterMaxPayload"
    and loc: "push_local pu' ((jb_slots (jt_buffer s))[i := f (jb_slots (jt_buffer s) ! i)])"
  shows "slots_inv ((on_slot i f s)\<lparr>jt_push := pu'\<rparr>)"
proof -
  note own = slots_invD [OF inv]
  let ?x = "jb_slots (jt_buffer s) ! i"
  have st: "js_state ?x = Slot_writing \<or> js_state ?x = Slot_empty" "pop_slot (jt_pop s) \<noteq> Some i"
    using own(3) [OF i] pu by (auto simp: slot_claim_def)
  have "packets_held ((jb_slots (jt_buffer s))[i := f ?x]) = packets_held (jb_slots (jt_buffer s))"
    using i own(1) st(1) f(1) by (intro held_update_same) (auto simp: slot_held_def)
  then show ?thesis
    using own(1,5,6) own(2) [OF i] own(3) [OF i] st pu f loc i local_other(2) [OF st(2)]
    by (intro slots_inv_update [OF inv i, where y = "f ?x"])
      (auto simp: on_slot_def on_jitter_def slot_shape_def slot_claim_def)
qed

lemma push_inv:
  assumes inv: "slots_inv s"
  shows "slots_inv (push_step act s)"
proof -
  note own = slots_invD [OF inv]
  let ?slots = "jb_slots (jt_buffer s)"
  have room: "length (js_payload (?slots ! slot_index q)) = kJitterMaxPayload" for q
    using own(2) [of "slot_index q"] by (simp add: slot_shape_def)
  show ?thesis
  proof (cases "jt_push s")
    case Push_idle
    then show ?thesis
      using own(5) by (auto intro!: slots_inv_same [OF inv] simp: thread_steps split: receiver_action.splits)
  next
    case (Push_claim q p)
    let ?x = "?slots ! slot_index q"
    show ?thesis
    proof (cases "js_state ?x = Slot_empty")
      case True
      have free: "pop_slot (jt_pop s) \<noteq> Some (slot_index q)" "push_slot (jt_push s) = None"
        using own(3) [of "slot_index q"] True Push_claim by (auto simp: slot_claim_def)
      have "packets_held (?slots[slot_index q := ?x\<lparr>js_state := Slot_writing\<rparr>]) = packets_held ?slots"
        using own(1) True by (intro held_update_same) (auto simp: slot_held_def)
      then show ?thesis
        using own(1,4,5,6) own(2,3) [of "slot_index q"] Push_claim True free local_other(2) [OF free(1)] room [of q]
        by (intro slots_inv_update [OF inv, where i = "slot_index q" and y = "?x\<lparr>js_state := Slot_writing\<rparr>"])
          (auto simp: thread_steps slot_shape_def slot_claim_def)
    qed (use Push_claim own(5) in \<open>auto intro!: slots_inv_same [OF inv] simp: thread_steps\<close>)
  next
    case (Push_sequence q p)
    have "push_step act s = (on_slot (slot_index q) (\<lambda>slot. slot\<lparr>js_sequence := q\<rparr>) s)\<lparr>jt_push := Push_length q p\<rparr>"
      using Push_sequence by (simp add: push_step.simps)
    then show ?thesis
      using Push_sequence own(1,4) room [of q] by (auto intro!: push_store_inv [OF inv])
  next
    case (Push_length q p)
    have "push_step act s = (on_slot (slot_index q) (\<lambda>slot. slot\<lparr>js_length := length p\<rparr>) s)\<lparr>jt_push := Push_copy q p 0\<rparr>"
      using Push_length by (simp add: push_step.simps)
    then show ?thesis
      using Push_length own(1,4) room [of q] by (auto intro!: push_store_inv [OF inv])
  next
    case (Push_copy q p i)
    let ?x = "?slots ! slot_index q"
    have loc: "length p \<le> kJitterMaxPayload" "js_sequence ?x = q" "js_length ?x = length p" "i \<le> length p"
        "take i (js_payload ?x) = take i p"
      using own(4) Push_copy by simp_all
    show ?thesis
    proof (cases "i < length p")
      case True
      then have "push_step act s = (on_slot (slot_index q) (\<lambda>slot. slot\<lparr>js_payload := (js_payload slot)[i := p ! i]\<rparr>) s)\<lparr>jt_push := Push_copy q p (i + 1)\<rparr>"
        using Push_copy by (simp add: push_step.simps)
      then show ?thesis
        using Push_copy own(1) room [of q] loc True
        by (auto intro!: push_store_inv [OF inv] simp: take_Suc_conv_app_nth take_update_cancel)
    next
      case False
      have st: "js_state ?x = Slot_writing \<or> js_state ?x = Slot_empty" "pop_slot (jt_pop s) \<noteq> Some (slot_index q)"
        using own(3) [of "slot_index q"] Push_copy by (auto simp: slot_claim_def)
      have "packets_held (?slots[slot_index q := ?x\<lparr>js_state := Slot_ready\<rparr>]) = add_mset (q, p) (packets_held ?slots)"
        using held_update [of "slot_index q" ?slots "?x\<lparr>js_state := Slot_ready\<rparr>"] own(1) st(1) loc False
        by (auto simp: slot_held_def slot_packet_def)
      then show ?thesis
        using own(1,5,6) own(2,3) [of "slot_index q"] Push_copy False st loc local_other(2) [OF st(2)] room [of q]
        by (intro slots_inv_update [OF inv, where i = "slot_index q" and y = "?x\<lparr>js_state := Slot_ready\<rparr>"])
          (auto simp: thread_steps slot_shape_def slot_claim_def)
    qed
  qed (use own(5) in \<open>auto intro!: slots_inv_same [OF inv] simp: thread_steps\<close>)
qed

text \<open>The consuming thread's release of a slot, in \<open>pop\<close> and in \<open>reset\<close>.\<close>

lemma pop_release_inv:
  assumes inv: "slots_inv s" and i: "i < kJitterSlots"
    and po: "pop_slot (jt_pop s) = Some i \<or> pop_slot (jt_pop s) = None" "pop_slot po' = None"
    and loc: "pop_local po' (jb_slots (jt_buffer s))"
  shows "slots_inv ((on_slot i (\<lambda>slot. slot\<lparr>js_state := Slot_empty\<rparr>) s)\<lparr>jt_pop := po'\<rparr>)"
proof -
  note own = slots_invD [OF inv]
  let ?x = "jb_slots (jt_buffer s) ! i"
  have "packets_held ((jb_slots (jt_buffer s))[i := ?x\<lparr>js_state := Slot_empty\<rparr>]) \<subseteq># packets_held (jb_slots (jt_buffer s))"
    using i own(1) by (intro held_update_less) (simp_all add: slot_held_def)
  then have account: "mset (jt_delivered s) + packets_held ((jb_slots (jt_buffer s))[i := ?x\<lparr>js_state := Slot_empty\<rparr>])
      \<subseteq># mset (jt_accepted s)"
    using own(6) subset_mset.add_left_mono subset_mset.order_trans by blast
  have "push_local (jt_push s) ((jb_slots (jt_buffer s))[i := ?x\<lparr>js_state := Slot_empty\<rparr>])"
    using own(1,4) i by (cases "jt_push s") (auto simp: nth_list_update)
  moreover have "pop_local po' ((jb_slots (jt_buffer s))[i := ?x\<lparr>js_state := Slot_empty\<rparr>])"
    using loc po(2) local_other(2) by auto
  ultimately show ?thesis
    using own(2,3) [OF i] po i account
    by (intro slots_inv_update [OF inv i, where y = "?x\<lparr>js_state := Slot_empty\<rparr>"])
      (auto simp: on_slot_def on_jitter_def slot_shape_def slot_claim_def)
qed

lemma pop_inv:
  assumes inv: "slots_inv s"
  shows "slots_inv (pop_step s)"
proof -
  note own = slots_invD [OF inv]
  let ?slots = "jb_slots (jt_buffer s)"
  have ours: "js_state (?slots ! slot_index q) = Slot_reading \<and> push_slot (jt_push s) \<noteq> Some (slot_index q)
      \<and> slot_index (js_sequence (?slots ! slot_index q)) = slot_index q \<and> js_length (?slots ! slot_index q) \<le> kJitterMaxPayload
      \<and> length (js_payload (?slots ! slot_index q)) = kJitterMaxPayload"
    if "pop_slot (jt_pop s) = Some (slot_index q)" for q
    using own(2,3) [of "slot_index q"] that by (auto simp: slot_shape_def slot_claim_def)
  show ?thesis
  proof (cases "jt_pop s")
    case (Reset_slots i)
    then show ?thesis
      using own(5) by (auto intro!: pop_release_inv [OF inv] simp: pop_step.simps Let_def)
  next
    case (Pop_claim q)
    let ?x = "?slots ! slot_index q"
    show ?thesis
    proof (cases "js_state ?x = Slot_ready")
      case True
      have free: "pop_slot (jt_pop s) \<noteq> Some (slot_index q)" "push_slot (jt_push s) \<noteq> Some (slot_index q)"
        using own(3) [of "slot_index q"] True by (auto simp: slot_claim_def)
      have "packets_held (?slots[slot_index q := ?x\<lparr>js_state := Slot_reading\<rparr>]) = packets_held ?slots"
        using own(1) True by (intro held_update_same) (auto simp: slot_held_def slot_packet_def)
      then show ?thesis
        using own(1,4,6) own(2,3) [of "slot_index q"] Pop_claim True free local_other(1) [OF free(2)]
        by (intro slots_inv_update [OF inv, where i = "slot_index q" and y = "?x\<lparr>js_state := Slot_reading\<rparr>"])
          (auto simp: thread_steps slot_shape_def slot_claim_def)
    qed (use Pop_claim own(4) in \<open>auto intro!: slots_inv_same [OF inv] simp: thread_steps\<close>)
  next
    case (Pop_check q)
    then show ?thesis using own(4) by (auto intro!: slots_inv_same [OF inv] simp: thread_steps)
  next
    case (Pop_stale q)
    then show ?thesis by (auto intro!: pop_release_inv [OF inv] simp: pop_step.simps Let_def)
  next
    case (Pop_copy q n got)
    let ?x = "?slots ! slot_index q"
    have loc: "js_sequence ?x = q" "js_length ?x = n" "length got \<le> n" "got = take (length got) (js_payload ?x)"
      using own(5) Pop_copy by simp_all
    have mine: "js_state ?x = Slot_reading" "push_slot (jt_push s) \<noteq> Some (slot_index q)" "n \<le> length (js_payload ?x)"
      using ours [of q] Pop_copy loc by simp_all
    show ?thesis
    proof (cases "length got < n")
      case True
      then have "got @ [js_payload ?x ! length got] = take (Suc (length got)) (js_payload ?x)"
        using loc(4) mine(3) by (simp add: take_Suc_conv_app_nth)
      moreover have "min (length (js_payload ?x)) (Suc (length got)) = Suc (length got)" using True mine(3) by simp
      ultimately show ?thesis
        using Pop_copy own(4) loc True by (auto intro!: slots_inv_same [OF inv] simp: thread_steps)
    next
      case False
      have "packets_held ?slots = add_mset (q, got) (packets_held (?slots[slot_index q := ?x\<lparr>js_state := Slot_empty\<rparr>]))"
        using held_update [of "slot_index q" ?slots "?x\<lparr>js_state := Slot_empty\<rparr>"] own(1) mine(1) loc False
        by (simp add: slot_held_def slot_packet_def)
      then show ?thesis
        using own(1,4,6) own(2,3) [of "slot_index q"] Pop_copy False mine local_other(1) [OF mine(2)]
        by (intro slots_inv_update [OF inv, where i = "slot_index q" and y = "?x\<lparr>js_state := Slot_empty\<rparr>"])
          (auto simp: thread_steps slot_shape_def slot_claim_def)
    qed
  qed (use own(4) in \<open>auto intro!: slots_inv_same [OF inv] simp: thread_steps kJitterSlots_def\<close>)
qed

section \<open>What overlapping calls deliver\<close>

text \<open>The packets given to \<open>push\<close>, and the one the thread is about to put into a slot.\<close>

fun offered :: "jitter_turn list \<Rightarrow> (u16 \<times> bytes) list" where
  "offered [] = []"
| "offered (Receiver (Packet q p) # ms) = (q, p) # offered ms"
| "offered (_ # ms) = offered ms"

fun in_push :: "pusher \<Rightarrow> (u16 \<times> bytes) list" where
  "in_push (Push_claim q p) = [(q, p)]"
| "in_push (Push_sequence q p) = [(q, p)]"
| "in_push (Push_length q p) = [(q, p)]"
| "in_push (Push_copy q p i) = [(q, p)]"
| "in_push _ = []"

lemma subseq_less: "subseq (xs @ ys) zs \<Longrightarrow> subseq xs zs"
  using subseq_order.order_trans list_emb_prefix by blast

lemma offered_step:
  assumes "subseq (jt_accepted s @ in_push (jt_push s)) ps"
  shows "subseq (jt_accepted (jitter_move m s) @ in_push (jt_push (jitter_move m s))) (ps @ offered [m])"
proof (cases m)
  case (Receiver act)
  have same: "subseq (jt_accepted s @ in_push (jt_push s)) (ps @ offered [m])" "subseq (jt_accepted s) (ps @ offered [m])"
    using assms subseq_less by (auto intro: list_emb_append2 subseq_order.order_trans)
  show ?thesis
  proof (cases "jt_push s")
    case Push_idle
    then show ?thesis using Receiver assms same
      by (cases act) (auto simp: thread_steps list_emb_append_mono)
  qed (use Receiver same in \<open>auto simp: thread_steps\<close>)
next
  case Consumer
  then show ?thesis using assms
    by (cases "jt_pop s") (auto simp: thread_steps)
qed

lemma offered_append: "offered (ms @ ms') = offered ms @ offered ms'"
  by (induction ms rule: offered.induct) auto

lemma run_inv: "slots_inv s \<Longrightarrow> slots_inv (jitter_run ms s)"
proof (induction ms arbitrary: s)
  case (Cons m ms)
  then have "slots_inv (jitter_move m s)" by (cases m) (simp_all add: push_inv pop_inv)
  with Cons.IH show ?case by simp
qed simp

lemma run_offered:
  "subseq (jt_accepted s @ in_push (jt_push s)) ps \<Longrightarrow>
    subseq (jt_accepted (jitter_run ms s) @ in_push (jt_push (jitter_run ms s))) (ps @ offered ms)"
proof (induction ms arbitrary: s ps)
  case (Cons m ms)
  from Cons.IH [OF offered_step [OF Cons.prems]] show ?case using offered_append [of "[m]" ms] by simp
qed simp

text \<open>C4: Whatever the order of the two threads' accesses, and whenever resets are asked for: a slot's plain
  fields are never touched by both threads, the packets put into slots are among those given to \<open>push\<close>, in
  order, and each packet taken out is one of them, byte for byte, none more often than it was put in.\<close>

theorem jitter_interleaving_safe:
  "let s = jitter_run moves (new_jitter_threads targetPackets) in
     mset (jt_delivered s) \<subseteq># mset (jt_accepted s) \<and> subseq (jt_accepted s) (offered moves)
     \<and> (push_slot (jt_push s) = None \<or> push_slot (jt_push s) \<noteq> pop_slot (jt_pop s))"
proof -
  define s where "s = jitter_run moves (new_jitter_threads targetPackets)"
  have inv: "slots_inv s" unfolding s_def by (rule run_inv [OF new_threads_inv])
  have "subseq (jt_accepted s @ in_push (jt_push s)) (offered moves)"
    using run_offered [of "new_jitter_threads targetPackets" "[]" moves] by (simp add: s_def new_jitter_threads_def)
  moreover have "push_slot (jt_push s) \<noteq> pop_slot (jt_pop s)" if "push_slot (jt_push s) = Some i" for i
  proof
    assume "push_slot (jt_push s) = pop_slot (jt_pop s)"
    with that have "pop_slot (jt_pop s) = Some i" by simp
    moreover from that have "i < kJitterSlots" by (cases "jt_push s") auto
    ultimately show False using slots_invD(3) [OF inv, of i] that by (auto simp: slot_claim_def)
  qed
  ultimately show ?thesis
    using slots_invD(6) [OF inv] subseq_less [of "jt_accepted s"] subset_mset.order_trans [OF mset_subset_eq_add_left]
    by (cases "push_slot (jt_push s)") (auto simp: s_def [symmetric] Let_def)
qed

text \<open>The receiving thread has claimed a slot while the consuming thread looks for its packet.\<close>

theorem jitter_interleaving_safe_witness:
  "let s = jitter_run [Receiver (Packet 5 [1]), Consumer, Receiver (Packet 5 [1]), Consumer] (new_jitter_threads 6) in
     push_slot (jt_push s) = Some 5 \<and> pop_slot (jt_pop s) \<noteq> Some 5 \<and> mset (jt_delivered s) \<subseteq># mset (jt_accepted s)"
proof -
  let ?moves = "[Receiver (Packet 5 [1]), Consumer, Receiver (Packet 5 [1]), Consumer]"
  have "push_slot (jt_push (jitter_run ?moves (new_jitter_threads 6))) = Some 5"
    by (simp add: thread_steps new_jitter_threads_def new_jitter_def new_jitter_slot_def slot_index_def kJitterSlots_def kJitterMaxPayload_def)
  with jitter_interleaving_safe [of ?moves 6] show ?thesis by (auto simp: Let_def)
qed

section \<open>Calls that do not overlap\<close>

definition turns_to :: "jitter_turn \<Rightarrow> jitter_threads \<Rightarrow> jitter_threads \<Rightarrow> bool" where
  "turns_to m s t \<longleftrightarrow> (\<exists>n. jitter_run (replicate n m) s = t)"

lemma run_append: "jitter_run (ms @ ms') s = jitter_run ms' (jitter_run ms s)"
  by (induction ms arbitrary: s) auto

lemma run_one_more: "jitter_run (replicate (Suc n) m) s = jitter_move m (jitter_run (replicate n m) s)"
  using run_append [of "replicate n m" "[m]" s] by (simp add: replicate_append_same)

lemma turns_refl: "turns_to m s s"
  unfolding turns_to_def by (rule exI [of _ 0]) simp

lemma turns_run: "turns_to m (jitter_run (replicate n m) s) t \<Longrightarrow> turns_to m s t"
  unfolding turns_to_def by (metis replicate_add run_append)

lemma turns_by: "jitter_run ms s = s' \<Longrightarrow> set ms \<subseteq> {m} \<Longrightarrow> turns_to m s' t \<Longrightarrow> turns_to m s t"
  using turns_run [of m "length ms" s t] replicate_length_same [of ms m] by (auto simp: subset_iff)

lemma slot_update_eqI:
  "js_state a = js_state b \<Longrightarrow> js_sequence a = js_sequence b \<Longrightarrow> js_length a = js_length b \<Longrightarrow> js_payload a = js_payload b
    \<Longrightarrow> xs[i := a] = xs[i := (b :: jitter_slot)]"
  by (metis jitter_slot.equality old.unit.exhaust)

lemma threads_eqI:
  "jb_slots (jt_buffer a) = jb_slots (jt_buffer b) \<Longrightarrow> jb_targetPackets (jt_buffer a) = jb_targetPackets (jt_buffer b)
    \<Longrightarrow> jb_buffered (jt_buffer a) = jb_buffered (jt_buffer b) \<Longrightarrow> jb_firstSequence (jt_buffer a) = jb_firstSequence (jt_buffer b)
    \<Longrightarrow> jb_expectedSequence (jt_buffer a) = jb_expectedSequence (jt_buffer b) \<Longrightarrow> jb_hasFirst (jt_buffer a) = jb_hasFirst (jt_buffer b)
    \<Longrightarrow> jb_started (jt_buffer a) = jb_started (jt_buffer b) \<Longrightarrow> jb_lost (jt_buffer a) = jb_lost (jt_buffer b)
    \<Longrightarrow> jb_dropped (jt_buffer a) = jb_dropped (jt_buffer b) \<Longrightarrow> jt_resetRequested a = jt_resetRequested b
    \<Longrightarrow> jt_push a = jt_push b \<Longrightarrow> jt_pop a = jt_pop b \<Longrightarrow> jt_accepted a = jt_accepted b \<Longrightarrow> jt_delivered a = jt_delivered b
    \<Longrightarrow> a = (b :: jitter_threads)"
  by (auto intro: jitter_threads.equality jitter_buffer.equality)

lemma push_copies:
  assumes "slot_index q < length (jb_slots (jt_buffer s))"
    "length p \<le> length (js_payload (slot_of s q))" "i \<le> length p"
  shows "jitter_run (replicate i (Receiver act)) (s\<lparr>jt_push := Push_copy q p 0\<rparr>) =
    (on_slot (slot_index q) (\<lambda>slot. slot\<lparr>js_payload := take i p @ drop i (js_payload slot)\<rparr>) s)\<lparr>jt_push := Push_copy q p i\<rparr>"
  using assms(3)
proof (induction i)
  case 0
  then show ?case by (simp add: on_slot_def on_jitter_def)
next
  case (Suc i)
  have "(take i p @ drop i bs)[i := p ! i] = take (Suc i) p @ drop (Suc i) bs" if "length p \<le> length bs" for bs
    using that Suc.prems by (simp add: list_update_append take_Suc_conv_app_nth Cons_nth_drop_Suc [symmetric])
  then have "(take i p @ drop i (js_payload (slot_of s q)))[i := p ! i] = take (Suc i) p @ drop (Suc i) (js_payload (slot_of s q))"
    using assms(2) by blast
  then show ?case
    unfolding run_one_more using Suc assms(1) by (simp add: thread_steps)
qed

text \<open>The buffer with the packet in its slot, not yet counted.\<close>

definition stored :: "u16 \<Rightarrow> bytes \<Rightarrow> jitter_threads \<Rightarrow> jitter_threads" where
  "stored q p s = on_slot (slot_index q)
     (\<lambda>slot. slot\<lparr>js_sequence := q, js_length := length p, js_payload := p @ drop (length p) (js_payload slot),
       js_state := Slot_ready\<rparr>) (s\<lparr>jt_accepted := jt_accepted s @ [(q, p)]\<rparr>)"

lemma push_writes:
  assumes "jt_push s = Push_idle" "\<not> jt_resetRequested s" "length p \<le> kJitterMaxPayload"
    and slot: "slot_index q < length (jb_slots (jt_buffer s))" "js_state (slot_of s q) = Slot_empty"
      "length (js_payload (slot_of s q)) = kJitterMaxPayload"
    and rest: "turns_to (Receiver (Packet q p)) ((stored q p s)\<lparr>jt_push := Push_count q\<rparr>) t"
  shows "turns_to (Receiver (Packet q p)) s t"
proof -
  let ?m = "Receiver (Packet q p)"
  define s1 where "s1 = on_slot (slot_index q) (\<lambda>slot. slot\<lparr>js_state := Slot_writing, js_sequence := q, js_length := length p\<rparr>) s"
  let ?s2 = "(on_slot (slot_index q) (\<lambda>slot. slot\<lparr>js_payload := take (length p) p @ drop (length p) (js_payload slot)\<rparr>) s1)
    \<lparr>jt_push := Push_copy q p (length p)\<rparr>"
  have claimed: "jitter_run [?m, ?m, ?m, ?m] s = s1\<lparr>jt_push := Push_copy q p 0\<rparr>"
    using assms(1-3) slot by (simp add: s1_def thread_steps)
  have "jitter_run (replicate (length p) ?m) (s1\<lparr>jt_push := Push_copy q p 0\<rparr>) = ?s2"
    using assms(3) slot by (intro push_copies) (simp_all add: s1_def thread_steps)
  moreover have "jitter_run [?m] ?s2 = (stored q p s)\<lparr>jt_push := Push_count q\<rparr>"
    using slot by (simp add: s1_def stored_def thread_steps)
  then have "turns_to ?m ?s2 t" by (rule turns_by [OF _ _ rest]) simp
  ultimately have "turns_to ?m (s1\<lparr>jt_push := Push_copy q p 0\<rparr>) t" using turns_run by metis
  then show ?thesis by (rule turns_by [OF claimed, rotated]) simp
qed

text \<open>A push without interruption.\<close>

lemma push_alone:
  assumes idle: "jt_push s = Push_idle" "\<not> jt_resetRequested s" and inv: "jitter_inv (jt_buffer s)"
  shows "turns_to (Receiver (Packet q p)) s (s\<lparr>jt_buffer := snd (jitter_push q p (jt_buffer s)),
    jt_accepted := jt_accepted s @ (if fst (jitter_push q p (jt_buffer s)) then [(q, p)] else [])\<rparr>)"
    (is "turns_to ?m s ?t")
proof -
  let ?j = "jt_buffer s" and ?x = "slot_of s q"
  have len: "length (jb_slots ?j) = kJitterSlots" "length (js_payload ?x) = kJitterMaxPayload" "jb_buffered ?j \<le> kJitterSlots"
    using inv jitter_inv_slot [OF inv, of "slot_index q"] length_filter_le [of _ "jb_slots ?j"]
    by (auto simp: jitter_inv_def ready_slots_def slot_ok_def slot_of_def)
  have count: "size_add (jb_buffered ?j) = jb_buffered ?j + 1" using len(3) by (simp add: size_add_def kJitterSlots_def)
  consider "length p > kJitterMaxPayload" | "length p \<le> kJitterMaxPayload" "js_state ?x \<noteq> Slot_empty"
    | "length p \<le> kJitterMaxPayload" "js_state ?x = Slot_empty" by linarith
  then show ?thesis
  proof cases
    case 1
    then show ?thesis
      using idle by (intro turns_by [of "[?m, ?m]" s ?t]) (simp_all add: thread_steps jitter_push_def turns_refl)
  next
    case 2
    then show ?thesis
      using idle by (intro turns_by [of "[?m, ?m, ?m]" s ?t]) (simp_all add: thread_steps jitter_push_def turns_refl)
  next
    case 3
    let ?s = "(stored q p s)\<lparr>jt_push := Push_count q\<rparr>"
    have reach: "turns_to ?m ?s ?t" if "jitter_run ms ?s = ?t" "set ms \<subseteq> {?m}" for ms
      using that by (rule turns_by [OF _ _ turns_refl])
    note ends = stored_def thread_steps jitter_push_def
    have "turns_to ?m ?s ?t" if "jb_started ?j"
      using that idle 3 len(1) count by (intro reach [of "[?m, ?m]"]) (simp_all add: ends, intro threads_eqI, simp_all add: slot_update_eqI)
    moreover have "turns_to ?m ?s ?t" if "\<not> jb_started ?j" "jb_hasFirst ?j" "jb_buffered ?j + 1 < jb_targetPackets ?j"
      using that idle 3 len(1) count by (intro reach [of "[?m, ?m, ?m, ?m]"]) (simp_all add: ends, intro threads_eqI, simp_all add: slot_update_eqI)
    moreover have "turns_to ?m ?s ?t" if "\<not> jb_started ?j" "\<not> jb_hasFirst ?j" "jb_buffered ?j + 1 < jb_targetPackets ?j"
      using that idle 3 len(1) count by (intro reach [of "[?m, ?m, ?m, ?m, ?m]"]) (simp_all add: ends, intro threads_eqI, simp_all add: slot_update_eqI)
    moreover have "turns_to ?m ?s ?t" if "\<not> jb_started ?j" "jb_hasFirst ?j" "jb_targetPackets ?j \<le> jb_buffered ?j + 1"
      using that idle 3 len(1) count by (intro reach [of "[?m, ?m, ?m, ?m, ?m, ?m, ?m]"]) (simp_all add: ends, intro threads_eqI, simp_all add: slot_update_eqI)
    moreover have "turns_to ?m ?s ?t" if "\<not> jb_started ?j" "\<not> jb_hasFirst ?j" "jb_targetPackets ?j \<le> jb_buffered ?j + 1"
      using that idle 3 len(1) count by (intro reach [of "[?m, ?m, ?m, ?m, ?m, ?m, ?m, ?m]"]) (simp_all add: ends, intro threads_eqI, simp_all add: slot_update_eqI)
    ultimately have "turns_to ?m ?s ?t" using not_le by blast
    then show ?thesis
      using push_writes [of s p q ?t] 3 len count idle by simp
  qed
qed

lemma reset_slots:
  assumes "length (jb_slots (jt_buffer s)) = kJitterSlots" "i < kJitterSlots"
  shows "jitter_run (replicate i Consumer) (s\<lparr>jt_pop := Reset_slots 0\<rparr>) =
    (on_jitter (\<lambda>j. j\<lparr>jb_slots := map (\<lambda>slot. slot\<lparr>js_state := Slot_empty\<rparr>) (take i (jb_slots j)) @ drop i (jb_slots j)\<rparr>) s)
      \<lparr>jt_pop := Reset_slots i\<rparr>"
  using assms(2)
proof (induction i)
  case (Suc i)
  let ?f = "\<lambda>slot. slot\<lparr>js_state := Slot_empty\<rparr>"
  have "(map ?f (take i xs) @ drop i xs)[i := ?f ((map ?f (take i xs) @ drop i xs) ! i)] =
      map ?f (take (Suc i) xs) @ drop (Suc i) xs" if "i < length xs" for xs
    using that by (simp add: list_update_append nth_append take_Suc_conv_app_nth Cons_nth_drop_Suc [symmetric])
  from this [of "jb_slots (jt_buffer s)"] show ?case
    unfolding run_one_more using Suc assms(1) by (simp add: thread_steps)
qed (simp add: on_jitter_def)

text \<open>The first loop of \<open>reset\<close>, and all of it.\<close>

definition emptied :: "jitter_threads \<Rightarrow> jitter_threads" where
  "emptied s = on_jitter (\<lambda>j. j\<lparr>jb_slots := map (\<lambda>slot. slot\<lparr>js_state := Slot_empty\<rparr>) (jb_slots j)\<rparr>) s"

lemma reset_empties:
  assumes "length (jb_slots (jt_buffer s)) = kJitterSlots"
    and rest: "turns_to Consumer ((emptied s)\<lparr>jt_pop := Reset_buffered\<rparr>) t"
  shows "turns_to Consumer (s\<lparr>jt_pop := Reset_slots 0\<rparr>) t"
proof -
  let ?f = "\<lambda>slot. slot\<lparr>js_state := Slot_empty\<rparr>" and ?slots = "jb_slots (jt_buffer s)"
  define B where "B = map ?f (take 63 ?slots) @ drop 63 ?slots"
  define s1 where "s1 = (on_jitter (\<lambda>j. j\<lparr>jb_slots := B\<rparr>) s)\<lparr>jt_pop := Reset_slots 63\<rparr>"
  have "length B = kJitterSlots" "B[63 := ?f (B ! 63)] = map ?f ?slots"
    using assms(1) by (simp add: B_def, intro nth_equalityI)
      (auto simp: B_def kJitterSlots_def nth_append nth_list_update less_Suc_eq)
  then have "jitter_run [Consumer] s1 = (emptied s)\<lparr>jt_pop := Reset_buffered\<rparr>"
    by (simp add: s1_def thread_steps kJitterSlots_def emptied_def)
  then have "turns_to Consumer s1 t" by (rule turns_by [OF _ _ rest]) simp
  moreover have "jitter_run (replicate 63 Consumer) (s\<lparr>jt_pop := Reset_slots 0\<rparr>) = s1"
    using reset_slots [OF assms(1), of 63] by (simp add: kJitterSlots_def s1_def on_jitter_def B_def)
  ultimately show ?thesis using turns_run by metis
qed

lemma reset_alone:
  assumes "length (jb_slots (jt_buffer s)) = kJitterSlots"
    and rest: "turns_to Consumer (s\<lparr>jt_buffer := jitter_reset (jt_buffer s), jt_pop := Pop_started\<rparr>) t"
  shows "turns_to Consumer (s\<lparr>jt_pop := Reset_slots 0\<rparr>) t"
proof (rule reset_empties [OF assms(1)])
  have "jitter_run [Consumer, Consumer, Consumer, Consumer, Consumer] ((emptied s)\<lparr>jt_pop := Reset_buffered\<rparr>)
      = s\<lparr>jt_buffer := jitter_reset (jt_buffer s), jt_pop := Pop_started\<rparr>"
    by (simp add: emptied_def thread_steps jitter_reset_def)
  then show "turns_to Consumer ((emptied s)\<lparr>jt_pop := Reset_buffered\<rparr>) t" by (rule turns_by [OF _ _ rest]) simp
qed

lemma pop_copies:
  assumes "n \<le> length (js_payload (slot_of s q))" "i \<le> n"
  shows "jitter_run (replicate i Consumer) (s\<lparr>jt_pop := Pop_copy q n []\<rparr>) = s\<lparr>jt_pop := Pop_copy q n (take i (js_payload (slot_of s q)))\<rparr>"
  using assms(2)
proof (induction i)
  case (Suc i)
  then show ?case
    unfolding run_one_more using assms(1) by (simp add: thread_steps take_Suc_conv_app_nth)
qed simp

text \<open>A \<open>pop\<close> that finds the packet, however many packets are counted.\<close>

lemma pop_takes:
  fixes s :: jitter_threads
  defines "q \<equiv> jb_expectedSequence (jt_buffer s)"
  assumes ready: "jb_started (jt_buffer s)" "js_state (slot_of s q) = Slot_ready" "js_sequence (slot_of s q) = q"
    and slot: "length (jb_slots (jt_buffer s)) = kJitterSlots" "length (js_payload (slot_of s q)) = kJitterMaxPayload"
      "js_length (slot_of s q) \<le> kJitterMaxPayload"
  shows "turns_to Consumer (s\<lparr>jt_pop := Pop_started\<rparr>)
    (s\<lparr>jt_buffer := (jt_buffer s)\<lparr>jb_slots := (jb_slots (jt_buffer s))[slot_index q := (slot_of s q)\<lparr>js_state := Slot_empty\<rparr>],
         jb_buffered := size_sub (jb_buffered (jt_buffer s)), jb_expectedSequence := q + 1\<rparr>,
       jt_pop := Pop_idle, jt_delivered := jt_delivered s @ [slot_packet (slot_of s q)]\<rparr>)"
    (is "turns_to ?m ?s ?t")
proof -
  let ?x = "slot_of s q"
  let ?n = "js_length ?x"
  have small: "?n \<le> length (js_payload ?x)" using slot by simp
  define s1 where "s1 = on_slot (slot_index q) (\<lambda>slot. slot\<lparr>js_state := Slot_reading\<rparr>) s"
  have at: "slot_of s1 q = ?x\<lparr>js_state := Slot_reading\<rparr>" using slot(1) by (simp add: s1_def thread_steps)
  have "jitter_run [?m, ?m, ?m] (s1\<lparr>jt_pop := Pop_copy q ?n (take ?n (js_payload ?x))\<rparr>) = ?t"
    using ready slot small by (simp add: s1_def thread_steps slot_packet_def)
  then have "turns_to ?m (s1\<lparr>jt_pop := Pop_copy q ?n (take ?n (js_payload ?x))\<rparr>) ?t"
    by (rule turns_by [OF _ _ turns_refl]) simp
  moreover have "jitter_run (replicate ?n ?m) (s1\<lparr>jt_pop := Pop_copy q ?n []\<rparr>)
      = s1\<lparr>jt_pop := Pop_copy q ?n (take ?n (js_payload ?x))\<rparr>"
    using pop_copies [of ?n s1 q ?n] small by (simp add: at)
  ultimately have copied: "turns_to ?m (s1\<lparr>jt_pop := Pop_copy q ?n []\<rparr>) ?t" using turns_run by metis
  have "jitter_run [?m, ?m, ?m, ?m] ?s = s1\<lparr>jt_pop := Pop_copy q ?n []\<rparr>"
    using ready slot by (simp add: s1_def thread_steps flip: q_def)
  then show ?thesis by (rule turns_by [OF _ _ copied]) simp
qed

text \<open>What a period hands on.\<close>

definition consumed :: "(u16 \<times> bytes) option \<Rightarrow> (u16 \<times> bytes) list" where
  "consumed packet = (case packet of None \<Rightarrow> [] | Some x \<Rightarrow> [x])"

lemma period_alone:
  assumes inv: "jitter_inv (jt_buffer s)" and len: "length payload = kJitterMaxPayload"
  shows "turns_to Consumer (s\<lparr>jt_pop := Pop_started\<rparr>)
    (s\<lparr>jt_buffer := snd (snd (jitter_consume payload (jt_buffer s))), jt_pop := Pop_idle,
       jt_delivered := jt_delivered s @ consumed (fst (jitter_consume payload (jt_buffer s)))\<rparr>)"
    (is "turns_to ?m ?s ?t")
proof -
  let ?j = "jt_buffer s" and ?q = "jb_expectedSequence (jt_buffer s)"
  let ?x = "slot_of s ?q"
  have slot: "length (jb_slots ?j) = kJitterSlots" "length (js_payload ?x) = kJitterMaxPayload"
      "js_state ?x = Slot_ready \<Longrightarrow> js_length ?x \<le> kJitterMaxPayload"
    using inv jitter_inv_slot [OF inv, of "slot_index ?q"] by (auto simp: jitter_inv_def slot_ok_def slot_of_def)
  have reach: "turns_to ?m ?s ?t" if "jitter_run ms ?s = ?t" "set ms \<subseteq> {?m}" for ms
    using that by (rule turns_by [OF _ _ turns_refl])
  have level: "size_sub (jb_buffered ?j) = jb_buffered ?j - 1" if "js_state ?x = Slot_ready"
  proof -
    have "0 < jb_buffered ?j" using ready_slot_count [OF inv] that by (simp add: slot_of_def)
    moreover have "jb_buffered ?j \<le> kJitterSlots"
      using inv length_filter_le [of _ "jb_slots ?j"] by (auto simp: jitter_inv_def ready_slots_def)
    ultimately show ?thesis by (cases "jb_buffered ?j") (simp_all add: size_sub_def kJitterSlots_def)
  qed
  note ends = thread_steps jitter_consume_def jitter_pop_def jitter_skipMissing_def consumed_def len
  consider "\<not> jb_started ?j" | "jb_started ?j" "js_state ?x \<noteq> Slot_ready"
    | "jb_started ?j" "js_state ?x = Slot_ready" "js_sequence ?x \<noteq> ?q"
    | "jb_started ?j" "js_state ?x = Slot_ready" "js_sequence ?x = ?q" by blast
  then show ?thesis
  proof cases
    case 1
    then show ?thesis by (intro reach [of "[?m, ?m]"]) (simp_all add: ends)
  next
    case 2
    have "turns_to ?m ?s ?t" if "jb_buffered ?j = 0"
      using 2 that by (intro reach [of "[?m, ?m, ?m, ?m, ?m]"]) (simp_all add: ends)
    moreover have "turns_to ?m ?s ?t" if "0 < jb_buffered ?j"
      using 2 that by (intro reach [of "[?m, ?m, ?m, ?m, ?m, ?m, ?m, ?m, ?m]"]) (simp_all add: ends)
    ultimately show ?thesis by blast
  next
    case 3
    have "turns_to ?m ?s ?t" if "jb_buffered ?j - 1 = 0"
      using 3 that slot level [OF 3(2)] by (intro reach [of "[?m, ?m, ?m, ?m, ?m, ?m, ?m, ?m]"]) (simp_all add: ends)
    moreover have "turns_to ?m ?s ?t" if "0 < jb_buffered ?j - 1"
      using 3 that slot level [OF 3(2)] by (intro reach [of "[?m, ?m, ?m, ?m, ?m, ?m, ?m, ?m, ?m, ?m, ?m, ?m]"]) (simp_all add: ends)
    ultimately show ?thesis by blast
  next
    case 4
    have small: "js_length ?x \<le> length (js_payload ?x)" "js_length ?x \<le> kJitterMaxPayload" using slot 4 by simp_all
    have "jitter_consume payload ?j = (Some (?q, take (js_length ?x) (js_payload ?x)), False,
        ?j\<lparr>jb_slots := (jb_slots ?j)[slot_index ?q := ?x\<lparr>js_state := Slot_empty\<rparr>],
          jb_buffered := jb_buffered ?j - 1, jb_expectedSequence := ?q + 1\<rparr>)"
      using 4 small len by (simp add: jitter_consume_def jitter_pop_def Let_def slot_of_def)
    then show ?thesis
      using pop_takes [OF 4 slot(1,2) small(2)] 4(3) level [OF 4(2)] by (simp add: consumed_def slot_packet_def)
  qed
qed

lemma consume_alone:
  assumes idle: "jt_pop s = Pop_idle" and inv: "jitter_inv (jt_buffer s)" and len: "length payload = kJitterMaxPayload"
  defines "j \<equiv> if jt_resetRequested s then jitter_reset (jt_buffer s) else jt_buffer s"
  shows "turns_to Consumer s (s\<lparr>jt_resetRequested := False, jt_buffer := snd (snd (jitter_consume payload j)),
      jt_delivered := jt_delivered s @ consumed (fst (jitter_consume payload j))\<rparr>)" (is "turns_to _ s ?t")
proof -
  let ?s = "s\<lparr>jt_resetRequested := False, jt_buffer := j\<rparr>"
  have "jitter_inv (jt_buffer ?s)" using inv jitter_reset_inv by (simp add: j_def)
  note period_alone [OF this len]
  then have period: "turns_to Consumer (?s\<lparr>jt_pop := Pop_started\<rparr>) ?t"
    by (rule back_subst [where P = "turns_to Consumer (?s\<lparr>jt_pop := Pop_started\<rparr>)"])
      (intro jitter_threads.equality, simp_all add: idle)
  show ?thesis
  proof (cases "jt_resetRequested s")
    case True
    let ?r = "s\<lparr>jt_resetRequested := False\<rparr>"
    have "?r\<lparr>jt_buffer := jitter_reset (jt_buffer ?r), jt_pop := Pop_started\<rparr> = ?s\<lparr>jt_pop := Pop_started\<rparr>"
      using True by (simp add: j_def)
    with period have "turns_to Consumer (?r\<lparr>jt_buffer := jitter_reset (jt_buffer ?r), jt_pop := Pop_started\<rparr>) ?t" by (rule ssubst [rotated])
    then have reset: "turns_to Consumer (?r\<lparr>jt_pop := Reset_slots 0\<rparr>) ?t"
      by (rule reset_alone [rotated]) (use inv in \<open>simp add: jitter_inv_def\<close>)
    have "jitter_run [Consumer] s = ?r\<lparr>jt_pop := Reset_slots 0\<rparr>" using idle True by (simp add: thread_steps)
    then show ?thesis by (rule turns_by [OF _ _ reset]) simp
  next
    case False
    have "jitter_run [Consumer] s = ?s\<lparr>jt_pop := Pop_started\<rparr>" using idle False by (simp add: thread_steps j_def)
    then show ?thesis by (rule turns_by [OF _ _ period]) simp
  qed
qed

text \<open>C18: The whole-call model of the buffer is these accesses run without interruption: from a state in which
  neither thread is in a call, an arriving packet runs through \<open>push\<close> with the result of \<open>jitter_push\<close>, and a
  period of the consuming thread, with the reset that was asked for, with the result of \<open>jitter_consume\<close>.\<close>

theorem jitter_calls_refined:
  assumes "jitter_inv (jt_buffer s)" "jt_push s = Push_idle" "jt_pop s = Pop_idle" "length payload = 1200"
  shows "(\<not> jt_resetRequested s \<longrightarrow> (\<exists>n. jitter_run (replicate n (Receiver (Packet q p))) s =
      (case jitter_push q p (jt_buffer s) of (ok, j) \<Rightarrow>
         s\<lparr>jt_buffer := j, jt_accepted := jt_accepted s @ (if ok then [(q, p)] else [])\<rparr>)))
    \<and> (\<exists>n. jitter_run (replicate n Consumer) s =
      (case jitter_consume payload (if jt_resetRequested s then jitter_reset (jt_buffer s) else jt_buffer s) of
         (packet, lost, j) \<Rightarrow> s\<lparr>jt_resetRequested := False, jt_buffer := j,
           jt_delivered := jt_delivered s @ (case packet of None \<Rightarrow> [] | Some x \<Rightarrow> [x])\<rparr>))"
  using push_alone [OF assms(2) _ assms(1), of q p] consume_alone [OF assms(3,1), of payload] assms(4)
  by (auto simp: turns_to_def case_prod_unfold kJitterMaxPayload_def consumed_def)

theorem jitter_calls_refined_witness:
  "(\<exists>n. jitter_run (replicate n (Receiver (Packet 5 [1, 2]))) (new_jitter_threads 6) = (new_jitter_threads 6)
      \<lparr>jt_buffer := snd (jitter_push 5 [1, 2] (new_jitter 6)), jt_accepted := [(5, [1, 2])]\<rparr>)
    \<and> (\<exists>n. jitter_run (replicate n Consumer) (new_jitter_threads 6) = new_jitter_threads 6)"
proof -
  have first: "js_state (jb_slots (new_jitter 6) ! slot_index q) = Slot_empty" for q
    by (simp add: new_jitter_def new_jitter_slot_def)
  have pushed: "fst (jitter_push 5 [1, 2] (new_jitter 6))"
    using first by (simp add: jitter_push_def kJitterMaxPayload_def Let_def)
  have idle: "jitter_consume (replicate 1200 0) (new_jitter 6) = (None, False, new_jitter 6)"
    by (simp add: jitter_consume_def jitter_pop_def new_jitter_def)
  have "jitter_inv (jt_buffer (new_jitter_threads 6))" by (simp add: new_jitter_threads_def new_jitter_inv)
  from jitter_calls_refined [OF this, where payload = "replicate 1200 0" and q = 5 and p = "[1, 2]"] pushed idle
  show ?thesis by (simp add: new_jitter_threads_def case_prod_beta)
qed

end
