(* ===== verification/Jitter_Streams.thy ===== *)
theory Jitter_Streams
  imports Jitter_Buffer Fifo_Interface
begin

text \<open>
  Runs of the jitter buffer: the receiving thread stores packets (\<open>push\<close> in \<open>receiveLoop\<close>) and the
  consuming thread takes one per millisecond (\<open>consumeLoop\<close>, Sources/Engine/LiveEngine.cpp), in
  any order of their calls. Sequence numbers are \<open>s0 + i\<close> modulo 65536 for the i-th packet.
\<close>

section \<open>Indices\<close>

lemma slot_index_add: "slot_index (s + of_nat i) = (unat s + i) mod kJitterSlots"
proof -
  have "unat (s + of_nat i) = (unat s + i) mod 65536"
    by (simp add: unat_word_ariths unat_of_nat mod_add_right_eq)
  moreover have "(n mod 65536) mod 64 = n mod (64 :: nat)" for n
    by (rule mod_mod_cancel) simp
  ultimately show ?thesis by (simp add: slot_index_def kJitterSlots_def)
qed

lemma slot_index_window:
  assumes "slot_index (s + of_nat i) = slot_index (s + of_nat k)" "lo \<le> i" "lo \<le> k"
    "i < lo + kJitterSlots" "k < lo + kJitterSlots"
  shows "i = k"
proof -
  have "(unat s + lo + (i - lo)) mod kJitterSlots = (unat s + lo + (k - lo)) mod kJitterSlots"
    using assms(1-3) unfolding slot_index_add by (simp only: add.assoc le_add_diff_inverse)
  then have "i - lo = k - lo" by (rule mod_offset_inj) (use assms(2-5) in linarith)+
  with assms show ?thesis by simp
qed

lemma jitter_inv_next: "jitter_inv (j\<lparr>jb_expectedSequence := x\<rparr>) \<longleftrightarrow> jitter_inv j"
  by (simp add: jitter_inv_def ready_slots_def)

section \<open>In order and without loss\<close>

text \<open>One step of either thread: \<open>True\<close> is the arrival of the next packet of the stream, \<open>False\<close> a
  period of the consumer. The state carries the number of packets that arrived and the packets
  delivered so far.\<close>

definition stream_step ::
    "u16 \<Rightarrow> (nat \<Rightarrow> bytes) \<Rightarrow> bool \<Rightarrow> jitter_buffer \<times> nat \<times> (u16 \<times> bytes) list
      \<Rightarrow> jitter_buffer \<times> nat \<times> (u16 \<times> bytes) list" where
  "stream_step s0 p arrival st = (case st of (j, hi, out) \<Rightarrow>
     if arrival then (snd (jitter_push (s0 + of_nat hi) (p hi) j), Suc hi, out)
     else (case jitter_consume (replicate kJitterMaxPayload 0) j of
        (Some d, _, j') \<Rightarrow> (j', hi, out @ [d])
      | (None, _, j') \<Rightarrow> (j', hi, out)))"

lemma stream_step_arrival:
  "stream_step s0 p True (j, hi, out) = (snd (jitter_push (s0 + of_nat hi) (p hi) j), Suc hi, out)"
  by (simp add: stream_step_def)

lemma stream_step_period:
  "jitter_consume (replicate kJitterMaxPayload 0) j = (d, l, j') \<Longrightarrow>
   stream_step s0 p False (j, hi, out) = (j', hi, case d of Some x \<Rightarrow> out @ [x] | None \<Rightarrow> out)"
  by (simp add: stream_step_def split: option.splits)

text \<open>The same with two counters: how many arrived and how many were delivered.\<close>

fun count_step :: "nat \<Rightarrow> bool \<Rightarrow> nat \<times> nat \<Rightarrow> nat \<times> nat" where
  "count_step target True (hi, lo) = (Suc hi, lo)"
| "count_step target False (hi, lo) = (hi, if target \<le> hi \<and> lo < hi then Suc lo else lo)"

definition holds_window :: "u16 \<Rightarrow> (nat \<Rightarrow> bytes) \<Rightarrow> nat \<Rightarrow> nat \<Rightarrow> jitter_buffer \<Rightarrow> bool" where
  "holds_window s0 p lo hi j \<longleftrightarrow>
     (\<forall>i. lo \<le> i \<longrightarrow> i < hi \<longrightarrow> (let slot = jb_slots j ! slot_index (s0 + of_nat i) in
        slot_holds slot (s0 + of_nat i) \<and> take (js_length slot) (js_payload slot) = p i))
     \<and> (\<forall>k < kJitterSlots. (\<forall>i. lo \<le> i \<longrightarrow> i < hi \<longrightarrow> slot_index (s0 + of_nat i) \<noteq> k)
          \<longrightarrow> js_state (jb_slots j ! k) = Slot_empty)"

text \<open>The buffer after the first \<open>hi\<close> packets arrived and the first \<open>lo\<close> were delivered.\<close>

definition stream_inv :: "u16 \<Rightarrow> (nat \<Rightarrow> bytes) \<Rightarrow> nat \<Rightarrow> nat \<Rightarrow> nat \<Rightarrow> jitter_buffer \<Rightarrow> bool" where
  "stream_inv s0 p target lo hi j \<longleftrightarrow> jitter_inv j \<and> jb_targetPackets j = target \<and> lo \<le> hi
     \<and> holds_window s0 p lo hi j \<and> jb_buffered j = hi - lo \<and> jb_lost j = 0 \<and> jb_dropped j = 0
     \<and> (jb_started j \<longleftrightarrow> target \<le> hi)
     \<and> (if jb_started j then jb_expectedSequence j = s0 + of_nat lo
        else lo = 0 \<and> (0 < hi \<longrightarrow> jb_firstSequence j = s0))"

lemma stream_inv_new: "stream_inv s0 p (jb_targetPackets (new_jitter n)) 0 0 (new_jitter n)"
  using new_jitter_inv [of n]
  by (auto simp: stream_inv_def holds_window_def new_jitter_def new_jitter_slot_def kJitterSlots_def)

lemma stream_arrival:
  assumes inv: "stream_inv s0 p target lo hi j" and room: "hi < lo + kJitterSlots"
    and size: "length (p hi) \<le> kJitterMaxPayload"
  shows "stream_inv s0 p target lo (Suc hi) (snd (jitter_push (s0 + of_nat hi) (p hi) j))"
proof -
  let ?q = "s0 + of_nat hi"
  let ?slot = "jb_slots j ! slot_index ?q"
  have jinv: "jitter_inv j" and win: "holds_window s0 p lo hi j" and le: "lo \<le> hi"
    using inv by (simp_all add: stream_inv_def)
  have fresh: "slot_index (s0 + of_nat i) \<noteq> slot_index ?q" if "lo \<le> i" "i < hi" for i
    using slot_index_window [of s0 i hi lo] that room by auto
  then have empty: "js_state ?slot = Slot_empty"
    using win by (auto simp: holds_window_def)
  with size have ok: "fst (jitter_push ?q (p hi) j)" by (simp add: jitter_push_accepts)
  note slots = jitter_push_slots [of ?q "p hi" j, unfolded if_P [OF ok]]
  have len: "length (jb_slots j) = kJitterSlots" by (rule jitter_inv_length [OF jinv])
  have win': "holds_window s0 p lo (Suc hi) (snd (jitter_push ?q (p hi) j))"
    using win fresh len le
    by (auto simp: holds_window_def slots Let_def slot_holds_def less_Suc_eq nth_list_update)
  have target: "2 \<le> target" using jinv inv by (simp add: stream_inv_def jitter_inv_def)
  have rest: "jb_targetPackets (snd (jitter_push ?q (p hi) j)) = target
    \<and> jb_buffered (snd (jitter_push ?q (p hi) j)) = Suc hi - lo
    \<and> jb_lost (snd (jitter_push ?q (p hi) j)) = 0 \<and> jb_dropped (snd (jitter_push ?q (p hi) j)) = 0
    \<and> (jb_started (snd (jitter_push ?q (p hi) j)) \<longleftrightarrow> target \<le> Suc hi)
    \<and> (if jb_started (snd (jitter_push ?q (p hi) j))
       then jb_expectedSequence (snd (jitter_push ?q (p hi) j)) = s0 + of_nat lo
       else lo = 0 \<and> jb_firstSequence (snd (jitter_push ?q (p hi) j)) = s0)"
  proof (cases "jb_started j")
    case True
    then show ?thesis
      using inv size empty by (auto simp: jitter_push_def Let_def stream_inv_def)
  next
    case False
    have first: "jb_hasFirst j \<longleftrightarrow> 0 < hi" "lo = 0" "jb_buffered j = hi"
      using False jinv inv by (auto simp: jitter_inv_def stream_inv_def)
    show ?thesis
      using False inv size empty first target
      by (auto simp: jitter_push_def Let_def stream_inv_def)
  qed
  show ?thesis
    unfolding stream_inv_def using jitter_push_inv [OF jinv] win' rest le by auto
qed

lemma stream_delivery:
  assumes inv: "stream_inv s0 p target lo hi j" and "target \<le> hi" "lo < hi" "hi \<le> lo + kJitterSlots"
  shows "\<exists>j'. jitter_consume (replicate kJitterMaxPayload 0) j = (Some (s0 + of_nat lo, p lo), False, j')
    \<and> stream_inv s0 p target (Suc lo) hi j'"
proof -
  let ?q = "s0 + of_nat lo"
  let ?slot = "jb_slots j ! slot_index ?q"
  have jinv: "jitter_inv j" and win: "holds_window s0 p lo hi j" and started: "jb_started j"
    and expected: "jb_expectedSequence j = ?q"
    using inv assms(2) by (auto simp: stream_inv_def)
  have slot: "js_state ?slot = Slot_ready" "js_sequence ?slot = ?q"
      "take (js_length ?slot) (js_payload ?slot) = p lo"
    using win assms(3) by (auto simp: holds_window_def Let_def slot_holds_def)
  have small: "js_length ?slot \<le> kJitterMaxPayload" "length (js_payload ?slot) = kJitterMaxPayload"
    using jitter_inv_slot [OF jinv slot_index_less, of ?q] slot by (auto simp: slot_ok_def)
  have plen: "length (p lo) = js_length ?slot"
    using small unfolding slot(3) [symmetric] by simp
  let ?slots = "(jb_slots j)[slot_index ?q := ?slot\<lparr>js_state := Slot_empty\<rparr>]"
  let ?j = "j\<lparr>jb_slots := ?slots, jb_buffered := jb_buffered j - 1\<rparr>"
  let ?j' = "?j\<lparr>jb_expectedSequence := ?q + 1\<rparr>"
  have res: "jitter_consume (replicate kJitterMaxPayload 0) j = (Some (?q, p lo), False, ?j')"
    using started expected slot small plen by (simp add: jitter_consume_def jitter_pop_def Let_def)
  have other: "slot_index (s0 + of_nat i) \<noteq> slot_index ?q" if "Suc lo \<le> i" "i < hi" for i
    using slot_index_window [of s0 i lo lo] that assms(4) by auto
  have "holds_window s0 p (Suc lo) hi ?j'"
    using win other jitter_inv_length [OF jinv]
    by (auto simp: holds_window_def Let_def nth_list_update Suc_le_eq)
      (metis le_neq_implies_less)+
  moreover have "jitter_inv ?j'"
    using jitter_emptied_inv [OF jinv started, of ?q] slot by (simp add: jitter_inv_next)
  ultimately have "stream_inv s0 p target (Suc lo) hi ?j'"
    using inv assms(2,3) started by (auto simp: stream_inv_def add.assoc add.commute)
  with res show ?thesis by blast
qed

lemma stream_idle:
  assumes inv: "stream_inv s0 p target lo hi j" and "\<not> (target \<le> hi \<and> lo < hi)"
  shows "jitter_consume (replicate kJitterMaxPayload 0) j = (None, False, j)"
proof (cases "target \<le> hi")
  case True
  then have "lo = hi" "jb_started j" "jb_expectedSequence j = s0 + of_nat lo" "jb_buffered j = 0"
    using assms by (auto simp: stream_inv_def)
  moreover have "js_state (jb_slots j ! slot_index (s0 + of_nat lo)) = Slot_empty"
    using inv \<open>lo = hi\<close> by (auto simp: stream_inv_def holds_window_def)
  ultimately show ?thesis by (simp add: jitter_consume_def jitter_pop_def Let_def)
next
  case False
  then have "\<not> jb_started j" using inv by (simp add: stream_inv_def)
  then show ?thesis by (simp add: jitter_consume_def jitter_pop_def)
qed

lemma count_step_target: "fst (count_step target a c) = (if a then Suc (fst c) else fst c)"
  by (cases c; cases a) auto

lemma stream_run:
  assumes "\<And>i. length (p i) \<le> kJitterMaxPayload"
    and "\<And>k. k \<le> length acts \<Longrightarrow>
      (case fold (count_step target) (take k acts) (0, 0) of (hi, lo) \<Rightarrow> hi \<le> lo + kJitterSlots)"
    and "stream_inv s0 p target 0 0 j0"
  shows "case fold (count_step target) acts (0, 0) of (hi, lo) \<Rightarrow>
    \<exists>j. fold (stream_step s0 p) acts (j0, 0, []) = (j, hi, map (\<lambda>i. (s0 + of_nat i, p i)) [0..<lo])
      \<and> stream_inv s0 p target lo hi j"
  using assms(2)
proof (induction acts rule: rev_induct)
  case Nil
  then show ?case using assms(3) by simp
next
  case (snoc a acts)
  have "case fold (count_step target) (take k acts) (0, 0) of (hi, lo) \<Rightarrow> hi \<le> lo + kJitterSlots"
    if "k \<le> length acts" for k
    using snoc.prems [of k] that by simp
  note IH = snoc.IH [OF this]
  obtain hi lo where c: "fold (count_step target) acts (0, 0) = (hi, lo)" by fastforce
  with IH obtain j where j: "fold (stream_step s0 p) acts (j0, 0, [])
      = (j, hi, map (\<lambda>i. (s0 + of_nat i, p i)) [0..<lo])" "stream_inv s0 p target lo hi j"
    by auto
  have room: "hi \<le> lo + kJitterSlots" using snoc.prems [of "length acts"] c by simp
  have "case fold (count_step target) (take (Suc (length acts)) (acts @ [a])) (0, 0) of
      (hi, lo) \<Rightarrow> hi \<le> lo + kJitterSlots"
    by (rule snoc.prems) simp
  then have after: "case count_step target a (hi, lo) of (hi, lo) \<Rightarrow> hi \<le> lo + kJitterSlots"
    using c by simp
  show ?case
  proof (cases a)
    case True
    with after have "hi < lo + kJitterSlots" by simp
    from stream_arrival [OF j(2) this assms(1)] True c j(1) show ?thesis
      by (simp add: stream_step_arrival)
  next
    case False
    show ?thesis
    proof (cases "target \<le> hi \<and> lo < hi")
      case deliver: True
      with stream_delivery [OF j(2) _ _ room] obtain j' where
        "jitter_consume (replicate kJitterMaxPayload 0) j = (Some (s0 + of_nat lo, p lo), False, j')"
        "stream_inv s0 p target (Suc lo) hi j'" by blast
      with False deliver c j(1) show ?thesis by (simp add: stream_step_period)
    next
      case idle: False
      with stream_step_period [OF stream_idle [OF j(2) idle]] False c j show ?thesis by auto
    qed
  qed
qed



section \<open>After an outage\<close>

text \<open>The sender goes on counting while nothing arrives; afterwards each packet is stored and each
  is followed by a period of the consumer. The list is what the consumer gets.\<close>

fun resume_run :: "jitter_buffer \<Rightarrow> u16 \<Rightarrow> bytes list \<Rightarrow> (u16 \<times> bytes) list" where
  "resume_run j q [] = []"
| "resume_run j q (payload # rest) =
     (case jitter_consume (replicate kJitterMaxPayload 0) (snd (jitter_push q payload j)) of
        (Some d, _, j') \<Rightarrow> d # resume_run j' (q + 1) rest
      | (None, _, j') \<Rightarrow> resume_run j' (q + 1) rest)"

lemma slot_index_distance: "slot_index q = (unat x + unat (q - x)) mod kJitterSlots"
  using slot_index_add [of x "unat (q - x)"] by simp

text \<open>Every stored packet is at least a whole turn of the slots ahead of the expected one.\<close>

definition beyond_reach :: "jitter_buffer \<Rightarrow> bool" where
  "beyond_reach j \<longleftrightarrow> jitter_inv j \<and> jb_started j \<and>
     (\<forall>i < kJitterSlots. js_state (jb_slots j ! i) = Slot_ready \<longrightarrow>
        kJitterSlots \<le> unat (js_sequence (jb_slots j ! i) - jb_expectedSequence j))"

lemma beyond_reach_push:
  assumes "beyond_reach j" "kJitterSlots \<le> unat (q - jb_expectedSequence j)" "length payload \<le> kJitterMaxPayload"
  shows "beyond_reach (snd (jitter_push q payload j))
    \<and> jb_expectedSequence (snd (jitter_push q payload j)) = jb_expectedSequence j
    \<and> js_state (jb_slots (snd (jitter_push q payload j)) ! slot_index q) = Slot_ready"
proof -
  let ?j = "snd (jitter_push q payload j)"
  have inv: "jitter_inv j" "jb_started j" using assms(1) by (simp_all add: beyond_reach_def)
  note len = jitter_inv_length [OF inv(1)]
  have ex: "jb_expectedSequence ?j = jb_expectedSequence j" "jb_started ?j"
    using inv by (simp_all add: jitter_push_def Let_def)
  have "slot_ok (slot_index q) (jb_slots j ! slot_index q)" using inv by (simp add: jitter_inv_slot)
  then have ready: "js_state (jb_slots ?j ! slot_index q) = Slot_ready"
    using assms(3) len by (auto simp: jitter_push_slots jitter_push_accepts slot_ok_def)
  have "kJitterSlots \<le> unat (js_sequence (jb_slots ?j ! i) - jb_expectedSequence ?j)"
    if "i < kJitterSlots" "js_state (jb_slots ?j ! i) = Slot_ready" for i
    using that assms(1,2) len unfolding ex
    by (auto simp: beyond_reach_def jitter_push_slots nth_list_update split: if_splits)
  with ex ready jitter_push_inv [OF inv(1)] show ?thesis by (simp add: beyond_reach_def)
qed

lemma beyond_reach_consume:
  assumes beyond: "beyond_reach j" and ready: "js_state (jb_slots j ! slot_index q) = Slot_ready"
    and other: "slot_index q \<noteq> slot_index (jb_expectedSequence j)"
  shows "\<exists>j'. jitter_consume (replicate kJitterMaxPayload 0) j = (None, True, j') \<and> beyond_reach j'
    \<and> jb_expectedSequence j' = jb_expectedSequence j + 1"
proof -
  let ?x = "jb_expectedSequence j"
  let ?slot = "jb_slots j ! slot_index ?x"
  let ?emptied = "j\<lparr>jb_slots := (jb_slots j)[slot_index ?x := ?slot\<lparr>js_state := Slot_empty\<rparr>],
    jb_buffered := jb_buffered j - 1\<rparr>"
  define j1 where "j1 = (if js_state ?slot = Slot_ready then ?emptied else j)"
  have inv: "jitter_inv j" "jb_started j" using beyond by (simp_all add: beyond_reach_def)
  note len = jitter_inv_length [OF inv(1)]
  have "js_sequence ?slot \<noteq> ?x" if "js_state ?slot = Slot_ready"
    using beyond that by (auto simp: beyond_reach_def kJitterSlots_def dest!: spec [of _ "slot_index ?x"])
      (simp add: slot_index_def kJitterSlots_def)
  then have pop: "jitter_pop (replicate kJitterMaxPayload 0) 0 j = (False, replicate kJitterMaxPayload 0, 0, ?x, j1)"
    using inv by (simp add: jitter_pop_def Let_def j1_def)
  have j1: "jitter_inv j1" "jb_started j1" "jb_expectedSequence j1 = ?x"
    using inv jitter_emptied_inv [OF inv, of ?x] by (simp_all add: j1_def)
  have "js_state (jb_slots j1 ! slot_index q) = Slot_ready"
    using ready other by (simp add: j1_def)
  then have waiting: "0 < jb_buffered j1" by (rule ready_slot_count [OF j1(1)])
  have "kJitterSlots \<le> unat (js_sequence (jb_slots j1 ! i) - (?x + 1))"
    if i: "i < kJitterSlots" and r: "js_state (jb_slots j1 ! i) = Slot_ready" for i
  proof -
    have moved: "i \<noteq> slot_index ?x" "jb_slots j1 ! i = jb_slots j ! i"
      using r i len by (auto simp: j1_def nth_list_update split: if_splits)
    let ?s = "js_sequence (jb_slots j ! i)"
    have far: "kJitterSlots \<le> unat (?s - ?x)" and "slot_index ?s = i"
      using beyond moved r i jitter_inv_slot [OF inv(1) i] by (auto simp: beyond_reach_def slot_ok_def)
    have "unat (?s - ?x) mod kJitterSlots \<noteq> 0"
    proof
      assume "unat (?s - ?x) mod kJitterSlots = 0"
      then have "slot_index ?s = slot_index ?x"
        using slot_index_distance [of ?s ?x] mod_add_right_eq [of "unat ?x" "unat (?s - ?x)" kJitterSlots]
        by (simp add: slot_index_def)
      with moved \<open>slot_index ?s = i\<close> show False by simp
    qed
    with far have "kJitterSlots < unat (?s - ?x)" by (metis le_neq_implies_less mod_self)
    moreover have "unat (?s - (?x + 1)) = unat (?s - ?x) - 1"
    proof -
      have "?s - ?x \<noteq> 0" using far by (auto simp: kJitterSlots_def)
      then show ?thesis using unat_minus_one [of "?s - ?x"] by (simp add: diff_diff_eq)
    qed
    ultimately show ?thesis using moved by simp
  qed
  then have "beyond_reach (jitter_skipMissing j1)"
    using j1 by (simp add: beyond_reach_def jitter_skipMissing_def jitter_inv_next)
      (simp add: jitter_inv_def ready_slots_def)
  with pop j1 waiting show ?thesis
    by (simp add: jitter_consume_def jitter_skipMissing_def)
qed

text \<open>After an outage in which more than 64 packets were lost, but shorter than the two seconds
  after which the receiver resets the buffer, playback never resumes: if the first packet that
  arrives is \<open>g\<close> numbers ahead, \<open>64 \<le> g < 65536\<close> and \<open>g\<close> not a multiple of 64, and packets and
  consumer periods then alternate as they do in real time, every packet is accepted and none is
  ever delivered, because the expected number stays \<open>g\<close> behind and each stored packet is thrown
  away when its slot is visited for an older number.\<close>

theorem outage_silence:
  assumes "jitter_inv j" "jb_started j" "jb_buffered j = 0"
    and "64 \<le> g" "g < 65536" "g mod 64 \<noteq> 0"
    and "\<forall>payload \<in> set payloads. length payload \<le> 1200"
  shows "resume_run j (jb_expectedSequence j + of_nat g) payloads = []"
proof -
  have "ready_slots j = []" using assms(1,3) by (simp add: jitter_inv_def)
  then have "js_state (jb_slots j ! i) \<noteq> Slot_ready" if "i < kJitterSlots" for i
    using that jitter_inv_length [OF assms(1)] by (simp add: ready_slots_def filter_empty_conv)
  then have "beyond_reach j" using assms(1,2) by (simp add: beyond_reach_def)
  then show ?thesis
    using assms(7)
  proof (induction payloads arbitrary: j)
    case Nil
    then show ?case by simp
  next
    case (Cons payload payloads)
    let ?x = "jb_expectedSequence j"
    let ?q = "?x + of_nat g"
    let ?j = "snd (jitter_push ?q payload j)"
    have dist: "unat (?q - ?x) = g" using assms(5) by (simp add: unat_of_nat)
    have push: "beyond_reach ?j" "jb_expectedSequence ?j = ?x"
      "js_state (jb_slots ?j ! slot_index ?q) = Slot_ready"
      using beyond_reach_push [OF Cons.prems(1), of ?q payload] dist assms(4) Cons.prems(2)
      by (simp_all add: kJitterSlots_def kJitterMaxPayload_def)
    have "slot_index ?q \<noteq> slot_index ?x"
    proof
      assume "slot_index ?q = slot_index ?x"
      then have "(unat ?x + g) mod 64 = unat ?x mod 64"
        by (simp add: slot_index_add) (simp add: slot_index_def kJitterSlots_def)
      then have "g mod 64 = 0" by (metis add_diff_cancel_left' le_add1 mod_0 mod_eq_dvd_iff_nat dvd_imp_mod_0)
      with assms(6) show False by simp
    qed
    with beyond_reach_consume [OF push(1,3)] push(2) obtain j' where
      "jitter_consume (replicate kJitterMaxPayload 0) ?j = (None, True, j')" "beyond_reach j'"
      "jb_expectedSequence j' = ?x + 1" by auto
    with Cons.IH [of j'] Cons.prems(2) show ?case by (simp add: ac_simps)
  qed
qed

text \<open>A started buffer of target 2 that has delivered its first two packets, resumed 100 packets later.\<close>

definition drained_jitter :: jitter_buffer where
  "drained_jitter = (new_jitter 2)\<lparr>jb_started := True, jb_hasFirst := True, jb_expectedSequence := 2\<rparr>"

lemma drained_jitter_inv: "jitter_inv drained_jitter" "jb_started drained_jitter"
  "jb_buffered drained_jitter = 0" "jb_expectedSequence drained_jitter = 2"
  using new_jitter_inv [of 2]
  by (simp_all add: drained_jitter_def jitter_inv_def ready_slots_def) (simp_all add: new_jitter_def)

theorem outage_silence_witness:
  "resume_run drained_jitter 102 (replicate 5000 [1, 2, 3]) = []"
  using outage_silence [OF drained_jitter_inv(1-3), of 100 "replicate 5000 [1, 2, 3]"]
  by (simp add: drained_jitter_inv(4))

section \<open>Late packets\<close>

abbreviation consume_period :: "jitter_buffer \<Rightarrow> jitter_buffer" where
  "consume_period j \<equiv> snd (snd (jitter_consume (replicate kJitterMaxPayload 0) j))"

lemma consume_frame:
  assumes "jitter_inv j"
  shows "(jb_expectedSequence (consume_period j) = jb_expectedSequence j
      \<or> jb_expectedSequence (consume_period j) = jb_expectedSequence j + 1)
    \<and> (\<forall>i. i \<noteq> slot_index (jb_expectedSequence j) \<longrightarrow> jb_slots (consume_period j) ! i = jb_slots j ! i)"
  by (auto simp: jitter_consume_def jitter_pop_def jitter_skipMissing_def Let_def)

text \<open>A packet that arrives after its turn (\<open>d < 64\<close> numbers late, slot free) is accepted, though it
  can no longer be played, and keeps its slot: however many periods pass before the consumer
  comes round to it, the packet 64 numbers later, which is on time, is refused and dropped.\<close>

theorem late_packet_blocks:
  assumes "jitter_inv j" "jb_started j" "0 < d" "n + d < 64"
    and "js_state (jb_slots j ! slot_index (jb_expectedSequence j - of_nat d)) = Slot_empty"
    and "length payload \<le> 1200"
  defines "q \<equiv> jb_expectedSequence j - of_nat d"
  shows "fst (jitter_push q payload j) \<and>
    fst (jitter_push (q + 64) payload' ((consume_period ^^ n) (snd (jitter_push q payload j)))) = False"
proof -
  let ?j = "snd (jitter_push q payload j)"
  have acc: "fst (jitter_push q payload j)"
    using assms by (simp add: jitter_push_accepts kJitterMaxPayload_def)
  have x: "jb_expectedSequence ?j = jb_expectedSequence j"
    using assms(2) by (simp add: jitter_push_def Let_def)
  have far: "slot_index (jb_expectedSequence j + of_nat m) \<noteq> slot_index q" if "m + d < 64" for m
  proof
    assume "slot_index (jb_expectedSequence j + of_nat m) = slot_index q"
    then have "slot_index (q + of_nat (d + m)) = slot_index (q + of_nat 0)"
      by (simp add: q_def ac_simps)
    then have "d + m = 0"
      by (rule slot_index_window [where lo = 0]) (use that in \<open>simp_all add: kJitterSlots_def\<close>)
    with assms(3) show False by simp
  qed
  have "m + d < 64 \<Longrightarrow> jitter_inv ((consume_period ^^ m) ?j)
      \<and> (\<exists>c \<le> m. jb_expectedSequence ((consume_period ^^ m) ?j) = jb_expectedSequence j + of_nat c)
      \<and> jb_slots ((consume_period ^^ m) ?j) ! slot_index q = jb_slots ?j ! slot_index q" for m
  proof (induction m)
    case 0
    then show ?case using jitter_push_inv [OF assms(1)] x by simp
  next
    case (Suc m)
    let ?jm = "(consume_period ^^ m) ?j"
    obtain c where IH: "jitter_inv ?jm" "c \<le> m" "jb_expectedSequence ?jm = jb_expectedSequence j + of_nat c"
      "jb_slots ?jm ! slot_index q = jb_slots ?j ! slot_index q"
      using Suc by auto
    have "slot_index q \<noteq> slot_index (jb_expectedSequence ?jm)"
      using far [of c] IH(2,3) Suc.prems by fastforce
    with consume_frame [OF IH(1)] IH(4)
    have same: "jb_slots (consume_period ?jm) ! slot_index q = jb_slots ?j ! slot_index q" by simp
    have "\<exists>c' \<le> Suc m. jb_expectedSequence (consume_period ?jm) = jb_expectedSequence j + of_nat c'"
    proof (cases "jb_expectedSequence (consume_period ?jm) = jb_expectedSequence ?jm")
      case True
      with IH show ?thesis by (intro exI [of _ c]) simp
    next
      case False
      with consume_frame [OF IH(1)] IH(2,3) show ?thesis by (intro exI [of _ "Suc c"]) (simp add: ac_simps)
    qed
    with same jitter_consume_inv [OF IH(1)] show ?case by simp
  qed
  from this [OF assms(4)] have "jb_slots ((consume_period ^^ n) ?j) ! slot_index q = jb_slots ?j ! slot_index q"
    by blast
  moreover have "js_state (jb_slots ?j ! slot_index q) = Slot_ready"
    using acc jitter_inv_length [OF assms(1)] by (simp add: jitter_push_slots)
  moreover have "slot_index (q + 64) = slot_index q"
    using slot_index_add [of q 64] by (simp add: kJitterSlots_def slot_index_def)
  ultimately show ?thesis using acc by (simp add: jitter_push_accepts)
qed

theorem late_packet_blocks_witness:
  "fst (jitter_push 1 [7] drained_jitter) \<and>
   fst (jitter_push 65 [8] ((consume_period ^^ 10) (snd (jitter_push 1 [7] drained_jitter)))) = False"
proof -
  have "js_state (jb_slots drained_jitter ! slot_index 1) = Slot_empty"
    by (simp add: drained_jitter_def new_jitter_def new_jitter_slot_def)
  then show ?thesis
    using late_packet_blocks [OF drained_jitter_inv(1,2), of 1 10 "[7]" "[8]"]
    by (simp add: drained_jitter_inv(4))
qed

end
