(* ===== verification/Jitter_Races.thy ===== *)
theory Jitter_Races
  imports Jitter_Interleaving Jitter_Streams
begin

text \<open>
  The counter \<open>buffered_\<close> of Sources/Core/JitterBuffer.hpp while the two threads of Jitter_Interleaving overlap.
  It is not changed together with the slots: between calls it is exact as long as no reset was asked for, but in
  between it can run below zero, and a reset that overlaps a push leaves it wrong.
\<close>

section \<open>Between calls\<close>

definition uncounted :: "pusher \<Rightarrow> nat" where
  "uncounted pu = (case pu of Push_count q \<Rightarrow> 1 | _ \<Rightarrow> 0)"

definition overcounted :: "popper \<Rightarrow> nat" where
  "overcounted po = (case po of Pop_check q \<Rightarrow> 1 | Pop_stale q \<Rightarrow> 1 | Pop_staleCount \<Rightarrow> 1 | Pop_copy q n got \<Rightarrow> 1
     | Pop_count q \<Rightarrow> 1 | _ \<Rightarrow> 0)"

text \<open>The push that has counted its packet and not yet looked at the buffer, or not yet at the level.\<close>

definition unseen :: "pusher \<Rightarrow> nat" where
  "unseen pu = (case pu of Push_started q \<Rightarrow> 1 | Push_first q \<Rightarrow> 1 | _ \<Rightarrow> 0)"

definition unlevelled :: "pusher \<Rightarrow> nat" where
  "unlevelled pu = (case pu of Push_started q \<Rightarrow> 1 | Push_first q \<Rightarrow> 1 | Push_setFirst q \<Rightarrow> 1 | Push_level \<Rightarrow> 1 | _ \<Rightarrow> 0)"

definition starting :: "pusher \<Rightarrow> bool" where
  "starting pu = (case pu of Push_loadFirst \<Rightarrow> True | Push_setExpected f \<Rightarrow> True | Push_start \<Rightarrow> True | _ \<Rightarrow> False)"

definition waiting :: "popper \<Rightarrow> bool" where
  "waiting po = (case po of Pop_idle \<Rightarrow> True | Pop_started \<Rightarrow> True | Failed_ready \<Rightarrow> True | _ \<Rightarrow> False)"

definition resetting :: "popper \<Rightarrow> bool" where
  "resetting po = (case po of Reset_slots i \<Rightarrow> True | Reset_buffered \<Rightarrow> True | Reset_lost \<Rightarrow> True | Reset_dropped \<Rightarrow> True
     | Reset_hasFirst \<Rightarrow> True | Reset_started \<Rightarrow> True | _ \<Rightarrow> False)"

definition count_inv :: "jitter_threads \<Rightarrow> bool" where
  "count_inv s \<longleftrightarrow> (let j = jt_buffer s; pu = jt_push s; po = jt_pop s in
     \<not> jt_resetRequested s \<and> \<not> resetting po
     \<and> jb_buffered j < 2 ^ 64
     \<and> (jb_buffered j + uncounted pu) mod 2 ^ 64 = (length (ready_slots j) + overcounted po) mod 2 ^ 64
     \<and> 2 \<le> jb_targetPackets j \<and> jb_targetPackets j < kJitterSlots
     \<and> (jb_started j \<longrightarrow> jb_hasFirst j) \<and> (starting pu \<longrightarrow> jb_hasFirst j)
     \<and> (\<not> jb_started j \<longrightarrow> waiting po \<and> (jb_hasFirst j \<longleftrightarrow> unseen pu < jb_buffered j)
          \<and> (\<not> starting pu \<longrightarrow> jb_buffered j < jb_targetPackets j + unlevelled pu)
          \<and> unlevelled pu \<le> jb_buffered j))"

lemmas count_defs = count_inv_def uncounted_def overcounted_def unseen_def unlevelled_def starting_def waiting_def
  resetting_def Let_def

lemma new_threads_count: "count_inv (new_jitter_threads n)"
  using new_jitter_inv [of n]
  by (simp add: count_defs new_jitter_threads_def jitter_inv_def) (simp add: new_jitter_def)

text \<open>Every change of a slot's state changes the number of ready slots by what the step says.\<close>

definition ready_count :: "jitter_threads \<Rightarrow> nat" where
  "ready_count s = length (ready_slots (jt_buffer s))"

lemma ready_update:
  "i < length slots \<Longrightarrow>
    length [slot \<leftarrow> slots[i := y]. js_state slot = Slot_ready] + (if js_state (slots ! i) = Slot_ready then 1 else 0) =
    length [slot \<leftarrow> slots. js_state slot = Slot_ready] + (if js_state y = Slot_ready then 1 else 0)"
proof (induction slots arbitrary: i)
  case (Cons x slots)
  then show ?case by (cases i) auto
qed simp

lemma ready_on_slot:
  assumes "i < length (jb_slots (jt_buffer s))"
  shows "ready_count (on_slot i f s) + (if js_state (jb_slots (jt_buffer s) ! i) = Slot_ready then 1 else 0) =
    ready_count s + (if js_state (f (jb_slots (jt_buffer s) ! i)) = Slot_ready then 1 else 0)"
  using ready_update [OF assms, of "f (jb_slots (jt_buffer s) ! i)"]
  by (simp add: ready_count_def ready_slots_def on_slot_def on_jitter_def)

lemma ready_frame [simp]:
  "ready_count (s\<lparr>jt_push := pu\<rparr>) = ready_count s" "ready_count (s\<lparr>jt_pop := po\<rparr>) = ready_count s"
  "ready_count (s\<lparr>jt_push := pu, jt_accepted := ps\<rparr>) = ready_count s"
  "ready_count (s\<lparr>jt_pop := po, jt_delivered := ps\<rparr>) = ready_count s"
  "ready_count (s\<lparr>jt_resetRequested := b, jt_pop := po\<rparr>) = ready_count s"
  "ready_count (s\<lparr>jt_resetRequested := b\<rparr>) = ready_count s"
  by (simp_all add: ready_count_def)

lemma ready_on_jitter:
  "(\<And>j. jb_slots (f j) = jb_slots j) \<Longrightarrow> ready_count (on_jitter f s) = ready_count s"
  by (simp add: ready_count_def ready_slots_def on_jitter_def)

lemma push_slot_state:
  assumes "slots_inv s" "push_slot (jt_push s) = Some i" "i < kJitterSlots"
  shows "js_state (jb_slots (jt_buffer s) ! i) = Slot_writing \<or> js_state (jb_slots (jt_buffer s) ! i) = Slot_empty"
  using slots_invD(3) [OF assms(1,3)] assms(2) by (auto simp: slot_claim_def)

lemma pop_slot_state:
  assumes "slots_inv s" "pop_slot (jt_pop s) = Some i" "i < kJitterSlots"
  shows "js_state (jb_slots (jt_buffer s) ! i) = Slot_reading"
  using slots_invD(3) [OF assms(1,3)] assms(2) by (auto simp: slot_claim_def)

lemma push_ready:
  assumes "slots_inv s"
  shows "ready_count (push_step act s) =
    ready_count s + (case jt_push s of Push_copy q p i \<Rightarrow> if i < length p then 0 else 1 | _ \<Rightarrow> 0)"
proof -
  have len: "slot_index q < length (jb_slots (jt_buffer s))" for q using slots_invD(1) [OF assms] by simp
  note own = push_slot_state [OF assms _ slot_index_less]
  show ?thesis
  proof (cases "jt_push s")
    case (Push_claim q p)
    then show ?thesis
      using ready_on_slot [OF len, of q "\<lambda>slot. slot\<lparr>js_state := Slot_writing\<rparr>"]
      by (auto simp: push_step.simps Let_def slot_of_def)
  next
    case (Push_sequence q p)
    then show ?thesis
      using ready_on_slot [OF len, of q "\<lambda>slot. slot\<lparr>js_sequence := q\<rparr>"] own [of q] by (simp add: push_step.simps)
  next
    case (Push_length q p)
    then show ?thesis
      using ready_on_slot [OF len, of q "\<lambda>slot. slot\<lparr>js_length := length p\<rparr>"] own [of q] by (simp add: push_step.simps)
  next
    case (Push_copy q p i)
    then show ?thesis
      using ready_on_slot [OF len, of q "\<lambda>slot. slot\<lparr>js_payload := (js_payload slot)[i := p ! i]\<rparr>"]
        ready_on_slot [OF len, of q "\<lambda>slot. slot\<lparr>js_state := Slot_ready\<rparr>"] own [of q]
      by (auto simp: push_step.simps)
  qed (auto simp: push_step.simps Let_def ready_on_jitter split: receiver_action.split)
qed

lemma pop_ready:
  assumes "slots_inv s" "\<not> resetting (jt_pop s)"
  shows "ready_count (pop_step s) + (case jt_pop s of Pop_claim q \<Rightarrow> if js_state (slot_of s q) = Slot_ready then 1 else 0 | _ \<Rightarrow> 0)
    = ready_count s"
proof -
  have len: "slot_index q < length (jb_slots (jt_buffer s))" for q using slots_invD(1) [OF assms(1)] by simp
  note own = pop_slot_state [OF assms(1) _ slot_index_less]
  show ?thesis
  proof (cases "jt_pop s")
    case (Pop_claim q)
    then show ?thesis
      using ready_on_slot [OF len, of q "\<lambda>slot. slot\<lparr>js_state := Slot_reading\<rparr>"]
      by (auto simp: pop_step.simps Let_def slot_of_def)
  next
    case (Pop_stale q)
    then show ?thesis
      using ready_on_slot [OF len, of q "\<lambda>slot. slot\<lparr>js_state := Slot_empty\<rparr>"] own [of q] by (simp add: pop_step.simps)
  next
    case (Pop_copy q n got)
    then show ?thesis
      using ready_on_slot [OF len, of q "\<lambda>slot. slot\<lparr>js_state := Slot_empty\<rparr>"] own [of q] by (auto simp: pop_step.simps)
  qed (use assms(2) in \<open>auto simp: pop_step.simps Let_def ready_on_jitter resetting_def\<close>)
qed

lemma size_add_balance: "(b + Suc u) mod 2 ^ 64 = r mod 2 ^ 64 \<Longrightarrow> (size_add b + u) mod 2 ^ 64 = r mod 2 ^ 64"
  by (simp add: size_add_def mod_simps)

lemma size_sub_balance: "(b + u) mod 2 ^ 64 = Suc r mod 2 ^ 64 \<Longrightarrow> (size_sub b + u) mod 2 ^ 64 = r mod 2 ^ 64"
proof -
  assume eq: "(b + u) mod 2 ^ 64 = Suc r mod 2 ^ 64"
  have "(size_sub b + u) mod 2 ^ 64 = ((b + u) mod 2 ^ 64 + (2 ^ 64 - 1)) mod 2 ^ 64"
    by (simp add: size_sub_def mod_simps ac_simps)
  also have "\<dots> = (Suc r + (2 ^ 64 - 1)) mod 2 ^ 64" unfolding eq by (simp only: mod_add_left_eq)
  also have "\<dots> = r mod 2 ^ 64" by simp
  finally show ?thesis .
qed

lemma size_add_less: "n < 2 ^ 64 - 1 \<Longrightarrow> size_add n = n + 1"
  by (simp add: size_add_def)

lemma size_bounds [simp]: "size_add n < 18446744073709551616" "size_sub n < 18446744073709551616"
  by (simp_all add: size_add_def size_sub_def)

lemma push_count:
  assumes inv: "slots_inv s" "count_inv s" and act: "act \<noteq> Ask_reset"
  shows "count_inv (push_step act s)"
proof -
  have ready: "length (ready_slots (jt_buffer (push_step act s))) =
      length (ready_slots (jt_buffer s)) + (case jt_push s of Push_copy q p i \<Rightarrow> if i < length p then 0 else 1 | _ \<Rightarrow> 0)"
    using push_ready [OF inv(1), of act] by (simp add: ready_count_def)
  show ?thesis
  proof (cases "jt_push s")
    case Push_idle
    then show ?thesis using inv(2) act by (cases act) (auto simp: thread_steps count_inv_def uncounted_def unseen_def unlevelled_def starting_def)
  next
    case (Push_count q)
    have "\<not> jb_started (jt_buffer s) \<Longrightarrow> size_add (jb_buffered (jt_buffer s)) = jb_buffered (jt_buffer s) + 1"
      using inv(2) Push_count by (intro size_add_less) (auto simp: count_inv_def Let_def kJitterSlots_def unlevelled_def starting_def)
    moreover have "(size_add (jb_buffered (jt_buffer s)) + 0) mod 2 ^ 64 = (length (ready_slots (jt_buffer s)) + overcounted (jt_pop s)) mod 2 ^ 64"
      using inv(2) Push_count by (intro size_add_balance) (simp add: count_inv_def Let_def uncounted_def)
    ultimately show ?thesis
      using inv(2) Push_count ready
      by (auto simp: push_step.simps on_jitter_def count_inv_def Let_def uncounted_def unseen_def unlevelled_def starting_def)
  next
    case (Push_copy q p i)
    have "jb_buffered (jt_buffer s) mod 2 ^ 64 = (length (ready_slots (jt_buffer s)) + overcounted (jt_pop s)) mod 2 ^ 64"
      using inv(2) Push_copy by (simp add: count_inv_def Let_def uncounted_def)
    then have "Suc (jb_buffered (jt_buffer s)) mod 2 ^ 64 = Suc (length (ready_slots (jt_buffer s)) + overcounted (jt_pop s)) mod 2 ^ 64"
      by (metis mod_Suc_eq)
    then show ?thesis
      using inv(2) ready Push_copy
      by (auto simp: thread_steps count_inv_def uncounted_def unseen_def unlevelled_def starting_def)
  qed (use inv(2) ready in \<open>auto simp: thread_steps count_inv_def uncounted_def unseen_def unlevelled_def starting_def\<close>)
qed

lemma pop_count:
  assumes inv: "slots_inv s" "count_inv s"
  shows "count_inv (pop_step s)"
proof -
  have ready: "length (ready_slots (jt_buffer (pop_step s)))
      + (case jt_pop s of Pop_claim q \<Rightarrow> if js_state (slot_of s q) = Slot_ready then 1 else 0 | _ \<Rightarrow> 0)
      = length (ready_slots (jt_buffer s))"
    using pop_ready [OF inv(1)] inv(2) by (simp add: ready_count_def count_inv_def Let_def)
  have sub: "(size_sub (jb_buffered (jt_buffer s)) + uncounted (jt_push s)) mod 2 ^ 64 = length (ready_slots (jt_buffer s)) mod 2 ^ 64"
    if "overcounted (jt_pop s) = 1"
    using inv(2) that by (intro size_sub_balance) (simp add: count_inv_def Let_def)
  have started: "jb_started (jt_buffer s)" if "\<not> waiting (jt_pop s)"
    using inv(2) that by (auto simp: count_inv_def Let_def)
  show ?thesis
  proof (cases "jt_pop s")
    case (Pop_claim q)
    then show ?thesis
      using inv(2) ready started
      by (auto simp: thread_steps count_inv_def overcounted_def waiting_def resetting_def)
  next
    case Pop_staleCount
    then show ?thesis
      using inv(2) ready started sub
      by (auto simp: pop_step.simps on_jitter_def Let_def count_inv_def overcounted_def waiting_def resetting_def)
  next
    case (Pop_count q)
    then show ?thesis
      using inv(2) ready started sub
      by (auto simp: pop_step.simps on_jitter_def Let_def count_inv_def overcounted_def waiting_def resetting_def)
  qed (use inv(2) ready started in
      \<open>auto simp: thread_steps count_inv_def overcounted_def waiting_def resetting_def split: if_splits\<close>)
qed

lemma run_count:
  "slots_inv s \<Longrightarrow> count_inv s \<Longrightarrow> Receiver Ask_reset \<notin> set ms \<Longrightarrow> count_inv (jitter_run ms s)"
proof (induction ms arbitrary: s)
  case (Cons m ms)
  then have "slots_inv (jitter_move m s)" "count_inv (jitter_move m s)"
    by (cases m; auto simp: push_inv pop_inv push_count pop_count)+
  with Cons show ?case by simp
qed simp

text \<open>C17: As long as no reset was asked for, overlapping calls leave behind what calls in turn would: whenever
  neither thread is in a call the buffer satisfies the invariant of the whole-call model. In particular
  \<open>buffered_\<close> is then the number of packets in the slots.\<close>

theorem jitter_quiescent:
  fixes targetPackets :: nat
  assumes "Receiver Ask_reset \<notin> set moves"
  defines "s \<equiv> jitter_run moves (new_jitter_threads targetPackets)"
  assumes "jt_push s = Push_idle" "jt_pop s = Pop_idle"
  shows "jitter_inv (jt_buffer s) \<and> jb_buffered (jt_buffer s) = length (ready_slots (jt_buffer s))"
proof -
  have slots: "slots_inv s" unfolding s_def by (rule run_inv [OF new_threads_inv])
  have count: "count_inv s" unfolding s_def by (rule run_count [OF new_threads_inv new_threads_count assms(1)])
  have "slot_ok i (jb_slots (jt_buffer s) ! i)" if "i < kJitterSlots" for i
    using slots_invD(2,3) [OF slots that] assms(3,4)
    by (cases "js_state (jb_slots (jt_buffer s) ! i)") (auto simp: slot_shape_def slot_claim_def slot_ok_def)
  moreover have "length (ready_slots (jt_buffer s)) \<le> kJitterSlots"
    using slots_invD(1) [OF slots] length_filter_le by (metis ready_slots_def)
  ultimately show ?thesis
    using slots_invD(1) [OF slots] count assms(3,4)
    by (auto simp: count_defs jitter_inv_def kJitterSlots_def)
qed

text \<open>A packet that arrives while the consuming thread goes through three periods.\<close>

definition mingled_turns :: "jitter_turn list" where
  "mingled_turns = (let r = Receiver (Packet 5 []) in [r, Consumer, r, Consumer, r, Consumer, r, Consumer, r, Consumer,
     r, Consumer, r, Consumer, r, Consumer, r, Consumer, r])"

theorem jitter_quiescent_witness:
  "let s = jitter_run mingled_turns (new_jitter_threads 6) in
     jt_accepted s = [(5, [])] \<and> jitter_inv (jt_buffer s) \<and> jb_buffered (jt_buffer s) = 1"
proof -
  let ?s = "jitter_run mingled_turns (new_jitter_threads 6)"
  have run: "jt_accepted ?s = [(5, [])] \<and> jt_push ?s = Push_idle \<and> jt_pop ?s = Pop_idle \<and> jb_buffered (jt_buffer ?s) = 1"
    by (simp add: mingled_turns_def new_jitter_threads_def new_jitter_def new_jitter_slot_def thread_steps
        slot_index_def kJitterSlots_def size_add_def kJitterMaxPayload_def)
  have "Receiver Ask_reset \<notin> set mingled_turns" by (simp add: mingled_turns_def Let_def)
  with jitter_quiescent [of mingled_turns 6] run show ?thesis by (simp add: Let_def)
qed

section \<open>A packet that is counted late\<close>

text \<open>Both threads between calls, no reset pending.\<close>

definition resting :: "jitter_threads \<Rightarrow> bool" where
  "resting s \<longleftrightarrow> jt_push s = Push_idle \<and> jt_pop s = Pop_idle \<and> \<not> jt_resetRequested s"

lemma turns_obtain:
  assumes "turns_to m s t"
  obtains ms where "jitter_run ms s = t" "set ms \<subseteq> {m}"
  using assms by (metis turns_to_def set_replicate_conv_if empty_subsetI order_refl)

lemma empty_no_ready:
  assumes "jitter_inv j" "jb_buffered j = 0" "i < kJitterSlots"
  shows "js_state (jb_slots j ! i) = Slot_empty"
proof -
  have "jb_slots j ! i \<notin> set (ready_slots j)" using assms(1,2) by (auto simp: jitter_inv_def)
  then show ?thesis using assms jitter_inv_slot [OF assms(1,3)] by (auto simp: ready_slots_def jitter_inv_def slot_ok_def)
qed

lemma late_count_run:
  fixes s :: jitter_threads
  defines "q \<equiv> jb_expectedSequence (jt_buffer s)"
  assumes rest: "resting s" and inv: "jitter_inv (jt_buffer s)" and drained: "jb_started (jt_buffer s)" "jb_buffered (jt_buffer s) = 0"
    and p: "length p \<le> kJitterMaxPayload"
  obtains moves t where "jitter_run moves s = t" "Receiver Ask_reset \<notin> set moves" "resting t" "jitter_inv (jt_buffer t)"
    "jb_started (jt_buffer t)" "jb_buffered (jt_buffer t) = 0" "jb_expectedSequence (jt_buffer t) = q + 2"
    "jt_accepted t = jt_accepted s @ [(q, p)]" "jt_delivered t = jt_delivered s @ [(q, p)]"
    "jb_lost (jt_buffer t) = jb_lost (jt_buffer s) + 1"
proof -
  let ?r = "Receiver (Packet q p)" and ?i = "slot_index q" and ?slots = "jb_slots (jt_buffer s)"
  have slot: "length ?slots = kJitterSlots" "js_state (slot_of s q) = Slot_empty"
      "length (js_payload (slot_of s q)) = kJitterMaxPayload" "js_state (?slots ! slot_index (q + 1)) = Slot_empty"
    using inv drained(2) empty_no_ready [OF inv drained(2)] jitter_inv_slot [OF inv, of ?i]
    by (auto simp: jitter_inv_def slot_of_def slot_ok_def)
  have other: "slot_index (q + 1) \<noteq> ?i"
    using slot_index_add [of q 1] by (auto simp: slot_index_def kJitterSlots_def mod_Suc)
  let ?x = "(slot_of s q)\<lparr>js_sequence := q, js_length := length p,
      js_payload := p @ drop (length p) (js_payload (slot_of s q)), js_state := Slot_ready\<rparr>"
  define s1 where "s1 = (stored q p s)\<lparr>jt_push := Push_count q\<rparr>"
  have "turns_to ?r s s1"
    unfolding s1_def using rest p slot by (intro push_writes [OF _ _ _ _ _ _ turns_refl]) (simp_all add: resting_def)
  then obtain m1 where m1: "jitter_run m1 s = s1" "set m1 \<subseteq> {?r}" by (rule turns_obtain)
  define s2 where "s2 = s1\<lparr>jt_buffer := (jt_buffer s1)\<lparr>jb_slots := ?slots[?i := ?x\<lparr>js_state := Slot_empty\<rparr>],
      jb_buffered := 2 ^ 64 - 1, jb_expectedSequence := q + 1\<rparr>, jt_pop := Pop_idle, jt_delivered := jt_delivered s @ [(q, p)]\<rparr>"
  have at: "slot_of s1 q = ?x" using slot(1) by (simp add: s1_def stored_def thread_steps)
  have "turns_to Consumer (s1\<lparr>jt_pop := Pop_started\<rparr>) s2"
    using pop_takes [of s1] drained p slot at
    by (simp add: s1_def s2_def stored_def thread_steps slot_packet_def size_sub_def flip: q_def)
  then obtain m2 where m2: "jitter_run m2 (s1\<lparr>jt_pop := Pop_started\<rparr>) = s2" "set m2 \<subseteq> {Consumer}" by (rule turns_obtain)
  have m0: "jitter_run [Consumer] s1 = s1\<lparr>jt_pop := Pop_started\<rparr>"
    using rest by (simp add: s1_def stored_def thread_steps resting_def)
  define slots' where "slots' = ?slots[?i := ?x\<lparr>js_state := Slot_empty\<rparr>]"
  have slots': "length slots' = kJitterSlots" "js_state (slots' ! slot_index (q + 1)) \<noteq> Slot_ready"
    using slot(1,4) other by (simp_all add: slots'_def)
  define t where "t = s\<lparr>jt_buffer := (jt_buffer s)\<lparr>jb_slots := slots', jb_expectedSequence := q + 2,
      jb_lost := jb_lost (jt_buffer s) + 1\<rparr>, jt_accepted := jt_accepted s @ [(q, p)], jt_delivered := jt_delivered s @ [(q, p)]\<rparr>"
  define full :: nat where "full = 2 ^ 64 - 1"
  have full: "0 < full" "size_add full = 0" by (simp_all add: full_def size_add_def)
  let ?c = Consumer
  define s3 where "s3 = s2\<lparr>jt_buffer := (jt_buffer s2)\<lparr>jb_expectedSequence := q + 2, jb_lost := jb_lost (jt_buffer s) + 1\<rparr>\<rparr>"
  have s2: "jt_buffer s2 = (jt_buffer s)\<lparr>jb_slots := slots', jb_buffered := full, jb_expectedSequence := q + 1\<rparr>"
      "jt_push s2 = Push_count q" "jt_pop s2 = Pop_idle" "\<not> jt_resetRequested s2"
    using rest by (simp_all add: s2_def s1_def stored_def thread_steps slots'_def full_def resting_def)
  have m3: "jitter_run [?c, ?c, ?c, ?c, ?c, ?c, ?c, ?c, ?c, ?c] s2 = s3"
    unfolding s3_def using s2 drained slots'(2) full(1) by (intro threads_eqI) (simp_all add: thread_steps)
  have m4: "jitter_run [?r, ?r] s3 = t"
    using rest drained s2 full(2) unfolding s3_def
    by (intro threads_eqI) (simp_all add: thread_steps t_def s2_def s1_def stored_def resting_def)
  show thesis
  proof (rule that)
    show "jitter_run (m1 @ [?c] @ m2 @ [?c, ?c, ?c, ?c, ?c, ?c, ?c, ?c, ?c, ?c] @ [?r, ?r]) s = t"
      by (simp only: run_append m0 m1 m2 m3 m4)
    show "Receiver Ask_reset \<notin> set (m1 @ [?c] @ m2 @ [?c, ?c, ?c, ?c, ?c, ?c, ?c, ?c, ?c, ?c] @ [?r, ?r])"
      using m1(2) m2(2) by auto
    have "js_state (slots' ! k) = Slot_empty \<and> length (js_payload (slots' ! k)) = kJitterMaxPayload" if "k < kJitterSlots" for k
      using that slot p empty_no_ready [OF inv drained(2) that] jitter_inv_slot [OF inv that]
      by (auto simp: slots'_def nth_list_update slot_ok_def)
    then have "\<forall>k < kJitterSlots. slot_ok k (slots' ! k)" "ready_slots (jt_buffer t) = []"
      using slots'(1) by (auto simp: slot_ok_def ready_slots_def filter_empty_conv in_set_conv_nth t_def)
    then show "jitter_inv (jt_buffer t)"
      using inv drained slots'(1) by (simp add: jitter_inv_def t_def)
  qed (use rest drained in \<open>simp_all add: t_def resting_def\<close>)
qed

text \<open>C32: One packet counted late silences a stream: if the buffer has run empty, the receiving thread is held up after
  it stored a packet and before it counted it, and the consuming thread meanwhile takes the packet out and
  starts its next period, then \<open>buffered_\<close> is \<open>2 ^ 64 - 1\<close> in that period and a packet that is not late is
  skipped. No packet was lost, but the expected number is one ahead from then on, and as packets and periods
  go on to alternate none of the stream's packets is delivered again.\<close>

theorem late_count_silences:
  fixes s :: jitter_threads
  defines "q \<equiv> jb_expectedSequence (jt_buffer s)"
  assumes "resting s" "jitter_inv (jt_buffer s)" "jb_started (jt_buffer s)" "jb_buffered (jt_buffer s) = 0" "length p \<le> 1200"
  shows "\<exists>moves. Receiver Ask_reset \<notin> set moves \<and> (let t = jitter_run moves s in
      jt_accepted t = jt_accepted s @ [(q, p)] \<and> jt_delivered t = jt_delivered s @ [(q, p)]
      \<and> resting t \<and> jb_buffered (jt_buffer t) = 0
      \<and> (\<forall>payloads. (\<forall>payload \<in> set payloads. length payload \<le> 1200) \<longrightarrow> resume_run (jt_buffer t) (q + 1) payloads = []))"
proof -
  obtain moves t where run: "jitter_run moves s = t" "Receiver Ask_reset \<notin> set moves" "resting t" "jitter_inv (jt_buffer t)"
    "jb_started (jt_buffer t)" "jb_buffered (jt_buffer t) = 0" "jb_expectedSequence (jt_buffer t) = q + 2"
    "jt_accepted t = jt_accepted s @ [(q, p)]" "jt_delivered t = jt_delivered s @ [(q, p)]"
    using late_count_run [OF assms(2-5)] assms(6) unfolding q_def by (metis kJitterMaxPayload_def)
  have "resume_run (jt_buffer t) (q + 1) payloads = []" if "\<forall>payload \<in> set payloads. length payload \<le> 1200" for payloads
  proof -
    have "(65537 :: u16) = 1" by (simp add: word_uint_eq_iff)
    then have "q + 2 + of_nat 65535 = q + 1" by simp
    with outage_silence [OF run(4-6), of 65535 payloads] that show ?thesis by (simp only: run(7)) simp
  qed
  with run show ?thesis by (intro exI [of _ moves]) simp
qed

definition drained_threads :: jitter_threads where
  "drained_threads = (new_jitter_threads 2)\<lparr>jt_buffer := drained_jitter\<rparr>"

theorem late_count_silences_witness:
  "\<exists>moves. jt_delivered (jitter_run moves drained_threads) = [(2, [7, 7, 7])]
    \<and> resume_run (jt_buffer (jitter_run moves drained_threads)) 3 (replicate 5000 [1, 2, 3]) = []"
proof -
  have "resting drained_threads" "jitter_inv (jt_buffer drained_threads)" "jb_started (jt_buffer drained_threads)"
    "jb_buffered (jt_buffer drained_threads) = 0" "length [7, 7, 7 :: u8] \<le> 1200"
    by (simp_all add: resting_def drained_threads_def new_jitter_threads_def drained_jitter_inv)
  note late_count_silences [OF this]
  then show ?thesis by (auto simp: Let_def drained_threads_def new_jitter_threads_def drained_jitter_inv)
qed

section \<open>A reset that overlaps a push\<close>

lemma filter_update_only:
  assumes none: "\<forall>x \<in> set xs. \<not> P x" and "i < length xs" "P y"
  shows "filter P (xs[i := y]) = [y]"
proof -
  have "filter P (take i xs) = []" "filter P (drop (Suc i) xs) = []"
    using none by (auto simp: filter_empty_conv dest: in_set_takeD in_set_dropD)
  then show ?thesis using assms(2,3) by (simp add: upd_conv_take_nth_drop)
qed

text \<open>The consuming thread withdraws the request before it resets: a packet that is pushed in between stays in its
  slot, but the reset sets \<open>buffered_\<close> to zero, which is then one less than the packets in the slots.\<close>

theorem reset_race_miscounts:
  assumes "jt_push s = Push_idle" "jt_pop s = Pop_idle" "jt_resetRequested s" "jitter_inv (jt_buffer s)"
    "jb_started (jt_buffer s)" "length p \<le> 1200"
  shows "\<exists>moves. let t = jitter_run moves s in resting t
      \<and> jb_buffered (jt_buffer t) = 0 \<and> map slot_packet (ready_slots (jt_buffer t)) = [(q, p)]"
proof -
  let ?r = "Receiver (Packet q p)" and ?c = Consumer and ?slots = "jb_slots (jt_buffer s)"
  have len: "length ?slots = kJitterSlots" "\<And>i. i < kJitterSlots \<Longrightarrow> length (js_payload (?slots ! i)) = kJitterMaxPayload"
    using assms(4) by (auto simp: jitter_inv_def slot_ok_def)
  define s0 where "s0 = s\<lparr>jt_resetRequested := False\<rparr>"
  have m0: "jitter_run [?c] s = s0\<lparr>jt_pop := Reset_slots 0\<rparr>" using assms(2,3) by (simp add: s0_def thread_steps)
  define s1 where "s1 = (emptied s0)\<lparr>jt_pop := Reset_buffered\<rparr>"
  have "turns_to ?c (s0\<lparr>jt_pop := Reset_slots 0\<rparr>) s1"
    unfolding s1_def by (rule reset_empties [OF _ turns_refl]) (simp add: s0_def len)
  then obtain m1 where m1: "jitter_run m1 (s0\<lparr>jt_pop := Reset_slots 0\<rparr>) = s1" by (rule turns_obtain)
  define s2 where "s2 = (stored q p s1)\<lparr>jt_push := Push_count q\<rparr>"
  have "turns_to ?r s1 s2"
    unfolding s2_def using assms(1,6) len
    by (intro push_writes [OF _ _ _ _ _ _ turns_refl])
      (simp_all add: s1_def s0_def emptied_def thread_steps kJitterMaxPayload_def)
  then obtain m2 where m2: "jitter_run m2 s1 = s2" by (rule turns_obtain)
  define t where "t = jitter_run [?r, ?r, ?c, ?c, ?c, ?c, ?c, ?c, ?c] s2"
  have t: "resting t \<and> jb_buffered (jt_buffer t) = 0 \<and> jb_slots (jt_buffer t) = jb_slots (jt_buffer s2)"
    using assms(5) by (simp add: t_def s2_def s1_def s0_def stored_def emptied_def thread_steps resting_def)
  let ?clear = "map (\<lambda>slot. slot\<lparr>js_state := Slot_empty\<rparr>) ?slots"
  define y where "y = (?clear ! slot_index q)\<lparr>js_sequence := q, js_length := length p,
      js_payload := p @ drop (length p) (js_payload (?clear ! slot_index q)), js_state := Slot_ready\<rparr>"
  have y: "jb_slots (jt_buffer s2) = ?clear[slot_index q := y]" "js_state y = Slot_ready" "slot_packet y = (q, p)"
    by (simp_all add: y_def s2_def s1_def s0_def stored_def emptied_def thread_steps slot_packet_def)
  have "[slot \<leftarrow> ?clear[slot_index q := y]. js_state slot = Slot_ready] = [y]"
    by (rule filter_update_only) (use y len in auto)
  with t y have "map slot_packet (ready_slots (jt_buffer t)) = [(q, p)]" by (simp add: ready_slots_def)
  moreover have run: "jitter_run ([?c] @ m1 @ m2 @ [?r, ?r, ?c, ?c, ?c, ?c, ?c, ?c, ?c]) s = t"
    unfolding t_def by (simp only: run_append m0 m1 m2)
  ultimately show ?thesis using t unfolding Let_def by (intro exI, subst run) blast
qed

theorem reset_race_miscounts_witness:
  "\<exists>moves. let t = jitter_run moves (drained_threads\<lparr>jt_resetRequested := True\<rparr>) in
     jb_buffered (jt_buffer t) = 0 \<and> length (ready_slots (jt_buffer t)) = 1"
proof -
  have "jt_push (drained_threads\<lparr>jt_resetRequested := True\<rparr>) = Push_idle" "jt_pop (drained_threads\<lparr>jt_resetRequested := True\<rparr>) = Pop_idle"
    "jt_resetRequested (drained_threads\<lparr>jt_resetRequested := True\<rparr>)" "jitter_inv (jt_buffer (drained_threads\<lparr>jt_resetRequested := True\<rparr>))"
    "jb_started (jt_buffer (drained_threads\<lparr>jt_resetRequested := True\<rparr>))" "length [7, 7, 7 :: u8] \<le> 1200"
    by (simp_all add: drained_threads_def new_jitter_threads_def drained_jitter_inv)
  from reset_race_miscounts [OF this, of 9] show ?thesis
    by (metis (no_types, lifting) length_map length_Cons list.size(3) One_nat_def)
qed

end
