(* ===== verification/Ring_Interleaving.thy ===== *)
theory Ring_Interleaving
  imports Shared_Ring
begin

text \<open>
  \<open>SharedAudioRing::write\<close> and \<open>read\<close> of Sources/Core/SharedAudioRing.cpp, one memory access at a time, with
  the engine and the driver running at once. A load of the other side's index is an acquire load: it
  may return an older value, though none older than the last one it returned, and what was stored before
  that value was published is visible. How many samples were ever published by each side is kept
  beside the 64-bit indices; it appears in the steps only to say which values a load may return.
\<close>

section \<open>The code\<close>

text \<open>Where a thread is in its call: the locals it has, \<open>copied\<close> being the loop counter.\<close>

datatype 'a writer =
    Writer_idle
  | Writer_started "'a list" u64
  | Writer_copying "'a list" u64 nat nat

datatype 'a reader =
    Reader_idle
  | Reader_started nat u64
  | Reader_copying u64 nat "'a list"

record 'a two_sided =
  tw_ring :: "'a shared_ring"
  tw_writer :: "'a writer"
  tw_reader :: "'a reader"
  tw_seenRead :: nat
  tw_seenWrite :: nat
  tw_accepted :: "'a list"
  tw_delivered :: "'a list"

definition new_two_sided :: "'a \<Rightarrow> 'a two_sided" where
  "new_two_sided z = \<lparr> tw_ring = new_ring z, tw_writer = Writer_idle, tw_reader = Reader_idle,
     tw_seenRead = 0, tw_seenWrite = 0, tw_accepted = [], tw_delivered = [] \<rparr>"

definition write_count :: "'a list \<Rightarrow> u64 \<Rightarrow> u64 \<Rightarrow> nat" where
  "write_count source write read =
     (let used = unat (write - read) in min (length source) (kSharedRingCapacity - min used kSharedRingCapacity))"

definition read_count :: "nat \<Rightarrow> u64 \<Rightarrow> u64 \<Rightarrow> nat" where
  "read_count room read write = min room (unat (write - read))"

inductive writer_step :: "'a two_sided \<Rightarrow> 'a two_sided \<Rightarrow> bool" where
  write_call: "tw_writer s = Writer_idle \<Longrightarrow>
    writer_step s (s\<lparr>tw_writer := Writer_started source (writeIndex (tw_ring s))\<rparr>)"
| write_load: "tw_writer s = Writer_started source write \<Longrightarrow> tw_seenRead s \<le> r \<Longrightarrow> r \<le> length (tw_delivered s) \<Longrightarrow>
    writer_step s (s\<lparr>tw_writer := Writer_copying source write (write_count source write (of_nat r)) 0, tw_seenRead := r\<rparr>)"
| write_copy: "tw_writer s = Writer_copying source write count i \<Longrightarrow> i < count \<Longrightarrow>
    writer_step s (s\<lparr>tw_writer := Writer_copying source write count (i + 1), tw_ring := (tw_ring s)
      \<lparr>samples := (samples (tw_ring s))[unat (write + of_nat i) mod kSharedRingCapacity := source ! i]\<rparr>\<rparr>)"
| write_publish: "tw_writer s = Writer_copying source write count count \<Longrightarrow>
    writer_step s (s\<lparr>tw_writer := Writer_idle, tw_ring := (tw_ring s)\<lparr>writeIndex := write + of_nat count\<rparr>,
      tw_accepted := tw_accepted s @ take count source\<rparr>)"

inductive reader_step :: "'a two_sided \<Rightarrow> 'a two_sided \<Rightarrow> bool" where
  read_call: "tw_reader s = Reader_idle \<Longrightarrow>
    reader_step s (s\<lparr>tw_reader := Reader_started room (readIndex (tw_ring s))\<rparr>)"
| read_load: "tw_reader s = Reader_started room read \<Longrightarrow> tw_seenWrite s \<le> w \<Longrightarrow> w \<le> length (tw_accepted s) \<Longrightarrow>
    reader_step s (s\<lparr>tw_reader := Reader_copying read (read_count room read (of_nat w)) [], tw_seenWrite := w\<rparr>)"
| read_copy: "tw_reader s = Reader_copying read count got \<Longrightarrow> length got < count \<Longrightarrow>
    reader_step s (s\<lparr>tw_reader := Reader_copying read count
      (got @ [samples (tw_ring s) ! (unat (read + of_nat (length got)) mod kSharedRingCapacity)])\<rparr>)"
| read_publish: "tw_reader s = Reader_copying read count got \<Longrightarrow> length got = count \<Longrightarrow>
    reader_step s (s\<lparr>tw_reader := Reader_idle, tw_ring := (tw_ring s)\<lparr>readIndex := read + of_nat count\<rparr>,
      tw_delivered := tw_delivered s @ got\<rparr>)"

definition two_step :: "'a two_sided \<Rightarrow> 'a two_sided \<Rightarrow> bool" where
  "two_step s s' \<longleftrightarrow> writer_step s s' \<or> reader_step s s'"

section \<open>Totals and indices\<close>

lemma unat_total_mod: "unat (of_nat n + of_nat i :: u64) mod kSharedRingCapacity = (n + i) mod kSharedRingCapacity"
proof -
  have "unat (of_nat n :: u64) mod kSharedRingCapacity = n mod kSharedRingCapacity"
    using unat_add_mod_capacity [of 0 n] by simp
  then show ?thesis using unat_add_mod_capacity [of "of_nat n" i] by (metis mod_add_left_eq)
qed

lemma unat_total_gap: "r \<le> w \<Longrightarrow> w - r \<le> kSharedRingCapacity \<Longrightarrow> unat (of_nat w - of_nat r :: u64) = w - r"
proof -
  assume "r \<le> w" "w - r \<le> kSharedRingCapacity"
  then have "(of_nat w - of_nat r :: u64) = of_nat (w - r)" "w - r < 2 ^ 64"
    by (simp_all add: of_nat_diff kSharedRingCapacity_def)
  then show ?thesis by (simp add: unat_of_nat)
qed

lemma different_slots: "k < (j :: nat) \<Longrightarrow> j < k + n \<Longrightarrow> j mod n \<noteq> k mod n"
  by (metis add_less_cancel_left le_add_diff_inverse less_imp_le mod_eq_dvd_iff_nat nat_dvd_not_less zero_less_diff)

section \<open>The invariant\<close>

text \<open>What the writer has copied but not published, and what the reader has read but not freed.\<close>

definition writer_inv :: "'a two_sided \<Rightarrow> bool" where
  "writer_inv s \<longleftrightarrow> (case tw_writer s of
     Writer_idle \<Rightarrow> True
   | Writer_started source write \<Rightarrow> write = of_nat (length (tw_accepted s))
   | Writer_copying source write count i \<Rightarrow> write = of_nat (length (tw_accepted s)) \<and> i \<le> count \<and> count \<le> length source
       \<and> length (tw_accepted s) + count \<le> tw_seenRead s + kSharedRingCapacity
       \<and> (\<forall>j < i. samples (tw_ring s) ! ((length (tw_accepted s) + j) mod kSharedRingCapacity) = source ! j))"

definition reader_inv :: "'a two_sided \<Rightarrow> bool" where
  "reader_inv s \<longleftrightarrow> (case tw_reader s of
     Reader_idle \<Rightarrow> True
   | Reader_started room read \<Rightarrow> read = of_nat (length (tw_delivered s))
   | Reader_copying read count got \<Rightarrow> read = of_nat (length (tw_delivered s)) \<and> length got \<le> count
       \<and> length (tw_delivered s) + count \<le> tw_seenWrite s
       \<and> got = take (length got) (drop (length (tw_delivered s)) (tw_accepted s)))"

definition shared_inv :: "'a two_sided \<Rightarrow> bool" where
  "shared_inv s \<longleftrightarrow> length (samples (tw_ring s)) = kSharedRingCapacity
     \<and> writeIndex (tw_ring s) = of_nat (length (tw_accepted s)) \<and> readIndex (tw_ring s) = of_nat (length (tw_delivered s))
     \<and> tw_seenRead s \<le> length (tw_delivered s) \<and> length (tw_delivered s) \<le> tw_seenWrite s
     \<and> tw_seenWrite s \<le> length (tw_accepted s) \<and> length (tw_accepted s) \<le> tw_seenRead s + kSharedRingCapacity
     \<and> tw_delivered s = take (length (tw_delivered s)) (tw_accepted s)
     \<and> (\<forall>k. length (tw_delivered s) \<le> k \<longrightarrow> k < length (tw_accepted s) \<longrightarrow>
          samples (tw_ring s) ! (k mod kSharedRingCapacity) = tw_accepted s ! k)"

definition two_inv :: "'a two_sided \<Rightarrow> bool" where
  "two_inv s \<longleftrightarrow> shared_inv s \<and> writer_inv s \<and> reader_inv s"

lemma new_two_inv: "two_inv (new_two_sided z)"
  by (simp add: two_inv_def shared_inv_def writer_inv_def reader_inv_def new_two_sided_def new_ring_def)

lemma write_count_room:
  assumes "r \<le> w" "w \<le> r + kSharedRingCapacity"
  shows "write_count source (of_nat w) (of_nat r) \<le> length source"
    "w + write_count source (of_nat w) (of_nat r) \<le> r + kSharedRingCapacity"
  using assms unat_total_gap [of r w] by (simp_all add: write_count_def Let_def)

lemma read_count_room:
  assumes "r \<le> w" "w \<le> r + kSharedRingCapacity"
  shows "r + read_count room (of_nat r) (of_nat w) \<le> w"
  using assms unat_total_gap [of r w] by (simp add: read_count_def)

lemma writer_keeps:
  assumes "writer_step s s'" "two_inv s"
  shows "two_inv s'"
  using assms
proof (cases rule: writer_step.cases)
  case (write_copy source wi count i)
  let ?W = "length (tw_accepted s)" and ?R = "length (tw_delivered s)"
  have inv: "wi = of_nat ?W" "count \<le> length source" "?W + count \<le> tw_seenRead s + kSharedRingCapacity"
    "tw_seenRead s \<le> ?R" "length (samples (tw_ring s)) = kSharedRingCapacity"
    "\<forall>j < i. samples (tw_ring s) ! ((?W + j) mod kSharedRingCapacity) = source ! j"
    using assms(2) write_copy by (simp_all add: two_inv_def shared_inv_def writer_inv_def)
  have slot: "unat (wi + of_nat i) mod kSharedRingCapacity = (?W + i) mod kSharedRingCapacity"
    by (simp add: inv(1) unat_total_mod)
  have less: "(?W + i) mod kSharedRingCapacity < length (samples (tw_ring s))"
    by (simp add: inv kSharedRingCapacity_def)
  have other: "k mod kSharedRingCapacity \<noteq> (?W + i) mod kSharedRingCapacity" if "?R \<le> k" "k < ?W + i" for k
    using different_slots [of k "?W + i" kSharedRingCapacity] that inv(3,4) write_copy(3) by simp
  have kept: "(samples (tw_ring s))[(?W + i) mod kSharedRingCapacity := source ! i] ! (k mod kSharedRingCapacity)
      = samples (tw_ring s) ! (k mod kSharedRingCapacity)" if "?R \<le> k" "k < ?W + i" for k
    using other [OF that] by (simp add: nth_list_update_neq)
  have RW: "?R \<le> ?W" using assms(2) by (simp add: two_inv_def shared_inv_def)
  have "(samples (tw_ring s))[(?W + i) mod kSharedRingCapacity := source ! i] ! ((?W + j) mod kSharedRingCapacity) = source ! j"
    if "j < i + 1" for j
  proof (cases "j = i")
    case False
    then show ?thesis using kept [of "?W + j"] inv(6) that RW by simp
  qed (use less in simp)
  with write_copy assms(2) kept slot show ?thesis
    by (cases "tw_reader s") (simp_all add: two_inv_def shared_inv_def writer_inv_def reader_inv_def)
next
  case (write_publish source wi count)
  have "samples (tw_ring s) ! (k mod kSharedRingCapacity) = (tw_accepted s @ take count source) ! k"
    if "length (tw_delivered s) \<le> k" "k < length (tw_accepted s) + count" for k
  proof (cases "k < length (tw_accepted s)")
    case True
    then show ?thesis using assms(2) that by (simp add: two_inv_def shared_inv_def nth_append)
  next
    case False
    then obtain j where "k = length (tw_accepted s) + j" by (metis le_add_diff_inverse not_less)
    then show ?thesis using assms(2) that write_publish by (simp add: two_inv_def writer_inv_def nth_append)
  qed
  with write_publish assms(2) show ?thesis
    by (cases "tw_reader s") (auto simp: two_inv_def shared_inv_def writer_inv_def reader_inv_def min_def)
next
  case (write_load source wi r)
  let ?W = "length (tw_accepted s)"
  have "wi = of_nat ?W" "r \<le> ?W" "?W \<le> r + kSharedRingCapacity"
    using assms(2) write_load by (simp_all add: two_inv_def shared_inv_def writer_inv_def)
  with write_count_room [of r ?W source] write_load assms(2) show ?thesis
    by (cases "tw_reader s") (simp_all add: two_inv_def shared_inv_def writer_inv_def reader_inv_def)
qed (auto simp: two_inv_def shared_inv_def writer_inv_def reader_inv_def split: reader.splits)

lemma reader_keeps:
  assumes "reader_step s s'" "two_inv s"
  shows "two_inv s'"
  using assms
proof (cases rule: reader_step.cases)
  case (read_load room read w)
  have "length (tw_delivered s) + read_count room read (of_nat w) \<le> w"
    using assms(2) read_load read_count_room [of "length (tw_delivered s)" w room]
    by (simp add: two_inv_def shared_inv_def reader_inv_def)
  with read_load assms(2) show ?thesis
    by (auto simp: two_inv_def shared_inv_def writer_inv_def reader_inv_def split: writer.splits)
next
  case (read_copy read count got)
  let ?k = "length (tw_delivered s) + length got"
  have inv: "read = of_nat (length (tw_delivered s))" "?k < length (tw_accepted s)"
    "got = take (length got) (drop (length (tw_delivered s)) (tw_accepted s))"
    using assms(2) read_copy by (auto simp: two_inv_def shared_inv_def reader_inv_def)
  have "samples (tw_ring s) ! (unat (read + of_nat (length got)) mod kSharedRingCapacity) = tw_accepted s ! ?k"
    using assms(2) inv(2) by (simp add: inv(1) unat_total_mod two_inv_def shared_inv_def)
  moreover have "take (Suc (length got)) (drop (length (tw_delivered s)) (tw_accepted s)) = got @ [tw_accepted s ! ?k]"
    using inv by (simp add: take_Suc_conv_app_nth)
  ultimately show ?thesis using read_copy assms(2)
    by (auto simp: two_inv_def shared_inv_def writer_inv_def reader_inv_def split: writer.splits)
next
  case (read_publish read count got)
  have "tw_delivered s @ got = take (length (tw_delivered s) + length got) (tw_accepted s)"
    using assms(2) read_publish by (simp add: two_inv_def shared_inv_def reader_inv_def take_add)
  with read_publish assms(2) show ?thesis
    by (auto simp: two_inv_def shared_inv_def writer_inv_def reader_inv_def split: writer.splits)
qed (auto simp: two_inv_def shared_inv_def writer_inv_def reader_inv_def split: writer.splits)

lemma reachable_inv: "two_step\<^sup>*\<^sup>* (new_two_sided z) s \<Longrightarrow> two_inv s"
  by (induction rule: rtranclp_induct) (auto simp: new_two_inv two_step_def dest: writer_keeps reader_keeps)

section \<open>Order and races\<close>

text \<open>The slot the writer stores to next, and the one the reader loads from next.\<close>

definition storing :: "'a two_sided \<Rightarrow> nat option" where
  "storing s = (case tw_writer s of
     Writer_copying source write count i \<Rightarrow>
       if i < count then Some (unat (write + of_nat i) mod kSharedRingCapacity) else None
   | _ \<Rightarrow> None)"

definition loading :: "'a two_sided \<Rightarrow> nat option" where
  "loading s = (case tw_reader s of
     Reader_copying read count got \<Rightarrow>
       if length got < count then Some (unat (read + of_nat (length got)) mod kSharedRingCapacity) else None
   | _ \<Rightarrow> None)"

lemma inv_no_race:
  assumes "two_inv s" "storing s = Some a"
  shows "loading s \<noteq> Some a"
proof
  assume "loading s = Some a"
  then obtain read n got where reader: "tw_reader s = Reader_copying read n got" "length got < n"
    and load: "a = unat (read + of_nat (length got)) mod kSharedRingCapacity"
    by (auto simp: loading_def split: reader.splits if_splits)
  obtain source wi n' i where writer: "tw_writer s = Writer_copying source wi n' i" "i < n'"
    and store: "a = unat (wi + of_nat i) mod kSharedRingCapacity"
    using assms(2) by (auto simp: storing_def split: writer.splits if_splits)
  let ?W = "length (tw_accepted s)" and ?R = "length (tw_delivered s)"
  have "read = of_nat ?R" "wi = of_nat ?W"
    using assms(1) reader writer by (simp_all add: two_inv_def writer_inv_def reader_inv_def)
  then have "a = (?R + length got) mod kSharedRingCapacity" "a = (?W + i) mod kSharedRingCapacity"
    using load store by (simp_all add: unat_total_mod del: of_nat_add)
  moreover have "?R + length got < ?W + i" "?W + i < ?R + length got + kSharedRingCapacity"
    using assms(1) reader writer by (auto simp: two_inv_def shared_inv_def writer_inv_def reader_inv_def)
  ultimately show False using different_slots by metis
qed

lemma inv_fifo:
  assumes "two_inv s"
  shows "tw_delivered s = take (length (tw_delivered s)) (tw_accepted s)
    \<and> length (tw_accepted s) - length (tw_delivered s) \<le> kSharedRingCapacity"
  using assms by (auto simp: two_inv_def shared_inv_def)

text \<open>C5: While the engine writes and the driver reads at once, in any interleaving of their memory accesses and
  with loads of the other side's index that return old values, what was read is a prefix of what was
  written, never more than the capacity is under way, and no slot is stored to while it is loaded from.\<close>

theorem ring_interleaving_safe:
  assumes "two_step\<^sup>*\<^sup>* (new_two_sided z) s"
  shows "tw_delivered s = take (length (tw_delivered s)) (tw_accepted s)
    \<and> length (tw_accepted s) - length (tw_delivered s) \<le> kSharedRingCapacity
    \<and> (\<forall>slot. storing s = Some slot \<longrightarrow> loading s \<noteq> Some slot)"
  using inv_fifo inv_no_race reachable_inv [OF assms] by blast

section \<open>Calls return\<close>

text \<open>A bound on the accesses a call still makes.\<close>

fun writer_work :: "'a writer \<Rightarrow> nat" where
  "writer_work Writer_idle = 0"
| "writer_work (Writer_started source write) = length source + 2"
| "writer_work (Writer_copying source write count i) = count - i + 1"

fun reader_work :: "'a reader \<Rightarrow> nat" where
  "reader_work Reader_idle = 0"
| "reader_work (Reader_started room read) = room + 2"
| "reader_work (Reader_copying read count got) = count - length got + 1"

lemma writer_frame: "writer_step s s' \<Longrightarrow> tw_reader s' = tw_reader s"
  by (auto elim: writer_step.cases)

lemma reader_frame: "reader_step s s' \<Longrightarrow> tw_writer s' = tw_writer s"
  by (auto elim: reader_step.cases)

lemma writer_works: "writer_step s s' \<Longrightarrow> tw_writer s \<noteq> Writer_idle \<Longrightarrow> writer_work (tw_writer s') < writer_work (tw_writer s)"
  by (auto elim!: writer_step.cases simp: write_count_def Let_def)

lemma reader_works: "reader_step s s' \<Longrightarrow> tw_reader s \<noteq> Reader_idle \<Longrightarrow> reader_work (tw_reader s') < reader_work (tw_reader s)"
  by (auto elim!: reader_step.cases simp: read_count_def)

lemma writer_never_waits:
  assumes "two_inv s"
  shows "\<exists>s'. writer_step s s'"
proof (cases "tw_writer s")
  case (Writer_started source wi)
  have "tw_seenRead s \<le> length (tw_delivered s)" using assms by (simp add: two_inv_def shared_inv_def)
  from write_load [OF Writer_started order_refl this] show ?thesis by blast
next
  case (Writer_copying source wi n i)
  then have "i < n \<or> i = n" using assms by (auto simp: two_inv_def writer_inv_def)
  then show ?thesis using write_copy [OF Writer_copying] write_publish Writer_copying by blast
qed (blast intro: write_call)

lemma reader_never_waits:
  assumes "two_inv s"
  shows "\<exists>s'. reader_step s s'"
proof (cases "tw_reader s")
  case (Reader_started room ri)
  have "tw_seenWrite s \<le> length (tw_accepted s)" using assms by (simp add: two_inv_def shared_inv_def)
  from read_load [OF Reader_started order_refl this] show ?thesis by blast
next
  case (Reader_copying ri n got)
  then have "length got < n \<or> length got = n" using assms by (auto simp: two_inv_def reader_inv_def)
  then show ?thesis using read_copy [OF Reader_copying] read_publish [OF Reader_copying] by blast
qed (blast intro: read_call)

text \<open>Neither side ever waits for the other: in every reachable state each has a next access, every access
  of its own call brings its end nearer and the other side's accesses do not put it off.\<close>

theorem ring_wait_free:
  assumes "two_step\<^sup>*\<^sup>* (new_two_sided z) s"
  shows "(\<exists>s'. writer_step s s') \<and> (\<exists>s'. reader_step s s')
    \<and> (\<forall>s'. writer_step s s' \<longrightarrow> reader_work (tw_reader s') = reader_work (tw_reader s)
          \<and> (tw_writer s \<noteq> Writer_idle \<longrightarrow> writer_work (tw_writer s') < writer_work (tw_writer s)))
    \<and> (\<forall>s'. reader_step s s' \<longrightarrow> writer_work (tw_writer s') = writer_work (tw_writer s)
          \<and> (tw_reader s \<noteq> Reader_idle \<longrightarrow> reader_work (tw_reader s') < reader_work (tw_reader s)))"
proof (intro conjI allI impI)
  note inv = reachable_inv [OF assms]
  show "\<exists>s'. writer_step s s'" "\<exists>s'. reader_step s s'"
    using writer_never_waits [OF inv] reader_never_waits [OF inv] by blast+
qed (simp_all add: writer_frame reader_frame writer_works reader_works)

section \<open>Calls that do not overlap\<close>

lemma writer_copies:
  assumes "tw_writer s = Writer_copying source wi n 0" "i \<le> n"
  shows "writer_step\<^sup>*\<^sup>* s (s\<lparr>tw_writer := Writer_copying source wi n i, tw_ring := (tw_ring s)
    \<lparr>samples := fold (\<lambda>i b. b[unat (wi + of_nat i) mod kSharedRingCapacity := source ! i]) [0..<i] (samples (tw_ring s))\<rparr>\<rparr>)"
  using assms(2)
proof (induction i)
  case 0
  have "s\<lparr>tw_writer := Writer_copying source wi n 0, tw_ring := (tw_ring s)\<lparr>samples := samples (tw_ring s)\<rparr>\<rparr> = s"
    using assms(1) by simp
  then show ?case by simp
next
  case (Suc i)
  let ?s = "s\<lparr>tw_writer := Writer_copying source wi n i, tw_ring := (tw_ring s)
    \<lparr>samples := fold (\<lambda>i b. b[unat (wi + of_nat i) mod kSharedRingCapacity := source ! i]) [0..<i] (samples (tw_ring s))\<rparr>\<rparr>"
  have "tw_writer ?s = Writer_copying source wi n i" by simp
  from write_copy [OF this] Suc show ?case by (auto intro: rtranclp.rtrancl_into_rtrancl)
qed

lemma reader_copies:
  assumes "tw_reader s = Reader_copying ri n []" "i \<le> n"
  shows "reader_step\<^sup>*\<^sup>* s (s\<lparr>tw_reader := Reader_copying ri n
    (map (\<lambda>i. samples (tw_ring s) ! (unat (ri + of_nat i) mod kSharedRingCapacity)) [0..<i])\<rparr>)"
  using assms(2)
proof (induction i)
  case 0
  have "s\<lparr>tw_reader := Reader_copying ri n []\<rparr> = s" using assms(1) by simp
  then show ?case by simp
next
  case (Suc i)
  let ?got = "map (\<lambda>i. samples (tw_ring s) ! (unat (ri + of_nat i) mod kSharedRingCapacity)) [0..<i]"
  let ?s = "s\<lparr>tw_reader := Reader_copying ri n ?got\<rparr>"
  have "tw_reader ?s = Reader_copying ri n ?got" by simp
  from read_copy [OF this] Suc show ?case by (auto intro: rtranclp.rtrancl_into_rtrancl)
qed

lemma fold_prefix:
  "n \<le> length d \<Longrightarrow> take n (fold (\<lambda>i d. d[i := f i]) [0..<n] d) = map f [0..<n]
    \<and> length (fold (\<lambda>i d. d[i := f i]) [0..<n] d) = length d"
  by (induction n) (auto simp: take_Suc_conv_app_nth)

lemma write_alone:
  assumes "two_inv s" "tw_writer s = Writer_idle"
  shows "\<exists>s'. writer_step\<^sup>*\<^sup>* s s' \<and> tw_writer s' = Writer_idle \<and> tw_ring s' = fst (ring_write (tw_ring s) source)
      \<and> tw_accepted s' = tw_accepted s @ take (snd (ring_write (tw_ring s) source)) source"
proof -
  let ?wi = "writeIndex (tw_ring s)" and ?R = "length (tw_delivered s)"
  define n where "n = write_count source ?wi (of_nat ?R)"
  have shared: "tw_seenRead s \<le> ?R" "readIndex (tw_ring s) = of_nat ?R"
    using assms(1) by (simp_all add: two_inv_def shared_inv_def)
  define s1 where "s1 = s\<lparr>tw_writer := Writer_started source ?wi\<rparr>"
  define s2 where "s2 = s1\<lparr>tw_writer := Writer_copying source ?wi n 0, tw_seenRead := ?R\<rparr>"
  define s3 where "s3 = s2\<lparr>tw_writer := Writer_copying source ?wi n n, tw_ring := (tw_ring s2)
    \<lparr>samples := fold (\<lambda>i b. b[unat (?wi + of_nat i) mod kSharedRingCapacity := source ! i]) [0..<n] (samples (tw_ring s2))\<rparr>\<rparr>"
  define s4 where "s4 = s3\<lparr>tw_writer := Writer_idle, tw_ring := (tw_ring s3)\<lparr>writeIndex := ?wi + of_nat n\<rparr>,
    tw_accepted := tw_accepted s3 @ take n source\<rparr>"
  have "writer_step s s1" unfolding s1_def by (rule write_call [OF assms(2)])
  moreover have "writer_step s1 s2"
    unfolding s2_def n_def by (rule write_load) (simp_all add: s1_def shared)
  moreover have "writer_step\<^sup>*\<^sup>* s2 s3" unfolding s3_def by (rule writer_copies) (simp_all add: s2_def)
  moreover have "writer_step s3 s4" unfolding s4_def by (rule write_publish) (simp add: s3_def)
  ultimately have "writer_step\<^sup>*\<^sup>* s s4" by (meson converse_rtranclp_into_rtranclp rtranclp.rtrancl_into_rtrancl)
  then show ?thesis
    by (intro exI [of _ s4])
      (simp add: s4_def s3_def s2_def s1_def ring_write_def Let_def n_def write_count_def shared)
qed

lemma read_alone:
  assumes "two_inv s" "tw_reader s = Reader_idle"
  shows "\<exists>s'. reader_step\<^sup>*\<^sup>* s s' \<and> tw_reader s' = Reader_idle
      \<and> (case ring_read (tw_ring s) destination of (ring', filled, n) \<Rightarrow>
           tw_ring s' = ring' \<and> tw_delivered s' = tw_delivered s @ take n filled)"
proof -
  let ?ri = "readIndex (tw_ring s)" and ?W = "length (tw_accepted s)"
  define n where "n = read_count (length destination) ?ri (of_nat ?W)"
  define got where "got = map (\<lambda>i. samples (tw_ring s) ! (unat (?ri + of_nat i) mod kSharedRingCapacity)) [0..<n]"
  have shared: "tw_seenWrite s \<le> ?W" "writeIndex (tw_ring s) = of_nat ?W"
    using assms(1) by (simp_all add: two_inv_def shared_inv_def)
  define s1 where "s1 = s\<lparr>tw_reader := Reader_started (length destination) ?ri\<rparr>"
  define s2 where "s2 = s1\<lparr>tw_reader := Reader_copying ?ri n [], tw_seenWrite := ?W\<rparr>"
  define s3 where "s3 = s2\<lparr>tw_reader := Reader_copying ?ri n got\<rparr>"
  define s4 where "s4 = s3\<lparr>tw_reader := Reader_idle, tw_ring := (tw_ring s3)\<lparr>readIndex := ?ri + of_nat n\<rparr>,
    tw_delivered := tw_delivered s3 @ got\<rparr>"
  have "reader_step s s1" unfolding s1_def by (rule read_call [OF assms(2)])
  moreover have "reader_step s1 s2"
    unfolding s2_def n_def by (rule read_load) (simp_all add: s1_def shared)
  moreover have "tw_reader s2 = Reader_copying ?ri n []" "tw_ring s2 = tw_ring s" by (simp_all add: s2_def s1_def)
  then have "reader_step\<^sup>*\<^sup>* s2 s3" using reader_copies [of s2 ?ri n n] unfolding s3_def got_def by simp
  moreover have "reader_step s3 s4" unfolding s4_def by (rule read_publish) (simp_all add: s3_def got_def)
  ultimately have "reader_step\<^sup>*\<^sup>* s s4" by (meson converse_rtranclp_into_rtranclp rtranclp.rtrancl_into_rtrancl)
  moreover have "n \<le> length destination" by (simp add: n_def read_count_def)
  ultimately show ?thesis
    using fold_prefix [of n destination "\<lambda>i. samples (tw_ring s) ! (unat (?ri + of_nat i) mod kSharedRingCapacity)"]
    by (intro exI [of _ s4])
      (simp add: s4_def s3_def s2_def s1_def ring_read_def Let_def got_def n_def read_count_def shared)
qed

text \<open>The whole-call model of the ring is these accesses run without interruption: a write that no read
  overlaps ends with the ring and the count of \<open>ring_write\<close>, a read that no write overlaps with those of
  \<open>ring_read\<close> and its samples.\<close>

theorem ring_calls_refined:
  assumes "two_step\<^sup>*\<^sup>* (new_two_sided z) s" "tw_writer s = Writer_idle" "tw_reader s = Reader_idle"
  shows "(\<exists>s'. writer_step\<^sup>*\<^sup>* s s' \<and> tw_writer s' = Writer_idle \<and> tw_ring s' = fst (ring_write (tw_ring s) source)
      \<and> tw_accepted s' = tw_accepted s @ take (snd (ring_write (tw_ring s) source)) source)
    \<and> (\<exists>s'. reader_step\<^sup>*\<^sup>* s s' \<and> tw_reader s' = Reader_idle
      \<and> (case ring_read (tw_ring s) destination of (ring', filled, n) \<Rightarrow>
           tw_ring s' = ring' \<and> tw_delivered s' = tw_delivered s @ take n filled))"
  using write_alone read_alone reachable_inv [OF assms(1)] assms(2,3) by blast

section \<open>A run in which they overlap\<close>

text \<open>The driver reads the first sample while the engine is writing the second.\<close>

lemma writer_run_frame:
  "writer_step\<^sup>*\<^sup>* s s' \<Longrightarrow> two_step\<^sup>*\<^sup>* s s' \<and> tw_reader s' = tw_reader s
    \<and> tw_delivered s' = tw_delivered s \<and> tw_seenWrite s' = tw_seenWrite s"
proof (induction rule: rtranclp_induct)
  case (step s' s'')
  then have "two_step s' s''" "tw_reader s'' = tw_reader s'" "tw_delivered s'' = tw_delivered s'" "tw_seenWrite s'' = tw_seenWrite s'"
    by (auto simp: two_step_def elim: writer_step.cases)
  with step.IH show ?case by (auto intro: rtranclp.rtrancl_into_rtrancl)
qed simp

lemma overlapping_run:
  "\<exists>s. two_step\<^sup>*\<^sup>* (new_two_sided (0::nat)) s \<and> tw_accepted s = [7] \<and> tw_delivered s = []
    \<and> storing s = Some 1 \<and> loading s = Some 0"
proof -
  let ?s0 = "new_two_sided (0::nat)"
  have idle: "tw_writer ?s0 = Writer_idle" by (simp add: new_two_sided_def)
  obtain s1 where run: "writer_step\<^sup>*\<^sup>* ?s0 s1" "tw_writer s1 = Writer_idle"
    and "tw_accepted s1 = tw_accepted ?s0 @ take (snd (ring_write (tw_ring ?s0) [7])) [7]"
    using write_alone [OF new_two_inv idle] by blast
  then have acc: "tw_accepted s1 = [7]"
    by (simp add: new_two_sided_def new_ring_def ring_write_def kSharedRingCapacity_def Let_def)
  have s1: "two_step\<^sup>*\<^sup>* ?s0 s1" "tw_reader s1 = Reader_idle" "tw_delivered s1 = []" "tw_seenWrite s1 = 0"
    using writer_run_frame [OF run(1)] by (simp_all add: new_two_sided_def)
  have idx: "writeIndex (tw_ring s1) = 1" "readIndex (tw_ring s1) = 0" "tw_seenRead s1 = 0"
    using reachable_inv [OF s1(1)] acc s1(3) by (simp_all add: two_inv_def shared_inv_def)
  define s2 where "s2 = s1\<lparr>tw_reader := Reader_started 4 0\<rparr>"
  define s3 where "s3 = s2\<lparr>tw_reader := Reader_copying 0 1 [], tw_seenWrite := 1\<rparr>"
  define s4 where "s4 = s3\<lparr>tw_writer := Writer_started [9] 1\<rparr>"
  define s5 where "s5 = s4\<lparr>tw_writer := Writer_copying [9] 1 1 0, tw_seenRead := 0\<rparr>"
  have "reader_step s1 s2" using read_call [OF s1(2), of 4] by (simp add: s2_def idx)
  moreover have "reader_step s2 s3"
    using read_load [of s2 4 0 1] by (simp add: s2_def s3_def s1 acc read_count_def)
  moreover have "writer_step s3 s4" using write_call [of s3 "[9]"] by (simp add: s4_def s3_def s2_def run idx)
  moreover have "writer_step s4 s5"
    using write_load [of s4 "[9]" 1 0] by (simp add: s5_def s4_def s3_def s2_def idx write_count_def kSharedRingCapacity_def)
  ultimately have "two_step s1 s2" "two_step s2 s3" "two_step s3 s4" "two_step s4 s5" by (simp_all add: two_step_def)
  with s1(1) have "two_step\<^sup>*\<^sup>* ?s0 s5" by (meson rtranclp.rtrancl_into_rtrancl)
  then show ?thesis
    by (intro exI [of _ s5])
      (simp add: s5_def s4_def s3_def s2_def acc s1 storing_def loading_def kSharedRingCapacity_def)
qed

theorem ring_interleaving_safe_witness:
  "\<exists>s. two_step\<^sup>*\<^sup>* (new_two_sided (0::nat)) s \<and> storing s = Some 1 \<and> loading s \<noteq> Some 1 \<and> length (tw_accepted s) = 1"
  using overlapping_run ring_interleaving_safe by (metis One_nat_def length_Cons list.size(3))

theorem ring_wait_free_witness:
  "\<exists>s s'. two_step\<^sup>*\<^sup>* (new_two_sided (0::nat)) s \<and> storing s = Some 1 \<and> reader_step s s'"
  using overlapping_run ring_wait_free by metis

theorem ring_calls_refined_witness:
  "\<exists>s'. writer_step\<^sup>*\<^sup>* (new_two_sided (0::nat)) s' \<and> tw_accepted s' = [7, 9]"
  using ring_calls_refined [of 0 "new_two_sided (0::nat)" "[7, 9]"]
  by (simp add: new_two_sided_def new_ring_def ring_write_def kSharedRingCapacity_def Let_def) blast

end
