(* ===== verification/SPSC_Ring.thy ===== *)
theory SPSC_Ring
  imports Fifo_Interface Constants
begin

text \<open>
  \<open>SPSCRingBuffer\<close> of Sources/Core/SPSCRingBuffer.hpp: indices reduced modulo the capacity,
  one slot always free. The template parameter \<open>Capacity\<close> is an argument of the operations;
  Sources/Core/AudioBridge.hpp instantiates it with 4096.
\<close>

record 'a spsc_ring =
  spsc_storage :: "'a list"
  spsc_writeIndex :: nat
  spsc_readIndex :: nat

definition readable :: "nat \<Rightarrow> nat \<Rightarrow> nat \<Rightarrow> nat" where
  "readable cap read write = (if write \<ge> read then write - read else cap - read + write)"

definition writable :: "nat \<Rightarrow> nat \<Rightarrow> nat \<Rightarrow> nat" where
  "writable cap write read = cap - readable cap read write - 1"

definition spsc_write :: "nat \<Rightarrow> 'a spsc_ring \<Rightarrow> 'a list \<Rightarrow> 'a spsc_ring \<times> nat" where
  "spsc_write cap q source =
     (let w = spsc_writeIndex q;
          r = spsc_readIndex q;
          count = min (length source) (writable cap w r)
      in (q\<lparr>spsc_storage := fold (\<lambda>i b. b[(w + i) mod cap := source ! i]) [0..<count] (spsc_storage q),
            spsc_writeIndex := (w + count) mod cap\<rparr>, count))"

definition spsc_read :: "nat \<Rightarrow> 'a spsc_ring \<Rightarrow> 'a list \<Rightarrow> 'a spsc_ring \<times> 'a list \<times> nat" where
  "spsc_read cap q destination =
     (let r = spsc_readIndex q;
          w = spsc_writeIndex q;
          count = min (length destination) (readable cap r w)
      in (q\<lparr>spsc_readIndex := (r + count) mod cap\<rparr>,
          fold (\<lambda>i d. d[i := spsc_storage q ! ((r + i) mod cap)]) [0..<count] destination,
          count))"

definition spsc_available :: "nat \<Rightarrow> 'a spsc_ring \<Rightarrow> nat" where
  "spsc_available cap q = readable cap (spsc_readIndex q) (spsc_writeIndex q)"

definition spsc_resetWhenIdle :: "'a spsc_ring \<Rightarrow> 'a spsc_ring" where
  "spsc_resetWhenIdle q = q\<lparr>spsc_readIndex := 0, spsc_writeIndex := 0\<rparr>"

definition new_spsc :: "nat \<Rightarrow> 'a \<Rightarrow> 'a spsc_ring" where
  "new_spsc cap z = \<lparr> spsc_storage = replicate cap z, spsc_writeIndex = 0, spsc_readIndex = 0 \<rparr>"

definition spsc_inv :: "nat \<Rightarrow> 'a spsc_ring \<Rightarrow> bool" where
  "spsc_inv cap q \<longleftrightarrow> 2 \<le> cap \<and> length (spsc_storage q) = cap
     \<and> spsc_writeIndex q < cap \<and> spsc_readIndex q < cap"

definition spsc_queue :: "nat \<Rightarrow> 'a spsc_ring \<Rightarrow> 'a list" where
  "spsc_queue cap q = seg cap (spsc_storage q) (spsc_readIndex q) (spsc_available cap q)"

section \<open>Index arithmetic\<close>

lemma readable_less: "r < cap \<Longrightarrow> w < cap \<Longrightarrow> readable cap r w < cap"
  by (auto simp: readable_def)

lemma write_position: "r < cap \<Longrightarrow> w < cap \<Longrightarrow> (r + readable cap r w) mod cap = w"
  by (auto simp: readable_def)

lemma readable_unique:
  assumes "r < cap" "w < cap" "n < cap" "(r + n) mod cap = w"
  shows "readable cap r w = n"
  using assms mod_offset_inj [of r "readable cap r w" cap n] by (simp add: readable_less write_position)

lemma readable_after_write:
  assumes "r < cap" "w < cap" "readable cap r w + c < cap"
  shows "readable cap r ((w + c) mod cap) = readable cap r w + c"
proof (rule readable_unique)
  have "(r + (readable cap r w + c)) mod cap = ((r + readable cap r w) mod cap + c) mod cap"
    by (simp add: mod_add_left_eq add.assoc)
  then show "(r + (readable cap r w + c)) mod cap = (w + c) mod cap"
    using assms by (simp add: write_position)
qed (use assms in auto)

lemma readable_after_read:
  assumes "r < cap" "w < cap" "c \<le> readable cap r w"
  shows "readable cap ((r + c) mod cap) w = readable cap r w - c"
proof (rule readable_unique)
  have "((r + c) mod cap + (readable cap r w - c)) mod cap = (r + readable cap r w) mod cap"
    using assms mod_add_left_eq [of "r + c" cap "readable cap r w - c"] by simp
  then show "((r + c) mod cap + (readable cap r w - c)) mod cap = w"
    using assms by (simp add: write_position)
  show "readable cap r w - c < cap"
    using readable_less [OF assms(1,2)] by simp
qed (use assms in auto)

section \<open>The ring implements the contract\<close>

lemma spsc_available_less: "spsc_inv cap q \<Longrightarrow> spsc_available cap q < cap"
  by (simp add: spsc_inv_def spsc_available_def readable_less)

lemma spsc_write_inv: "spsc_inv cap q \<Longrightarrow> spsc_inv cap (fst (spsc_write cap q xs))"
  by (simp add: spsc_inv_def spsc_write_def Let_def)

lemma spsc_write_count:
  "snd (spsc_write cap q xs) = min (length xs) (cap - 1 - length (spsc_queue cap q))"
  by (simp add: spsc_write_def Let_def writable_def spsc_queue_def spsc_available_def)

lemma spsc_write_queue:
  assumes "spsc_inv cap q"
  shows "spsc_queue cap (fst (spsc_write cap q xs)) = spsc_queue cap q @ take (snd (spsc_write cap q xs)) xs"
proof -
  let ?n = "spsc_available cap q" and ?r = "spsc_readIndex q"
  let ?c = "snd (spsc_write cap q xs)"
  have c: "?n + ?c < cap" "?c \<le> length xs"
    using spsc_available_less [OF assms] by (simp_all add: spsc_write_count spsc_queue_def)
  have w: "(?r + ?n) mod cap = spsc_writeIndex q"
    using assms by (simp add: spsc_available_def spsc_inv_def write_position)
  have "spsc_queue cap (fst (spsc_write cap q xs))
      = seg cap (ring_store cap (spsc_storage q) (?r + ?n) xs ?c) ?r (?n + ?c)"
    using assms c w
    by (simp add: spsc_write_def Let_def spsc_queue_def spsc_available_def spsc_inv_def
        readable_after_write ring_store_def) (metis mod_add_left_eq)
  also have "\<dots> = seg cap (spsc_storage q) ?r ?n @ take ?c xs"
    using c assms by (intro seg_ring_store) (auto simp: spsc_inv_def)
  finally show ?thesis by (simp add: spsc_queue_def)
qed

lemma spsc_read_inv: "spsc_inv cap q \<Longrightarrow> spsc_inv cap (fst (spsc_read cap q d))"
  by (simp add: spsc_inv_def spsc_read_def Let_def)

lemma spsc_read_count: "snd (snd (spsc_read cap q d)) = min (length d) (length (spsc_queue cap q))"
  by (simp add: spsc_read_def Let_def spsc_queue_def spsc_available_def)

lemma spsc_read_queue:
  "spsc_inv cap q \<Longrightarrow>
   spsc_queue cap (fst (spsc_read cap q d)) = drop (snd (snd (spsc_read cap q d))) (spsc_queue cap q)"
  by (simp add: spsc_read_def Let_def spsc_queue_def spsc_available_def drop_seg readable_after_read
      spsc_inv_def)

lemma spsc_read_data:
  "fst (snd (spsc_read cap q d)) =
     take (snd (snd (spsc_read cap q d))) (spsc_queue cap q) @ drop (snd (snd (spsc_read cap q d))) d"
  by (simp add: spsc_read_def Let_def spsc_queue_def spsc_available_def fold_prefix_fill take_seg)
    (simp add: seg_def)

definition kRingSamples :: nat where "kRingSamples = 4096"

interpretation bridge: sample_fifo "spsc_write kRingSamples" "spsc_read kRingSamples"
  "spsc_queue kRingSamples" "spsc_inv kRingSamples" "kRingSamples - 1"
  using spsc_available_less
  by unfold_locales
    (simp_all add: spsc_write_inv spsc_write_count spsc_write_queue spsc_read_inv spsc_read_count
      spsc_read_queue spsc_read_data, fastforce simp: spsc_queue_def)

lemma new_spsc_inv: "2 \<le> cap \<Longrightarrow> spsc_inv cap (new_spsc cap z)"
  by (simp add: new_spsc_def spsc_inv_def)

lemma new_spsc_queue: "spsc_queue cap (new_spsc cap z) = []"
  by (simp add: new_spsc_def spsc_queue_def spsc_available_def readable_def seg_def)

text \<open>The record of rings of Sources/Core/AudioBridge.hpp.\<close>

record 'a audio_bridge =
  ab_networkToCoreAudio :: "'a spsc_ring list"
  ab_coreAudioToNetwork :: "'a spsc_ring list"
  ab_inputUnderruns :: u64
  ab_outputOverruns :: u64
  ab_ioRunning :: bool

definition new_audio_bridge :: "'a \<Rightarrow> 'a audio_bridge" where
  "new_audio_bridge z = \<lparr> ab_networkToCoreAudio = replicate kVirtualChannels (new_spsc kRingSamples z),
     ab_coreAudioToNetwork = replicate kVirtualChannels (new_spsc kRingSamples z),
     ab_inputUnderruns = 0, ab_outputOverruns = 0, ab_ioRunning = False \<rparr>"

lemma new_audio_bridge_rings:
  "\<forall>q \<in> set (ab_networkToCoreAudio (new_audio_bridge z)) \<union> set (ab_coreAudioToNetwork (new_audio_bridge z)).
     spsc_inv kRingSamples q \<and> spsc_queue kRingSamples q = []"
  by (auto simp: new_audio_bridge_def new_spsc_inv new_spsc_queue kRingSamples_def)

text \<open>The process-local ring keeps the same promise for the bridge's capacity of 4096, of
  which one slot stays free.\<close>

theorem spsc_ring_conservation:
  "fifo_delivered (spsc_write kRingSamples) (spsc_read kRingSamples) (new_spsc kRingSamples z) ops
     @ spsc_queue kRingSamples
         (fifo_run (spsc_write kRingSamples) (spsc_read kRingSamples) (new_spsc kRingSamples z) ops)
   = fifo_accepted (spsc_write kRingSamples) (spsc_read kRingSamples) (new_spsc kRingSamples z) ops"
  using bridge.conservation [OF new_spsc_inv] by (simp add: new_spsc_queue kRingSamples_def)

end
