(* ===== verification/UDP_Socket.thy ===== *)
theory UDP_Socket
  imports Handle_Interface Cpp_Text
begin

text \<open>
  \<open>UDPSocket\<close> of Sources/Core/UDPSocket.cpp (POSIX) and Sources/Platform/Windows/UDPSocketWindows.cpp. An
  address is the 32-bit number in host byte order; \<open>inet_pton\<close> is a parameter. What the system calls
  return is an argument, the calls made are part of the result.
\<close>

section \<open>The code\<close>

record udp_socket =
  us_descriptor :: int
  us_destination :: "(u32 \<times> u16) option"
  us_lastError :: os_error

definition new_socket :: udp_socket where
  "new_socket = \<lparr> us_descriptor = - 1, us_destination = None, us_lastError = Errno 0 \<rparr>"

datatype socket_call =
    Sys_socket int
  | Reuse_address
  | Reuse_port
  | Sys_bind u16 bool
  | Join_group u32 u32 bool
  | Join_source_group u32 u32 u32 bool
  | Multicast_ttl nat
  | Multicast_loop bool
  | Multicast_interface u32 bool
  | New_destination
  | Delete_destination
  | Sys_sendto u32 u16 bytes
  | Sys_poll int
  | Sys_recvfrom nat
  | Close_socket int

record socket_answers =
  so_socket :: int
  so_bind :: bool
  so_join :: bool
  so_interface :: bool
  so_errno :: int

type_synonym pton = "string \<Rightarrow> u32 option"

text \<open>\<open>c_str()\<close> ends at the first null character.\<close>

definition parseAddress :: "pton \<Rightarrow> string \<Rightarrow> u32 option" where
  "parseAddress inet_pton address = inet_pton (takeWhile (\<lambda>c. c \<noteq> CHR 0x00) address)"

definition multicast_host :: "u32 \<Rightarrow> bool" where
  "multicast_host host \<longleftrightarrow> 0xe0000000 \<le> host \<and> host \<le> 0xefffffff"

text \<open>An optional argument: empty is allowed and leaves the zeroed structure.\<close>

definition parse_optional :: "pton \<Rightarrow> string \<Rightarrow> u32 option" where
  "parse_optional inet_pton address = (if address = [] then Some 0 else parseAddress inet_pton address)"

definition socket_close :: "udp_socket \<Rightarrow> udp_socket \<times> socket_call list" where
  "socket_close s = (s\<lparr>us_descriptor := - 1, us_destination := None\<rparr>,
     (if us_descriptor s \<ge> 0 then [Close_socket (us_descriptor s)] else [])
     @ (if us_destination s \<noteq> None then [Delete_destination] else []))"

definition socket_failed :: "os_error \<Rightarrow> udp_socket \<Rightarrow> socket_call list \<Rightarrow> bool \<times> udp_socket \<times> socket_call list" where
  "socket_failed err s cs = (case socket_close (s\<lparr>us_lastError := err\<rparr>) of (s', ds) \<Rightarrow> (False, s', cs @ ds))"

text \<open>\<open>openReceiver\<close>, the same on both platforms but for the options \<open>reuse\<close> that are set.\<close>

definition receiver_with ::
    "socket_call list \<Rightarrow> pton \<Rightarrow> string \<Rightarrow> u16 \<Rightarrow> string \<Rightarrow> string \<Rightarrow> socket_answers \<Rightarrow> udp_socket
      \<Rightarrow> bool \<times> udp_socket \<times> socket_call list" where
  "receiver_with reuse inet_pton address port interfaceAddress sourceAddress a s =
     (let (s0, c0) = socket_close s
      in case (parseAddress inet_pton address, parse_optional inet_pton interfaceAddress, parse_optional inet_pton sourceAddress) of
           (Some grp, Some interface, Some source) \<Rightarrow>
             let s1 = s0\<lparr>us_descriptor := so_socket a\<rparr>;
                 c1 = c0 @ [Sys_socket (so_socket a)];
                 c2 = c1 @ reuse @ [Sys_bind port (so_bind a)];
                 join = (if sourceAddress \<noteq> [] then Join_source_group grp interface source (so_join a)
                   else Join_group grp interface (so_join a))
             in if so_socket a < 0 then (False, s1\<lparr>us_lastError := Errno (so_errno a)\<rparr>, c1)
                else if \<not> so_bind a then socket_failed (Errno (so_errno a)) s1 c2
                else if \<not> multicast_host grp then (True, s1, c2)
                else if \<not> so_join a then socket_failed (Errno (so_errno a)) s1 (c2 @ [join])
                else (True, s1, c2 @ [join])
         | _ \<Rightarrow> (False, s0\<lparr>us_lastError := EINVAL\<rparr>, c0))"

definition transmitter_with ::
    "pton \<Rightarrow> string \<Rightarrow> u16 \<Rightarrow> string \<Rightarrow> socket_answers \<Rightarrow> udp_socket \<Rightarrow> bool \<times> udp_socket \<times> socket_call list" where
  "transmitter_with inet_pton address port interfaceAddress a s =
     (let (s0, c0) = socket_close s
      in case (parseAddress inet_pton address, parse_optional inet_pton interfaceAddress) of
           (Some target, Some interface) \<Rightarrow>
             let s1 = s0\<lparr>us_descriptor := so_socket a\<rparr>;
                 c1 = c0 @ [Sys_socket (so_socket a)];
                 c2 = c1 @ (if multicast_host target
                   then [Multicast_ttl 32, Multicast_loop False]
                     @ (if interfaceAddress \<noteq> [] then [Multicast_interface interface (so_interface a)] else [])
                   else [])
             in if so_socket a < 0 then (False, s1\<lparr>us_lastError := Errno (so_errno a)\<rparr>, c1)
                else if multicast_host target \<and> interfaceAddress \<noteq> [] \<and> \<not> so_interface a
                then socket_failed (Errno (so_errno a)) s1 c2
                else (True, s1\<lparr>us_destination := Some (target, port)\<rparr>, c2 @ [New_destination])
         | _ \<Rightarrow> (False, s0\<lparr>us_lastError := EINVAL\<rparr>, c0))"

definition openReceiver ::
    "pton \<Rightarrow> string \<Rightarrow> u16 \<Rightarrow> string \<Rightarrow> string \<Rightarrow> socket_answers \<Rightarrow> udp_socket
      \<Rightarrow> bool \<times> udp_socket \<times> socket_call list" where
  "openReceiver = receiver_with [Reuse_address, Reuse_port]"

definition openTransmitter ::
    "pton \<Rightarrow> string \<Rightarrow> u16 \<Rightarrow> string \<Rightarrow> socket_answers \<Rightarrow> udp_socket \<Rightarrow> bool \<times> udp_socket \<times> socket_call list" where
  "openTransmitter = transmitter_with"

text \<open>\<open>send\<close>: \<open>result\<close> and \<open>errno\<close> are what \<open>sendto\<close> leaves. \<open>receive\<close>: \<open>ready\<close> is the result of \<open>poll\<close>
  and \<open>result\<close> that of \<open>recvfrom\<close>.\<close>

definition socket_send :: "bytes \<Rightarrow> int \<Rightarrow> int \<Rightarrow> udp_socket \<Rightarrow> int \<times> udp_socket \<times> socket_call list" where
  "socket_send bs result errno s = (case us_destination s of
     None \<Rightarrow> (- 1, s\<lparr>us_lastError := EBADF\<rparr>, [])
   | Some (target, port) \<Rightarrow>
       if us_descriptor s < 0 then (- 1, s\<lparr>us_lastError := EBADF\<rparr>, [])
       else (result, if result < 0 then s\<lparr>us_lastError := Errno errno\<rparr> else s, [Sys_sendto target port bs]))"

definition socket_receive ::
    "nat \<Rightarrow> int \<Rightarrow> int \<Rightarrow> int \<Rightarrow> int \<Rightarrow> udp_socket \<Rightarrow> int \<times> udp_socket \<times> socket_call list" where
  "socket_receive room timeout ready result errno s =
     (if us_descriptor s < 0 then (- 1, s\<lparr>us_lastError := EBADF\<rparr>, [])
      else if ready = 0 then (0, s, [Sys_poll timeout])
      else if ready < 0 then (- 1, s\<lparr>us_lastError := Errno errno\<rparr>, [Sys_poll timeout])
      else (result, if result < 0 then s\<lparr>us_lastError := Errno errno\<rparr> else s, [Sys_poll timeout, Sys_recvfrom room]))"

definition localPort :: "u16 option \<Rightarrow> udp_socket \<Rightarrow> u16" where
  "localPort getsockname s = (if us_descriptor s < 0 then 0 else case getsockname of Some port \<Rightarrow> port | None \<Rightarrow> 0)"

section \<open>Windows\<close>

text \<open>\<open>startup\<close> is the result of \<open>WSAStartup\<close>, kept for the life of the process.\<close>

definition windows_openReceiver ::
    "int \<Rightarrow> pton \<Rightarrow> string \<Rightarrow> u16 \<Rightarrow> string \<Rightarrow> string \<Rightarrow> socket_answers \<Rightarrow> udp_socket
      \<Rightarrow> bool \<times> udp_socket \<times> socket_call list" where
  "windows_openReceiver startup inet_pton address port interfaceAddress sourceAddress a s =
     (let (s0, c0) = socket_close s
      in if startup \<noteq> 0 then (False, s0\<lparr>us_lastError := Errno startup\<rparr>, c0)
         else case receiver_with [Reuse_address] inet_pton address port interfaceAddress sourceAddress a s0 of
             (ok, s1, c1) \<Rightarrow> (ok, s1, c0 @ c1))"

definition windows_openTransmitter ::
    "int \<Rightarrow> pton \<Rightarrow> string \<Rightarrow> u16 \<Rightarrow> string \<Rightarrow> socket_answers \<Rightarrow> udp_socket
      \<Rightarrow> bool \<times> udp_socket \<times> socket_call list" where
  "windows_openTransmitter startup inet_pton address port interfaceAddress a s =
     (let (s0, c0) = socket_close s
      in if startup \<noteq> 0 then (False, s0\<lparr>us_lastError := Errno startup\<rparr>, c0)
         else case transmitter_with inet_pton address port interfaceAddress a s0 of (ok, s1, c1) \<Rightarrow> (ok, s1, c0 @ c1))"

definition kIntMax :: nat where "kIntMax = 2147483647"

definition windows_send :: "bytes \<Rightarrow> int \<Rightarrow> int \<Rightarrow> udp_socket \<Rightarrow> int \<times> udp_socket \<times> socket_call list" where
  "windows_send bs result errno s = (case us_destination s of
     None \<Rightarrow> (- 1, s\<lparr>us_lastError := EINVAL\<rparr>, [])
   | Some (target, port) \<Rightarrow>
       if us_descriptor s < 0 \<or> length bs > kIntMax then (- 1, s\<lparr>us_lastError := EINVAL\<rparr>, [])
       else if result = - 1 then (- 1, s\<lparr>us_lastError := Errno errno\<rparr>, [Sys_sendto target port bs])
       else (result, s, [Sys_sendto target port bs]))"

definition windows_receive ::
    "nat \<Rightarrow> int \<Rightarrow> int \<Rightarrow> int \<Rightarrow> int \<Rightarrow> udp_socket \<Rightarrow> int \<times> udp_socket \<times> socket_call list" where
  "windows_receive room timeout ready result errno s =
     (let poll = Sys_poll (if timeout > int kIntMax then int kIntMax else if timeout < 0 then 0 else timeout)
      in if us_descriptor s < 0 \<or> room > kIntMax then (- 1, s\<lparr>us_lastError := EINVAL\<rparr>, [])
         else if ready = 0 then (0, s, [poll])
         else if ready = - 1 then (- 1, s\<lparr>us_lastError := Errno errno\<rparr>, [poll])
         else if result = - 1 then (- 1, s\<lparr>us_lastError := Errno errno\<rparr>, [poll, Sys_recvfrom room])
         else (result, s, [poll, Sys_recvfrom room]))"

section \<open>Opening\<close>

lemma socket_close_select [simp]:
  "us_descriptor (fst (socket_close s)) = - 1" "us_destination (fst (socket_close s)) = None"
  by (simp_all add: socket_close_def)

text \<open>A receiver opens exactly when its addresses parse and the socket, the bind and, for a multicast
  address, the joining of the group succeed; the group is then joined on the interface and for the
  source that were asked for. A receiver never sends, and a failed opening leaves the socket closed.\<close>

theorem receiver_opens:
  assumes "openReceiver inet_pton address port interfaceAddress sourceAddress a s = (ok, s', calls)"
  shows "(ok \<longleftrightarrow> (\<exists>grp interface source. parseAddress inet_pton address = Some grp
        \<and> parse_optional inet_pton interfaceAddress = Some interface
        \<and> parse_optional inet_pton sourceAddress = Some source
        \<and> 0 \<le> so_socket a \<and> so_bind a \<and> (multicast_host grp \<longrightarrow> so_join a
            \<and> (if sourceAddress \<noteq> [] then Join_source_group grp interface source True \<in> set calls
               else Join_group grp interface True \<in> set calls))))
    \<and> (if ok then us_descriptor s' = so_socket a \<and> Sys_bind port True \<in> set calls else us_descriptor s' < 0)
    \<and> us_destination s' = None \<and> fst (socket_send bs result errno s') = - 1"
  using assms
  by (auto simp: openReceiver_def receiver_with_def socket_failed_def socket_close_def socket_send_def Let_def
      split: option.splits if_splits)

definition accepted :: socket_answers where
  "accepted = \<lparr> so_socket = 5, so_bind = True, so_join = True, so_interface = True, so_errno = 0 \<rparr>"

theorem receiver_opens_witness:
  "\<exists>s' calls. openReceiver (\<lambda>_. Some 0xef455350) ''239.69.83.80'' 5004 [] [] accepted new_socket = (True, s', calls)
    \<and> us_descriptor s' = 5 \<and> Sys_bind 5004 True \<in> set calls"
proof -
  obtain ok s' calls where run: "openReceiver (\<lambda>_. Some 0xef455350) ''239.69.83.80'' 5004 [] [] accepted new_socket = (ok, s', calls)"
    by (metis prod_cases3)
  moreover have ok
    using run by (auto simp: openReceiver_def receiver_with_def parseAddress_def parse_optional_def accepted_def
        multicast_host_def Let_def split: prod.splits)
  ultimately show ?thesis using receiver_opens [OF run, where bs = "[]" and result = "0" and errno = "0"] by (simp add: accepted_def)
qed

text \<open>A transmitter opens exactly when its addresses parse, the socket can be created and, for a
  multicast group with an interface, the interface is accepted; then whatever it sends goes to that
  address and port, to a group with a reach of 32 hops and no loopback.\<close>

theorem transmitter_sends:
  assumes "openTransmitter inet_pton address port interfaceAddress a s = (ok, s', calls)"
    and "parseAddress inet_pton address = Some target" "parse_optional inet_pton interfaceAddress = Some interface"
  shows "(ok \<longleftrightarrow> 0 \<le> so_socket a \<and> (multicast_host target \<longrightarrow> interfaceAddress \<noteq> [] \<longrightarrow> so_interface a))
    \<and> (if ok then snd (snd (socket_send bs result errno s')) = [Sys_sendto target port bs]
          \<and> fst (socket_send bs result errno s') = result
          \<and> (multicast_host target \<longrightarrow> Multicast_ttl 32 \<in> set calls \<and> Multicast_loop False \<in> set calls
              \<and> (interfaceAddress \<noteq> [] \<longrightarrow> Multicast_interface interface True \<in> set calls))
       else us_descriptor s' < 0 \<and> fst (socket_send bs result errno s') = - 1)"
  using assms
  by (auto simp: openTransmitter_def transmitter_with_def socket_failed_def socket_close_def socket_send_def Let_def
      split: if_splits)

theorem transmitter_sends_witness:
  "\<exists>s' calls. openTransmitter (\<lambda>_. Some 0xef455351) ''239.69.83.81'' 5004 [] accepted new_socket = (True, s', calls)
    \<and> snd (snd (socket_send [7] 1 0 s')) = [Sys_sendto 0xef455351 5004 [7]]"
proof -
  obtain ok s' calls where run: "openTransmitter (\<lambda>_. Some 0xef455351) ''239.69.83.81'' 5004 [] accepted new_socket = (ok, s', calls)"
    by (metis prod_cases3)
  then show ?thesis
    using transmitter_sends [OF run, where target = "0xef455351" and interface = "0" and bs = "[7]" and result = "1" and errno = "0"] by (simp add: accepted_def parseAddress_def parse_optional_def)
qed

section \<open>Descriptors and memory\<close>

text \<open>A socket owns its descriptor and the destination it allocated.\<close>

datatype socket_handle = Socket int | Destination

fun socket_acquired :: "socket_call \<Rightarrow> socket_handle option" where
  "socket_acquired (Sys_socket descriptor) = (if descriptor < 0 then None else Some (Socket descriptor))"
| "socket_acquired New_destination = Some Destination"
| "socket_acquired _ = None"

fun socket_released :: "socket_call \<Rightarrow> socket_handle option" where
  "socket_released (Close_socket descriptor) = Some (Socket descriptor)"
| "socket_released Delete_destination = Some Destination"
| "socket_released _ = None"

abbreviation "socket_balance \<equiv> balance socket_acquired socket_released"

definition socket_held :: "udp_socket \<Rightarrow> socket_handle multiset" where
  "socket_held s = (if us_descriptor s \<ge> 0 then {#Socket (us_descriptor s)#} else {#})
     + (if us_destination s \<noteq> None then {#Destination#} else {#})"

lemma socket_close_balance:
  "socket_close s = (s', cs) \<Longrightarrow> socket_balance cs (socket_held s) = Some {#} \<and> socket_held s' = {#}
     \<and> us_descriptor s' = - 1 \<and> us_destination s' = None"
  by (auto simp: socket_close_def socket_held_def)

lemma socket_failed_balance:
  assumes "socket_failed err s cs = (ok, s', cs')" "socket_balance cs H = Some (socket_held s)"
  shows "socket_balance cs' H = Some (socket_held s')"
proof -
  obtain s1 ds where c: "socket_close (s\<lparr>us_lastError := err\<rparr>) = (s1, ds)" by fastforce
  have "socket_held (s\<lparr>us_lastError := err\<rparr>) = socket_held s" by (simp add: socket_held_def)
  with socket_close_balance [OF c] assms c show ?thesis by (auto simp: socket_failed_def)
qed

text \<open>A function that opens: it closes first, creates the socket and makes only neutral calls until it
  fails or succeeds.\<close>

lemma neutral_balance:
  "\<forall>c \<in> set cs. socket_acquired c = None \<and> socket_released c = None \<Longrightarrow> socket_balance cs H = Some H"
  by (induction cs) auto

lemma receiver_balance:
  assumes "receiver_with reuse inet_pton address port interfaceAddress sourceAddress a s = (ok, s', cs)"
    and reuse: "\<forall>c \<in> set reuse. socket_acquired c = None \<and> socket_released c = None"
  shows "socket_balance cs (socket_held s) = Some (socket_held s')"
proof -
  obtain s0 c0 where c: "socket_close s = (s0, c0)" by fastforce
  note b = socket_close_balance [OF c]
  let ?s1 = "s0\<lparr>us_descriptor := so_socket a\<rparr>"
  have c2: "socket_balance (c0 @ [Sys_socket (so_socket a)] @ reuse @ [Sys_bind port (so_bind a)] @ rest) (socket_held s)
      = Some (socket_held ?s1)"
    if "\<forall>c \<in> set rest. socket_acquired c = None \<and> socket_released c = None" "0 \<le> so_socket a" for rest
    using b neutral_balance [OF reuse] neutral_balance [OF that(1)] that(2) by (simp add: socket_held_def)
  have failed: "socket_balance cs (socket_held s) = Some (socket_held s')"
    if "socket_failed err ?s1 (c0 @ [Sys_socket (so_socket a)] @ reuse @ [Sys_bind port (so_bind a)] @ rest) = (ok, s', cs)"
      "\<forall>c \<in> set rest. socket_acquired c = None \<and> socket_released c = None" "0 \<le> so_socket a" for err rest
    using socket_failed_balance [OF that(1) c2 [OF that(2,3)]] .
  show ?thesis
  proof (cases "parseAddress inet_pton address = None \<or> parse_optional inet_pton interfaceAddress = None
      \<or> parse_optional inet_pton sourceAddress = None \<or> so_socket a < 0")
    case True
    then show ?thesis using assms(1) c b
      by (auto simp: receiver_with_def socket_held_def Let_def split: option.splits if_splits)
  next
    case False
    then obtain grp interface source where p: "parseAddress inet_pton address = Some grp"
      "parse_optional inet_pton interfaceAddress = Some interface" "parse_optional inet_pton sourceAddress = Some source"
      "0 \<le> so_socket a" by auto
    let ?join = "if sourceAddress \<noteq> [] then Join_source_group grp interface source (so_join a) else Join_group grp interface (so_join a)"
    show ?thesis
      using assms(1) c p c2 [of "[]"] c2 [of "[?join]"] failed [of _ "[]"] failed [of _ "[?join]"]
      by (auto simp: receiver_with_def Let_def split: if_splits)
  qed
qed

lemma transmitter_balance:
  assumes "transmitter_with inet_pton address port interfaceAddress a s = (ok, s', cs)"
  shows "socket_balance cs (socket_held s) = Some (socket_held s')"
proof -
  obtain s0 c0 where c: "socket_close s = (s0, c0)" by fastforce
  note b = socket_close_balance [OF c]
  let ?s1 = "s0\<lparr>us_descriptor := so_socket a\<rparr>"
  have c2: "socket_balance (c0 @ Sys_socket (so_socket a) # rest) (socket_held s) = Some (socket_held ?s1)"
    if "\<forall>c \<in> set rest. socket_acquired c = None \<and> socket_released c = None" "0 \<le> so_socket a" for rest
    using b neutral_balance [OF that(1)] that(2) by (simp add: socket_held_def)
  show ?thesis
  proof (cases "parseAddress inet_pton address = None \<or> parse_optional inet_pton interfaceAddress = None \<or> so_socket a < 0")
    case True
    then show ?thesis using assms c b
      by (auto simp: transmitter_with_def socket_held_def Let_def split: option.splits if_splits)
  next
    case False
    then obtain target interface where p: "parseAddress inet_pton address = Some target"
      "parse_optional inet_pton interfaceAddress = Some interface" "0 \<le> so_socket a" by auto
    define options where "options = (if multicast_host target then [Multicast_ttl 32, Multicast_loop False]
      @ (if interfaceAddress \<noteq> [] then [Multicast_interface interface (so_interface a)] else []) else [])"
    have options: "socket_balance (c0 @ Sys_socket (so_socket a) # options) (socket_held s) = Some (socket_held ?s1)"
      by (rule c2) (use p(3) in \<open>auto simp: options_def\<close>)
    show ?thesis
    proof (cases "multicast_host target \<and> interfaceAddress \<noteq> [] \<and> \<not> so_interface a")
      case True
      then have "socket_failed (Errno (so_errno a)) ?s1 (c0 @ Sys_socket (so_socket a) # options) = (ok, s', cs)"
        using assms c p by (auto simp: transmitter_with_def Let_def options_def)
      then show ?thesis using options by (rule socket_failed_balance)
    next
      case False
      then have "cs = (c0 @ Sys_socket (so_socket a) # options) @ [New_destination]"
        "s' = ?s1\<lparr>us_destination := Some (target, port)\<rparr>"
        using assms c p by (auto simp: transmitter_with_def Let_def options_def)
      then show ?thesis using options b by (simp only: balance_append) (simp add: socket_held_def)
    qed
  qed
qed

datatype socket_op =
    Open_receiver string u16 string string socket_answers
  | Open_transmitter string u16 string socket_answers
  | Send bytes int int
  | Receive nat int int int int
  | Close

fun socket_step :: "pton \<Rightarrow> socket_op \<Rightarrow> udp_socket \<Rightarrow> udp_socket \<times> socket_call list" where
  "socket_step inet_pton (Open_receiver address port interfaceAddress sourceAddress a) s =
     snd (openReceiver inet_pton address port interfaceAddress sourceAddress a s)"
| "socket_step inet_pton (Open_transmitter address port interfaceAddress a) s =
     snd (openTransmitter inet_pton address port interfaceAddress a s)"
| "socket_step inet_pton (Send bs result errno) s = snd (socket_send bs result errno s)"
| "socket_step inet_pton (Receive room timeout ready result errno) s = snd (socket_receive room timeout ready result errno s)"
| "socket_step inet_pton Close s = socket_close s"

fun windows_socket_step :: "int \<Rightarrow> pton \<Rightarrow> socket_op \<Rightarrow> udp_socket \<Rightarrow> udp_socket \<times> socket_call list" where
  "windows_socket_step startup inet_pton (Open_receiver address port interfaceAddress sourceAddress a) s =
     snd (windows_openReceiver startup inet_pton address port interfaceAddress sourceAddress a s)"
| "windows_socket_step startup inet_pton (Open_transmitter address port interfaceAddress a) s =
     snd (windows_openTransmitter startup inet_pton address port interfaceAddress a s)"
| "windows_socket_step startup inet_pton (Send bs result errno) s = snd (windows_send bs result errno s)"
| "windows_socket_step startup inet_pton (Receive room timeout ready result errno) s =
     snd (windows_receive room timeout ready result errno s)"
| "windows_socket_step startup inet_pton Close s = socket_close s"

lemma socket_held_error [simp]: "socket_held (s\<lparr>us_lastError := err\<rparr>) = socket_held s"
  by (simp add: socket_held_def)

lemma snd_result: "snd r = (s', cs) \<Longrightarrow> \<exists>ok. r = (ok, s', cs)"
  by (cases r) auto

interpretation posix_sockets: handle_owner socket_acquired socket_released socket_held "socket_step inet_pton" new_socket Close
proof
  fix call s s' cs
  assume step: "socket_step inet_pton call s = (s', cs)"
  show "socket_balance cs (socket_held s) = Some (socket_held s')"
  proof (cases call)
    case (Open_receiver address port interfaceAddress sourceAddress a)
    then show ?thesis using step receiver_balance [where reuse = "[Reuse_address, Reuse_port]"]
      by (auto simp: openReceiver_def dest!: snd_result)
  next
    case (Open_transmitter address port interfaceAddress a)
    then show ?thesis using step transmitter_balance by (auto simp: openTransmitter_def dest!: snd_result)
  next
    case (Send bs result errno)
    then show ?thesis using step by (auto simp: socket_send_def split: option.splits if_splits)
  next
    case (Receive room timeout ready result errno)
    then show ?thesis using step by (auto simp: socket_receive_def split: if_splits)
  next
    case Close
    then show ?thesis using step socket_close_balance by simp
  qed
qed (simp_all add: socket_held_def new_socket_def)

lemma reopened_balance:
  assumes "socket_close s = (s0, c0)" "socket_balance c1 (socket_held s0) = Some H"
  shows "socket_balance (c0 @ c1) (socket_held s) = Some H"
  using assms socket_close_balance [OF assms(1)] by simp

interpretation windows_sockets: handle_owner socket_acquired socket_released socket_held
  "windows_socket_step startup inet_pton" new_socket Close
proof
  fix call s s' cs
  assume step: "windows_socket_step startup inet_pton call s = (s', cs)"
  obtain s0 c0 where c: "socket_close s = (s0, c0)" by fastforce
  note closed = socket_close_balance [OF c]
  show "socket_balance cs (socket_held s) = Some (socket_held s')"
  proof (cases call)
    case (Open_receiver address port interfaceAddress sourceAddress a)
    obtain ok s1 c1 where o: "receiver_with [Reuse_address] inet_pton address port interfaceAddress sourceAddress a s0 = (ok, s1, c1)"
      by (metis prod_cases3)
    with receiver_balance [OF o] have "socket_balance (c0 @ c1) (socket_held s) = Some (socket_held s1)"
      by (intro reopened_balance [OF c]) simp
    then show ?thesis using step Open_receiver c o closed by (auto simp: windows_openReceiver_def split: if_splits)
  next
    case (Open_transmitter address port interfaceAddress a)
    obtain ok s1 c1 where o: "transmitter_with inet_pton address port interfaceAddress a s0 = (ok, s1, c1)"
      by (metis prod_cases3)
    with transmitter_balance [OF o] have "socket_balance (c0 @ c1) (socket_held s) = Some (socket_held s1)"
      by (intro reopened_balance [OF c]) simp
    then show ?thesis using step Open_transmitter c o closed by (auto simp: windows_openTransmitter_def split: if_splits)
  next
    case (Send bs result errno)
    then show ?thesis using step by (auto simp: windows_send_def split: option.splits if_splits)
  next
    case (Receive room timeout ready result errno)
    then show ?thesis using step by (auto simp: windows_receive_def Let_def split: if_splits)
  next
    case Close
    then show ?thesis using step closed c by simp
  qed
qed (simp_all add: socket_held_def new_socket_def)

text \<open>C31: On both platforms, whatever the system calls return and however a socket is opened, reopened, used
  and closed, it closes exactly the descriptors it got and frees exactly the destinations it allocated,
  each once, and after the destructor nothing is left.\<close>

theorem socket_no_leak:
  "socket_balance (snd (run_operations (socket_step inet_pton) (ops @ [Close]) new_socket)) {#} = Some {#}
   \<and> socket_balance (snd (run_operations (windows_socket_step startup inet_pton) (ops @ [Close]) new_socket)) {#} = Some {#}"
  using posix_sockets.no_leak windows_sockets.no_leak by (rule conjI)

end
