(* ===== verification/Windows_Backend.thy ===== *)
theory Windows_Backend
  imports Shared_Memory UDP_Socket L24_Codec RTP_Packet
begin

text \<open>
  The self test of Sources/Platform/Windows/WindowsBackendMain.cpp: one packet of samples through L24, RTP
  and a pair of sockets, and a block of samples through the shared memory of two processes. It composes the
  Windows sockets and shared memory with the codecs and the ring; that it passes on a working host is a
  statement about all of them.
\<close>

section \<open>The code\<close>

text \<open>What the system answers: the sockets' calls, the datagram that \<open>recv\<close> stores, and the calls of the two
  openings of the shared memory. The peer's view shows the owner's memory.\<close>

record backend_world =
  bw_startup :: int
  bw_pton :: pton
  bw_receiver :: socket_answers
  bw_sender :: socket_answers
  bw_port :: "u16 option"
  bw_sendto :: "int \<times> int"
  bw_poll :: int
  bw_recv :: "int \<times> int"
  bw_datagram :: bytes
  bw_owner :: windows_answers
  bw_peer :: windows_answers

definition tenth :: "nat \<Rightarrow> rat" where
  "tenth channel = to_float (of_nat (channel + 1) / 10)"

definition test_samples :: "f32 list" where
  "test_samples = fold (\<lambda>frame xs. fold (\<lambda>channel xs. xs[frame * kChannels + channel := Fin (tenth channel)]) [0..<kChannels] xs)
     [0..<kFramesPerPacket] (replicate (kFramesPerPacket * kChannels) (Fin 0))"

definition test_packet :: rtp_packet where
  "test_packet = default_rtp_packet\<lparr>pkt_sequence := 42, pkt_timestamp := 48, pkt_ssrc := 0x41455342,
     pkt_payload := replicate kPayloadBytes 0\<rparr>"

text \<open>The comparison of line 45; with a NaN it is false.\<close>

definition differs :: "f32 \<Rightarrow> rat \<Rightarrow> bool" where
  "differs output_sample expected = (case output_sample of
     Fin v \<Rightarrow> \<bar>to_float (v - expected)\<bar> > to_float (1 / 1000000)
   | PosInf \<Rightarrow> True | NegInf \<Rightarrow> True | NaN \<Rightarrow> False)"

definition shared_input :: "f32 list" where
  "shared_input = map (\<lambda>i. Fin (tenth i)) [0..<4]"

text \<open>Lines 47 to 57.\<close>

definition memory_test :: "backend_world \<Rightarrow> bool option" where
  "memory_test w =
     (let (owner_ok, owner, _) = windows_open True (bw_owner w) new_windows_memory;
          peer_view = (if wa_view (bw_peer w) = None then None else wm_block owner);
          (peer_ok, peer, _) = windows_open False ((bw_peer w)\<lparr>wa_view := peer_view\<rparr>) new_windows_memory
      in case (wm_block owner, wm_block peer) of
           (Some (layout, b), Some _) \<Rightarrow>
             if \<not> owner_ok \<or> \<not> peer_ok then Some False
             else if unat (ly_channels layout) \<noteq> kVirtualChannels \<or> unat (ly_channelsPerStream layout) \<noteq> kAES67ChannelsPerStream
               \<or> unat (ly_streamBankCount layout) \<noteq> kStreamBankCount then Some False
             else (case rd (bk_coreAudioToNetwork b) 63 of
                 None \<Rightarrow> None
               | Some ring \<Rightarrow>
                   let (ring1, written) = ring_write ring shared_input;
                       (ring2, shared_output, taken) = ring_read ring1 (replicate 4 (Fin 0))
                   in Some (written = length shared_input \<and> taken = 4 \<and> shared_output = shared_input))
         | _ \<Rightarrow> Some False)"

definition selfTest :: "int \<Rightarrow> backend_world \<Rightarrow> bool option" where
  "selfTest lrint_nan w =
     (let (receiver_ok, receiver, _) = windows_openReceiver (bw_startup w) (bw_pton w) ''127.0.0.1'' 0 ''127.0.0.1'' []
            (bw_receiver w) new_socket;
          (sender_ok, sender, _) = windows_openTransmitter (bw_startup w) (bw_pton w) ''127.0.0.1''
            (localPort (bw_port w) receiver) ''127.0.0.1'' (bw_sender w) new_socket;
          (encoded, payload) = l24_encode lrint_nan test_samples (pkt_payload test_packet)
      in if \<not> receiver_ok \<or> \<not> sender_ok \<or> \<not> encoded then Some False
         else do {
           (ok, wire, written) \<leftarrow> rtp_encode (test_packet\<lparr>pkt_payload := payload\<rparr>) (replicate (kFixedHeaderBytes + kPayloadBytes) 0);
           let (sent, _, _) = windows_send (take written wire) (fst (bw_sendto w)) (snd (bw_sendto w)) sender;
           let (received, _, _) = windows_receive (length wire) 500 (bw_poll w) (fst (bw_recv w)) (snd (bw_recv w)) receiver;
           let wire' = take (nat received) (bw_datagram w) @ drop (nat received) wire;
           if \<not> ok \<or> sent < 0 \<or> received \<noteq> int written then Some False
           else do {
             (decoded_ok, decoded) \<leftarrow> rtp_decode (take written wire') default_rtp_packet;
             let (pcm_ok, output_samples) = l24_decode (pkt_payload decoded) (replicate (kFramesPerPacket * kChannels) (Fin 0));
             if \<not> decoded_ok \<or> \<not> pcm_ok \<or> list_ex (\<lambda>channel. differs (output_samples ! channel) (tenth channel)) [0..<kChannels]
             then Some False else memory_test w
           }
         })"

definition backend_main :: "int \<Rightarrow> backend_world \<Rightarrow> string list \<Rightarrow> int option" where
  "backend_main lrint_nan w argv =
     (if length argv = 2 \<and> argv ! 1 = ''--self-test''
      then map_option (\<lambda>passed. if passed then 0 else 1) (selfTest lrint_nan w) else Some 0)"

section \<open>The samples\<close>

lemma fold_row: "n \<le> length xs \<Longrightarrow> k + n \<le> length xs \<Longrightarrow>
   fold (\<lambda>c xs. xs[k + c := g c]) [0..<n] xs = take k xs @ map g [0..<n] @ drop (k + n) xs"
proof (induction n)
  case (Suc n)
  then have "fold (\<lambda>c xs. xs[k + c := g c]) [0..<n] xs = take k xs @ map g [0..<n] @ drop (k + n) xs" by simp
  moreover have "drop (k + n) xs = xs ! (k + n) # drop (Suc (k + n)) xs" using Suc.prems by (simp add: Cons_nth_drop_Suc)
  ultimately show ?case using Suc.prems by (simp add: list_update_append min_def)
qed simp

lemma fold_rows:
  "fold (\<lambda>f xs. fold (\<lambda>c xs. xs[f * m + c := g c]) [0..<m] xs) [0..<n] (replicate (N * m) z)
     = concat (replicate n (map g [0..<m])) @ replicate ((N - n) * m) z" if "n \<le> N"
  using that
proof (induction n)
  case (Suc n)
  have len: "length (concat (replicate n (map g [0..<m]))) = n * m" by (induction n) simp_all
  obtain k where k: "N - n = Suc k" using Suc.prems by (cases "N - n") auto
  then have "N - Suc n = k" by simp
  then show ?case using Suc k len
    by (simp add: fold_row replicate_append_same [symmetric] replicate_add drop_append)
qed simp

lemma test_samples_rows: "test_samples = concat (replicate 48 (map (\<lambda>c. Fin (tenth c)) [0..<8]))"
  using fold_rows [of 48 48 8 "\<lambda>c. Fin (tenth c)" "Fin 0"] by (simp add: test_samples_def profile_defs)

lemma tenth_near: "\<bar>tenth c - of_nat (c + 1) / 10\<bar> \<le> of_nat (c + 1) / 10 / 2 ^ 24"
  using round_to_error [of 24 "of_nat (c + 1) / 10"] by (simp add: tenth_def pow2_def)

lemma tenth_range: "c < 8 \<Longrightarrow> 0 < tenth c \<and> tenth c \<le> 1"
proof -
  assume "c < 8"
  define y :: rat where "y = of_nat (c + 1) / 10"
  have "1 / 10 \<le> y" "y \<le> 8 / 10" using \<open>c < 8\<close> by (simp_all add: y_def)
  moreover have "\<bar>tenth c - y\<bar> \<le> y / 16777216" using tenth_near [of c] by (simp add: y_def)
  then have "tenth c - y \<le> y / 16777216" "y - tenth c \<le> y / 16777216" unfolding abs_le_iff by simp_all
  ultimately show ?thesis by linarith
qed

lemma near_agrees:
  assumes "c < 8" "sample_near (Fin (tenth c)) y"
  shows "\<not> differs y (tenth c)"
proof -
  obtain v where v: "y = Fin v" "\<bar>v - tenth c\<bar> \<le> 1 / 2 ^ 22"
    using assms tenth_range [of c] by (auto simp: sample_near_def clamp_sample_def)
  have "\<bar>to_float (v - tenth c)\<bar> \<le> \<bar>v - tenth c\<bar> + \<bar>v - tenth c\<bar> / 2 ^ 24"
    using round_to_error [of 24 "v - tenth c"] abs_triangle_ineq [of "to_float (v - tenth c) - (v - tenth c)" "v - tenth c"]
    by (simp add: pow2_def)
  also have "\<dots> \<le> 1 / 2 ^ 21" using v(2) by simp
  also have "\<dots> \<le> to_float (1 / 1000000)"
  proof -
    have "\<bar>to_float (1 / 1000000) - 1 / 1000000\<bar> \<le> 1 / 1000000 / 2 ^ 24"
      using round_to_error [of 24 "1 / 1000000"] by (simp add: pow2_def)
    then have "1 / 1000000 - to_float (1 / 1000000) \<le> 1 / 1000000 / 2 ^ 24" unfolding abs_le_iff by simp
    then show ?thesis by simp
  qed
  finally show ?thesis by (simp add: differs_def v)
qed

section \<open>A working host\<close>

text \<open>The datagram that goes out.\<close>

definition test_pcm :: "int \<Rightarrow> bytes" where
  "test_pcm z = concat (map pcm_bytes (map (to_pcm z) test_samples))"

definition test_datagram :: "int \<Rightarrow> bytes" where
  "test_datagram z = rtp_wire (test_packet\<lparr>pkt_payload := test_pcm z\<rparr>)"

definition sockets_work :: "int \<Rightarrow> backend_world \<Rightarrow> bool" where
  "sockets_work z w \<longleftrightarrow> bw_startup w = 0 \<and> bw_pton w ''127.0.0.1'' = Some 0x7F000001
     \<and> 0 \<le> so_socket (bw_receiver w) \<and> so_bind (bw_receiver w) \<and> 0 \<le> so_socket (bw_sender w)
     \<and> 0 \<le> fst (bw_sendto w) \<and> 0 < bw_poll w
     \<and> fst (bw_recv w) = int (length (bw_datagram w)) \<and> bw_datagram w = test_datagram z"

definition memory_works :: "backend_world \<Rightarrow> bool" where
  "memory_works w \<longleftrightarrow> wa_semaphore (bw_owner w) \<noteq> None \<and> wa_wait (bw_owner w) = Wait_object_0
     \<and> wa_mapping (bw_owner w) \<noteq> None \<and> \<not> wa_already_exists (bw_owner w) \<and> wa_view (bw_owner w) \<noteq> None
     \<and> wa_mapping (bw_peer w) \<noteq> None \<and> wa_view (bw_peer w) \<noteq> None"

lemma length_test_samples: "length test_samples = 384"
  by (simp add: test_samples_rows sum_list_replicate length_concat)

lemma test_samples_first: "c < 8 \<Longrightarrow> test_samples ! c = Fin (tenth c)"
proof -
  assume c: "c < 8"
  have rows: "test_samples = map (\<lambda>c. Fin (tenth c)) [0..<8] @ concat (replicate 47 (map (\<lambda>c. Fin (tenth c)) [0..<8]))"
    by (simp add: test_samples_rows numeral_eq_Suc)
  show ?thesis using c by (subst rows) (simp add: nth_append del: upt_rec_numeral)
qed

lemma owner_block:
  assumes "memory_works w"
  shows "\<exists>m calls. windows_open True (bw_owner w) new_windows_memory = (True, m, calls) \<and> wm_block m = Some (new_layout, new_block)"
proof -
  obtain layout b where "wa_view (bw_owner w) = Some (layout, b)" using assms by (auto simp: memory_works_def)
  then show ?thesis using assms
    by (auto simp: memory_works_def windows_open_def windows_map_def windows_close_def new_windows_memory_def placed_def
        valid_layout_iff Let_def)
qed

lemma memory_test_passes:
  assumes "memory_works w"
  shows "memory_test w = Some True"
proof -
  obtain m calls where owner: "windows_open True (bw_owner w) new_windows_memory = (True, m, calls)" "wm_block m = Some (new_layout, new_block)"
    using owner_block [OF assms] by blast
  obtain m' calls' where peer: "windows_open False ((bw_peer w)\<lparr>wa_view := Some (new_layout, new_block)\<rparr>) new_windows_memory = (True, m', calls')"
    "wm_block m' = Some (new_layout, new_block)"
    using assms by (auto simp: memory_works_def windows_open_def windows_map_def windows_close_def new_windows_memory_def
        placed_def valid_layout_iff Let_def)
  let ?ring = "new_ring (Fin 0)"
  have ring: "rd (bk_coreAudioToNetwork new_block) 63 = Some ?ring" by (simp add: new_block_def rd_def kVirtualChannels_value)
  have input: "length shared_input = 4" by (simp add: shared_input_def)
  have "snd (ring_write ?ring shared_input) = length shared_input"
    using shared.enq_count [OF new_ring_inv, of "Fin 0" shared_input] by (simp add: new_ring_queue input kSharedRingCapacity_def)
  moreover have "snd (ring_read (fst (ring_write ?ring shared_input)) (replicate 4 (Fin 0))) = (shared_input, 4)"
    using shared.enq_then_deq [OF new_ring_inv new_ring_queue, of shared_input "replicate 4 (Fin 0)" "Fin 0"]
    by (simp add: input kSharedRingCapacity_def)
  ultimately show ?thesis using owner peer assms ring
    by (auto simp: memory_test_def memory_works_def new_layout_def kVirtualChannels_value profile_defs split: prod.splits)
qed

lemma receiver_ready:
  assumes "sockets_work z w"
  shows "\<exists>r calls. windows_openReceiver (bw_startup w) (bw_pton w) ''127.0.0.1'' 0 ''127.0.0.1'' [] (bw_receiver w) new_socket
    = (True, r, calls) \<and> 0 \<le> us_descriptor r"
  using assms
  by (simp add: sockets_work_def windows_openReceiver_def receiver_with_def parseAddress_def parse_optional_def
      socket_close_def new_socket_def multicast_host_def Let_def)

lemma sender_ready:
  assumes "sockets_work z w"
  shows "\<exists>s calls t. windows_openTransmitter (bw_startup w) (bw_pton w) ''127.0.0.1'' port ''127.0.0.1'' (bw_sender w) new_socket
    = (True, s, calls) \<and> 0 \<le> us_descriptor s \<and> us_destination s = Some t"
  using assms
  by (simp add: sockets_work_def windows_openTransmitter_def transmitter_with_def parseAddress_def parse_optional_def
      socket_close_def new_socket_def multicast_host_def Let_def)

text \<open>On a Windows host whose sockets, loopback and shared memory work, the self test passes: the L24 and RTP
  codecs, the sockets' opening and sending, the block's creation and mapping and the ring fit together.\<close>

theorem self_test_passes:
  assumes "sockets_work z w" "memory_works w"
  shows "backend_main z w [program, ''--self-test''] = Some 0"
proof -
  obtain r rc where r: "windows_openReceiver (bw_startup w) (bw_pton w) ''127.0.0.1'' 0 ''127.0.0.1'' [] (bw_receiver w) new_socket
      = (True, r, rc)" "0 \<le> us_descriptor r" using receiver_ready [OF assms(1)] by blast
  obtain s sc t where s: "windows_openTransmitter (bw_startup w) (bw_pton w) ''127.0.0.1'' (localPort (bw_port w) r) ''127.0.0.1''
      (bw_sender w) new_socket = (True, s, sc)" "0 \<le> us_descriptor s" "us_destination s = Some t"
    using sender_ready [OF assms(1)] by blast
  let ?packet = "test_packet\<lparr>pkt_payload := test_pcm z\<rparr>"
  have payload: "l24_encode z test_samples (pkt_payload test_packet) = (True, test_pcm z)"
    unfolding test_pcm_def by (rule l24_encode_ok) (simp add: length_test_samples test_packet_def kPayloadBytes_value)
  have pcm: "length (test_pcm z) = 1152" by (simp add: test_pcm_def length_test_samples del: map_map)
  have type: "pkt_payloadType ?packet \<le> 127" by (simp add: test_packet_def default_rtp_packet_def)
  have wire: "length (rtp_wire ?packet) = 1164" by (simp add: rtp_wire_def pcm put16_def put32_def)
  have encode: "rtp_encode ?packet (replicate (kFixedHeaderBytes + kPayloadBytes) 0) = Some (True, rtp_wire ?packet, 1164)"
    using rtp_encode_ok [OF type, of "replicate 1164 0"] pcm
    by (simp add: kFixedHeaderBytes_def kPayloadBytes_value test_packet_def)
  have decode: "rtp_decode (rtp_wire ?packet) default_rtp_packet = Some (True, ?packet)"
    using type by (intro rtp_decode_wire) (simp add: rtp_wf_def)
  have arrived: "bw_datagram w = rtp_wire ?packet" "fst (bw_recv w) = 1164"
    using assms(1) wire by (simp_all add: sockets_work_def test_datagram_def)
  have send: "fst (windows_send (rtp_wire ?packet) (fst (bw_sendto w)) (snd (bw_sendto w)) s) = fst (bw_sendto w)"
    using s assms(1) wire by (auto simp: windows_send_def kIntMax_def sockets_work_def split: prod.splits)
  have receive: "fst (windows_receive 1164 500 (bw_poll w) (fst (bw_recv w)) (snd (bw_recv w)) r) = 1164"
    using r assms(1) arrived(2) by (simp add: windows_receive_def kIntMax_def sockets_work_def Let_def)
  let ?out = "l24_samples (test_pcm z)"
  have near: "list_all2 sample_near test_samples ?out"
    unfolding test_pcm_def by (rule l24_near) (auto simp: test_samples_rows)
  have "\<not> list_ex (\<lambda>channel. differs (?out ! channel) (tenth channel)) [0..<kChannels]"
  proof -
    have "\<not> differs (?out ! c) (tenth c)" if "c < 8" for c
      using near_agrees [OF that] list_all2_nthD [OF near, of c] that length_test_samples test_samples_first [OF that] by simp
    then show ?thesis by (simp add: list_ex_iff profile_defs)
  qed
  moreover have "l24_decode (test_pcm z) (replicate (kFramesPerPacket * kChannels) (Fin 0)) = (True, ?out)"
    by (simp add: l24_decode_def pcm profile_defs)
  moreover have "0 \<le> fst (bw_sendto w)" using assms(1) by (simp add: sockets_work_def)
  ultimately have "selfTest z w = Some True"
    using r(1) s(1) payload encode decode arrived send receive wire memory_test_passes [OF assms(2)] pcm
    by (auto simp: selfTest_def Let_def split: prod.splits)
  then show ?thesis by (simp add: backend_main_def)
qed

definition working_host :: backend_world where
  "working_host = \<lparr> bw_startup = 0, bw_pton = (\<lambda>_. Some 0x7F000001), bw_receiver = accepted, bw_sender = accepted,
     bw_port = Some 50000, bw_sendto = (1164, 0), bw_poll = 1, bw_recv = (int (length (test_datagram 0)), 0),
     bw_datagram = test_datagram 0,
     bw_owner = \<lparr> wa_semaphore = Some 1, wa_wait = Wait_object_0, wa_mapping = Some 2, wa_already_exists = False,
       wa_view = Some (new_layout, new_block), wa_error = 0 \<rparr>,
     bw_peer = \<lparr> wa_semaphore = None, wa_wait = Wait_failed, wa_mapping = Some 3, wa_already_exists = False,
       wa_view = Some (new_layout, new_block), wa_error = 0 \<rparr> \<rparr>"

theorem self_test_passes_witness: "backend_main 0 working_host [''backend'', ''--self-test''] = Some 0"
  by (rule self_test_passes) (simp_all add: working_host_def sockets_work_def memory_works_def accepted_def)

end
