(* ===== verification/Spec2Isabelle.thy ===== *)
theory Spec2Isabelle
  imports Audio_Path Channel_Layout Constants Core_Audio_Check Cpp_Bytes Cpp_Text
    Directory_Seqlock Driver_Device Driver_IO Engine_Lifecycle Engine_Options Engine_Program
    Engine_Runs Engine_State Engine_Stop Engine_Threads Fifo_Interface Handle_Interface
    IPv4_Address Jitter_Buffer Jitter_Interleaving Jitter_Races Jitter_Streams Json_Reader
    L24_Codec Network_Interfaces PTP_Client PTP_Codec PTP_Thread Polling_Interface Prelude
    RTP_Packet Receive_Path Reconnect_Policy Ring_Interleaving SAP_Message SDP_Session
    SPSC_Ring Session_Directory Session_Loops Shared_Memory Shared_Ring Status_Report
    Store_Interface Stream_Banks Transmit_Path UDP_Socket Windows_Backend
begin

text \<open>
  The AES67 audio bridge: a virtual Core Audio device of 64 channels (the driver), an engine process that
  carries those channels over the network as AES67 streams, and a file mapped by both. This development
  models the C++ code under src/Sources and proves what makes it correct. The document is organised as the
  code is: one theory per class or loop, named after what it models; its opening text names the files.

  \<^bold>\<open>How the parts interact.\<close> The plug-in's factory makes the device (Driver_Device), which finds the
  shared block (Shared_Memory) and gives it to its handlers (Driver_IO); applications play into them, and they write every
  channel into a ring of the block (Shared_Ring, Ring_Interleaving). The engine
  (Engine_State, Stream_Banks, Engine_Lifecycle) has up to eight streams; each has a transmitting thread
  (Transmit_Path: rings, L24_Codec, RTP_Packet, UDP_Socket) and a receiving and a consuming thread
  (Receive_Path: RTP_Packet, Jitter_Buffer, L24_Codec, rings), which meet in the jitter buffer
  (Jitter_Interleaving, Jitter_Races). One thread announces the streams and one keeps
  the directory of announced sessions (Session_Loops: SDP_Session, SAP_Message, Session_Directory), which
  other processes read from the block without locks (Directory_Seqlock). A PTP client (PTP_Client, PTP_Codec, PTP_Thread)
  publishes the clock offset the transmitters use. Engine_Threads and Engine_Runs put all threads together,
  Engine_Stop joins them one after the other while they still run,
  Audio_Path follows one packet's sound from application to application. The program around the engine is in
  Engine_Options, Engine_Program and Status_Report; the diagnostic tools are in Core_Audio_Check and
  Windows_Backend; Network_Interfaces finds the addresses.

  \<^bold>\<open>Conventions.\<close> Integers of the code are words of their width, wrapping as in C++; signed 64-bit nanoseconds
  are \<open>int\<close> with every sum the code forms checked (\<open>chk64\<close>). An outer \<open>option\<close> is undefined behaviour: a
  checked read (\<open>rd\<close>) or sum that fails gives \<open>None\<close>, so that \<open>f x = Some y\<close> says that the code is
  defined there; errors the code reports itself are values of the result (\<open>bool\<close>, \<open>sum\<close>, error texts).
  A function keeps the name it has in the source. Members and local variables are records with a prefix per
  class (\<open>lc_\<close> LiveEngineConfig, \<open>en_\<close> LiveEngine, \<open>rt_\<close> StreamRuntime, \<open>bk_\<close> SharedAudioBlock, \<open>st_\<close> its statistics,
  \<open>sl_\<close> a directory slot, \<open>dd_\<close> LXToolDevice, \<open>jb_\<close> JitterBuffer, \<open>pc_\<close> PTPClientConfig, \<open>us_\<close> UDPSocket, \<open>sm_\<close> SharedAudioMemory). What the
  operating system answers (system calls, clocks, sockets, Core Audio) is an argument, and the calls made are
  a result where they matter. Samples are exact rationals, infinities or NaN, with the roundings of \<open>float\<close>
  and \<open>double\<close> written out.

  \<^bold>\<open>Interfaces.\<close> Locales state what a part promises to others, each interpreted on the model of the code:
  \<open>sample_fifo\<close> (Fifo_Interface) by both sample rings, \<open>session_store\<close> (Store_Interface) by the session directory,
  \<open>version_counter\<close> (Directory_Seqlock) by a slot's revision, \<open>handle_owner\<close> (Handle_Interface) by the sockets and
  the shared memory of both platforms, \<open>wire_codec\<close> and \<open>carried_codec\<close> (Cpp_Bytes) by the wire formats and by SDP
  inside SAP, \<open>polling\<close> (Polling_Interface) by the waiting loops of the engine and of the check, and
  \<open>interface_list\<close> (Network_Interfaces) by the lists of both platforms.

  \<^bold>\<open>What the lemmas show.\<close>
  Codecs: decoding never leaves the datagram, accepts exactly what the source says, and inverts encoding
  (RTP, SAP, SDP, PTP, IPv4 texts); L24 moves no sample by more than one step.
  Data structures: the rings deliver what they accept, per call and per memory access with stale loads; the
  jitter buffer is a map from sequence numbers to payloads and delivers a stream in order, and with its memory
  accesses interleaved it loses, doubles and tears nothing and comes to rest as whole calls would leave it; the directory
  refines a set of sessions and its lock-free readers never see a torn entry as long as their loads stay in
  program order.
  Engine: every interleaving of the threads, the driver, the PTP client and a stop is defined and keeps the
  invariant \<open>core_ok\<close>; the activity flags tell the truth, the shared epoch is fixed once; a stop returns,
  destroys nothing that a thread still uses, and leaves what the single step of Engine_Lifecycle says; no descriptor,
  mapping or lock leaks; a start establishes and a stop withdraws what it should.
  Driver: its handler never follows a pointer that has outlived its mapping, and \<open>ioRunning\<close> tells whether there
  are clients.
  Clock: the client is locked only after what the protocol asks for, follows the best master, and filters
  without overflow.
  Programs: options bound what they set, the exit codes and the printed JSON are as described, the waiting
  loops end; the driver's device passes the check and the self test passes on a working host.
  Several theorems state behaviour the code should not have: a lost activity flag, a directory slot disabled
  by a crash, silence after an outage, a late packet that blocks a later one, reordered loads that tear an
  entry, one stream that silences all, a packet counted late that silences its stream, a reset that miscounts, a block
  found too late for \<open>ioRunning\<close>, a device name that breaks the tool's JSON.

  \<^bold>\<open>Bounds and termination.\<close> Recursions are structural or over lists of channels, slots, lines and steps; only
  \<open>wait_loop\<close> and \<open>check_loop\<close> may run for ever, and are partial functions whose ends are proved
  (\<open>engine_main_ends\<close>, \<open>check_terminates\<close>). No fuel is used. Runs of threads are lists of steps of any
  length. Engine_Runs assumes of the clocks only that they are not negative and stay below \<open>2 ^ 59\<close> (uptime)
  and \<open>3 * 2 ^ 60\<close> (date) nanoseconds, which is 18 years and the year 2079; that the offset the PTP client
  publishes stays within \<open>2 ^ 62\<close> is proved in PTP_Thread, and together they rule out overflow in the
  transmitter. What is taken for granted there is that the client's own measurement does not overflow:
  \<open>ptp_measurement_overflow\<close> shows that timestamps exist that make it.

  \<^bold>\<open>Granularity.\<close> Four protocols on shared memory are modelled one access at a time: the shared ring, a
  directory slot, the activity counters and the jitter buffer; so is \<open>LiveEngine::stop\<close>. Elsewhere a step is a
  loop iteration of one thread; the states they share between iterations are the ones named above, each with one
  writing thread. That whole calls are the uninterrupted runs of the accesses is proved for the ring
  (\<open>ring_calls_refined\<close>) and the jitter buffer (\<open>jitter_calls_refined\<close>). A stop returns within \<open>9 n + 36\<close> rounds
  in which all threads of its \<open>n\<close> streams have a turn: at most two turns for each join and one for each access.

  \<^bold>\<open>Not modelled.\<close> What the aspl library does with the driver's objects, and with which counts it calls
  the starts and stops of IO (\<open>io_clients\<close> is a hypothesis); texts on the standard error stream; the
  trace output of PTPClient.cpp; how a \<open>double\<close> is printed and how \<open>inet_pton\<close>, \<open>inet_ntop\<close> and the conversion to
  UTF-8 work (parameters); fairness of the scheduler. The control application (Rust, TypeScript), the menu bar
  manager (Swift), installers, scripts and tests are not C++ code of the bridge.
\<close>

end
